(* ===== verification/Prelude.thy ===== *)
theory Prelude
  imports Main "HOL-Library.Word"
begin

text \<open>
  Shared vocabulary of the development: the machine types of the C++ sources, the model of
  \<^verbatim>\<open>std::map\<close> as a key-ordered association list, the model of the bounded
  \<^verbatim>\<open>push_back\<close>/\<^verbatim>\<open>erase(begin())\<close> buffers, and the generic lemmas on them that
  the component theories use.
\<close>

unbundle bit_operations_syntax

section \<open>Machine types\<close>

text \<open>
  Unsigned C++ integers are words, so that \<open>+\<close> wraps as the code's does. \<open>size_t\<close> is 64 bits
  wide. Signed 64-bit values are \<open>int\<close>; every place where the code could leave the range is a
  checked operation (theory \<open>Checked\<close>), and \<open>in_i64\<close> says that a value is representable.
\<close>

type_synonym u8 = "8 word"
type_synonym u32 = "32 word"
type_synonym u64 = "64 word"
type_synonym i64 = int

abbreviation u64_max :: u64 where
  "u64_max \<equiv> 18446744073709551615"

abbreviation i64_max :: i64 where
  "i64_max \<equiv> 9223372036854775807"

abbreviation i64_min :: i64 where
  "i64_min \<equiv> - 9223372036854775808"

definition in_i64 :: "int \<Rightarrow> bool" where
  "in_i64 x \<longleftrightarrow> i64_min \<le> x \<and> x \<le> i64_max"

section \<open>Collections of facts\<close>

named_theorems word_to_nat "readings of 64-bit word operations as natural numbers"
named_theorems guard_defs "definitions of guards and validators, unfolded together"

section \<open>64-bit words as natural numbers\<close>

lemma unat_u64_lt: "unat (w :: u64) < 18446744073709551616"
  using unsigned_less [of w] by simp

lemma unat_u64_le: "unat (w :: u64) \<le> 18446744073709551615"
  using unat_u64_lt [of w] by linarith

lemma unat_plus_u64 [word_to_nat]:
  "unat ((a :: u64) + b) = (unat a + unat b) mod 18446744073709551616"
  by (simp add: unat_word_ariths)

lemma unat_mult_u64 [word_to_nat]:
  "unat ((a :: u64) * b) = (unat a * unat b) mod 18446744073709551616"
  by (simp add: unat_word_ariths)

lemma unat_minus_u64: "(b :: u64) \<le> a \<Longrightarrow> unat (a - b) = unat a - unat b"
  by (simp add: unat_sub)

lemma le_u64_iff [word_to_nat]: "(a :: u64) \<le> b \<longleftrightarrow> unat a \<le> unat b"
  by (simp add: word_le_nat_alt)

lemma less_u64_iff [word_to_nat]: "(a :: u64) < b \<longleftrightarrow> unat a < unat b"
  by (simp add: word_less_nat_alt)

lemma eq_u64_iff: "(a :: u64) = b \<longleftrightarrow> unat a = unat b"
  by (simp add: word_unat_eq_iff)

lemma unat_of_nat_u64: "n < 18446744073709551616 \<Longrightarrow> unat (of_nat n :: u64) = n"
  by (simp add: unat_of_nat take_bit_nat_eq_self)

section \<open>Ordered maps\<close>

text \<open>
  \<^verbatim>\<open>std::map\<close> is modelled by an association list in strictly increasing key order. Iteration
  order is then the list order, \<^verbatim>\<open>size()\<close> the list length, \<^verbatim>\<open>find\<close> is
  \<open>om_get\<close>, and both \<^verbatim>\<open>emplace\<close> of an absent key and \<^verbatim>\<open>m[k] = v\<close> are
  \<open>om_put\<close>.
\<close>

type_synonym ('k, 'v) omap = "('k \<times> 'v) list"

definition om_get :: "('k, 'v) omap \<Rightarrow> 'k \<Rightarrow> 'v option" where
  "om_get m k = map_of m k"

primrec om_put :: "('k::linorder) \<Rightarrow> 'v \<Rightarrow> ('k, 'v) omap \<Rightarrow> ('k, 'v) omap" where
  "om_put k v [] = [(k, v)]"
| "om_put k v (e # m) =
     (if fst e < k then e # om_put k v m
      else if fst e = k then (k, v) # m
      else (k, v) # e # m)"

definition om_wf :: "('k::linorder, 'v) omap \<Rightarrow> bool" where
  "om_wf m \<longleftrightarrow> sorted_wrt (<) (map fst m)"

lemma om_get_Nil [simp]: "om_get [] k = None"
  by (simp add: om_get_def)

lemma om_get_put: "om_get (om_put k v m) x = (if x = k then Some v else om_get m x)"
  by (induction m) (auto simp: om_get_def)

lemma om_get_put_same [simp]: "om_get (om_put k v m) k = Some v"
  by (simp add: om_get_put)

lemma om_get_put_other [simp]: "x \<noteq> k \<Longrightarrow> om_get (om_put k v m) x = om_get m x"
  by (simp add: om_get_put)

lemma om_keys_put: "fst ` set (om_put k v m) = insert k (fst ` set m)"
  by (induction m) auto

lemma om_wf_Nil [simp]: "om_wf []"
  by (simp add: om_wf_def)

lemma om_wf_Cons: "om_wf (e # m) \<longleftrightarrow> (\<forall>x \<in> fst ` set m. fst e < x) \<and> om_wf m"
  by (auto simp: om_wf_def)

lemma om_wf_put [simp]: "om_wf m \<Longrightarrow> om_wf (om_put k v m)"
proof (induction m)
  case Nil
  then show ?case by (simp add: om_wf_def)
next
  case (Cons e m)
  then have wf: "om_wf m" and lo: "\<forall>x \<in> fst ` set m. fst e < x"
    by (simp_all add: om_wf_Cons)
  consider "fst e < k" | "fst e = k" | "k < fst e"
    by (rule linorder_cases)
  then show ?case
  proof cases
    case 1
    with wf lo Cons.IH show ?thesis by (simp add: om_wf_Cons om_keys_put)
  next
    case 2
    with wf lo show ?thesis by (simp add: om_wf_Cons)
  next
    case 3
    with wf lo show ?thesis by (auto simp: om_wf_Cons)
  qed
qed

lemma om_get_None_iff: "om_get m k = None \<longleftrightarrow> k \<notin> fst ` set m"
  by (simp add: om_get_def map_of_eq_None_iff)

lemma om_get_SomeD: "om_get m k = Some v \<Longrightarrow> (k, v) \<in> set m"
  by (simp add: om_get_def map_of_SomeD)

lemma om_wf_distinct: "om_wf m \<Longrightarrow> distinct (map fst m)"
  by (induction m) (auto simp: om_wf_Cons)

lemma om_get_iff: "om_wf m \<Longrightarrow> om_get m k = Some v \<longleftrightarrow> (k, v) \<in> set m"
  by (simp add: om_get_def om_wf_distinct)

lemma om_length_put:
  "om_wf m \<Longrightarrow>
     length (om_put k v m) = (if om_get m k = None then Suc (length m) else length m)"
proof (induction m)
  case Nil
  then show ?case by simp
next
  case (Cons e m)
  then have "om_wf m" and lo: "\<forall>x \<in> fst ` set m. fst e < x"
    by (simp_all add: om_wf_Cons)
  with Cons.IH show ?case
    by (cases e) (auto simp: om_get_None_iff)
qed

lemma om_set_put: "set (om_put k v m) \<subseteq> insert (k, v) (set m)"
  by (induction m) auto

lemma om_put_id: "om_wf m \<Longrightarrow> om_get m k = Some v \<Longrightarrow> om_put k v m = m"
proof (induction m)
  case (Cons e m)
  then show ?case
    by (cases e) (force simp: om_wf_Cons om_get_def dest: map_of_SomeD split: if_splits)
qed simp

text \<open>Inserting the entries of an ordered map in order rebuilds the map.\<close>

lemma om_put_append:
  "(\<And>x. x \<in> fst ` set m \<Longrightarrow> x < k) \<Longrightarrow> om_put k v m = m @ [(k, v)]"
  by (induction m) auto

lemma om_rebuild:
  "om_wf (acc @ m) \<Longrightarrow> fold (\<lambda>(k, v). om_put k v) m acc = acc @ m"
proof (induction m arbitrary: acc)
  case (Cons e m)
  obtain k v where e: "e = (k, v)" by (cases e)
  have "om_put k v acc = acc @ [(k, v)]"
    using Cons.prems by (intro om_put_append) (auto simp: om_wf_def e sorted_wrt_append)
  with Cons e show ?case by simp
qed simp

subsection \<open>The interface the components rely on\<close>

text \<open>
  A component never looks inside a map. It relies on what a lookup returns after an insert, on
  the representation invariant and on the size, and it guards every insert of a new key by a
  size bound. The last law gives the bound: a guarded insert never exceeds it.
\<close>

locale keyed_store =
  fixes get :: "'m \<Rightarrow> 'k \<Rightarrow> 'v option"
    and put :: "'k \<Rightarrow> 'v \<Rightarrow> 'm \<Rightarrow> 'm"
    and size_of :: "'m \<Rightarrow> nat"
    and wf :: "'m \<Rightarrow> bool"
  assumes get_put: "get (put k v m) x = (if x = k then Some v else get m x)"
    and wf_put: "wf m \<Longrightarrow> wf (put k v m)"
    and size_put: "wf m \<Longrightarrow> size_of (put k v m) = (if get m k = None then Suc (size_of m) else size_of m)"
begin

lemma bounded_put:
  assumes "wf m" and "size_of m \<le> n" and "get m k = None \<Longrightarrow> size_of m < n"
  shows "size_of (put k v m) \<le> n"
  using assms by (auto simp: size_put)

lemma put_keeps_others: "x \<noteq> k \<Longrightarrow> get (put k v m) x = get m x"
  by (simp add: get_put)

lemma all_values_put:
  assumes "\<And>x w. get m x = Some w \<Longrightarrow> P x w" and "P k v"
  shows "get (put k v m) x = Some w \<Longrightarrow> P x w"
  using assms by (auto simp: get_put split: if_splits)

lemma put_overwrites: "get (put k v2 (put k v1 m)) x = get (put k v2 m) x"
  by (simp add: get_put)

end

interpretation om: keyed_store om_get om_put length om_wf
  by unfold_locales (simp_all add: om_get_put om_length_put)

section \<open>Bounded buffers\<close>

text \<open>
  \<^verbatim>\<open>while (v.size() > n) v.erase(v.begin());\<close> The loop runs at most \<open>size()\<close> times.
\<close>

fun trim_front :: "nat \<Rightarrow> 'a list \<Rightarrow> 'a list" where
  "trim_front n [] = []"
| "trim_front n (x # xs) = (if n < length (x # xs) then trim_front n xs else x # xs)"

lemma trim_front_drop: "trim_front n xs = drop (length xs - n) xs"
  by (induction xs) (auto simp: Suc_diff_le)

lemma length_trim_front [simp]: "length (trim_front n xs) = min n (length xs)"
  by (simp add: trim_front_drop)

lemma trim_front_id [simp]: "length xs \<le> n \<Longrightarrow> trim_front n xs = xs"
  by (simp add: trim_front_drop)

lemma set_trim_front: "set (trim_front n xs) \<subseteq> set xs"
  by (simp add: trim_front_drop set_drop_subset)

lemma trim_front_snoc:
  "0 < n \<Longrightarrow> trim_front n (xs @ [x]) = drop (Suc (length xs) - n) xs @ [x]"
  by (simp add: trim_front_drop)

lemma last_trim_front: "0 < n \<Longrightarrow> last (trim_front n (xs @ [x])) = x"
  by (simp add: trim_front_snoc)

lemma distinct_trim_front [simp]: "distinct xs \<Longrightarrow> distinct (trim_front n xs)"
  by (simp add: trim_front_drop)

text \<open>
  Retiring a value: append it to the bounded list of superseded values, oldest evicted first.
  The values in force stay distinct from the superseded ones.
\<close>

definition retire :: "nat \<Rightarrow> 'a \<Rightarrow> 'a list \<Rightarrow> 'a list" where
  "retire n x xs = trim_front n (xs @ [x])"

lemma set_retire: "set (retire n x xs) \<subseteq> insert x (set xs)"
  using set_trim_front [of n "xs @ [x]"] by (auto simp: retire_def)

lemma length_retire [simp]: "length (retire n x xs) \<le> n"
  by (simp add: retire_def)

lemma distinct_retire [simp]: "x \<notin> set xs \<Longrightarrow> distinct xs \<Longrightarrow> distinct (retire n x xs)"
  by (simp add: retire_def)

lemma retired_in_retire: "0 < n \<Longrightarrow> x \<in> set (retire n x xs)"
  by (simp add: retire_def trim_front_snoc)

lemma retire_keeps_recent:
  "length xs < n \<Longrightarrow> set (retire n x xs) = insert x (set xs)"
  by (simp add: retire_def)

end
