(* ===== verification/Enums.thy ===== *)
theory Enums
  imports Prelude
begin

text \<open>
  The enumerations of \<^verbatim>\<open>include/linkobs/domain/enums.hpp\<close>, their enumerator values
  (\<open>_code\<close>), their frozen textual spellings and the parsers of those spellings
  (\<^verbatim>\<open>src/domain/enums.cpp\<close>). Where the code compares enumerators or uses them as map keys,
  the order of the enumerator values is the type's \<open>linorder\<close> instance. That every spelling is
  accepted by its parser and no other text is, is the contract \<open>spelling\<close>, interpreted for each
  of the seventeen enumerations.
\<close>

section \<open>Enumerations\<close>

datatype metric_family =
    MF_AdminState
  | MF_OperState
  | MF_Octets
  | MF_Errors
  | MF_Discards
  | MF_UtilReported
  | MF_SignalQuality
  | MF_FlapReport

datatype direction =
    Dir_Unknown
  | Dir_In
  | Dir_Out
  | Dir_Both

datatype error_class =
    EC_None
  | EC_Total
  | EC_Crc
  | EC_Symbol
  | EC_Framing
  | EC_Encoding
  | EC_Congestion
  | EC_Other

datatype counter_width =
    CW_Bits32
  | CW_Bits64

datatype link_state =
    LS_Unknown
  | LS_Healthy
  | LS_Degraded
  | LS_Down
  | LS_Flapping
  | LS_Saturated
  | LS_Erroring
  | LS_Stale
  | LS_Conflicting

datatype freshness =
    Fr_Unknown
  | Fr_Fresh
  | Fr_Stale
  | Fr_Expired

datatype confidence =
    Conf_Unknown
  | Conf_Low
  | Conf_Medium
  | Conf_High

datatype support_state =
    Sup_Unsupported
  | Sup_Supported

datatype completeness =
    Compl_Unknown
  | Compl_Complete
  | Compl_Incomplete

datatype conflict_state =
    CS_None
  | CS_Corroborated
  | CS_Conflicting
  | CS_Insufficient

datatype source_authority =
    SA_Unknown
  | SA_Synthetic
  | SA_Derived
  | SA_Secondary
  | SA_Primary

datatype provenance_class =
    PC_Unknown
  | PC_Real
  | PC_Synthetic
  | PC_Replayed

datatype transition_kind =
    TK_LinkRegistered
  | TK_LinkRetired
  | TK_GenerationChanged
  | TK_AdminStateChanged
  | TK_OperStateChanged
  | TK_ClassificationChanged
  | TK_CounterReset
  | TK_CounterWrap
  | TK_SourceEpochChanged
  | TK_SourceIncarnationChanged
  | TK_RevisionGap
  | TK_StaleEvidence

datatype fence_reason =
    FR_None
  | FR_UnknownSource
  | FR_UnknownLink
  | FR_UnsupportedFamily
  | FR_InvalidValue
  | FR_DuplicateObservation
  | FR_RevisionReplay
  | FR_RevisionGap
  | FR_EpochBehind
  | FR_IncarnationBehind
  | FR_GenerationBehind
  | FR_AuthorityDowngrade
  | FR_PayloadTooLarge
  | FR_UnsupportedProvenance
  | FR_StoreFull

datatype link_kind =
    LK_Unknown
  | LK_Physical
  | LK_Logical
  | LK_Aggregate

datatype counter_discontinuity =
    CD_None
  | CD_Reset
  | CD_Wrap

datatype derivation_fault =
    DF_None
  | DF_MissingCapacity
  | DF_MissingPreviousSample
  | DF_CounterReset
  | DF_NonMonotonicTime
  | DF_WindowTooLarge
  | DF_StaleSample
  | DF_FencedSample
  | DF_RevisionGap
  | DF_Overflow
  | DF_DirectionNotDerivable

section \<open>Enumerator values\<close>

primrec metric_family_code :: "metric_family \<Rightarrow> nat" where
  "metric_family_code MF_AdminState = 0"
| "metric_family_code MF_OperState = 1"
| "metric_family_code MF_Octets = 2"
| "metric_family_code MF_Errors = 3"
| "metric_family_code MF_Discards = 4"
| "metric_family_code MF_UtilReported = 5"
| "metric_family_code MF_SignalQuality = 6"
| "metric_family_code MF_FlapReport = 7"

primrec direction_code :: "direction \<Rightarrow> nat" where
  "direction_code Dir_Unknown = 0"
| "direction_code Dir_In = 1"
| "direction_code Dir_Out = 2"
| "direction_code Dir_Both = 3"

primrec error_class_code :: "error_class \<Rightarrow> nat" where
  "error_class_code EC_None = 0"
| "error_class_code EC_Total = 1"
| "error_class_code EC_Crc = 2"
| "error_class_code EC_Symbol = 3"
| "error_class_code EC_Framing = 4"
| "error_class_code EC_Encoding = 5"
| "error_class_code EC_Congestion = 6"
| "error_class_code EC_Other = 7"

primrec counter_width_code :: "counter_width \<Rightarrow> nat" where
  "counter_width_code CW_Bits32 = 0"
| "counter_width_code CW_Bits64 = 1"

primrec link_state_code :: "link_state \<Rightarrow> nat" where
  "link_state_code LS_Unknown = 0"
| "link_state_code LS_Healthy = 1"
| "link_state_code LS_Degraded = 2"
| "link_state_code LS_Down = 3"
| "link_state_code LS_Flapping = 4"
| "link_state_code LS_Saturated = 5"
| "link_state_code LS_Erroring = 6"
| "link_state_code LS_Stale = 7"
| "link_state_code LS_Conflicting = 8"

primrec freshness_code :: "freshness \<Rightarrow> nat" where
  "freshness_code Fr_Unknown = 0"
| "freshness_code Fr_Fresh = 1"
| "freshness_code Fr_Stale = 2"
| "freshness_code Fr_Expired = 3"

primrec confidence_code :: "confidence \<Rightarrow> nat" where
  "confidence_code Conf_Unknown = 0"
| "confidence_code Conf_Low = 1"
| "confidence_code Conf_Medium = 2"
| "confidence_code Conf_High = 3"

primrec support_state_code :: "support_state \<Rightarrow> nat" where
  "support_state_code Sup_Unsupported = 0"
| "support_state_code Sup_Supported = 1"

primrec completeness_code :: "completeness \<Rightarrow> nat" where
  "completeness_code Compl_Unknown = 0"
| "completeness_code Compl_Complete = 1"
| "completeness_code Compl_Incomplete = 2"

primrec conflict_state_code :: "conflict_state \<Rightarrow> nat" where
  "conflict_state_code CS_None = 0"
| "conflict_state_code CS_Corroborated = 1"
| "conflict_state_code CS_Conflicting = 2"
| "conflict_state_code CS_Insufficient = 3"

primrec source_authority_code :: "source_authority \<Rightarrow> nat" where
  "source_authority_code SA_Unknown = 0"
| "source_authority_code SA_Synthetic = 1"
| "source_authority_code SA_Derived = 2"
| "source_authority_code SA_Secondary = 3"
| "source_authority_code SA_Primary = 4"

primrec provenance_class_code :: "provenance_class \<Rightarrow> nat" where
  "provenance_class_code PC_Unknown = 0"
| "provenance_class_code PC_Real = 1"
| "provenance_class_code PC_Synthetic = 2"
| "provenance_class_code PC_Replayed = 3"

primrec transition_kind_code :: "transition_kind \<Rightarrow> nat" where
  "transition_kind_code TK_LinkRegistered = 0"
| "transition_kind_code TK_LinkRetired = 1"
| "transition_kind_code TK_GenerationChanged = 2"
| "transition_kind_code TK_AdminStateChanged = 3"
| "transition_kind_code TK_OperStateChanged = 4"
| "transition_kind_code TK_ClassificationChanged = 5"
| "transition_kind_code TK_CounterReset = 6"
| "transition_kind_code TK_CounterWrap = 7"
| "transition_kind_code TK_SourceEpochChanged = 8"
| "transition_kind_code TK_SourceIncarnationChanged = 9"
| "transition_kind_code TK_RevisionGap = 10"
| "transition_kind_code TK_StaleEvidence = 11"

primrec fence_reason_code :: "fence_reason \<Rightarrow> nat" where
  "fence_reason_code FR_None = 0"
| "fence_reason_code FR_UnknownSource = 1"
| "fence_reason_code FR_UnknownLink = 2"
| "fence_reason_code FR_UnsupportedFamily = 3"
| "fence_reason_code FR_InvalidValue = 4"
| "fence_reason_code FR_DuplicateObservation = 5"
| "fence_reason_code FR_RevisionReplay = 6"
| "fence_reason_code FR_RevisionGap = 7"
| "fence_reason_code FR_EpochBehind = 8"
| "fence_reason_code FR_IncarnationBehind = 9"
| "fence_reason_code FR_GenerationBehind = 10"
| "fence_reason_code FR_AuthorityDowngrade = 11"
| "fence_reason_code FR_PayloadTooLarge = 12"
| "fence_reason_code FR_UnsupportedProvenance = 13"
| "fence_reason_code FR_StoreFull = 14"

primrec link_kind_code :: "link_kind \<Rightarrow> nat" where
  "link_kind_code LK_Unknown = 0"
| "link_kind_code LK_Physical = 1"
| "link_kind_code LK_Logical = 2"
| "link_kind_code LK_Aggregate = 3"

primrec counter_discontinuity_code :: "counter_discontinuity \<Rightarrow> nat" where
  "counter_discontinuity_code CD_None = 0"
| "counter_discontinuity_code CD_Reset = 1"
| "counter_discontinuity_code CD_Wrap = 2"

primrec derivation_fault_code :: "derivation_fault \<Rightarrow> nat" where
  "derivation_fault_code DF_None = 0"
| "derivation_fault_code DF_MissingCapacity = 1"
| "derivation_fault_code DF_MissingPreviousSample = 2"
| "derivation_fault_code DF_CounterReset = 3"
| "derivation_fault_code DF_NonMonotonicTime = 4"
| "derivation_fault_code DF_WindowTooLarge = 5"
| "derivation_fault_code DF_StaleSample = 6"
| "derivation_fault_code DF_FencedSample = 7"
| "derivation_fault_code DF_RevisionGap = 8"
| "derivation_fault_code DF_Overflow = 9"
| "derivation_fault_code DF_DirectionNotDerivable = 10"

section \<open>Family predicates\<close>

definition is_counter_family :: "metric_family \<Rightarrow> bool" where
  "is_counter_family family \<longleftrightarrow> family = MF_Octets \<or> family = MF_Errors \<or> family = MF_Discards"

definition is_directional_family :: "metric_family \<Rightarrow> bool" where
  "is_directional_family family \<longleftrightarrow>
     family = MF_Octets \<or> family = MF_Errors \<or> family = MF_Discards \<or>
     family = MF_UtilReported \<or> family = MF_SignalQuality"

section \<open>Spellings\<close>

primrec metric_family_to_string :: "metric_family \<Rightarrow> string" where
  "metric_family_to_string MF_AdminState = ''admin-state''"
| "metric_family_to_string MF_OperState = ''oper-state''"
| "metric_family_to_string MF_Octets = ''octets''"
| "metric_family_to_string MF_Errors = ''errors''"
| "metric_family_to_string MF_Discards = ''discards''"
| "metric_family_to_string MF_UtilReported = ''util-reported''"
| "metric_family_to_string MF_SignalQuality = ''signal-quality''"
| "metric_family_to_string MF_FlapReport = ''flap-report''"

primrec direction_to_string :: "direction \<Rightarrow> string" where
  "direction_to_string Dir_Unknown = ''unknown''"
| "direction_to_string Dir_In = ''in''"
| "direction_to_string Dir_Out = ''out''"
| "direction_to_string Dir_Both = ''both''"

primrec error_class_to_string :: "error_class \<Rightarrow> string" where
  "error_class_to_string EC_None = ''none''"
| "error_class_to_string EC_Total = ''total''"
| "error_class_to_string EC_Crc = ''crc''"
| "error_class_to_string EC_Symbol = ''symbol''"
| "error_class_to_string EC_Framing = ''framing''"
| "error_class_to_string EC_Encoding = ''encoding''"
| "error_class_to_string EC_Congestion = ''congestion''"
| "error_class_to_string EC_Other = ''other''"

primrec counter_width_to_string :: "counter_width \<Rightarrow> string" where
  "counter_width_to_string CW_Bits32 = ''bits32''"
| "counter_width_to_string CW_Bits64 = ''bits64''"

primrec link_state_to_string :: "link_state \<Rightarrow> string" where
  "link_state_to_string LS_Unknown = ''unknown''"
| "link_state_to_string LS_Healthy = ''healthy''"
| "link_state_to_string LS_Degraded = ''degraded''"
| "link_state_to_string LS_Down = ''down''"
| "link_state_to_string LS_Flapping = ''flapping''"
| "link_state_to_string LS_Saturated = ''saturated''"
| "link_state_to_string LS_Erroring = ''erroring''"
| "link_state_to_string LS_Stale = ''stale''"
| "link_state_to_string LS_Conflicting = ''conflicting''"

primrec freshness_to_string :: "freshness \<Rightarrow> string" where
  "freshness_to_string Fr_Unknown = ''unknown''"
| "freshness_to_string Fr_Fresh = ''fresh''"
| "freshness_to_string Fr_Stale = ''stale''"
| "freshness_to_string Fr_Expired = ''expired''"

primrec confidence_to_string :: "confidence \<Rightarrow> string" where
  "confidence_to_string Conf_Unknown = ''unknown''"
| "confidence_to_string Conf_Low = ''low''"
| "confidence_to_string Conf_Medium = ''medium''"
| "confidence_to_string Conf_High = ''high''"

primrec support_state_to_string :: "support_state \<Rightarrow> string" where
  "support_state_to_string Sup_Unsupported = ''unsupported''"
| "support_state_to_string Sup_Supported = ''supported''"

primrec completeness_to_string :: "completeness \<Rightarrow> string" where
  "completeness_to_string Compl_Unknown = ''unknown''"
| "completeness_to_string Compl_Complete = ''complete''"
| "completeness_to_string Compl_Incomplete = ''incomplete''"

primrec conflict_state_to_string :: "conflict_state \<Rightarrow> string" where
  "conflict_state_to_string CS_None = ''none''"
| "conflict_state_to_string CS_Corroborated = ''corroborated''"
| "conflict_state_to_string CS_Conflicting = ''conflicting''"
| "conflict_state_to_string CS_Insufficient = ''insufficient''"

primrec source_authority_to_string :: "source_authority \<Rightarrow> string" where
  "source_authority_to_string SA_Unknown = ''unknown''"
| "source_authority_to_string SA_Synthetic = ''synthetic''"
| "source_authority_to_string SA_Derived = ''derived''"
| "source_authority_to_string SA_Secondary = ''secondary''"
| "source_authority_to_string SA_Primary = ''primary''"

primrec provenance_class_to_string :: "provenance_class \<Rightarrow> string" where
  "provenance_class_to_string PC_Unknown = ''unknown''"
| "provenance_class_to_string PC_Real = ''real''"
| "provenance_class_to_string PC_Synthetic = ''synthetic''"
| "provenance_class_to_string PC_Replayed = ''replayed''"

primrec transition_kind_to_string :: "transition_kind \<Rightarrow> string" where
  "transition_kind_to_string TK_LinkRegistered = ''link-registered''"
| "transition_kind_to_string TK_LinkRetired = ''link-retired''"
| "transition_kind_to_string TK_GenerationChanged = ''generation-changed''"
| "transition_kind_to_string TK_AdminStateChanged = ''admin-state-changed''"
| "transition_kind_to_string TK_OperStateChanged = ''oper-state-changed''"
| "transition_kind_to_string TK_ClassificationChanged = ''classification-changed''"
| "transition_kind_to_string TK_CounterReset = ''counter-reset''"
| "transition_kind_to_string TK_CounterWrap = ''counter-wrap''"
| "transition_kind_to_string TK_SourceEpochChanged = ''source-epoch-changed''"
| "transition_kind_to_string TK_SourceIncarnationChanged = ''source-incarnation-changed''"
| "transition_kind_to_string TK_RevisionGap = ''revision-gap''"
| "transition_kind_to_string TK_StaleEvidence = ''stale-evidence''"

primrec fence_reason_to_string :: "fence_reason \<Rightarrow> string" where
  "fence_reason_to_string FR_None = ''none''"
| "fence_reason_to_string FR_UnknownSource = ''unknown-source''"
| "fence_reason_to_string FR_UnknownLink = ''unknown-link''"
| "fence_reason_to_string FR_UnsupportedFamily = ''unsupported-family''"
| "fence_reason_to_string FR_InvalidValue = ''invalid-value''"
| "fence_reason_to_string FR_DuplicateObservation = ''duplicate-observation''"
| "fence_reason_to_string FR_RevisionReplay = ''revision-replay''"
| "fence_reason_to_string FR_RevisionGap = ''revision-gap''"
| "fence_reason_to_string FR_EpochBehind = ''epoch-behind''"
| "fence_reason_to_string FR_IncarnationBehind = ''incarnation-behind''"
| "fence_reason_to_string FR_GenerationBehind = ''generation-behind''"
| "fence_reason_to_string FR_AuthorityDowngrade = ''authority-downgrade''"
| "fence_reason_to_string FR_PayloadTooLarge = ''payload-too-large''"
| "fence_reason_to_string FR_UnsupportedProvenance = ''unsupported-provenance''"
| "fence_reason_to_string FR_StoreFull = ''store-full''"

primrec link_kind_to_string :: "link_kind \<Rightarrow> string" where
  "link_kind_to_string LK_Unknown = ''unknown''"
| "link_kind_to_string LK_Physical = ''physical''"
| "link_kind_to_string LK_Logical = ''logical''"
| "link_kind_to_string LK_Aggregate = ''aggregate''"

primrec counter_discontinuity_to_string :: "counter_discontinuity \<Rightarrow> string" where
  "counter_discontinuity_to_string CD_None = ''none''"
| "counter_discontinuity_to_string CD_Reset = ''reset''"
| "counter_discontinuity_to_string CD_Wrap = ''wrap''"

primrec derivation_fault_to_string :: "derivation_fault \<Rightarrow> string" where
  "derivation_fault_to_string DF_None = ''none''"
| "derivation_fault_to_string DF_MissingCapacity = ''missing-capacity''"
| "derivation_fault_to_string DF_MissingPreviousSample = ''missing-previous-sample''"
| "derivation_fault_to_string DF_CounterReset = ''counter-reset''"
| "derivation_fault_to_string DF_NonMonotonicTime = ''non-monotonic-time''"
| "derivation_fault_to_string DF_WindowTooLarge = ''window-too-large''"
| "derivation_fault_to_string DF_StaleSample = ''stale-sample''"
| "derivation_fault_to_string DF_FencedSample = ''fenced-sample''"
| "derivation_fault_to_string DF_RevisionGap = ''revision-gap''"
| "derivation_fault_to_string DF_Overflow = ''overflow''"
| "derivation_fault_to_string DF_DirectionNotDerivable = ''direction-not-derivable''"

section \<open>Parsers\<close>

fun parse_from_table :: "(string \<times> 'e) list \<Rightarrow> string \<Rightarrow> 'e option" where
  "parse_from_table [] text = None"
| "parse_from_table (entry # table) text =
     (if fst entry = text then Some (snd entry) else parse_from_table table text)"

definition metric_family_names :: "(string \<times> metric_family) list" where
  "metric_family_names =
     [(''admin-state'', MF_AdminState),
      (''oper-state'', MF_OperState),
      (''octets'', MF_Octets),
      (''errors'', MF_Errors),
      (''discards'', MF_Discards),
      (''util-reported'', MF_UtilReported),
      (''signal-quality'', MF_SignalQuality),
      (''flap-report'', MF_FlapReport)]"

definition parse_metric_family :: "string \<Rightarrow> metric_family option" where
  "parse_metric_family text = parse_from_table metric_family_names text"

definition direction_names :: "(string \<times> direction) list" where
  "direction_names =
     [(''unknown'', Dir_Unknown),
      (''in'', Dir_In),
      (''out'', Dir_Out),
      (''both'', Dir_Both)]"

definition parse_direction :: "string \<Rightarrow> direction option" where
  "parse_direction text = parse_from_table direction_names text"

definition error_class_names :: "(string \<times> error_class) list" where
  "error_class_names =
     [(''none'', EC_None),
      (''total'', EC_Total),
      (''crc'', EC_Crc),
      (''symbol'', EC_Symbol),
      (''framing'', EC_Framing),
      (''encoding'', EC_Encoding),
      (''congestion'', EC_Congestion),
      (''other'', EC_Other)]"

definition parse_error_class :: "string \<Rightarrow> error_class option" where
  "parse_error_class text = parse_from_table error_class_names text"

definition parse_counter_width :: "string \<Rightarrow> counter_width option" where
  "parse_counter_width text =
     (if text = ''bits32'' then Some CW_Bits32 else
      (if text = ''bits64'' then Some CW_Bits64 else
      None))"

definition parse_link_state :: "string \<Rightarrow> link_state option" where
  "parse_link_state text = parse_from_table
     [(''unknown'', LS_Unknown),
      (''healthy'', LS_Healthy),
      (''degraded'', LS_Degraded),
      (''down'', LS_Down),
      (''flapping'', LS_Flapping),
      (''saturated'', LS_Saturated),
      (''erroring'', LS_Erroring),
      (''stale'', LS_Stale),
      (''conflicting'', LS_Conflicting)] text"

definition parse_freshness :: "string \<Rightarrow> freshness option" where
  "parse_freshness text = parse_from_table
     [(''unknown'', Fr_Unknown),
      (''fresh'', Fr_Fresh),
      (''stale'', Fr_Stale),
      (''expired'', Fr_Expired)] text"

definition parse_confidence :: "string \<Rightarrow> confidence option" where
  "parse_confidence text = parse_from_table
     [(''unknown'', Conf_Unknown),
      (''low'', Conf_Low),
      (''medium'', Conf_Medium),
      (''high'', Conf_High)] text"

definition parse_support_state :: "string \<Rightarrow> support_state option" where
  "parse_support_state text =
     (if text = ''unsupported'' then Some Sup_Unsupported else
      (if text = ''supported'' then Some Sup_Supported else
      None))"

definition parse_completeness :: "string \<Rightarrow> completeness option" where
  "parse_completeness text =
     (if text = ''unknown'' then Some Compl_Unknown else
      (if text = ''complete'' then Some Compl_Complete else
      (if text = ''incomplete'' then Some Compl_Incomplete else
      None)))"

definition parse_conflict_state :: "string \<Rightarrow> conflict_state option" where
  "parse_conflict_state text =
     (if text = ''none'' then Some CS_None else
      (if text = ''corroborated'' then Some CS_Corroborated else
      (if text = ''conflicting'' then Some CS_Conflicting else
      (if text = ''insufficient'' then Some CS_Insufficient else
      None))))"

definition parse_source_authority :: "string \<Rightarrow> source_authority option" where
  "parse_source_authority text = parse_from_table
     [(''unknown'', SA_Unknown),
      (''synthetic'', SA_Synthetic),
      (''derived'', SA_Derived),
      (''secondary'', SA_Secondary),
      (''primary'', SA_Primary)] text"

definition parse_provenance_class :: "string \<Rightarrow> provenance_class option" where
  "parse_provenance_class text = parse_from_table
     [(''unknown'', PC_Unknown),
      (''real'', PC_Real),
      (''synthetic'', PC_Synthetic),
      (''replayed'', PC_Replayed)] text"

definition parse_transition_kind :: "string \<Rightarrow> transition_kind option" where
  "parse_transition_kind text = parse_from_table
     [(''link-registered'', TK_LinkRegistered),
      (''link-retired'', TK_LinkRetired),
      (''generation-changed'', TK_GenerationChanged),
      (''admin-state-changed'', TK_AdminStateChanged),
      (''oper-state-changed'', TK_OperStateChanged),
      (''classification-changed'', TK_ClassificationChanged),
      (''counter-reset'', TK_CounterReset),
      (''counter-wrap'', TK_CounterWrap),
      (''source-epoch-changed'', TK_SourceEpochChanged),
      (''source-incarnation-changed'', TK_SourceIncarnationChanged),
      (''revision-gap'', TK_RevisionGap),
      (''stale-evidence'', TK_StaleEvidence)] text"

definition parse_fence_reason :: "string \<Rightarrow> fence_reason option" where
  "parse_fence_reason text = parse_from_table
     [(''none'', FR_None),
      (''unknown-source'', FR_UnknownSource),
      (''unknown-link'', FR_UnknownLink),
      (''unsupported-family'', FR_UnsupportedFamily),
      (''invalid-value'', FR_InvalidValue),
      (''duplicate-observation'', FR_DuplicateObservation),
      (''revision-replay'', FR_RevisionReplay),
      (''revision-gap'', FR_RevisionGap),
      (''epoch-behind'', FR_EpochBehind),
      (''incarnation-behind'', FR_IncarnationBehind),
      (''generation-behind'', FR_GenerationBehind),
      (''authority-downgrade'', FR_AuthorityDowngrade),
      (''payload-too-large'', FR_PayloadTooLarge),
      (''unsupported-provenance'', FR_UnsupportedProvenance),
      (''store-full'', FR_StoreFull)] text"

definition parse_link_kind :: "string \<Rightarrow> link_kind option" where
  "parse_link_kind text = parse_from_table
     [(''unknown'', LK_Unknown),
      (''physical'', LK_Physical),
      (''logical'', LK_Logical),
      (''aggregate'', LK_Aggregate)] text"

definition parse_counter_discontinuity :: "string \<Rightarrow> counter_discontinuity option" where
  "parse_counter_discontinuity text =
     (if text = ''none'' then Some CD_None else
      (if text = ''reset'' then Some CD_Reset else
      (if text = ''wrap'' then Some CD_Wrap else
      None)))"

definition parse_derivation_fault :: "string \<Rightarrow> derivation_fault option" where
  "parse_derivation_fault text = parse_from_table
     [(''none'', DF_None),
      (''missing-capacity'', DF_MissingCapacity),
      (''missing-previous-sample'', DF_MissingPreviousSample),
      (''counter-reset'', DF_CounterReset),
      (''non-monotonic-time'', DF_NonMonotonicTime),
      (''window-too-large'', DF_WindowTooLarge),
      (''stale-sample'', DF_StaleSample),
      (''fenced-sample'', DF_FencedSample),
      (''revision-gap'', DF_RevisionGap),
      (''overflow'', DF_Overflow),
      (''direction-not-derivable'', DF_DirectionNotDerivable)] text"

section \<open>Enumerator order\<close>

lemma metric_family_code_inj: "metric_family_code a = metric_family_code b \<Longrightarrow> a = b"
  by (cases a; cases b; simp)

instantiation metric_family :: linorder
begin

definition less_eq_metric_family :: "metric_family \<Rightarrow> metric_family \<Rightarrow> bool" where
  "less_eq_metric_family a b \<longleftrightarrow> metric_family_code a \<le> metric_family_code b"

definition less_metric_family :: "metric_family \<Rightarrow> metric_family \<Rightarrow> bool" where
  "less_metric_family a b \<longleftrightarrow> metric_family_code a < metric_family_code b"

instance
  by standard (auto simp: less_eq_metric_family_def less_metric_family_def intro: metric_family_code_inj)

end

lemma direction_code_inj: "direction_code a = direction_code b \<Longrightarrow> a = b"
  by (cases a; cases b; simp)

instantiation direction :: linorder
begin

definition less_eq_direction :: "direction \<Rightarrow> direction \<Rightarrow> bool" where
  "less_eq_direction a b \<longleftrightarrow> direction_code a \<le> direction_code b"

definition less_direction :: "direction \<Rightarrow> direction \<Rightarrow> bool" where
  "less_direction a b \<longleftrightarrow> direction_code a < direction_code b"

instance
  by standard (auto simp: less_eq_direction_def less_direction_def intro: direction_code_inj)

end

lemma error_class_code_inj: "error_class_code a = error_class_code b \<Longrightarrow> a = b"
  by (cases a; cases b; simp)

instantiation error_class :: linorder
begin

definition less_eq_error_class :: "error_class \<Rightarrow> error_class \<Rightarrow> bool" where
  "less_eq_error_class a b \<longleftrightarrow> error_class_code a \<le> error_class_code b"

definition less_error_class :: "error_class \<Rightarrow> error_class \<Rightarrow> bool" where
  "less_error_class a b \<longleftrightarrow> error_class_code a < error_class_code b"

instance
  by standard (auto simp: less_eq_error_class_def less_error_class_def intro: error_class_code_inj)

end

lemma confidence_code_inj: "confidence_code a = confidence_code b \<Longrightarrow> a = b"
  by (cases a; cases b; simp)

instantiation confidence :: linorder
begin

definition less_eq_confidence :: "confidence \<Rightarrow> confidence \<Rightarrow> bool" where
  "less_eq_confidence a b \<longleftrightarrow> confidence_code a \<le> confidence_code b"

definition less_confidence :: "confidence \<Rightarrow> confidence \<Rightarrow> bool" where
  "less_confidence a b \<longleftrightarrow> confidence_code a < confidence_code b"

instance
  by standard (auto simp: less_eq_confidence_def less_confidence_def intro: confidence_code_inj)

end

lemma source_authority_code_inj: "source_authority_code a = source_authority_code b \<Longrightarrow> a = b"
  by (cases a; cases b; simp)

instantiation source_authority :: linorder
begin

definition less_eq_source_authority :: "source_authority \<Rightarrow> source_authority \<Rightarrow> bool" where
  "less_eq_source_authority a b \<longleftrightarrow> source_authority_code a \<le> source_authority_code b"

definition less_source_authority :: "source_authority \<Rightarrow> source_authority \<Rightarrow> bool" where
  "less_source_authority a b \<longleftrightarrow> source_authority_code a < source_authority_code b"

instance
  by standard (auto simp: less_eq_source_authority_def less_source_authority_def intro: source_authority_code_inj)

end

lemma fence_reason_code_inj: "fence_reason_code a = fence_reason_code b \<Longrightarrow> a = b"
  by (cases a; cases b; simp)

instantiation fence_reason :: linorder
begin

definition less_eq_fence_reason :: "fence_reason \<Rightarrow> fence_reason \<Rightarrow> bool" where
  "less_eq_fence_reason a b \<longleftrightarrow> fence_reason_code a \<le> fence_reason_code b"

definition less_fence_reason :: "fence_reason \<Rightarrow> fence_reason \<Rightarrow> bool" where
  "less_fence_reason a b \<longleftrightarrow> fence_reason_code a < fence_reason_code b"

instance
  by standard (auto simp: less_eq_fence_reason_def less_fence_reason_def intro: fence_reason_code_inj)

end

section \<open>The spelling contract\<close>

locale spelling =
  fixes spell :: "'e \<Rightarrow> string"
    and read :: "string \<Rightarrow> 'e option"
  assumes read_spell: "read (spell v) = Some v"
    and read_only_spellings: "read s = Some v \<Longrightarrow> s = spell v"
begin

lemma spell_inj: "spell a = spell b \<Longrightarrow> a = b"
  by (metis read_spell option.inject)

lemma read_iff: "read s = Some v \<longleftrightarrow> s = spell v"
  using read_spell read_only_spellings by blast

lemma read_None_iff: "read s = None \<longleftrightarrow> s \<notin> range spell"
  by (metis imageE not_Some_eq rangeI read_iff)

end

interpretation metric_family_sp: spelling metric_family_to_string parse_metric_family
proof
  show "parse_metric_family (metric_family_to_string v) = Some v" for v
    by (cases v) (simp_all add: parse_metric_family_def metric_family_names_def)
  show "parse_metric_family s = Some v \<Longrightarrow> s = metric_family_to_string v" for s v
    by (auto simp: parse_metric_family_def metric_family_names_def split: if_splits)
qed

interpretation direction_sp: spelling direction_to_string parse_direction
proof
  show "parse_direction (direction_to_string v) = Some v" for v
    by (cases v) (simp_all add: parse_direction_def direction_names_def)
  show "parse_direction s = Some v \<Longrightarrow> s = direction_to_string v" for s v
    by (auto simp: parse_direction_def direction_names_def split: if_splits)
qed

interpretation error_class_sp: spelling error_class_to_string parse_error_class
proof
  show "parse_error_class (error_class_to_string v) = Some v" for v
    by (cases v) (simp_all add: parse_error_class_def error_class_names_def)
  show "parse_error_class s = Some v \<Longrightarrow> s = error_class_to_string v" for s v
    by (auto simp: parse_error_class_def error_class_names_def split: if_splits)
qed

interpretation counter_width_sp: spelling counter_width_to_string parse_counter_width
proof
  show "parse_counter_width (counter_width_to_string v) = Some v" for v
    by (cases v) (simp_all add: parse_counter_width_def)
  show "parse_counter_width s = Some v \<Longrightarrow> s = counter_width_to_string v" for s v
    by (auto simp: parse_counter_width_def split: if_splits)
qed

interpretation link_state_sp: spelling link_state_to_string parse_link_state
proof
  show "parse_link_state (link_state_to_string v) = Some v" for v
    by (cases v) (simp_all add: parse_link_state_def)
  show "parse_link_state s = Some v \<Longrightarrow> s = link_state_to_string v" for s v
    by (auto simp: parse_link_state_def split: if_splits)
qed

interpretation freshness_sp: spelling freshness_to_string parse_freshness
proof
  show "parse_freshness (freshness_to_string v) = Some v" for v
    by (cases v) (simp_all add: parse_freshness_def)
  show "parse_freshness s = Some v \<Longrightarrow> s = freshness_to_string v" for s v
    by (auto simp: parse_freshness_def split: if_splits)
qed

interpretation confidence_sp: spelling confidence_to_string parse_confidence
proof
  show "parse_confidence (confidence_to_string v) = Some v" for v
    by (cases v) (simp_all add: parse_confidence_def)
  show "parse_confidence s = Some v \<Longrightarrow> s = confidence_to_string v" for s v
    by (auto simp: parse_confidence_def split: if_splits)
qed

interpretation support_state_sp: spelling support_state_to_string parse_support_state
proof
  show "parse_support_state (support_state_to_string v) = Some v" for v
    by (cases v) (simp_all add: parse_support_state_def)
  show "parse_support_state s = Some v \<Longrightarrow> s = support_state_to_string v" for s v
    by (auto simp: parse_support_state_def split: if_splits)
qed

interpretation completeness_sp: spelling completeness_to_string parse_completeness
proof
  show "parse_completeness (completeness_to_string v) = Some v" for v
    by (cases v) (simp_all add: parse_completeness_def)
  show "parse_completeness s = Some v \<Longrightarrow> s = completeness_to_string v" for s v
    by (auto simp: parse_completeness_def split: if_splits)
qed

interpretation conflict_state_sp: spelling conflict_state_to_string parse_conflict_state
proof
  show "parse_conflict_state (conflict_state_to_string v) = Some v" for v
    by (cases v) (simp_all add: parse_conflict_state_def)
  show "parse_conflict_state s = Some v \<Longrightarrow> s = conflict_state_to_string v" for s v
    by (auto simp: parse_conflict_state_def split: if_splits)
qed

interpretation source_authority_sp: spelling source_authority_to_string parse_source_authority
proof
  show "parse_source_authority (source_authority_to_string v) = Some v" for v
    by (cases v) (simp_all add: parse_source_authority_def)
  show "parse_source_authority s = Some v \<Longrightarrow> s = source_authority_to_string v" for s v
    by (auto simp: parse_source_authority_def split: if_splits)
qed

interpretation provenance_class_sp: spelling provenance_class_to_string parse_provenance_class
proof
  show "parse_provenance_class (provenance_class_to_string v) = Some v" for v
    by (cases v) (simp_all add: parse_provenance_class_def)
  show "parse_provenance_class s = Some v \<Longrightarrow> s = provenance_class_to_string v" for s v
    by (auto simp: parse_provenance_class_def split: if_splits)
qed

interpretation transition_kind_sp: spelling transition_kind_to_string parse_transition_kind
proof
  show "parse_transition_kind (transition_kind_to_string v) = Some v" for v
    by (cases v) (simp_all add: parse_transition_kind_def)
  show "parse_transition_kind s = Some v \<Longrightarrow> s = transition_kind_to_string v" for s v
    by (auto simp: parse_transition_kind_def split: if_splits)
qed

interpretation fence_reason_sp: spelling fence_reason_to_string parse_fence_reason
proof
  show "parse_fence_reason (fence_reason_to_string v) = Some v" for v
    by (cases v) (simp_all add: parse_fence_reason_def)
  show "parse_fence_reason s = Some v \<Longrightarrow> s = fence_reason_to_string v" for s v
    by (auto simp: parse_fence_reason_def split: if_splits)
qed

interpretation link_kind_sp: spelling link_kind_to_string parse_link_kind
proof
  show "parse_link_kind (link_kind_to_string v) = Some v" for v
    by (cases v) (simp_all add: parse_link_kind_def)
  show "parse_link_kind s = Some v \<Longrightarrow> s = link_kind_to_string v" for s v
    by (auto simp: parse_link_kind_def split: if_splits)
qed

interpretation counter_discontinuity_sp: spelling counter_discontinuity_to_string parse_counter_discontinuity
proof
  show "parse_counter_discontinuity (counter_discontinuity_to_string v) = Some v" for v
    by (cases v) (simp_all add: parse_counter_discontinuity_def)
  show "parse_counter_discontinuity s = Some v \<Longrightarrow> s = counter_discontinuity_to_string v" for s v
    by (auto simp: parse_counter_discontinuity_def split: if_splits)
qed

interpretation derivation_fault_sp: spelling derivation_fault_to_string parse_derivation_fault
proof
  show "parse_derivation_fault (derivation_fault_to_string v) = Some v" for v
    by (cases v) (simp_all add: parse_derivation_fault_def)
  show "parse_derivation_fault s = Some v \<Longrightarrow> s = derivation_fault_to_string v" for s v
    by (auto simp: parse_derivation_fault_def split: if_splits)
qed

section \<open>Main results\<close>

text \<open>
  Every enumerator of the seventeen enumerations that travel as text is read back from its own
  spelling.
\<close>

lemma enum_spellings_round_trip:
  "parse_metric_family (metric_family_to_string v1) = Some v1
   \<and> parse_direction (direction_to_string v2) = Some v2
   \<and> parse_error_class (error_class_to_string v3) = Some v3
   \<and> parse_counter_width (counter_width_to_string v4) = Some v4
   \<and> parse_link_state (link_state_to_string v5) = Some v5
   \<and> parse_freshness (freshness_to_string v6) = Some v6
   \<and> parse_confidence (confidence_to_string v7) = Some v7
   \<and> parse_support_state (support_state_to_string v8) = Some v8
   \<and> parse_completeness (completeness_to_string v9) = Some v9
   \<and> parse_conflict_state (conflict_state_to_string v10) = Some v10
   \<and> parse_source_authority (source_authority_to_string v11) = Some v11
   \<and> parse_provenance_class (provenance_class_to_string v12) = Some v12
   \<and> parse_transition_kind (transition_kind_to_string v13) = Some v13
   \<and> parse_fence_reason (fence_reason_to_string v14) = Some v14
   \<and> parse_link_kind (link_kind_to_string v15) = Some v15
   \<and> parse_counter_discontinuity (counter_discontinuity_to_string v16) = Some v16
   \<and> parse_derivation_fault (derivation_fault_to_string v17) = Some v17"
  by (simp add: metric_family_sp.read_spell direction_sp.read_spell error_class_sp.read_spell
      counter_width_sp.read_spell link_state_sp.read_spell freshness_sp.read_spell
      confidence_sp.read_spell support_state_sp.read_spell completeness_sp.read_spell
      conflict_state_sp.read_spell source_authority_sp.read_spell provenance_class_sp.read_spell
      transition_kind_sp.read_spell fence_reason_sp.read_spell link_kind_sp.read_spell
      counter_discontinuity_sp.read_spell derivation_fault_sp.read_spell)

end
