(* ===== verification/Status.thy ===== *)
theory Status
  imports Prelude
begin

text \<open>
  Status and result types (\<^verbatim>\<open>include/linkobs/core/status.hpp\<close>, \<^verbatim>\<open>src/core/status.cpp\<close>).
  A \<^verbatim>\<open>Result<T>\<close> is a sum: \<open>Inl\<close> carries the failure status, \<open>Inr\<close> the value.
\<close>

datatype status_code =
    SC_Ok
  | SC_InvalidArgument
  | SC_NotFound
  | SC_AlreadyExists
  | SC_OutOfRange
  | SC_CapacityExceeded
  | SC_CorruptData
  | SC_Unsupported
  | SC_Rejected
  | SC_Cancelled
  | SC_Conflict
  | SC_IoError
  | SC_VersionMismatch
  | SC_Internal

primrec status_code_to_string :: "status_code \<Rightarrow> string" where
  "status_code_to_string SC_Ok = ''ok''"
| "status_code_to_string SC_InvalidArgument = ''invalid_argument''"
| "status_code_to_string SC_NotFound = ''not_found''"
| "status_code_to_string SC_AlreadyExists = ''already_exists''"
| "status_code_to_string SC_OutOfRange = ''out_of_range''"
| "status_code_to_string SC_CapacityExceeded = ''capacity_exceeded''"
| "status_code_to_string SC_CorruptData = ''corrupt_data''"
| "status_code_to_string SC_Unsupported = ''unsupported''"
| "status_code_to_string SC_Rejected = ''rejected''"
| "status_code_to_string SC_Cancelled = ''cancelled''"
| "status_code_to_string SC_Conflict = ''conflict''"
| "status_code_to_string SC_IoError = ''io_error''"
| "status_code_to_string SC_VersionMismatch = ''version_mismatch''"
| "status_code_to_string SC_Internal = ''internal''"

definition is_data_fault :: "status_code \<Rightarrow> bool" where
  "is_data_fault code \<longleftrightarrow>
     code = SC_CorruptData \<or> code = SC_VersionMismatch \<or> code = SC_OutOfRange \<or>
     code = SC_InvalidArgument"

record status =
  status_code :: status_code
  status_message :: string

definition status_success :: status where
  "status_success = \<lparr>status_code = SC_Ok, status_message = []\<rparr>"

definition status_of :: "status_code \<Rightarrow> string \<Rightarrow> status" where
  "status_of code message = \<lparr>status_code = code, status_message = message\<rparr>"

definition status_ok :: "status \<Rightarrow> bool" where
  "status_ok s \<longleftrightarrow> status_code s = SC_Ok"

definition status_to_string :: "status \<Rightarrow> string" where
  "status_to_string s =
     status_code_to_string (status_code s)
     @ (if status_message s \<noteq> [] then '': '' @ status_message s else [])"

type_synonym 'a result = "status + 'a"

definition failure :: "status_code \<Rightarrow> string \<Rightarrow> 'a result" where
  "failure code message = Inl (status_of code message)"

text \<open>
  \<^verbatim>\<open>auto x = f(); if (!x.ok()) return failure(x.status().code(), x.status().message());\<close> The
  failure is handed on unchanged.
\<close>

primrec res_bind :: "'a result \<Rightarrow> ('a \<Rightarrow> 'b result) \<Rightarrow> 'b result" where
  "res_bind (Inl e) f = Inl e"
| "res_bind (Inr x) f = f x"

lemma res_bind_Inr_iff: "res_bind m f = Inr y \<longleftrightarrow> (\<exists>x. m = Inr x \<and> f x = Inr y)"
  by (cases m) simp_all

lemma failure_not_Inr [simp]: "failure c m \<noteq> Inr x"
  by (simp add: failure_def)

lemma status_ok_success [simp]: "status_ok status_success"
  by (simp add: status_ok_def status_success_def)

lemma status_ok_of [simp]: "status_ok (status_of c m) \<longleftrightarrow> c = SC_Ok"
  by (simp add: status_ok_def status_of_def)

lemma status_code_of [simp]: "status_code (status_of c m) = c"
  by (simp add: status_of_def)

lemma status_code_success [simp]: "status_code status_success = SC_Ok"
  by (simp add: status_success_def)

end
