(* ===== verification/Checked.thy ===== *)
theory Checked
  imports Prelude
begin

text \<open>
  Checked arithmetic (\<^verbatim>\<open>include/linkobs/core/checked.hpp\<close>). \<^verbatim>\<open>Checked<T>\<close> is an
  \<open>option\<close>: \<open>None\<close> is \<^verbatim>\<open>ok == false\<close>. The 128-bit intermediate value is a pair of
  64-bit limbs; the two shift-and-subtract dividers are modelled bit by bit and proved against
  one long-division function on natural numbers.
\<close>

section \<open>64-bit operations\<close>

definition checked_add :: "u64 \<Rightarrow> u64 \<Rightarrow> u64 option" where
  "checked_add lhs rhs = (if rhs > u64_max - lhs then None else Some (lhs + rhs))"

definition checked_sub :: "u64 \<Rightarrow> u64 \<Rightarrow> u64 option" where
  "checked_sub lhs rhs = (if rhs > lhs then None else Some (lhs - rhs))"

definition checked_mul :: "u64 \<Rightarrow> u64 \<Rightarrow> u64 option" where
  "checked_mul lhs rhs =
     (if lhs = 0 \<or> rhs = 0 then Some 0
      else if lhs > u64_max div rhs then None
      else Some (lhs * rhs))"

definition checked_div :: "u64 \<Rightarrow> u64 \<Rightarrow> u64 option" where
  "checked_div lhs rhs = (if rhs = 0 then None else Some (lhs div rhs))"

text \<open>The signed overloads. The guards are the code's, so the additions they admit stay in range.\<close>

definition checked_add_i64 :: "i64 \<Rightarrow> i64 \<Rightarrow> i64 option" where
  "checked_add_i64 lhs rhs =
     (if rhs > 0 \<and> lhs > i64_max - rhs then None
      else if rhs < 0 \<and> lhs < i64_min - rhs then None
      else Some (lhs + rhs))"

definition checked_sub_i64 :: "i64 \<Rightarrow> i64 \<Rightarrow> i64 option" where
  "checked_sub_i64 lhs rhs =
     (if rhs = i64_min then None else checked_add_i64 lhs (- rhs))"

definition to_unsigned :: "i64 \<Rightarrow> u64 option" where
  "to_unsigned v = (if v < 0 then None else Some (word_of_int v))"

definition to_signed :: "u64 \<Rightarrow> i64 option" where
  "to_signed v = (if v > word_of_int i64_max then None else Some (uint v))"

section \<open>128-bit intermediates\<close>

record u128 =
  u128_hi :: u64
  u128_lo :: u64

definition mk_u128 :: "u64 \<Rightarrow> u64 \<Rightarrow> u128" where
  "mk_u128 h l = \<lparr>u128_hi = h, u128_lo = l\<rparr>"

definition u128_is_zero :: "u128 \<Rightarrow> bool" where
  "u128_is_zero x \<longleftrightarrow> u128_hi x = 0 \<and> u128_lo x = 0"

definition u128_compare :: "u128 \<Rightarrow> u128 \<Rightarrow> int" where
  "u128_compare lhs rhs =
     (if u128_hi lhs \<noteq> u128_hi rhs then (if u128_hi lhs < u128_hi rhs then - 1 else 1)
      else if u128_lo lhs \<noteq> u128_lo rhs then (if u128_lo lhs < u128_lo rhs then - 1 else 1)
      else 0)"

definition u128_from_u64 :: "u64 \<Rightarrow> u128" where
  "u128_from_u64 v = mk_u128 0 v"

definition u128_mul_u64 :: "u64 \<Rightarrow> u64 \<Rightarrow> u128" where
  "u128_mul_u64 lhs rhs =
     (let lhs_low = lhs AND 0xFFFFFFFF;
          lhs_high = drop_bit 32 lhs;
          rhs_low = rhs AND 0xFFFFFFFF;
          rhs_high = drop_bit 32 rhs;
          low_low = lhs_low * rhs_low;
          low_high = lhs_low * rhs_high;
          high_low = lhs_high * rhs_low;
          high_high = lhs_high * rhs_high;
          middle = low_high + drop_bit 32 low_low + (high_low AND 0xFFFFFFFF);
          result_lo = push_bit 32 middle OR (low_low AND 0xFFFFFFFF);
          result_hi = high_high + drop_bit 32 high_low + drop_bit 32 middle
      in mk_u128 result_hi result_lo)"

definition u128_bit :: "u128 \<Rightarrow> nat \<Rightarrow> u64" where
  "u128_bit x b =
     (if b \<ge> 64 then drop_bit (b - 64) (u128_hi x) AND 1 else drop_bit b (u128_lo x) AND 1)"

text \<open>
  The body of the divider loop for \<open>bit = b\<close>; the first argument counts the iterations left, so
  \<open>bit\<close> is that count minus one, from 127 down to 0.
\<close>

fun u128_div_u64_loop :: "nat \<Rightarrow> u128 \<Rightarrow> u64 \<Rightarrow> u64 \<Rightarrow> u64 \<Rightarrow> u64 option" where
  "u128_div_u64_loop 0 dividend divisor quot rem = Some quot"
| "u128_div_u64_loop (Suc b) dividend divisor quot rem =
     (if rem > drop_bit 1 u64_max then None
      else let rem' = push_bit 1 rem OR u128_bit dividend b in
        if rem' \<ge> divisor then
          (if b < 64
           then u128_div_u64_loop b dividend divisor (quot OR push_bit b 1)
                  (rem' - divisor)
           else None)
        else u128_div_u64_loop b dividend divisor quot rem')"

definition u128_div_u64 :: "u128 \<Rightarrow> u64 \<Rightarrow> u64 option" where
  "u128_div_u64 dividend divisor =
     (if divisor = 0 then None else u128_div_u64_loop 128 dividend divisor 0 0)"

definition u128_sub :: "u128 \<Rightarrow> u128 \<Rightarrow> u128" where
  "u128_sub lhs rhs =
     (let borrow = (if u128_lo lhs < u128_lo rhs then 1 else 0)
      in mk_u128 (u128_hi lhs - u128_hi rhs - borrow) (u128_lo lhs - u128_lo rhs))"

definition u128_shl1 :: "u128 \<Rightarrow> u128" where
  "u128_shl1 x =
     mk_u128 (push_bit 1 (u128_hi x) OR drop_bit 63 (u128_lo x)) (push_bit 1 (u128_lo x))"

definition u128_high_bit :: "u128 \<Rightarrow> bool" where
  "u128_high_bit x \<longleftrightarrow> drop_bit 63 (u128_hi x) \<noteq> 0"

fun u128_div_u128_loop :: "nat \<Rightarrow> u128 \<Rightarrow> u128 \<Rightarrow> u64 \<Rightarrow> u128 \<Rightarrow> u64 option" where
  "u128_div_u128_loop 0 numerator denominator quot rem = Some quot"
| "u128_div_u128_loop (Suc b) numerator denominator quot rem =
     (let carry = u128_high_bit rem;
          shifted = u128_shl1 rem;
          rem' = shifted\<lparr>u128_lo := u128_lo shifted OR u128_bit numerator b\<rparr>;
          subtract = (carry \<or> u128_compare rem' denominator \<ge> 0)
      in if subtract
         then (if b \<ge> 64 then None
               else u128_div_u128_loop b numerator denominator (quot OR push_bit b 1)
                      (u128_sub rem' denominator))
         else u128_div_u128_loop b numerator denominator quot rem')"

definition u128_div_u128 :: "u128 \<Rightarrow> u128 \<Rightarrow> u64 option" where
  "u128_div_u128 numerator denominator =
     (if u128_is_zero denominator then None
      else u128_div_u128_loop 128 numerator denominator 0 (mk_u128 0 0))"

definition checked_mul_div :: "u64 \<Rightarrow> u64 \<Rightarrow> u64 \<Rightarrow> u64 option" where
  "checked_mul_div lhs rhs divisor =
     (if divisor = 0 then None else u128_div_u64 (u128_mul_u64 lhs rhs) divisor)"

section \<open>Reference functions\<close>

text \<open>The number a pair of limbs stands for.\<close>

definition u128_val :: "u128 \<Rightarrow> nat" where
  "u128_val x = unat (u128_hi x) * 2 ^ 64 + unat (u128_lo x)"

text \<open>
  The reference: binary long division on natural numbers, most significant bit first, with the
  64-bit quotient check of the code.
\<close>

fun long_div :: "nat \<Rightarrow> nat \<Rightarrow> nat \<Rightarrow> nat \<Rightarrow> nat \<Rightarrow> nat option" where
  "long_div 0 n d q r = Some q"
| "long_div (Suc b) n d q r =
     (let r' = 2 * r + n div 2 ^ b mod 2 in
      if d \<le> r' then (if b < 64 then long_div b n d (q + 2 ^ b) (r' - d) else None)
      else long_div b n d q r')"

section \<open>Correctness of the 64-bit operations\<close>

lemma checked_add_spec:
  "checked_add a b =
     (if unat a + unat b < 2 ^ 64 then Some (of_nat (unat a + unat b)) else None)"
proof -
  have "unat (u64_max - a) = 18446744073709551615 - unat a"
    by (subst unat_minus_u64) (simp_all add: word_to_nat unat_u64_le)
  then show ?thesis
    using unat_u64_lt [of a] unat_u64_lt [of b]
    by (auto simp: checked_add_def less_u64_iff)
qed

lemma checked_mul_spec:
  "checked_mul a b =
     (if unat a * unat b < 2 ^ 64 then Some (of_nat (unat a * unat b)) else None)"
proof (cases "a = 0 \<or> b = 0")
  case True
  then show ?thesis by (auto simp: checked_mul_def)
next
  case False
  then have b: "0 < unat b" by (simp add: unat_gt_0)
  have "a > u64_max div b \<longleftrightarrow> 18446744073709551615 div unat b < unat a"
    by (simp add: less_u64_iff unat_div)
  also have "\<dots> \<longleftrightarrow> 18446744073709551615 < unat a * unat b"
    using b by (simp add: div_less_iff_less_mult)
  finally show ?thesis
    using False by (auto simp: checked_mul_def)
qed

lemma checked_add_i64_spec:
  "in_i64 a \<Longrightarrow> in_i64 b \<Longrightarrow>
     checked_add_i64 a b = (if in_i64 (a + b) then Some (a + b) else None)"
  by (auto simp: checked_add_i64_def in_i64_def)

lemma checked_sub_i64_spec:
  "in_i64 a \<Longrightarrow> in_i64 b \<Longrightarrow> b \<noteq> i64_min \<Longrightarrow>
     checked_sub_i64 a b = (if in_i64 (a - b) then Some (a - b) else None)"
  by (auto simp: checked_sub_i64_def checked_add_i64_def in_i64_def)

section \<open>Correctness of the 128-bit multiplication\<close>

lemma unat_low32: "unat (w AND 0xFFFFFFFF :: u64) = unat w mod 4294967296"
proof -
  have "w AND 0xFFFFFFFF = w mod 4294967296"
    using take_bit_eq_mask [of 32 w] by (simp add: mask_eq_exp_minus_1 take_bit_eq_mod)
  then show ?thesis by (simp add: unat_mod)
qed

lemma unat_drop_bit_u64: "n < 64 \<Longrightarrow> unat (drop_bit n w :: u64) = unat w div 2 ^ n"
  by (simp add: unat_drop_bit_eq drop_bit_nat_def)

lemma unat_high32: "unat (drop_bit 32 w :: u64) = unat w div 4294967296"
  by (simp only: unat_drop_bit_u64) (simp)

lemma bit_above_unat: "unat (l :: u64) < 2 ^ n \<Longrightarrow> n \<le> i \<Longrightarrow> \<not> bit l i"
proof -
  assume "unat l < 2 ^ n" and "n \<le> i"
  then have "unat l < 2 ^ i"
    by (meson less_le_trans numeral_One one_le_numeral power_increasing)
  then have "\<not> bit (unat l) i" by (simp add: bit_iff_odd)
  then show ?thesis by (simp add: bit_unsigned_iff)
qed

lemma or_push_low:
  assumes "unat l < 2 ^ n"
  shows "push_bit n (h :: u64) OR l = push_bit n h + l"
proof -
  have "push_bit n h AND l = 0"
    using bit_above_unat [OF assms] by (auto simp: bit_eq_iff bit_simps)
  then show ?thesis by (simp add: disjunctive_add_eq_or)
qed

lemma unat_push_bit_u64: "unat (push_bit n w :: u64) = (unat w * 2 ^ n) mod 18446744073709551616"
  by (simp only: unsigned_push_bit_eq push_bit_nat_def take_bit_nat_def) simp

lemma mul_limbs_bound:
  fixes a b c d :: nat
  assumes "a < 4294967296" "b < 4294967296" "c < 4294967296" "d < 4294967296"
  shows "a * b + c + d < 18446744073709551616"
proof -
  have "a * b \<le> 4294967295 * 4294967295"
    using assms by (intro mult_le_mono) auto
  with assms show ?thesis by simp
qed

text \<open>Schoolbook multiplication on 32-bit limbs: the columns carry, and nothing is lost.\<close>

lemma schoolbook:
  fixes B al ah bl bh :: nat
  defines "ll \<equiv> al * bl" and "lh \<equiv> al * bh" and "hl \<equiv> ah * bl" and "hh \<equiv> ah * bh"
  defines "m \<equiv> lh + ll div B + hl mod B"
  shows "(hh + hl div B + m div B) * (B * B) + ((m mod B) * B + ll mod B)
         = (ah * B + al) * (bh * B + bl)"
proof -
  have m: "m div B * B + m mod B = m" by simp
  have ll: "ll div B * B + ll mod B = ll" and hl: "hl div B * B + hl mod B = hl" by simp_all
  have "(hh + hl div B + m div B) * (B * B) + ((m mod B) * B + ll mod B)
        = hh * B * B + hl div B * B * B + (m div B * B + m mod B) * B + ll mod B"
    by (simp only: distrib_right mult.assoc add.assoc)
  also have "\<dots> = hh * B * B + (hl div B * B + hl mod B) * B + lh * B + (ll div B * B + ll mod B)"
    unfolding m by (simp only: m_def distrib_right distrib_left ac_simps)
  also have "\<dots> = (ah * B + al) * (bh * B + bl)"
    unfolding ll hl by (simp add: ll_def lh_def hl_def hh_def algebra_simps)
  finally show ?thesis .
qed

lemma join_limbs:
  "unat (push_bit 32 m OR (w AND 0xFFFFFFFF) :: u64) = unat m mod 4294967296 * 4294967296 + unat w mod 4294967296"
proof -
  have low: "unat (w AND 0xFFFFFFFF) < 2 ^ 32" by (simp only: unat_low32) simp
  have "unat m * 2 ^ 32 mod 18446744073709551616 = unat m mod 4294967296 * 4294967296"
    using mult_mod_left [of "unat m" 4294967296 4294967296] by simp
  moreover have "unat m mod 4294967296 * 4294967296 + unat w mod 4294967296 < 18446744073709551616"
  proof -
    have "unat m mod 4294967296 \<le> 4294967295" "unat w mod 4294967296 < 4294967296" by simp_all
    then show ?thesis by linarith
  qed
  ultimately show ?thesis
    by (simp only: or_push_low [OF low] unat_plus_u64 unat_push_bit_u64 unat_low32) simp
qed

lemma u128_mul_u64_exact: "u128_val (u128_mul_u64 a b) = unat a * unat b"
proof -
  define al ah bl bh where "al = unat a mod 4294967296" and "ah = unat a div 4294967296"
    and "bl = unat b mod 4294967296" and "bh = unat b div 4294967296"
  define m where "m = al * bh + al * bl div 4294967296 + ah * bl mod 4294967296"
  have small: "al < 4294967296" "ah < 4294967296" "bl < 4294967296" "bh < 4294967296"
    using unat_u64_lt [of a] unat_u64_lt [of b]
    by (simp_all add: al_def ah_def bl_def bh_def)
  note prod_lt = mul_limbs_bound [of _ _ 0 0, simplified]
  have m: "m < 18446744073709551616"
    using small prod_lt [of al bl] unfolding m_def by (intro mul_limbs_bound) simp_all
  have hi: "ah * bh + ah * bl div 4294967296 + m div 4294967296 < 18446744073709551616"
    using small m prod_lt [of ah bl] by (intro mul_limbs_bound) simp_all
  let ?al = "a AND 0xFFFFFFFF" and ?ah = "drop_bit 32 a"
    and ?bl = "b AND 0xFFFFFFFF" and ?bh = "drop_bit 32 b"
  have prod: "unat (?al * ?bl) = al * bl" "unat (?al * ?bh) = al * bh"
      "unat (?ah * ?bl) = ah * bl" "unat (?ah * ?bh) = ah * bh"
    using small by (simp_all only: unat_mult_u64 unat_low32 unat_high32 prod_lt mod_less
        flip: al_def ah_def bl_def bh_def)
  define mw where "mw = ?al * ?bh + drop_bit 32 (?al * ?bl) + (?ah * ?bl AND 0xFFFFFFFF)"
  have mw: "unat mw = m"
    using m by (simp only: mw_def unat_plus_u64 unat_high32 unat_low32 prod m_def) simp
  have hw: "unat (?ah * ?bh + drop_bit 32 (?ah * ?bl) + drop_bit 32 mw)
      = ah * bh + ah * bl div 4294967296 + m div 4294967296"
    using hi by (simp only: unat_plus_u64 unat_high32 prod mw) simp
  have "u128_mul_u64 a b = mk_u128 (?ah * ?bh + drop_bit 32 (?ah * ?bl) + drop_bit 32 mw)
      (push_bit 32 mw OR (?al * ?bl AND 0xFFFFFFFF))"
    by (simp only: u128_mul_u64_def Let_def mw_def)
  then have "u128_val (u128_mul_u64 a b)
      = (ah * bh + ah * bl div 4294967296 + m div 4294967296) * (4294967296 * 4294967296)
        + (m mod 4294967296 * 4294967296 + al * bl mod 4294967296)"
    by (simp only: u128_val_def mk_u128_def u128.simps hw join_limbs mw prod) simp
  also have "\<dots> = (ah * 4294967296 + al) * (bh * 4294967296 + bl)"
    unfolding m_def by (rule schoolbook)
  also have "\<dots> = unat a * unat b"
    by (simp add: ah_def al_def bh_def bl_def)
  finally show ?thesis .
qed

section \<open>Correctness of the dividers\<close>

lemma mod_Suc_bit: "(n :: nat) mod 2 ^ Suc b = (n div 2 ^ b mod 2) * 2 ^ b + n mod 2 ^ b"
  by (metis add.commute mod_mult2_eq mult.commute power_Suc)

lemma partial_quotient_bound:
  fixes r d b y :: nat
  assumes "r < d" and "y < 2 ^ b"
  shows "(r * 2 ^ b + y) div d < 2 ^ b"
proof -
  have "r * 2 ^ b + y < Suc r * 2 ^ b" using assms by simp
  also have "\<dots> \<le> d * 2 ^ b" using assms by (intro mult_le_mono1) simp
  finally show ?thesis by (simp add: less_mult_imp_div_less mult.commute)
qed

lemma subtract_multiple:
  fixes d r k y :: nat
  assumes "d \<le> r"
  shows "r * k + y = k * d + ((r - d) * k + y)"
proof -
  obtain e where "r = d + e" using assms le_Suc_ex by blast
  then show ?thesis by (simp add: algebra_simps)
qed

lemma long_div_spec:
  assumes "r < d"
  shows "long_div b n d q r =
    (let x = (r * 2 ^ b + n mod 2 ^ b) div d in if x < 2 ^ 64 then Some (q + x) else None)"
  using assms
proof (induction b arbitrary: q r)
  case 0
  then show ?case by simp
next
  case (Suc b)
  let ?r' = "2 * r + n div 2 ^ b mod 2" and ?y = "n mod 2 ^ b"
  have split: "r * 2 ^ Suc b + n mod 2 ^ Suc b = ?r' * 2 ^ b + ?y"
    unfolding mod_Suc_bit by (simp add: algebra_simps)
  show ?case
  proof (cases "d \<le> ?r'")
    case True
    with Suc.prems have less: "?r' - d < d" by linarith
    let ?x = "((?r' - d) * 2 ^ b + ?y) div d"
    have "?r' * 2 ^ b + ?y = 2 ^ b * d + ((?r' - d) * 2 ^ b + ?y)"
      using True by (rule subtract_multiple)
    then have whole: "(r * 2 ^ Suc b + n mod 2 ^ Suc b) div d = 2 ^ b + ?x"
      using Suc.prems by (simp only: split) (rule div_mult_self3, simp)
    have "?x < 2 ^ b" by (rule partial_quotient_bound [OF less]) simp
    show ?thesis
    proof (cases "b < 64")
      case b: True
      then have "(2::nat) ^ Suc b \<le> 2 ^ 64" by (intro power_increasing) auto
      with \<open>?x < 2 ^ b\<close> have fit: "2 ^ b + ?x < 2 ^ 64" "?x < 2 ^ 64" by simp_all
      then show ?thesis
        using True b Suc.IH [OF less] by (simp only: long_div.simps whole Let_def) simp
    next
      case b: False
      then have "(2::nat) ^ 64 \<le> 2 ^ b" by (intro power_increasing) auto
      then have "\<not> 2 ^ b + ?x < 2 ^ 64" by simp
      then show ?thesis
        using True b by (simp only: long_div.simps whole Let_def) simp
    qed
  next
    case False
    then show ?thesis
      using Suc.IH [of ?r' q] by (simp only: long_div.simps split Let_def) simp
  qed
qed

lemma long_div_128:
  assumes "0 < d" and "n < 2 ^ 128"
  shows "long_div 128 n d 0 0 = (if n div d < 2 ^ 64 then Some (n div d) else None)"
  using long_div_spec [of 0 d 128 n 0] assms by (simp add: Let_def)

subsection \<open>The word loops refine long division\<close>

lemma u128_val_lt: "u128_val x < 2 ^ 128"
  using unat_u64_lt [of "u128_hi x"] unat_u64_lt [of "u128_lo x"] by (simp add: u128_val_def)

lemma and_one_u64: "unat (w AND 1 :: u64) = unat w mod 2"
  by (simp add: and_one_eq unat_mod)

lemma u128_bit_val:
  assumes "b < 128"
  shows "unat (u128_bit x b) = u128_val x div 2 ^ b mod 2"
proof (cases "64 \<le> b")
  case True
  then have "(2::nat) ^ b = 2 ^ 64 * 2 ^ (b - 64)" by (simp only: flip: power_add) simp
  then have "u128_val x div 2 ^ b = unat (u128_hi x) div 2 ^ (b - 64)"
    using unat_u64_lt [of "u128_lo x"] by (simp add: u128_val_def div_mult2_eq)
  with True assms show ?thesis
    by (simp add: u128_bit_def and_one_u64 unat_drop_bit_u64)
next
  case False
  then obtain k where k: "64 = b + Suc k"
    by (metis less_iff_Suc_add not_le add_Suc_right)
  have "u128_val x div 2 ^ b = unat (u128_hi x) * 2 ^ Suc k + unat (u128_lo x) div 2 ^ b"
    unfolding u128_val_def k power_add
    by (subst mult.left_commute) (rule div_mult_self4, simp)
  with False show ?thesis
    by (simp add: u128_bit_def and_one_u64 unat_drop_bit_u64 mod_add_eq [symmetric, of "_ * (2 * _)"])
qed

lemma u128_bit_small: "unat (u128_bit x b) < 2 ^ 1"
  by (simp add: u128_bit_def and_one_u64)

lemma quotient_bit:
  assumes "\<forall>i < Suc b. \<not> bit (q :: u64) i" and "b < 64"
  shows "unat (q OR push_bit b 1) = unat q + 2 ^ b" and "\<forall>i < b. \<not> bit (q OR push_bit b 1) i"
proof -
  have "unat q AND 2 ^ b = 0"
  proof (rule bit_eqI)
    fix i
    show "bit (unat q AND 2 ^ b) i = bit (0 :: nat) i"
      using assms by (cases "i = b") (auto simp: bit_simps bit_unsigned_iff)
  qed
  moreover have "unat (push_bit b 1 :: u64) = 2 ^ b"
    using assms(2) power_strict_increasing [of b 64 "2 :: nat"]
    by (simp only: unat_push_bit_u64) simp
  ultimately show "unat (q OR push_bit b 1) = unat q + 2 ^ b"
    by (simp add: unsigned_or_eq disjunctive_add_eq_or)
  show "\<forall>i < b. \<not> bit (q OR push_bit b 1) i"
    using assms by (auto simp: bit_simps)
qed

lemma shift_in_bit:
  assumes "unat r < 9223372036854775808" and "b < 128"
  shows "unat (push_bit 1 r OR u128_bit x b) = 2 * unat r + u128_val x div 2 ^ b mod 2"
proof -
  have "unat (u128_bit x b) < 2" using u128_bit_small [of x b] by simp
  with assms(1) show ?thesis
    by (simp only: or_push_low [OF u128_bit_small] unat_plus_u64 unat_push_bit_u64
        flip: u128_bit_val [OF assms(2)]) simp
qed

lemma u128_div_u64_loop_refines:
  assumes "b \<le> 128" and "unat r < unat d" and "\<forall>i < b. \<not> bit q i"
  shows "map_option unat (u128_div_u64_loop b x d q r) = long_div b (u128_val x) (unat d) (unat q) (unat r)
    \<or> u128_div_u64_loop b x d q r = None \<and> 2 ^ 63 < unat d"
  using assms
proof (induction b arbitrary: q r)
  case 0
  then show ?case by simp
next
  case (Suc b)
  show ?case
  proof (cases "r > drop_bit 1 u64_max")
    case True
    then have "9223372036854775807 < unat r" by (simp add: less_u64_iff)
    with Suc.prems(2) have "2 ^ 63 < unat d" by simp
    with True show ?thesis by simp
  next
    case False
    then have small: "unat r < 9223372036854775808" by (simp add: less_u64_iff)
    define r' where "r' = push_bit 1 r OR u128_bit x b"
    define n where "n = 2 * unat r + u128_val x div 2 ^ b mod 2"
    have n: "unat r' = n"
      using small Suc.prems(1) unfolding r'_def n_def by (intro shift_in_bit) simp_all
    have n_lt: "n < 2 * unat d" using Suc.prems(2) by (simp add: n_def)
    have loop: "u128_div_u64_loop (Suc b) x d q r =
        (if unat d \<le> n
         then (if b < 64 then u128_div_u64_loop b x d (q OR push_bit b 1) (r' - d) else None)
         else u128_div_u64_loop b x d q r')"
      using False by (simp only: u128_div_u64_loop.simps Let_def if_False n le_u64_iff flip: r'_def)
    have spec: "long_div (Suc b) (u128_val x) (unat d) (unat q) (unat r) =
        (if unat d \<le> n
         then (if b < 64 then long_div b (u128_val x) (unat d) (unat q + 2 ^ b) (n - unat d) else None)
         else long_div b (u128_val x) (unat d) (unat q) n)"
      by (simp only: long_div.simps Let_def n_def)
    show ?thesis
    proof (cases "unat d \<le> n")
      case True
      then have rest: "unat (r' - d) = n - unat d"
        by (simp add: unat_minus_u64 le_u64_iff n)
      show ?thesis
      proof (cases "b < 64")
        case b: True
        note q = quotient_bit [OF Suc.prems(3) b]
        have "unat (r' - d) < unat d" using n_lt True rest by simp
        with Suc.IH [of "r' - d" "q OR push_bit b 1"] q b True Suc.prems(1) rest
        show ?thesis unfolding loop spec by simp
      next
        case False
        with True show ?thesis unfolding loop spec by simp
      qed
    next
      case False
      with Suc.IH [of r' q] Suc.prems n show ?thesis unfolding loop spec by simp
    qed
  qed
qed

lemma u128_compare_val: "0 \<le> u128_compare x y \<longleftrightarrow> u128_val y \<le> u128_val x"
  using unat_u64_lt [of "u128_lo x"] unat_u64_lt [of "u128_lo y"]
  by (auto simp: u128_compare_def u128_val_def less_u64_iff eq_u64_iff)

lemma u128_high_bit_val: "u128_high_bit x \<longleftrightarrow> 2 ^ 127 \<le> u128_val x"
proof -
  have "u128_high_bit x \<longleftrightarrow> unat (drop_bit 63 (u128_hi x)) \<noteq> 0"
    by (simp only: u128_high_bit_def unat_eq_zero)
  also have "\<dots> \<longleftrightarrow> 9223372036854775808 \<le> unat (u128_hi x)"
    by (simp only: unat_drop_bit_u64) (simp add: div_greater_zero_iff)
  finally show ?thesis
    using unat_u64_lt [of "u128_lo x"] by (auto simp: u128_val_def)
qed

lemma u128_sub_val:
  assumes "u128_val y \<le> u128_val x + c * 2 ^ 128" and "u128_val x + c * 2 ^ 128 - u128_val y < 2 ^ 128"
  shows "u128_val (u128_sub x y) = u128_val x + c * 2 ^ 128 - u128_val y"
proof -
  have c: "c \<le> 1"
  proof (rule ccontr)
    assume "\<not> c \<le> 1"
    then have "2 * 2 ^ 128 \<le> c * (2 :: nat) ^ 128" by (intro mult_le_mono1) simp
    with assms(2) u128_val_lt [of y] show False by linarith
  qed
  note bounds = unat_u64_lt [of "u128_lo x"] unat_u64_lt [of "u128_lo y"]
    unat_u64_lt [of "u128_hi x"] unat_u64_lt [of "u128_hi y"]
  note defs = u128_sub_def mk_u128_def u128_val_def unat_sub_if' less_u64_iff
  consider "c = 0" | "c = 1" using c by linarith
  then show ?thesis
  proof cases
    case 1
    with assms bounds show ?thesis by (auto simp: defs)
  next
    case 2
    have "unat (u128_hi x) \<le> unat (u128_hi y)"
      using assms(2) bounds 2 by (simp add: u128_val_def)
    moreover have "unat (u128_hi x) = unat (u128_hi y) \<Longrightarrow> unat (u128_lo x) < unat (u128_lo y)"
      using assms(2) bounds 2 by (simp add: u128_val_def)
    ultimately consider "u128_hi x = u128_hi y" "unat (u128_lo x) < unat (u128_lo y)"
      | "unat (u128_hi x) < unat (u128_hi y)"
      by (auto simp: eq_u64_iff le_less)
    then show ?thesis
      using assms bounds 2
      by cases (auto simp: defs unsigned_minus_1_eq_mask mask_eq_exp_minus_1)
  qed
qed

lemma double_mod_u64:
  "(n :: nat) < 18446744073709551616 \<Longrightarrow>
     n * 2 mod 18446744073709551616 = (if n < 9223372036854775808 then 2 * n else 2 * n - 18446744073709551616)"
  by (auto simp: mod_if)

lemma top_bit_div: "n < 18446744073709551616 \<Longrightarrow> n div 9223372036854775808 = (if n < 9223372036854775808 then 0 else (1 :: nat))"
  by (auto simp: div_if)

lemma u128_shift_in_val:
  fixes x r :: u128
  assumes "b < 128"
  defines "s \<equiv> u128_shl1 r"
  shows "u128_val (s\<lparr>u128_lo := u128_lo s OR u128_bit x b\<rparr>) + of_bool (u128_high_bit r) * 2 ^ 128
    = 2 * u128_val r + u128_val x div 2 ^ b mod 2"
proof -
  define h l t where "h = unat (u128_hi r)" and "l = unat (u128_lo r)" and "t = unat (u128_bit x b)"
  have bounds: "h < 18446744073709551616" "l < 18446744073709551616" "t < 2"
    using u128_bit_small [of x b] by (simp_all add: h_def l_def t_def unat_u64_lt)
  have top: "unat (drop_bit 63 (u128_lo r)) = l div 9223372036854775808"
    by (simp only: unat_drop_bit_u64 l_def) simp
  then have top1: "unat (drop_bit 63 (u128_lo r)) < 2 ^ 1" using bounds by simp
  have hi: "unat (u128_hi s) = h * 2 mod 18446744073709551616 + l div 9223372036854775808"
    unfolding s_def u128_shl1_def mk_u128_def u128.simps or_push_low [OF top1]
    by (simp only: unat_plus_u64 unat_push_bit_u64 top flip: h_def)
      (use bounds in \<open>auto simp: double_mod_u64 top_bit_div\<close>)
  have lo: "unat (u128_lo s OR u128_bit x b) = l * 2 mod 18446744073709551616 + t"
    unfolding s_def u128_shl1_def mk_u128_def u128.simps or_push_low [OF u128_bit_small]
    by (simp only: unat_plus_u64 unat_push_bit_u64 flip: l_def t_def)
      (use bounds in \<open>auto simp: double_mod_u64\<close>)
  have "u128_high_bit r \<longleftrightarrow> 9223372036854775808 \<le> h"
    using bounds by (auto simp: u128_high_bit_val u128_val_def h_def l_def)
  then show ?thesis
    unfolding u128_bit_val [OF assms(1), symmetric]
    using bounds
    by (simp add: u128_val_def hi lo double_mod_u64 top_bit_div diff_mult_distrib flip: h_def l_def t_def)
qed

lemma u128_div_u128_loop_refines:
  assumes "b \<le> 128" and "u128_val r < u128_val d" and "\<forall>i < b. \<not> bit q i"
  shows "map_option unat (u128_div_u128_loop b x d q r)
    = long_div b (u128_val x) (u128_val d) (unat q) (u128_val r)"
  using assms
proof (induction b arbitrary: q r)
  case 0
  then show ?case by simp
next
  case (Suc b)
  define s where "s = u128_shl1 r"
  define r' where "r' = s\<lparr>u128_lo := u128_lo s OR u128_bit x b\<rparr>"
  define c :: nat where "c = of_bool (u128_high_bit r)"
  define n where "n = 2 * u128_val r + u128_val x div 2 ^ b mod 2"
  have n: "u128_val r' + c * 2 ^ 128 = n"
    using u128_shift_in_val [of b r x] Suc.prems(1) by (simp add: r'_def s_def c_def n_def)
  have n_lt: "n < 2 * u128_val d" using Suc.prems(2) by (simp add: n_def)
  have sub: "u128_high_bit r \<or> u128_compare r' d \<ge> 0 \<longleftrightarrow> u128_val d \<le> n"
    using n u128_val_lt [of d] by (cases "u128_high_bit r") (auto simp: u128_compare_val c_def)
  have loop: "u128_div_u128_loop (Suc b) x d q r =
      (if u128_val d \<le> n
       then (if b \<ge> 64 then None else u128_div_u128_loop b x d (q OR push_bit b 1) (u128_sub r' d))
       else u128_div_u128_loop b x d q r')"
    by (simp only: u128_div_u128_loop.simps Let_def flip: s_def r'_def sub)
  have spec: "long_div (Suc b) (u128_val x) (u128_val d) (unat q) (u128_val r) =
      (if u128_val d \<le> n
       then (if b < 64 then long_div b (u128_val x) (u128_val d) (unat q + 2 ^ b) (n - u128_val d) else None)
       else long_div b (u128_val x) (u128_val d) (unat q) n)"
    by (simp only: long_div.simps Let_def n_def)
  show ?case
  proof (cases "u128_val d \<le> n")
    case True
    have rest: "u128_val (u128_sub r' d) = n - u128_val d"
      using u128_sub_val [of d r' c] n n_lt True u128_val_lt [of d] by simp
    show ?thesis
    proof (cases "b < 64")
      case b: True
      note q = quotient_bit [OF Suc.prems(3) b]
      have "u128_val (u128_sub r' d) < u128_val d" using n_lt True rest by simp
      with Suc.IH [of "u128_sub r' d" "q OR push_bit b 1"] q b True Suc.prems(1) rest
      show ?thesis unfolding loop spec by simp
    next
      case False
      with True show ?thesis unfolding loop spec by simp
    qed
  next
    case False
    then have "u128_val r' = n" using n sub by (simp add: c_def)
    with Suc.IH [of r' q] False Suc.prems show ?thesis unfolding loop spec by simp
  qed
qed

subsection \<open>Specifications of the dividers\<close>

lemma Some_unat_iff: "map_option unat o1 = Some n \<longleftrightarrow> (\<exists>w. o1 = Some w \<and> unat w = n)"
  by (cases o1) auto

lemma u128_div_u128_spec:
  "map_option unat (u128_div_u128 x d) =
     (if u128_val d = 0 \<or> 2 ^ 64 \<le> u128_val x div u128_val d then None
      else Some (u128_val x div u128_val d))"
proof (cases "u128_val d = 0")
  case True
  then show ?thesis
    by (auto simp: u128_div_u128_def u128_is_zero_def u128_val_def unat_eq_zero)
next
  case False
  then have "\<not> u128_is_zero d" by (auto simp: u128_is_zero_def u128_val_def)
  moreover have "u128_val (mk_u128 0 0) = 0" by (simp add: u128_val_def mk_u128_def)
  ultimately show ?thesis
    using False u128_div_u128_loop_refines [of 128 "mk_u128 0 0" d 0 x] u128_val_lt [of x]
    by (auto simp: u128_div_u128_def long_div_128)
qed

lemma u128_div_u64_sound:
  assumes "u128_div_u64 x d = Some q"
  shows "unat q = u128_val x div unat d"
proof -
  from assms have d: "0 < unat d" and "u128_div_u64_loop 128 x d 0 0 = Some q"
    by (auto simp: u128_div_u64_def unat_gt_0 split: if_splits)
  with u128_div_u64_loop_refines [of 128 0 d 0 x] u128_val_lt [of x] show ?thesis
    by (auto simp: long_div_128 split: if_splits)
qed

lemma u128_div_u64_spec:
  assumes "unat d \<le> 2 ^ 63"
  shows "map_option unat (u128_div_u64 x d) =
     (if d = 0 \<or> 2 ^ 64 \<le> u128_val x div unat d then None else Some (u128_val x div unat d))"
  using assms u128_div_u64_loop_refines [of 128 0 d 0 x] u128_val_lt [of x]
  by (auto simp: u128_div_u64_def long_div_128 unat_gt_0)

lemma checked_mul_div_spec:
  assumes "unat c \<le> 2 ^ 63"
  shows "map_option unat (checked_mul_div a b c) =
     (if c = 0 \<or> 2 ^ 64 \<le> unat a * unat b div unat c then None
      else Some (unat a * unat b div unat c))"
  unfolding checked_mul_div_def
  using u128_div_u64_spec [OF assms, of "u128_mul_u64 a b", unfolded u128_mul_u64_exact] by auto

lemma u128_div_u64_gives_up: "u128_div_u64 (mk_u128 1 0) u64_max = None"
  by code_simp

section \<open>Main results\<close>

text \<open>
  The 64 by 64 bit product computed limb by limb is the exact 128-bit product: no carry is
  lost, whatever the operands.
\<close>

lemma u128_product_exact: "u128_val (u128_mul_u64 a b) = unat a * unat b"
  by (rule u128_mul_u64_exact)

text \<open>
  The 128 by 128 bit divider returns exactly the rounded-down quotient whenever the divisor is
  not zero and the quotient fits 64 bits, and reports failure in every other case.
\<close>

lemma u128_quotient_exact:
  "map_option unat (u128_div_u128 x d) =
     (if u128_val d = 0 \<or> 2 ^ 64 \<le> u128_val x div u128_val d then None
      else Some (u128_val x div u128_val d))"
  by (rule u128_div_u128_spec)

text \<open>
  Multiply-then-divide is exact and fails only for a zero divisor or a quotient that does not
  fit, for every divisor up to \<open>2 ^ 63\<close>.
\<close>

lemma mul_div_exact:
  assumes "unat c \<le> 2 ^ 63"
  shows "map_option unat (checked_mul_div a b c) =
     (if c = 0 \<or> 2 ^ 64 \<le> unat a * unat b div unat c then None
      else Some (unat a * unat b div unat c))"
  using assms by (rule checked_mul_div_spec)

text \<open>
  The bound of the previous statement is needed. For the divisor \<open>2 ^ 64 - 1\<close> the divider
  gives up on the dividend \<open>2 ^ 64\<close>, whose quotient is one.
\<close>

lemma large_divisor_gives_up:
  "u128_div_u64 (mk_u128 1 0) u64_max = None \<and> u128_val (mk_u128 1 0) div unat u64_max = 1"
  using u128_div_u64_gives_up by (simp add: u128_val_def mk_u128_def)

end
