(* ===== verification/Clock.thy ===== *)
theory Clock
  imports Checked
begin

text \<open>
  Explicit time (\<^verbatim>\<open>include/linkobs/time/clock.hpp\<close>, \<^verbatim>\<open>src/time/clock.cpp\<close>).
  \<^verbatim>\<open>TimePoint\<close> and \<^verbatim>\<open>Duration\<close> wrap one signed 64-bit count of nanoseconds. The
  wall clock is an input of the model: every operation that reads the clock takes the instant as
  an argument, as the classes take an injected \<^verbatim>\<open>Clock\<close>.
\<close>

type_synonym time_point = i64
type_synonym duration = i64

definition from_seconds :: "i64 \<Rightarrow> duration" where
  "from_seconds v = v * 1000000000"

definition from_millis :: "i64 \<Rightarrow> duration" where
  "from_millis v = v * 1000000"

definition from_micros :: "i64 \<Rightarrow> duration" where
  "from_micros v = v * 1000"

definition is_negative :: "duration \<Rightarrow> bool" where
  "is_negative d \<longleftrightarrow> d < 0"

definition is_zero :: "duration \<Rightarrow> bool" where
  "is_zero d \<longleftrightarrow> d = 0"

definition magnitude :: "duration \<Rightarrow> duration" where
  "magnitude d = (if d < 0 then - d else d)"

definition difference :: "time_point \<Rightarrow> time_point \<Rightarrow> duration option" where
  "difference later earlier =
     (case checked_sub_i64 later earlier of None \<Rightarrow> None | Some delta \<Rightarrow> Some delta)"

definition advance :: "time_point \<Rightarrow> duration \<Rightarrow> time_point option" where
  "advance origin delta =
     (case checked_add_i64 origin delta of None \<Rightarrow> None | Some s \<Rightarrow> Some s)"

text \<open>\<^verbatim>\<open>ManualClock\<close>: the state is the current instant; a failed advance yields the default
  instant, because the code reads \<^verbatim>\<open>.value\<close> of the empty result.\<close>

definition manual_clock_set :: "time_point \<Rightarrow> time_point \<Rightarrow> time_point" where
  "manual_clock_set current instant = instant"

definition manual_clock_advance_by :: "time_point \<Rightarrow> duration \<Rightarrow> time_point" where
  "manual_clock_advance_by current delta = (case advance current delta of None \<Rightarrow> 0 | Some t \<Rightarrow> t)"

lemma difference_eq: "difference a b = checked_sub_i64 a b"
  by (simp add: difference_def split: option.splits)

lemma advance_eq: "advance a d = checked_add_i64 a d"
  by (simp add: advance_def split: option.splits)

lemma difference_SomeD: "difference a b = Some d \<Longrightarrow> d = a - b"
  by (auto simp: difference_eq checked_sub_i64_def checked_add_i64_def split: if_splits)

lemma difference_exact:
  "in_i64 a \<Longrightarrow> in_i64 b \<Longrightarrow> b \<noteq> i64_min \<Longrightarrow>
     difference a b = (if in_i64 (a - b) then Some (a - b) else None)"
  by (simp add: difference_eq checked_sub_i64_spec)

text \<open>Two instants of the same sign never overflow: every pair of dates after the epoch is fine.\<close>

lemma difference_nonneg:
  "0 \<le> a \<Longrightarrow> a \<le> i64_max \<Longrightarrow> 0 \<le> b \<Longrightarrow> b \<le> i64_max \<Longrightarrow> difference a b = Some (a - b)"
  by (auto simp: difference_eq checked_sub_i64_def checked_add_i64_def)

lemma advance_SomeD: "advance a d = Some t \<Longrightarrow> t = a + d"
  by (auto simp: advance_eq checked_add_i64_def split: if_splits)

lemma difference_advance:
  "in_i64 a \<Longrightarrow> in_i64 d \<Longrightarrow> a \<noteq> i64_min \<Longrightarrow> advance a d = Some t \<Longrightarrow> difference t a = Some d"
  by (auto simp: advance_eq difference_eq checked_sub_i64_def checked_add_i64_def in_i64_def
      split: if_splits)

end
