(* ===== verification/Policy.thy ===== *)
theory Policy
  imports Enums Status Clock
begin

text \<open>
  Policy and resource bounds (\<^verbatim>\<open>include/linkobs/domain/policy.hpp\<close>,
  \<^verbatim>\<open>src/domain/policy.cpp\<close>): the freshness windows, the decision thresholds, every hard
  bound, their defaults and the validator.
\<close>

section \<open>Data\<close>

record freshness_policy =
  fresh_within :: duration
  usable_within :: duration

record limits =
  max_links :: u64
  max_sources :: u64
  max_evidence_per_key :: u64
  max_contenders_per_key :: u64
  max_transitions_per_link :: u64
  max_total_transitions :: u64
  max_result_rows :: u64
  max_record_bytes :: u64
  max_records_per_batch :: u64
  max_ingest_queue_depth :: u64
  max_workers :: u64
  max_snapshot_bytes :: u64
  max_transport_payload_bytes :: u64
  max_transport_connections :: u64
  max_explanation_steps :: u64

record state_thresholds =
  saturation_ppb :: u64
  degraded_quality_ppb :: u64
  error_ratio_ppb :: u64
  conflict_tolerance_ppb :: u64
  discard_ratio_ppb :: u64
  flap_threshold :: u32
  flap_window :: duration
  derivation_window :: duration
  max_history_window :: duration

text \<open>The freshness array is indexed by the enumerator value of the family.\<close>

record policy =
  pol_freshness :: "freshness_policy list"
  pol_thresholds :: state_thresholds
  pol_limits :: limits
  allow_implicit_links :: bool

definition kMetricFamilyCount :: nat where "kMetricFamilyCount = 8"
definition kDirectionCount :: nat where "kDirectionCount = 4"
definition kErrorClassCount :: nat where "kErrorClassCount = 8"

section \<open>Defaults\<close>

definition default_limits :: limits where
  "default_limits = \<lparr>
     max_links = 4096,
     max_sources = 256,
     max_evidence_per_key = 16,
     max_contenders_per_key = 8,
     max_transitions_per_link = 256,
     max_total_transitions = 65536,
     max_result_rows = 4096,
     max_record_bytes = 4096,
     max_records_per_batch = 4096,
     max_ingest_queue_depth = 8192,
     max_workers = 16,
     max_snapshot_bytes = 64 * 1024 * 1024,
     max_transport_payload_bytes = 1024 * 1024,
     max_transport_connections = 16,
     max_explanation_steps = 64\<rparr>"

definition make_freshness :: "i64 \<Rightarrow> i64 \<Rightarrow> freshness_policy" where
  "make_freshness fresh_seconds usable_seconds =
     \<lparr>fresh_within = from_seconds fresh_seconds, usable_within = from_seconds usable_seconds\<rparr>"

definition make_default_policy :: policy where
  "make_default_policy = \<lparr>
     pol_freshness =
       [make_freshness 30 300,
        make_freshness 30 300,
        make_freshness 30 300,
        make_freshness 60 600,
        make_freshness 60 600,
        make_freshness 30 300,
        make_freshness 60 600,
        make_freshness 120 1200],
     pol_thresholds = \<lparr>
       saturation_ppb = 900000000,
       degraded_quality_ppb = 500000000,
       error_ratio_ppb = 1000000,
       conflict_tolerance_ppb = 50000000,
       discard_ratio_ppb = 10000000,
       flap_threshold = 4,
       flap_window = from_seconds 60,
       derivation_window = from_seconds 300,
       max_history_window = from_seconds 3600\<rparr>,
     pol_limits = default_limits,
     allow_implicit_links = False\<rparr>"

section \<open>Validation\<close>

definition kFullScalePpb :: u64 where "kFullScalePpb = 1000000000"

definition require :: "bool \<Rightarrow> string \<Rightarrow> status" where
  "require condition message =
     (if condition then status_success else status_of SC_InvalidArgument message)"

fun validate_freshness :: "freshness_policy list \<Rightarrow> status" where
  "validate_freshness [] = status_success"
| "validate_freshness (entry # rest) =
     (if fresh_within entry \<le> 0
      then status_of SC_InvalidArgument ''freshness fresh window must be positive''
      else if usable_within entry \<le> fresh_within entry
      then status_of SC_InvalidArgument ''freshness usable window must exceed the fresh window''
      else validate_freshness rest)"

definition validate_thresholds :: "state_thresholds \<Rightarrow> status" where
  "validate_thresholds t =
     (if saturation_ppb t = 0 \<or> saturation_ppb t > kFullScalePpb
      then status_of SC_InvalidArgument ''saturation threshold must be in (0, 100%]''
      else if degraded_quality_ppb t > kFullScalePpb
      then status_of SC_InvalidArgument ''degraded quality threshold must be <= 100%''
      else if conflict_tolerance_ppb t > kFullScalePpb
      then status_of SC_InvalidArgument ''conflict tolerance must be <= 100%''
      else if flap_threshold t = 0
      then status_of SC_InvalidArgument ''flap threshold must be at least one''
      else if flap_window t \<le> 0
      then status_of SC_InvalidArgument ''flap window must be positive''
      else if derivation_window t \<le> 0
      then status_of SC_InvalidArgument ''derivation window must be positive''
      else if max_history_window t < derivation_window t
      then status_of SC_InvalidArgument
             ''history window must not be shorter than the derivation window''
      else status_success)"

text \<open>The chain of \<^verbatim>\<open>require\<close> calls: the first failing one is returned.\<close>

fun first_failure :: "status list \<Rightarrow> status" where
  "first_failure [] = status_success"
| "first_failure (s # rest) = (if status_ok s then first_failure rest else s)"

definition validate_limits :: "limits \<Rightarrow> status" where
  "validate_limits l =
     (let required = first_failure
            [require (max_links l > 0) ''max_links must be positive'',
             require (max_sources l > 0) ''max_sources must be positive'',
             require (max_evidence_per_key l > 0) ''max_evidence_per_key must be positive'',
             require (max_contenders_per_key l > 0) ''max_contenders_per_key must be positive'',
             require (max_transitions_per_link l > 0) ''max_transitions_per_link must be positive'',
             require (max_result_rows l > 0) ''max_result_rows must be positive'',
             require (max_record_bytes l > 0) ''max_record_bytes must be positive'',
             require (max_records_per_batch l > 0) ''max_records_per_batch must be positive'',
             require (max_ingest_queue_depth l > 0) ''max_ingest_queue_depth must be positive'',
             require (max_workers l > 0) ''max_workers must be positive'',
             require (max_snapshot_bytes l > 0) ''max_snapshot_bytes must be positive'',
             require (max_transport_payload_bytes l > 0) ''max_transport_payload_bytes must be positive'']
      in if \<not> status_ok required then required
         else if max_total_transitions l < max_transitions_per_link l
         then status_of SC_InvalidArgument
                ''max_total_transitions must not be smaller than the per-link bound''
         else status_success)"

definition validate :: "policy \<Rightarrow> status" where
  "validate p =
     first_failure
       [validate_freshness (take kMetricFamilyCount (pol_freshness p)),
        validate_thresholds (pol_thresholds p),
        validate_limits (pol_limits p)]"

definition freshness_policy_for :: "policy \<Rightarrow> metric_family \<Rightarrow> freshness_policy" where
  "freshness_policy_for p family =
     (let index = metric_family_code family in
      if index \<ge> kMetricFamilyCount then pol_freshness p ! 0 else pol_freshness p ! index)"

section \<open>What a valid policy guarantees\<close>

text \<open>The freshness array of the code has exactly eight entries.\<close>

definition policy_shape :: "policy \<Rightarrow> bool" where
  "policy_shape p \<longleftrightarrow> length (pol_freshness p) = kMetricFamilyCount"

lemma metric_family_code_lt: "metric_family_code f < kMetricFamilyCount"
  by (cases f) (simp_all add: kMetricFamilyCount_def)

lemma freshness_policy_for_nth: "freshness_policy_for p f = pol_freshness p ! metric_family_code f"
  using metric_family_code_lt [of f] by (simp add: freshness_policy_for_def)

lemma first_failure_ok_iff: "status_ok (first_failure xs) \<longleftrightarrow> list_all status_ok xs"
  by (induction xs) auto

lemma require_ok [simp]: "status_ok (require c m) \<longleftrightarrow> c"
  by (simp add: require_def)

lemma validate_freshness_ok:
  "status_ok (validate_freshness xs) \<longleftrightarrow>
     (\<forall>e \<in> set xs. 0 < fresh_within e \<and> fresh_within e < usable_within e)"
  by (induction xs) auto

lemma validate_ok_iff:
  "status_ok (validate p) \<longleftrightarrow>
     status_ok (validate_freshness (take kMetricFamilyCount (pol_freshness p)))
     \<and> status_ok (validate_thresholds (pol_thresholds p))
     \<and> status_ok (validate_limits (pol_limits p))"
  by (simp only: validate_def first_failure_ok_iff list.pred_inject simp_thms)

lemma valid_freshness_windows:
  assumes "status_ok (validate p)" and "policy_shape p"
  shows "0 < fresh_within (freshness_policy_for p f)
    \<and> fresh_within (freshness_policy_for p f) < usable_within (freshness_policy_for p f)"
proof -
  have "pol_freshness p ! metric_family_code f \<in> set (pol_freshness p)"
    using assms(2) metric_family_code_lt [of f] by (simp add: policy_shape_def)
  with assms show ?thesis
    by (simp add: validate_ok_iff validate_freshness_ok policy_shape_def freshness_policy_for_nth)
qed

lemma valid_thresholds:
  assumes "status_ok (validate p)"
  shows "0 < saturation_ppb (pol_thresholds p)"
    and "saturation_ppb (pol_thresholds p) \<le> kFullScalePpb"
    and "0 < flap_threshold (pol_thresholds p)"
    and "0 < flap_window (pol_thresholds p)"
    and "0 < derivation_window (pol_thresholds p)"
  using assms
  by (auto simp: validate_ok_iff validate_thresholds_def word_gt_0 not_less
      split: if_splits)

lemma valid_limits:
  assumes "status_ok (validate p)"
  shows "0 < max_links (pol_limits p)" and "0 < max_sources (pol_limits p)"
    and "0 < max_evidence_per_key (pol_limits p)" and "0 < max_contenders_per_key (pol_limits p)"
    and "0 < max_transitions_per_link (pol_limits p)" and "0 < max_result_rows (pol_limits p)"
    and "max_transitions_per_link (pol_limits p) \<le> max_total_transitions (pol_limits p)"
  using assms
  by (auto simp: validate_ok_iff validate_limits_def Let_def not_less
      split: if_splits)

lemma default_policy_valid: "status_ok (validate make_default_policy) \<and> policy_shape make_default_policy"
  by (simp add: validate_ok_iff validate_freshness_ok validate_thresholds_def
      validate_limits_def make_default_policy_def make_freshness_def from_seconds_def
      default_limits_def kMetricFamilyCount_def kFullScalePpb_def policy_shape_def)

section \<open>Main results\<close>

text \<open>
  What validation of a policy guarantees: for every family a positive freshness window that is
  shorter than the usable window, positive bounds on links, sources, evidence, contenders and
  result rows, and a per-link transition bound within the global one.
\<close>

lemma validated_policy:
  assumes "status_ok (validate p)" and "policy_shape p"
  shows "0 < fresh_within (freshness_policy_for p f)
    \<and> fresh_within (freshness_policy_for p f) < usable_within (freshness_policy_for p f)
    \<and> 0 < max_links (pol_limits p) \<and> 0 < max_sources (pol_limits p)
    \<and> 0 < max_evidence_per_key (pol_limits p) \<and> 0 < max_contenders_per_key (pol_limits p)
    \<and> 0 < max_result_rows (pol_limits p)
    \<and> max_transitions_per_link (pol_limits p) \<le> max_total_transitions (pol_limits p)"
  using valid_freshness_windows [OF assms, of f] valid_limits [OF assms(1)] by simp

end
