(* ===== verification/Text_Format.thy ===== *)
theory Text_Format
  imports Prelude Clock
begin

text \<open>
  Deterministic text formatting and strict numeric parsing (\<^verbatim>\<open>src/core/text.cpp\<close>). A
  \<^verbatim>\<open>string_view\<close> is a \<open>string\<close>, a list of bytes. Parsers that return \<^verbatim>\<open>bool\<close> with
  an out parameter return an \<open>option\<close>.
\<close>

section \<open>Printing\<close>

definition is_digit :: "char \<Rightarrow> bool" where
  "is_digit c \<longleftrightarrow> 48 \<le> (of_char c :: nat) \<and> (of_char c :: nat) \<le> 57"

text \<open>The digit loop of \<^verbatim>\<open>to_dec\<close> fills its buffer with the least significant digit first.\<close>

function dec_buffer :: "u64 \<Rightarrow> string" where
  "dec_buffer v = (if v = 0 then [] else char_of (48 + unat (v mod 10)) # dec_buffer (v div 10))"
  by pat_completeness auto
termination
  by (relation "measure unat") (simp_all add: unat_div unat_gt_0)

definition to_dec :: "u64 \<Rightarrow> string" where
  "to_dec v = (if v = 0 then ''0'' else rev (dec_buffer v))"

definition to_dec_i64 :: "i64 \<Rightarrow> string" where
  "to_dec_i64 v =
     (if v \<ge> 0 then to_dec (word_of_int v)
      else ''-'' @ to_dec (word_of_int (- (v + 1)) + 1))"

text \<open>\<^verbatim>\<open>to_hex_u64\<close>: the same loop over nibbles.\<close>

definition hex_digit :: "nat \<Rightarrow> char" where
  "hex_digit n = ''0123456789abcdef'' ! n"

function hex_buffer :: "u64 \<Rightarrow> string" where
  "hex_buffer v = (if v = 0 then [] else hex_digit (unat (v AND 0x0F)) # hex_buffer (drop_bit 4 v))"
  by pat_completeness auto
termination
  by (relation "measure unat") (simp_all add: drop_bit_eq_div unat_div unat_gt_0)

definition to_hex_u64 :: "u64 \<Rightarrow> string" where
  "to_hex_u64 v = (if v = 0 then ''0'' else rev (hex_buffer v))"

subsection \<open>Field builder\<close>

text \<open>\<^verbatim>\<open>TextFields\<close> appends \<^verbatim>\<open>key=value\<close> fields with a separator between them.\<close>

record text_fields =
  tf_separator :: char
  tf_buffer :: string
  tf_has_field :: bool

definition tf_new :: "char \<Rightarrow> text_fields" where
  "tf_new separator = \<lparr>tf_separator = separator, tf_buffer = [], tf_has_field = False\<rparr>"

definition tf_begin_field :: "text_fields \<Rightarrow> text_fields" where
  "tf_begin_field f =
     (if tf_has_field f then f\<lparr>tf_buffer := tf_buffer f @ [tf_separator f]\<rparr> else f)\<lparr>tf_has_field := True\<rparr>"

definition tf_add :: "string \<Rightarrow> string \<Rightarrow> text_fields \<Rightarrow> text_fields" where
  "tf_add key value f =
     (let f1 = tf_begin_field f in f1\<lparr>tf_buffer := tf_buffer f1 @ key @ ''='' @ value\<rparr>)"

definition tf_add_u64 :: "string \<Rightarrow> u64 \<Rightarrow> text_fields \<Rightarrow> text_fields" where
  "tf_add_u64 key value = tf_add key (to_dec value)"

definition tf_add_i64 :: "string \<Rightarrow> i64 \<Rightarrow> text_fields \<Rightarrow> text_fields" where
  "tf_add_i64 key value = tf_add key (to_dec_i64 value)"

definition tf_add_bool :: "string \<Rightarrow> bool \<Rightarrow> text_fields \<Rightarrow> text_fields" where
  "tf_add_bool key value = tf_add key (if value then ''true'' else ''false'')"

section \<open>Parsing\<close>

fun parse_dec_digits :: "string \<Rightarrow> u64 \<Rightarrow> u64 option" where
  "parse_dec_digits [] v = Some v"
| "parse_dec_digits (c # cs) v =
     (if \<not> is_digit c then None
      else let digit = of_nat (of_char c - 48) in
        if v > (u64_max - digit) div 10 then None
        else parse_dec_digits cs (v * 10 + digit))"

definition parse_u64_dec :: "string \<Rightarrow> u64 option" where
  "parse_u64_dec text =
     (if text = [] \<or> length text > 20 then None else parse_dec_digits text 0)"

definition parse_u32_dec :: "string \<Rightarrow> u32 option" where
  "parse_u32_dec text =
     (case parse_u64_dec text of
        None \<Rightarrow> None
      | Some wide \<Rightarrow> if wide > 0xFFFFFFFF then None else Some (ucast wide))"

definition parse_i64_dec :: "string \<Rightarrow> i64 option" where
  "parse_i64_dec text =
     (if text = [] then None
      else let negative = (hd text = CHR ''-'');
               body = (if negative then tl text else text)
           in case parse_u64_dec body of
                None \<Rightarrow> None
              | Some m \<Rightarrow>
                  let limit = (if negative then word_of_int i64_max + 1 else word_of_int i64_max) in
                  if m > limit then None
                  else if negative then
                    (if m = limit then Some i64_min else Some (- uint m))
                  else Some (uint m))"

definition hex_value :: "char \<Rightarrow> u64 option" where
  "hex_value c =
     (let k = (of_char c :: nat) in
      if 48 \<le> k \<and> k \<le> 57 then Some (of_nat (k - 48))
      else if 97 \<le> k \<and> k \<le> 102 then Some (of_nat (k - 97) + 10)
      else if 65 \<le> k \<and> k \<le> 70 then Some (of_nat (k - 65) + 10)
      else None)"

fun parse_hex_digits :: "string \<Rightarrow> u64 \<Rightarrow> u64 option" where
  "parse_hex_digits [] v = Some v"
| "parse_hex_digits (c # cs) v =
     (case hex_value c of
        None \<Rightarrow> None
      | Some digit \<Rightarrow>
          if v > drop_bit 4 u64_max then None
          else parse_hex_digits cs (push_bit 4 v OR digit))"

definition parse_u64_hex :: "string \<Rightarrow> u64 option" where
  "parse_u64_hex text =
     (if text = [] \<or> length text > 16 then None else parse_hex_digits text 0)"

definition is_ascii_printable :: "string \<Rightarrow> bool" where
  "is_ascii_printable text \<longleftrightarrow>
     list_all (\<lambda>c. 0x20 \<le> (of_char c :: nat) \<and> (of_char c :: nat) \<le> 0x7E) text"

definition is_blank :: "char \<Rightarrow> bool" where
  "is_blank c \<longleftrightarrow> (of_char c :: nat) = 32 \<or> (of_char c :: nat) = 9 \<or> (of_char c :: nat) = 13"

definition trim_ascii :: "string \<Rightarrow> string" where
  "trim_ascii text = rev (dropWhile is_blank (rev (dropWhile is_blank text)))"

fun split_bounded :: "string \<Rightarrow> char \<Rightarrow> nat \<Rightarrow> string list" where
  "split_bounded text separator 0 = []"
| "split_bounded text separator (Suc 0) = [text]"
| "split_bounded text separator (Suc (Suc n)) =
     (if separator \<notin> set text then [text]
      else takeWhile (\<lambda>c. c \<noteq> separator) text
           # split_bounded (tl (dropWhile (\<lambda>c. c \<noteq> separator) text)) separator (Suc n))"

definition is_token :: "string \<Rightarrow> bool" where
  "is_token text \<longleftrightarrow>
     text \<noteq> [] \<and> length text \<le> 128 \<and>
     list_all (\<lambda>c. let k = (of_char c :: nat) in
       97 \<le> k \<and> k \<le> 122 \<or> 65 \<le> k \<and> k \<le> 90 \<or> 48 \<le> k \<and> k \<le> 57 \<or>
       c = CHR ''_'' \<or> c = CHR ''.'' \<or> c = CHR '':'' \<or> c = CHR ''-'') text"

section \<open>The decimal round trip\<close>

fun dec_val :: "string \<Rightarrow> nat \<Rightarrow> nat" where
  "dec_val [] v = v"
| "dec_val (c # cs) v = dec_val cs (v * 10 + (of_char c - 48))"

declare dec_buffer.simps [simp del]

lemma dec_val_append: "dec_val (xs @ ys) v = dec_val ys (dec_val xs v)"
  by (induction xs arbitrary: v) auto

lemma dec_val_ge: "v \<le> dec_val cs v"
proof (induction cs arbitrary: v)
  case (Cons c cs)
  have "v \<le> v * 10 + (of_char c - 48)" by simp
  also have "\<dots> \<le> dec_val cs (v * 10 + (of_char c - 48))" by (rule Cons.IH)
  finally show ?case by simp
qed simp

text \<open>The overflow guard is exact: a digit string is accepted iff its value fits 64 bits.\<close>

lemma dec_guard:
  assumes "d < 10"
  shows "(v :: u64) > (u64_max - of_nat d) div 10 \<longleftrightarrow> 18446744073709551616 \<le> unat v * 10 + d"
proof -
  have "unat (u64_max - of_nat d) = 18446744073709551615 - d"
    using assms by (subst unat_minus_u64) (simp_all add: le_u64_iff unat_of_nat_u64)
  then have "unat ((u64_max - of_nat d) div 10) = (18446744073709551615 - d) div 10"
    by (simp add: unat_div)
  with assms show ?thesis by (simp only: less_u64_iff) linarith
qed

lemma parse_dec_digits_spec:
  "list_all is_digit cs \<Longrightarrow>
     parse_dec_digits cs v =
       (if dec_val cs (unat v) < 18446744073709551616 then Some (of_nat (dec_val cs (unat v))) else None)"
proof (induction cs arbitrary: v)
  case Nil
  then show ?case using unat_u64_lt [of v] by simp
next
  case (Cons c cs)
  define d where "d = of_char c - (48 :: nat)"
  have d: "d < 10" using Cons.prems by (auto simp: d_def is_digit_def)
  show ?case
  proof (cases "unat v * 10 + d < 18446744073709551616")
    case True
    then have "unat (v * 10 + of_nat d) = unat v * 10 + d"
      using d by (simp add: unat_plus_u64 unat_mult_u64 unat_of_nat_u64)
    with True Cons dec_guard [OF d, of v] show ?thesis
      by (simp add: Let_def flip: d_def)
  next
    case False
    with dec_val_ge [of "unat v * 10 + d" cs] have "\<not> dec_val cs (unat v * 10 + d) < 18446744073709551616"
      by linarith
    with False Cons.prems dec_guard [OF d, of v] show ?thesis
      by (simp add: Let_def flip: d_def)
  qed
qed

lemma parse_dec_digits_non_digit: "\<not> list_all is_digit cs \<Longrightarrow> parse_dec_digits cs v = None"
  by (induction cs arbitrary: v) (auto simp: Let_def)

lemma digit_char: "(n :: nat) < 10 \<Longrightarrow> is_digit (char_of (48 + n)) \<and> of_char (char_of (48 + n) :: char) - 48 = n"
  by (simp add: is_digit_def)

lemma dec_buffer_digits: "list_all is_digit (dec_buffer v)"
proof (induction v rule: dec_buffer.induct)
  case (1 v)
  have "unat (v mod 10) < 10" by (simp add: unat_mod)
  with 1 show ?case by (subst dec_buffer.simps) (simp add: digit_char)
qed

lemma dec_buffer_val: "dec_val (rev (dec_buffer v)) 0 = unat v"
proof (induction v rule: dec_buffer.induct)
  case (1 v)
  have "unat (v mod 10) < 10" by (simp add: unat_mod)
  with 1 show ?case
    by (subst dec_buffer.simps) (simp add: dec_val_append digit_char unat_div unat_mod)
qed

lemma dec_buffer_length: "unat v < 10 ^ n \<Longrightarrow> length (dec_buffer v) \<le> n"
proof (induction n arbitrary: v)
  case 0
  then show ?case by (subst dec_buffer.simps) (simp add: unat_eq_zero)
next
  case (Suc n)
  then have "unat (v div 10) < 10 ^ n"
    by (simp add: unat_div less_mult_imp_div_less)
  with Suc.IH show ?case by (subst dec_buffer.simps) simp
qed

lemma to_dec_shape: "to_dec v \<noteq> [] \<and> length (to_dec v) \<le> 20 \<and> list_all is_digit (to_dec v)"
proof -
  have "length (dec_buffer v) \<le> 20"
    using unat_u64_lt [of v] by (intro dec_buffer_length) simp
  moreover have "v \<noteq> 0 \<Longrightarrow> dec_buffer v \<noteq> []" by (subst dec_buffer.simps) simp
  ultimately show ?thesis
    using dec_buffer_digits [of v] by (auto simp: to_dec_def is_digit_def)
qed

lemma to_dec_val: "dec_val (to_dec v) 0 = unat v"
  by (simp add: to_dec_def dec_buffer_val)

lemma parse_u64_dec_to_dec: "parse_u64_dec (to_dec v) = Some v"
  using to_dec_shape [of v] unat_u64_lt [of v]
  by (auto simp: parse_u64_dec_def parse_dec_digits_spec to_dec_val)

lemma to_dec_inj: "to_dec a = to_dec b \<Longrightarrow> a = b"
  by (metis option.inject parse_u64_dec_to_dec)

lemma parse_u64_dec_sound:
  "parse_u64_dec text = Some v \<Longrightarrow> list_all is_digit text \<and> unat v = dec_val text 0"
  by (cases "list_all is_digit text")
    (auto simp: parse_u64_dec_def parse_dec_digits_spec parse_dec_digits_non_digit
      unat_of_nat_u64 split: if_splits)

lemma to_dec_no_minus: "hd (to_dec v) \<noteq> CHR ''-''"
proof -
  have "is_digit (hd (to_dec v))"
    using to_dec_shape [of v] by (metis list.set_sel(1) list_all_iff)
  then show ?thesis by (auto simp: is_digit_def)
qed

lemma parse_i64_dec_to_dec: "in_i64 v \<Longrightarrow> parse_i64_dec (to_dec_i64 v) = Some v"
proof (cases "v \<ge> 0")
  case True
  assume "in_i64 v"
  with True have "uint (word_of_int v :: u64) = v"
    by (simp add: in_i64_def uint_word_of_int)
  with True \<open>in_i64 v\<close> show ?thesis
    using to_dec_shape [of "word_of_int v"] to_dec_no_minus [of "word_of_int v"]
    by (simp add: parse_i64_dec_def to_dec_i64_def Let_def parse_u64_dec_to_dec word_less_def in_i64_def)
next
  case False
  assume "in_i64 v"
  let ?m = "word_of_int (- (v + 1)) + 1 :: u64"
  have m: "?m = word_of_int (- v)" by simp
  have "uint ?m = - v"
    unfolding m uint_word_of_int using False \<open>in_i64 v\<close> by (simp add: in_i64_def)
  with False \<open>in_i64 v\<close> show ?thesis
    by (auto simp: parse_i64_dec_def to_dec_i64_def Let_def parse_u64_dec_to_dec word_less_def
        word_uint_eq_iff in_i64_def)
qed

section \<open>The hexadecimal round trip\<close>

declare hex_buffer.simps [simp del]

lemma parse_hex_digits_append:
  "parse_hex_digits (xs @ ys) v = Option.bind (parse_hex_digits xs v) (parse_hex_digits ys)"
  by (induction xs arbitrary: v) (auto split: option.splits)

lemma hex_value_digit: "n < 16 \<Longrightarrow> hex_value (hex_digit n) = Some (of_nat n)"
proof -
  assume "n < 16"
  then have "n \<in> set [0..<16]" by simp
  then show ?thesis by (auto simp: upt_rec hex_digit_def hex_value_def Let_def)
qed

lemma nibble_lt: "unat (v AND (0x0F :: u64)) < 16"
proof -
  have "v AND 15 = take_bit 4 v" by (simp add: take_bit_eq_mask mask_eq_exp_minus_1)
  then show ?thesis by (simp add: take_bit_eq_mod unat_mod)
qed

lemma nibble_join: "push_bit 4 (drop_bit 4 v) OR (v AND (0x0F :: u64)) = v"
proof -
  have "v AND 15 = take_bit 4 v" by (simp add: take_bit_eq_mask mask_eq_exp_minus_1)
  then show ?thesis using bits_ident [of 4 v] by (simp add: disjunctive_add bit_simps)
qed

lemma hex_buffer_parse: "parse_hex_digits (rev (hex_buffer v)) 0 = Some v"
proof (induction v rule: hex_buffer.induct)
  case (1 v)
  show ?case
  proof (cases "v = 0")
    case False
    have "drop_bit 4 v \<le> drop_bit 4 u64_max"
      using unat_u64_le [of v] by (simp add: le_u64_iff drop_bit_eq_div unat_div div_le_mono)
    then show ?thesis
      using 1 False by (subst hex_buffer.simps)
        (simp add: parse_hex_digits_append hex_value_digit [OF nibble_lt] nibble_join not_less)
  qed (simp add: hex_buffer.simps)
qed

lemma hex_buffer_length: "unat v < 16 ^ n \<Longrightarrow> length (hex_buffer v) \<le> n"
proof (induction n arbitrary: v)
  case (Suc n)
  have "unat (drop_bit 4 v) < 16 ^ n" using Suc.prems by (simp add: drop_bit_eq_div unat_div)
  with Suc.IH show ?case by (subst hex_buffer.simps) simp
qed (subst hex_buffer.simps, simp add: unat_eq_zero)

text \<open>Hexadecimal text of a 64-bit value is at most 16 digits and is read back.\<close>

lemma parse_u64_hex_to_hex: "parse_u64_hex (to_hex_u64 v) = Some v"
proof (cases "v = 0")
  case True
  then show ?thesis
    by (simp add: to_hex_u64_def parse_u64_hex_def hex_value_def Let_def)
next
  case False
  then have "hex_buffer v \<noteq> []" by (subst hex_buffer.simps) simp
  moreover have "length (hex_buffer v) \<le> 16" using unat_u64_lt [of v] by (intro hex_buffer_length) simp
  ultimately show ?thesis using False by (simp add: to_hex_u64_def parse_u64_hex_def hex_buffer_parse)
qed

section \<open>Fields\<close>

text \<open>What a sequence of fields spells.\<close>

definition field_text :: "string \<times> string \<Rightarrow> string" where
  "field_text kv = fst kv @ ''='' @ snd kv"

fun join_fields :: "char \<Rightarrow> (string \<times> string) list \<Rightarrow> string" where
  "join_fields sep [] = []"
| "join_fields sep [kv] = field_text kv"
| "join_fields sep (kv # kvs) = field_text kv @ sep # join_fields sep kvs"

definition tf_of :: "char \<Rightarrow> (string \<times> string) list \<Rightarrow> text_fields" where
  "tf_of sep kvs = \<lparr>tf_separator = sep, tf_buffer = join_fields sep kvs, tf_has_field = (kvs \<noteq> [])\<rparr>"

lemma join_fields_snoc:
  "kvs \<noteq> [] \<Longrightarrow> join_fields sep (kvs @ [kv]) = join_fields sep kvs @ sep # field_text kv"
  by (induction kvs rule: join_fields.induct) auto

lemma tf_new_of: "tf_new sep = tf_of sep []"
  by (simp add: tf_new_def tf_of_def)

lemma tf_add_of: "tf_add k v (tf_of sep kvs) = tf_of sep (kvs @ [(k, v)])"
  by (simp add: tf_add_def tf_begin_field_def tf_of_def Let_def join_fields_snoc field_text_def)

lemma tf_add_if:
  "(if b then tf_of sep (kvs @ extra) else tf_of sep kvs) = tf_of sep (kvs @ (if b then extra else []))"
  by simp

lemmas tf_simps = tf_new_of tf_add_of tf_add_u64_def tf_add_i64_def tf_add_bool_def tf_add_if

end
