(* ===== verification/Metric.thy ===== *)
theory Metric
  imports Policy Text_Format
begin

text \<open>
  Metric identity and typed readings (\<^verbatim>\<open>include/linkobs/domain/metric.hpp\<close>,
  \<^verbatim>\<open>src/domain/metric.cpp\<close>): the reading alternatives as one datatype, the metric key with
  its order and its canonical spelling, and the validation of a reading against its key.
\<close>

section \<open>Readings\<close>

datatype admin_state_value = Admin_Unknown | Admin_Enabled | Admin_Disabled

datatype oper_state_value = Oper_Unknown | Oper_Up | Oper_Down | Oper_Degraded

primrec admin_state_to_string :: "admin_state_value \<Rightarrow> string" where
  "admin_state_to_string Admin_Unknown = ''unknown''"
| "admin_state_to_string Admin_Enabled = ''enabled''"
| "admin_state_to_string Admin_Disabled = ''disabled''"

primrec oper_state_to_string :: "oper_state_value \<Rightarrow> string" where
  "oper_state_to_string Oper_Unknown = ''unknown''"
| "oper_state_to_string Oper_Up = ''up''"
| "oper_state_to_string Oper_Down = ''down''"
| "oper_state_to_string Oper_Degraded = ''degraded''"

definition parse_admin_state :: "string \<Rightarrow> admin_state_value option" where
  "parse_admin_state text =
     (if text = ''unknown'' then Some Admin_Unknown
      else if text = ''enabled'' \<or> text = ''up'' then Some Admin_Enabled
      else if text = ''disabled'' \<or> text = ''down'' then Some Admin_Disabled
      else None)"

definition parse_oper_state :: "string \<Rightarrow> oper_state_value option" where
  "parse_oper_state text =
     (if text = ''unknown'' then Some Oper_Unknown
      else if text = ''up'' then Some Oper_Up
      else if text = ''down'' then Some Oper_Down
      else if text = ''degraded'' then Some Oper_Degraded
      else None)"

definition kPpbFullScale :: u64 where "kPpbFullScale = 1000000000"
definition kPpbAcceptedMax :: u64 where "kPpbAcceptedMax = 2000000000"

record counter_reading =
  cr_raw :: u64
  cr_width :: counter_width
  cr_reset_declared :: bool

record quality_reading =
  qr_value_ppb :: u64
  qr_degraded_declared :: bool

record flap_reading =
  fl_events :: u64
  fl_window :: duration

datatype metric_payload =
    AdminStateReading admin_state_value
  | OperStateReading oper_state_value
  | CounterReading counter_reading
  | RatioReading u64
  | QualityReading quality_reading
  | FlapReading flap_reading

primrec payload_index :: "metric_payload \<Rightarrow> nat" where
  "payload_index (AdminStateReading v) = 0"
| "payload_index (OperStateReading v) = 1"
| "payload_index (CounterReading c) = 2"
| "payload_index (RatioReading r) = 3"
| "payload_index (QualityReading q) = 4"
| "payload_index (FlapReading f) = 5"

section \<open>Metric keys\<close>

datatype metric_key =
  MetricKey (key_family: metric_family) (key_direction: direction) (key_error_class: error_class)

instantiation metric_key :: linorder
begin

definition less_eq_metric_key :: "metric_key \<Rightarrow> metric_key \<Rightarrow> bool" where
  "less_eq_metric_key a b \<longleftrightarrow>
     key_family a < key_family b \<or>
     key_family a = key_family b \<and>
       (key_direction a < key_direction b \<or>
        key_direction a = key_direction b \<and> key_error_class a \<le> key_error_class b)"

definition less_metric_key :: "metric_key \<Rightarrow> metric_key \<Rightarrow> bool" where
  "less_metric_key a b \<longleftrightarrow>
     key_family a < key_family b \<or>
     key_family a = key_family b \<and>
       (key_direction a < key_direction b \<or>
        key_direction a = key_direction b \<and> key_error_class a < key_error_class b)"

instance
  by standard (auto simp: less_eq_metric_key_def less_metric_key_def metric_key.expand)

end

definition metric_key_to_string :: "metric_key \<Rightarrow> string" where
  "metric_key_to_string k =
     metric_family_to_string (key_family k)
     @ (if is_directional_family (key_family k) \<and> key_direction k \<noteq> Dir_Unknown
        then ''/'' @ direction_to_string (key_direction k) else [])
     @ (if key_family k = MF_Errors \<and> key_error_class k \<noteq> EC_None
        then ''/'' @ error_class_to_string (key_error_class k) else [])
     @ (if key_family k = MF_Discards \<and> key_error_class k \<noteq> EC_None
        then ''/'' @ error_class_to_string (key_error_class k) else [])"

text \<open>One component of the key text: its position decides what it spells.\<close>

definition metric_key_component :: "nat \<Rightarrow> string \<Rightarrow> metric_key \<Rightarrow> metric_key result" where
  "metric_key_component part token k =
     (if part = 0 then
        (case parse_metric_family token of
           None \<Rightarrow> failure SC_Unsupported ''unknown metric family''
         | Some f \<Rightarrow> Inr (MetricKey f (key_direction k) (key_error_class k)))
      else if part = 1 then
        (case parse_direction token of
           None \<Rightarrow> failure SC_Unsupported ''unknown metric direction''
         | Some d \<Rightarrow> Inr (MetricKey (key_family k) d (key_error_class k)))
      else if part = 2 then
        (case parse_error_class token of
           None \<Rightarrow> failure SC_Unsupported ''unknown error class''
         | Some e \<Rightarrow> Inr (MetricKey (key_family k) (key_direction k) e))
      else failure SC_InvalidArgument ''metric key has too many components'')"

function metric_key_parse_loop :: "string \<Rightarrow> nat \<Rightarrow> metric_key \<Rightarrow> metric_key result" where
  "metric_key_parse_loop rest part k =
     (let token = takeWhile (\<lambda>c. c \<noteq> CHR ''/'') rest in
      if token = [] then failure SC_InvalidArgument ''empty metric key component''
      else case metric_key_component part token k of
        Inl e \<Rightarrow> Inl e
      | Inr k' \<Rightarrow>
          if CHR ''/'' \<in> set rest
          then metric_key_parse_loop (tl (dropWhile (\<lambda>c. c \<noteq> CHR ''/'') rest)) (Suc part) k'
          else Inr k')"
  by pat_completeness auto
termination
proof (relation "measure (\<lambda>(rest, part, k). length rest)", goal_cases)
  case (2 rest part k token k')
  have "dropWhile (\<lambda>c. c \<noteq> CHR ''/'') rest \<noteq> []" using 2 by (simp add: dropWhile_eq_Nil_conv)
  moreover have "length (dropWhile (\<lambda>c. c \<noteq> CHR ''/'') rest) \<le> length rest"
    by (rule length_dropWhile_le)
  ultimately show ?case by (cases "dropWhile (\<lambda>c. c \<noteq> CHR ''/'') rest") auto
qed simp

definition metric_key_parse :: "string \<Rightarrow> metric_key result" where
  "metric_key_parse text = metric_key_parse_loop text 0 (MetricKey MF_AdminState Dir_Unknown EC_None)"

section \<open>Validation\<close>

definition payload_matches_family :: "metric_family \<Rightarrow> metric_payload \<Rightarrow> bool" where
  "payload_matches_family family payload =
     (case family of
        MF_AdminState \<Rightarrow> payload_index payload = 0
      | MF_OperState \<Rightarrow> payload_index payload = 1
      | MF_Octets \<Rightarrow> payload_index payload = 2
      | MF_Errors \<Rightarrow> payload_index payload = 2
      | MF_Discards \<Rightarrow> payload_index payload = 2
      | MF_UtilReported \<Rightarrow> payload_index payload = 3
      | MF_SignalQuality \<Rightarrow> payload_index payload = 4
      | MF_FlapReport \<Rightarrow> payload_index payload = 5)"

definition error_class_allowed :: "metric_family \<Rightarrow> error_class \<Rightarrow> bool" where
  "error_class_allowed family v =
     (if family = MF_Errors then True
      else if family = MF_Discards
      then v = EC_None \<or> v = EC_Total \<or> v = EC_Congestion \<or> v = EC_Other
      else v = EC_None)"

definition validate_reading :: "metric_key \<Rightarrow> metric_payload \<Rightarrow> policy \<Rightarrow> status" where
  "validate_reading k payload p =
     (if \<not> payload_matches_family (key_family k) payload
      then status_of SC_Unsupported
             ''reading alternative does not belong to the declared metric family''
      else if \<not> error_class_allowed (key_family k) (key_error_class k)
      then status_of SC_InvalidArgument ''error class is not defined for this metric family''
      else if key_direction k \<noteq> Dir_Unknown \<and> \<not> is_directional_family (key_family k)
      then status_of SC_InvalidArgument ''direction is not defined for this metric family''
      else case payload of
        AdminStateReading v \<Rightarrow> status_success
      | OperStateReading v \<Rightarrow> status_success
      | CounterReading c \<Rightarrow>
          if cr_width c = CW_Bits32 \<and> cr_raw c > 0xFFFFFFFF
          then status_of SC_OutOfRange ''32-bit counter sample exceeds the declared counter width''
          else status_success
      | RatioReading ppb \<Rightarrow>
          if ppb > kPpbAcceptedMax
          then status_of SC_OutOfRange ''reported ratio exceeds the accepted maximum''
          else status_success
      | QualityReading q \<Rightarrow>
          if qr_value_ppb q > kPpbFullScale
          then status_of SC_OutOfRange ''quality indicator exceeds full scale''
          else if key_direction k = Dir_Both
          then status_of SC_InvalidArgument
                 ''quality indicator is not defined for a bidirectional reading''
          else status_success
      | FlapReading f \<Rightarrow>
          if fl_window f \<le> 0
          then status_of SC_InvalidArgument ''flap window must be positive''
          else if fl_window f > max_history_window (pol_thresholds p)
          then status_of SC_OutOfRange ''flap window exceeds the maximum history window''
          else status_success)"

section \<open>Rendering and comparison\<close>

definition bool_text :: "bool \<Rightarrow> string" where
  "bool_text b = (if b then ''true'' else ''false'')"

primrec format_payload :: "metric_payload \<Rightarrow> string" where
  "format_payload (AdminStateReading v) = admin_state_to_string v"
| "format_payload (OperStateReading v) = oper_state_to_string v"
| "format_payload (CounterReading c) =
     ''raw='' @ to_dec (cr_raw c) @ '' width='' @ counter_width_to_string (cr_width c)
     @ '' declared-reset='' @ bool_text (cr_reset_declared c)"
| "format_payload (RatioReading ppb) = ''ppb='' @ to_dec ppb"
| "format_payload (QualityReading q) =
     ''ppb='' @ to_dec (qr_value_ppb q) @ '' declared-degraded='' @ bool_text (qr_degraded_declared q)"
| "format_payload (FlapReading f) =
     ''events='' @ to_dec (fl_events f) @ '' window-ns='' @ to_dec_i64 (fl_window f)"

definition payloads_are_comparable :: "metric_payload \<Rightarrow> metric_payload \<Rightarrow> bool" where
  "payloads_are_comparable lhs rhs \<longleftrightarrow> payload_index lhs = payload_index rhs"

definition abs_difference :: "u64 \<Rightarrow> u64 \<Rightarrow> u64" where
  "abs_difference left right =
     (let low = (if left < right then left else right);
          high = (if left < right then right else left)
      in high - low)"

definition payload_difference_ppb :: "metric_payload \<Rightarrow> metric_payload \<Rightarrow> u64 option" where
  "payload_difference_ppb lhs rhs =
     (case lhs of
        RatioReading l \<Rightarrow> (case rhs of RatioReading r \<Rightarrow> Some (abs_difference l r) | _ \<Rightarrow> None)
      | QualityReading l \<Rightarrow>
          (case rhs of
             QualityReading r \<Rightarrow> Some (abs_difference (qr_value_ppb l) (qr_value_ppb r))
           | _ \<Rightarrow> None)
      | _ \<Rightarrow> None)"

section \<open>Properties\<close>

declare metric_key_parse_loop.simps [simp del]

lemma parse_oper_state_roundtrip: "parse_oper_state (oper_state_to_string v) = Some v"
  by (cases v) (simp_all add: parse_oper_state_def)

lemma parse_admin_state_roundtrip: "parse_admin_state (admin_state_to_string v) = Some v"
  by (cases v) (simp_all add: parse_admin_state_def)

text \<open>
  The keys whose spelling the key parser reads back: every key that validation admits for some
  reading, except those that name an error class without a direction.
\<close>

definition key_admissible :: "metric_key \<Rightarrow> bool" where
  "key_admissible k \<longleftrightarrow>
     error_class_allowed (key_family k) (key_error_class k)
     \<and> (key_direction k \<noteq> Dir_Unknown \<longrightarrow> is_directional_family (key_family k))"

definition class_without_direction :: "metric_key \<Rightarrow> bool" where
  "class_without_direction k \<longleftrightarrow> key_direction k = Dir_Unknown \<and> key_error_class k \<noteq> EC_None"

lemma validate_reading_admissible: "status_ok (validate_reading k x p) \<Longrightarrow> key_admissible k"
  by (auto simp: validate_reading_def key_admissible_def split: if_splits)

lemma validate_reading_matches:
  "status_ok (validate_reading k x p) \<Longrightarrow> payload_matches_family (key_family k) x"
  by (auto simp: validate_reading_def split: if_splits)

lemma validate_reading_counter_width:
  "status_ok (validate_reading k (CounterReading c) p) \<Longrightarrow> cr_width c = CW_Bits32 \<Longrightarrow>
     unat (cr_raw c) < 4294967296"
  by (auto simp: validate_reading_def less_u64_iff split: if_splits)

lemmas key_text_defs =
  metric_key_to_string_def metric_key_parse_def metric_key_component_def failure_def
  parse_metric_family_def metric_family_names_def parse_direction_def direction_names_def
  parse_error_class_def error_class_names_def is_directional_family_def

lemma metric_key_parse_unfold:
  "CHR ''/'' \<notin> set rest \<Longrightarrow> rest \<noteq> [] \<Longrightarrow>
     metric_key_parse_loop rest part k =
       (case metric_key_component part rest k of Inl e \<Rightarrow> Inl e | Inr k' \<Rightarrow> Inr k')"
  "CHR ''/'' \<notin> set token \<Longrightarrow> token \<noteq> [] \<Longrightarrow>
     metric_key_parse_loop (token @ CHR ''/'' # rest) part k =
       (case metric_key_component part token k of
          Inl e \<Rightarrow> Inl e | Inr k' \<Rightarrow> metric_key_parse_loop rest (Suc part) k')"
proof -
  assume a: "CHR ''/'' \<notin> set rest" "rest \<noteq> []"
  then have tw: "takeWhile (\<lambda>c. c \<noteq> CHR ''/'') rest = rest" by (auto simp: takeWhile_eq_all_conv)
  from a show "metric_key_parse_loop rest part k =
       (case metric_key_component part rest k of Inl e \<Rightarrow> Inl e | Inr k' \<Rightarrow> Inr k')"
    by (subst metric_key_parse_loop.simps) (simp add: tw split: sum.splits)
next
  assume a: "CHR ''/'' \<notin> set token" "token \<noteq> []"
  then have "takeWhile (\<lambda>c. c \<noteq> CHR ''/'') (token @ CHR ''/'' # rest) = token"
    and "dropWhile (\<lambda>c. c \<noteq> CHR ''/'') (token @ CHR ''/'' # rest) = CHR ''/'' # rest"
    by (auto simp: takeWhile_append dropWhile_append)
  with a show "metric_key_parse_loop (token @ CHR ''/'' # rest) part k =
       (case metric_key_component part token k of
          Inl e \<Rightarrow> Inl e | Inr k' \<Rightarrow> metric_key_parse_loop rest (Suc part) k')"
    by (subst metric_key_parse_loop.simps) (simp split: sum.splits)
qed

lemma family_token: "CHR ''/'' \<notin> set (metric_family_to_string f) \<and> metric_family_to_string f \<noteq> []"
  by (cases f) simp_all

lemma direction_token: "CHR ''/'' \<notin> set (direction_to_string d) \<and> direction_to_string d \<noteq> []"
  by (cases d) simp_all

lemma class_token: "CHR ''/'' \<notin> set (error_class_to_string e) \<and> error_class_to_string e \<noteq> []"
  by (cases e) simp_all

lemma metric_key_component_spellings [simp]:
  "metric_key_component 0 (metric_family_to_string f) k
     = Inr (MetricKey f (key_direction k) (key_error_class k))"
  "metric_key_component (Suc 0) (direction_to_string d) k
     = Inr (MetricKey (key_family k) d (key_error_class k))"
  "metric_key_component (Suc (Suc 0)) (error_class_to_string e) k
     = Inr (MetricKey (key_family k) (key_direction k) e)"
  by (simp_all add: metric_key_component_def metric_family_sp.read_spell direction_sp.read_spell
      error_class_sp.read_spell)

lemma metric_key_roundtrip:
  assumes "key_admissible k" and "\<not> class_without_direction k"
  shows "metric_key_parse (metric_key_to_string k) = Inr k"
proof -
  obtain f d e where k: "k = MetricKey f d e" by (cases k)
  have cls: "e \<noteq> EC_None \<Longrightarrow> f = MF_Errors \<or> f = MF_Discards"
    using assms(1) by (auto simp: k key_admissible_def error_class_allowed_def split: if_splits)
  have dir: "d \<noteq> Dir_Unknown \<Longrightarrow> is_directional_family f"
    using assms(1) by (simp add: k key_admissible_def)
  consider "d = Dir_Unknown" "e = EC_None" | "d \<noteq> Dir_Unknown" "e = EC_None"
    | "d \<noteq> Dir_Unknown" "e \<noteq> EC_None"
    using assms(2) by (auto simp: k class_without_direction_def)
  then show ?thesis
  proof cases
    case 1
    then show ?thesis
      by (simp add: k metric_key_to_string_def metric_key_parse_def metric_key_parse_unfold(1) family_token)
  next
    case 2
    with dir show ?thesis
      by (simp add: k metric_key_to_string_def metric_key_parse_def metric_key_parse_unfold
          family_token direction_token)
  next
    case 3
    with dir cls show ?thesis
      by (auto simp: k metric_key_to_string_def metric_key_parse_def metric_key_parse_unfold
          family_token direction_token class_token)
  qed
qed

text \<open>
  The exception in \<open>metric_key_roundtrip\<close> is real: a key with an error class and no direction passes
  validation and its spelling is refused.
\<close>

lemma class_without_direction_not_read_back:
  "status_ok (validate_reading (MetricKey MF_Errors Dir_Unknown EC_Crc)
       (CounterReading \<lparr>cr_raw = 0, cr_width = CW_Bits64, cr_reset_declared = False\<rparr>) make_default_policy)
   \<and> metric_key_parse (metric_key_to_string (MetricKey MF_Errors Dir_Unknown EC_Crc))
       = failure SC_Unsupported ''unknown metric direction''"
  by code_simp

end
