(* ===== verification/Identity.thy ===== *)
theory Identity
  imports Checked Status "HOL-Library.Char_ord"
begin

text \<open>
  Content hashing and typed identities: FNV-1a 128 and the incremental hash builder
  (\<^verbatim>\<open>src/core/hash128.cpp\<close>), the hexadecimal form (\<^verbatim>\<open>src/core/hex.cpp\<close>), and the
  tagged identity type with its revision counter (\<^verbatim>\<open>include/linkobs/core/strong_id.hpp\<close>).
\<close>

section \<open>The 128-bit hash value\<close>

datatype hash128 = Hash128 (hash_hi: u64) (hash_lo: u64)

definition hash_is_zero :: "hash128 \<Rightarrow> bool" where
  "hash_is_zero h \<longleftrightarrow> hash_hi h = 0 \<and> hash_lo h = 0"

instantiation hash128 :: linorder
begin

definition less_eq_hash128 :: "hash128 \<Rightarrow> hash128 \<Rightarrow> bool" where
  "less_eq_hash128 a b \<longleftrightarrow> hash_hi a < hash_hi b \<or> hash_hi a = hash_hi b \<and> hash_lo a \<le> hash_lo b"

definition less_hash128 :: "hash128 \<Rightarrow> hash128 \<Rightarrow> bool" where
  "less_hash128 a b \<longleftrightarrow> hash_hi a < hash_hi b \<or> hash_hi a = hash_hi b \<and> hash_lo a < hash_lo b"

instance
  by standard (auto simp: less_eq_hash128_def less_hash128_def hash128.expand)

end

section \<open>FNV-1a 128\<close>

definition kFnvPrimeLow :: u64 where "kFnvPrimeLow = 0x13B"
definition kFnvOffsetHi :: u64 where "kFnvOffsetHi = 0x6c62272e07bb0142"
definition kFnvOffsetLo :: u64 where "kFnvOffsetLo = 0x62b821756295c58d"

definition mul_u64_full :: "u64 \<Rightarrow> u64 \<Rightarrow> u128" where
  "mul_u64_full lhs rhs =
     (let lhs_low = lhs AND 0xFFFFFFFF;
          lhs_high = drop_bit 32 lhs;
          rhs_low = rhs AND 0xFFFFFFFF;
          rhs_high = drop_bit 32 rhs;
          partial = lhs_low * rhs_low;
          middle = lhs_high * rhs_low + drop_bit 32 partial;
          middle_high = drop_bit 32 middle;
          folded = (middle AND 0xFFFFFFFF) + lhs_low * rhs_high
      in mk_u128 (lhs_high * rhs_high + middle_high + drop_bit 32 folded)
           (push_bit 32 folded OR (partial AND 0xFFFFFFFF)))"

definition fnv_multiply :: "hash128 \<Rightarrow> hash128" where
  "fnv_multiply s =
     (let hi = hash_hi s; lo = hash_lo s;
          low_product = mul_u64_full lo kFnvPrimeLow;
          high_addend = u128_lo (mul_u64_full hi kFnvPrimeLow);
          product_hi = u128_hi low_product + high_addend;
          shifted_lo = push_bit 24 lo;
          shifted_hi = drop_bit 40 lo;
          sum_lo = shifted_lo + u128_lo low_product;
          carry = (if sum_lo < shifted_lo then 1 else 0)
      in Hash128 (shifted_hi + product_hi + carry) sum_lo)"

definition fnv_step :: "hash128 \<Rightarrow> u8 \<Rightarrow> hash128" where
  "fnv_step s b = fnv_multiply (Hash128 (hash_hi s) (hash_lo s XOR ucast b))"

definition hash128_bytes :: "u8 list \<Rightarrow> hash128" where
  "hash128_bytes data = foldl fnv_step (Hash128 kFnvOffsetHi kFnvOffsetLo) data"

definition hash128_extend :: "hash128 \<Rightarrow> u8 list \<Rightarrow> hash128" where
  "hash128_extend seed data = foldl fnv_step seed data"

section \<open>The hash builder\<close>

definition bytes_of :: "string \<Rightarrow> u8 list" where
  "bytes_of s = map of_char s"

definition hb_init :: hash128 where
  "hb_init = Hash128 0x6c62272e07bb0142 0x62b821756295c58d"

definition hb_add_raw :: "u8 list \<Rightarrow> hash128 \<Rightarrow> hash128" where
  "hb_add_raw data s = foldl fnv_step s data"

definition hb_add_u8 :: "u8 \<Rightarrow> hash128 \<Rightarrow> hash128" where
  "hb_add_u8 v s = fnv_step s v"

definition hb_add_bool :: "bool \<Rightarrow> hash128 \<Rightarrow> hash128" where
  "hb_add_bool v = hb_add_u8 (if v then 1 else 0)"

definition le_bytes_u32 :: "u32 \<Rightarrow> u8 list" where
  "le_bytes_u32 v = map (\<lambda>i. ucast (drop_bit (8 * i) v AND 0xFF)) [0..<4]"

definition le_bytes_u64 :: "u64 \<Rightarrow> u8 list" where
  "le_bytes_u64 v = map (\<lambda>i. ucast (drop_bit (8 * i) v AND 0xFF)) [0..<8]"

definition hb_add_u32 :: "u32 \<Rightarrow> hash128 \<Rightarrow> hash128" where
  "hb_add_u32 v = hb_add_raw (le_bytes_u32 v)"

definition hb_add_u64 :: "u64 \<Rightarrow> hash128 \<Rightarrow> hash128" where
  "hb_add_u64 v = hb_add_raw (le_bytes_u64 v)"

definition hb_add_i64 :: "i64 \<Rightarrow> hash128 \<Rightarrow> hash128" where
  "hb_add_i64 v = hb_add_u64 (word_of_int v)"

definition hb_add_bytes :: "string \<Rightarrow> hash128 \<Rightarrow> hash128" where
  "hb_add_bytes text s = hb_add_raw (bytes_of text) (hb_add_u64 (of_nat (length text)) s)"

definition hb_add_str :: "string \<Rightarrow> hash128 \<Rightarrow> hash128" where
  "hb_add_str = hb_add_bytes"

definition hb_add_hash :: "hash128 \<Rightarrow> hash128 \<Rightarrow> hash128" where
  "hb_add_hash v s = hb_add_u64 (hash_lo v) (hb_add_u64 (hash_hi v) s)"

section \<open>Typed identities\<close>

text \<open>
  The tag is a phantom type, so identities of different kinds are different types, as in the
  code. The kind string of \<^verbatim>\<open>Tag::kKind\<close> is a parameter of the operations that read it.
\<close>

datatype 'tag strong_id = StrongId (id_hash: hash128)

typedecl endpoint_tag
typedecl port_tag
typedecl link_tag
typedecl source_tag
typedecl generation_tag
typedecl epoch_tag
typedecl incarnation_tag
typedecl observation_tag
typedecl evidence_tag
typedecl runtime_tag
typedecl transition_tag
typedecl snapshot_tag

type_synonym endpoint_id = "endpoint_tag strong_id"
type_synonym port_id = "port_tag strong_id"
type_synonym link_id = "link_tag strong_id"
type_synonym source_id = "source_tag strong_id"
type_synonym generation_id = "generation_tag strong_id"
type_synonym epoch_id = "epoch_tag strong_id"
type_synonym incarnation_id = "incarnation_tag strong_id"
type_synonym observation_id = "observation_tag strong_id"
type_synonym evidence_id = "evidence_tag strong_id"
type_synonym runtime_id = "runtime_tag strong_id"
type_synonym transition_id = "transition_tag strong_id"
type_synonym snapshot_id = "snapshot_tag strong_id"

instantiation strong_id :: (type) linorder
begin

definition less_eq_strong_id :: "'a strong_id \<Rightarrow> 'a strong_id \<Rightarrow> bool" where
  "less_eq_strong_id a b \<longleftrightarrow> id_hash a \<le> id_hash b"

definition less_strong_id :: "'a strong_id \<Rightarrow> 'a strong_id \<Rightarrow> bool" where
  "less_strong_id a b \<longleftrightarrow> id_hash a < id_hash b"

instance
  by standard (auto simp: less_eq_strong_id_def less_strong_id_def strong_id.expand)

end

definition id_zero :: "'tag strong_id" where
  "id_zero = StrongId (Hash128 0 0)"

definition id_valid :: "'tag strong_id \<Rightarrow> bool" where
  "id_valid i \<longleftrightarrow> \<not> hash_is_zero (id_hash i)"

definition id_from_name :: "string \<Rightarrow> string \<Rightarrow> 'tag strong_id" where
  "id_from_name kind name = StrongId (hb_add_str name (hb_add_str kind hb_init))"

definition endpoint_id_from_name :: "string \<Rightarrow> endpoint_id" where
  "endpoint_id_from_name = id_from_name ''endpoint''"

definition port_id_from_name :: "string \<Rightarrow> port_id" where
  "port_id_from_name = id_from_name ''port''"

definition link_id_from_name :: "string \<Rightarrow> link_id" where
  "link_id_from_name = id_from_name ''link''"

definition source_id_from_name :: "string \<Rightarrow> source_id" where
  "source_id_from_name = id_from_name ''source''"

definition generation_id_from_name :: "string \<Rightarrow> generation_id" where
  "generation_id_from_name = id_from_name ''generation''"

definition epoch_id_from_name :: "string \<Rightarrow> epoch_id" where
  "epoch_id_from_name = id_from_name ''epoch''"

definition incarnation_id_from_name :: "string \<Rightarrow> incarnation_id" where
  "incarnation_id_from_name = id_from_name ''incarnation''"

section \<open>Hexadecimal form\<close>

definition kHexDigits :: string where
  "kHexDigits = ''0123456789abcdef''"

definition hex_nibble :: "char \<Rightarrow> int" where
  "hex_nibble c =
     (let k = (of_char c :: int) in
      if 48 \<le> k \<and> k \<le> 57 then k - 48
      else if 97 \<le> k \<and> k \<le> 102 then k - 97 + 10
      else if 65 \<le> k \<and> k \<le> 70 then k - 65 + 10
      else - 1)"

definition to_hex_bytes :: "u8 list \<Rightarrow> string" where
  "to_hex_bytes data =
     concat (map (\<lambda>b. [kHexDigits ! unat (drop_bit 4 b AND 0x0F), kHexDigits ! unat (b AND 0x0F)]) data)"

definition be_bytes_u64 :: "u64 \<Rightarrow> u8 list" where
  "be_bytes_u64 v = map (\<lambda>i. ucast (drop_bit (8 * (7 - i)) v AND 0xFF)) [0..<8]"

definition to_hex :: "hash128 \<Rightarrow> string" where
  "to_hex v = to_hex_bytes (be_bytes_u64 (hash_hi v) @ be_bytes_u64 (hash_lo v))"

fun parse_nibbles :: "string \<Rightarrow> u64 \<Rightarrow> u64 option" where
  "parse_nibbles [] acc = Some acc"
| "parse_nibbles (c # cs) acc =
     (if hex_nibble c < 0 then None
      else parse_nibbles cs (push_bit 4 acc OR word_of_int (hex_nibble c)))"

text \<open>One pass over 32 characters: the first sixteen go to \<^verbatim>\<open>hi\<close>, the others to \<^verbatim>\<open>lo\<close>.\<close>

definition parse_hex128 :: "string \<Rightarrow> hash128 option" where
  "parse_hex128 text =
     (if length text \<noteq> 32 then None
      else case parse_nibbles (take 16 text) 0 of
        None \<Rightarrow> None
      | Some hi \<Rightarrow>
          (case parse_nibbles (drop 16 text) 0 of None \<Rightarrow> None | Some lo \<Rightarrow> Some (Hash128 hi lo)))"

definition id_to_string :: "string \<Rightarrow> 'tag strong_id \<Rightarrow> string" where
  "id_to_string kind i = kind @ ''-'' @ to_hex (id_hash i)"

definition id_parse :: "string \<Rightarrow> string \<Rightarrow> 'tag strong_id result" where
  "id_parse kind text =
     (if CHR ''-'' \<notin> set text then failure SC_InvalidArgument ''identifier has no kind prefix''
      else if takeWhile (\<lambda>c. c \<noteq> CHR ''-'') text \<noteq> kind
      then failure SC_InvalidArgument ''identifier kind mismatch''
      else case parse_hex128 (tl (dropWhile (\<lambda>c. c \<noteq> CHR ''-'') text)) of
        None \<Rightarrow> failure SC_InvalidArgument ''identifier body is not 32 hexadecimal digits''
      | Some h \<Rightarrow> Inr (StrongId h))"

section \<open>The revision counter\<close>

definition sequence_next :: "u64 \<Rightarrow> u64 option" where
  "sequence_next v = (if v = u64_max then None else Some (v + 1))"

section \<open>Reference functions\<close>

text \<open>
  The number a hash stands for, and FNV-1a 128 as it is published: exclusive-or the byte in, then
  multiply by the prime \<open>2 ^ 88 + 0x13B\<close> modulo \<open>2 ^ 128\<close>.
\<close>

definition hash_val :: "hash128 \<Rightarrow> nat" where
  "hash_val h = unat (hash_hi h) * 2 ^ 64 + unat (hash_lo h)"

definition fnv1a_128 :: "u8 list \<Rightarrow> nat" where
  "fnv1a_128 data =
     foldl (\<lambda>s b. (s XOR unat b) * (2 ^ 88 + 0x13B) mod 2 ^ 128)
       (0x6c62272e07bb014262b821756295c58d) data"

section \<open>Identities\<close>

lemma id_valid_zero [simp]: "\<not> id_valid id_zero"
  by (simp add: id_valid_def id_zero_def hash_is_zero_def)

lemma id_valid_iff: "id_valid i \<longleftrightarrow> i \<noteq> id_zero"
  by (cases i) (auto simp: id_valid_def id_zero_def hash_is_zero_def hash128.expand)

lemma sequence_next_unat: "sequence_next v = Some w \<Longrightarrow> unat w = Suc (unat v)"
  using unat_u64_lt [of v]
  by (auto simp: sequence_next_def unat_plus_u64 eq_u64_iff split: if_splits)

section \<open>The hash step\<close>

lemma schoolbook_folded:
  fixes B al ah bl bh :: nat
  defines "m \<equiv> ah * bl + al * bl div B"
  defines "f \<equiv> m mod B + al * bh"
  shows "(ah * bh + m div B + f div B) * (B * B) + (f mod B * B + al * bl mod B)
         = (ah * B + al) * (bh * B + bl)"
proof -
  have "(ah * bh + m div B + f div B) * (B * B) + (f mod B * B + al * bl mod B)
      = ah * bh * B * B + m div B * B * B + (f div B * B + f mod B) * B + al * bl mod B"
    by (simp only: distrib_right mult.assoc add.assoc)
  also have "\<dots> = ah * bh * B * B + (m div B * B + m mod B) * B + al * bh * B + al * bl mod B"
    unfolding div_mult_mod_eq [of f] by (simp only: f_def distrib_right distrib_left ac_simps)
  also have "\<dots> = ah * bh * B * B + ah * bl * B + al * bh * B + (al * bl div B * B + al * bl mod B)"
    unfolding div_mult_mod_eq [of m] by (simp only: m_def distrib_right distrib_left ac_simps)
  also have "\<dots> = (ah * B + al) * (bh * B + bl)"
    by (simp only: div_mult_mod_eq) (simp add: algebra_simps)
  finally show ?thesis .
qed

lemma mul_u64_full_exact: "u128_val (mul_u64_full a b) = unat a * unat b"
proof -
  define al ah bl bh where "al = unat a mod 4294967296" and "ah = unat a div 4294967296"
    and "bl = unat b mod 4294967296" and "bh = unat b div 4294967296"
  define m where "m = ah * bl + al * bl div 4294967296"
  define f where "f = m mod 4294967296 + al * bh"
  have small: "al < 4294967296" "ah < 4294967296" "bl < 4294967296" "bh < 4294967296"
    using unat_u64_lt [of a] unat_u64_lt [of b]
    by (simp_all add: al_def ah_def bl_def bh_def)
  note prod_lt = mul_limbs_bound [of _ _ 0 0, simplified]
  have m: "m < 18446744073709551616" and f: "f < 18446744073709551616"
    using small mul_limbs_bound [of ah bl "al * bl div 4294967296" 0]
      mul_limbs_bound [of al bh "m mod 4294967296" 0] prod_lt [of al bl]
    by (simp_all add: m_def f_def)
  have hi: "ah * bh + m div 4294967296 + f div 4294967296 < 18446744073709551616"
    using small m f by (intro mul_limbs_bound) simp_all
  let ?al = "a AND 0xFFFFFFFF" and ?ah = "drop_bit 32 a"
    and ?bl = "b AND 0xFFFFFFFF" and ?bh = "drop_bit 32 b"
  have prod: "unat (?al * ?bl) = al * bl" "unat (?al * ?bh) = al * bh"
      "unat (?ah * ?bl) = ah * bl" "unat (?ah * ?bh) = ah * bh"
    using small by (simp_all only: unat_mult_u64 unat_low32 unat_high32 prod_lt mod_less
        flip: al_def ah_def bl_def bh_def)
  define mw where "mw = ?ah * ?bl + drop_bit 32 (?al * ?bl)"
  define fw where "fw = (mw AND 0xFFFFFFFF) + ?al * ?bh"
  have mw: "unat mw = m"
    using m by (simp only: mw_def unat_plus_u64 unat_high32 prod m_def mod_less)
  have fw: "unat fw = f"
    using f by (simp only: fw_def unat_plus_u64 unat_low32 prod mw f_def mod_less)
  have hw: "unat (?ah * ?bh + drop_bit 32 mw + drop_bit 32 fw) = ah * bh + m div 4294967296 + f div 4294967296"
    using hi by (simp only: unat_plus_u64 unat_high32 prod mw fw) simp
  have "mul_u64_full a b = mk_u128 (?ah * ?bh + drop_bit 32 mw + drop_bit 32 fw)
      (push_bit 32 fw OR (?al * ?bl AND 0xFFFFFFFF))"
    by (simp only: mul_u64_full_def Let_def mw_def fw_def)
  then have "u128_val (mul_u64_full a b)
      = (ah * bh + m div 4294967296 + f div 4294967296) * (4294967296 * 4294967296)
        + (f mod 4294967296 * 4294967296 + al * bl mod 4294967296)"
    by (simp only: u128_val_def mk_u128_def u128.simps hw join_limbs fw prod) simp
  also have "\<dots> = (ah * 4294967296 + al) * (bh * 4294967296 + bl)"
    unfolding f_def m_def by (rule schoolbook_folded)
  also have "\<dots> = unat a * unat b"
    by (simp add: ah_def al_def bh_def bl_def)
  finally show ?thesis .
qed

lemma u128_val_parts:
  "unat (u128_hi x) = u128_val x div 18446744073709551616"
  "unat (u128_lo x) = u128_val x mod 18446744073709551616"
  using unat_u64_lt [of "u128_lo x"] by (simp_all add: u128_val_def)

lemma carry_add:
  fixes a b M :: nat
  assumes "a < M" "b < M"
  shows "(if (a + b) mod M < a then 1 else 0) * M + (a + b) mod M = a + b"
  using assms by (auto simp: mod_if)

lemma two_limb_mod:
  fixes x y M :: nat
  assumes "y < M"
  shows "(x * M + y) mod (M * M) = x mod M * M + y"
  using assms by (simp add: mod_mult2_eq mult.commute add.commute)

lemma fnv_multiply_val:
  "hash_val (fnv_multiply s) =
     (unat (hash_hi s) * 315 * 2 ^ 64 + unat (hash_lo s) * (2 ^ 24 + 315)) mod 2 ^ 128"
proof -
  let ?M = "18446744073709551616 :: nat"
  define h l where "h = unat (hash_hi s)" and "l = unat (hash_lo s)"
  define lp where "lp = mul_u64_full (hash_lo s) kFnvPrimeLow"
  define ha where "ha = u128_lo (mul_u64_full (hash_hi s) kFnvPrimeLow)"
  define sl sh where "sl = push_bit 24 (hash_lo s)" and "sh = drop_bit 40 (hash_lo s)"
  define c :: u64 where "c = (if sl + u128_lo lp < sl then 1 else 0)"
  have val: "u128_val lp = l * 315" "unat ha = h * 315 mod ?M"
    unfolding lp_def ha_def u128_val_parts mul_u64_full_exact by (simp_all add: kFnvPrimeLow_def h_def l_def)
  have sl: "unat sl = l * 2 ^ 24 mod ?M" and sh: "unat sh = l div 2 ^ 40"
    unfolding sl_def sh_def l_def by (simp_all only: unat_push_bit_u64 unat_drop_bit_u64)
  have shift: "l * 2 ^ 24 = unat sh * ?M + unat sl"
    unfolding sl sh using div_mult_mod_eq [of "l * 2 ^ 24" ?M] by simp
  have prod: "l * 315 = unat (u128_hi lp) * ?M + unat (u128_lo lp)"
    using val(1) by (simp add: u128_val_def)
  have carry: "unat c * ?M + unat (sl + u128_lo lp) = unat sl + unat (u128_lo lp)"
    using carry_add [of "unat sl" ?M "unat (u128_lo lp)"]
    by (simp add: c_def less_u64_iff unat_plus_u64 unat_u64_lt split: if_splits)
  have "fnv_multiply s = Hash128 (sh + (u128_hi lp + ha) + c) (sl + u128_lo lp)"
    by (simp only: fnv_multiply_def Let_def lp_def ha_def sl_def sh_def c_def)
  moreover have "unat (sh + (u128_hi lp + ha) + c)
      = (unat sh + unat (u128_hi lp) + h * 315 + unat c) mod ?M"
    by (simp only: unat_plus_u64 val(2)) (simp add: mod_simps ac_simps)
  ultimately have "hash_val (fnv_multiply s)
      = (unat sh + unat (u128_hi lp) + h * 315 + unat c) mod ?M * ?M + unat (sl + u128_lo lp)"
    by (simp only: hash_val_def hash128.sel) simp
  also have "\<dots> = ((unat sh + unat (u128_hi lp) + h * 315 + unat c) * ?M + unat (sl + u128_lo lp)) mod (?M * ?M)"
    by (rule two_limb_mod [symmetric]) (rule unat_u64_lt)
  also have "(unat sh + unat (u128_hi lp) + h * 315 + unat c) * ?M + unat (sl + u128_lo lp)
      = h * 315 * ?M + l * (2 ^ 24 + 315)"
    unfolding distrib_left shift prod using carry by (simp add: distrib_right)
  finally show ?thesis
    unfolding h_def l_def by simp
qed

lemma hash128_not_fnv1a: "hash_val (hash128_bytes [97]) \<noteq> fnv1a_128 [97]"
proof -
  have "hash128_bytes [97] = Hash128 6685089673280046288 17146260644979968356" by code_simp
  then show ?thesis by (simp add: hash_val_def fnv1a_128_def)
qed

lemma u128_lo_mul_u64_full: "u128_lo (mul_u64_full a b) = a * b"
  by (simp add: eq_u64_iff u128_val_parts mul_u64_full_exact unat_mult_u64)

lemma hash_lo_fnv_multiply: "hash_lo (fnv_multiply s) = hash_lo s * 16777531"
proof -
  have "push_bit 24 (hash_lo s) + hash_lo s * 315 = hash_lo s * 16777531"
    by (simp add: push_bit_eq_mult flip: distrib_left)
  then show ?thesis
    by (simp only: fnv_multiply_def Let_def hash128.sel u128_lo_mul_u64_full kFnvPrimeLow_def)
qed

lemma hash_hi_fnv_multiply:
  "hash_lo s = hash_lo t \<Longrightarrow>
     hash_hi (fnv_multiply s) - hash_hi (fnv_multiply t) = (hash_hi s - hash_hi t) * 315"
  by (simp add: fnv_multiply_def Let_def u128_lo_mul_u64_full kFnvPrimeLow_def left_diff_distrib)

lemma word_cancel_16777531: "(a :: u64) * 16777531 = b * 16777531 \<Longrightarrow> a = b"
proof -
  assume "a * 16777531 = b * 16777531"
  then have "a * (16777531 * 17681952438396858355) = b * (16777531 * 17681952438396858355)" by (simp only: flip: mult.assoc)
  moreover have "(16777531 :: u64) * 17681952438396858355 = 1" by (simp add: eq_u64_iff)
  ultimately show ?thesis by (simp only: mult_1_right)
qed

lemma word_cancel_315: "(a :: u64) * 315 = 0 \<Longrightarrow> a = 0"
proof -
  assume "a * 315 = 0"
  then have "a * (315 * 3455104445551947763) = 0" by (simp only: mult_zero_left flip: mult.assoc)
  moreover have "(315 :: u64) * 3455104445551947763 = 1" by (simp add: eq_u64_iff)
  ultimately show ?thesis by (simp only: mult_1_right)
qed

lemma fnv_multiply_inj: "fnv_multiply s = fnv_multiply t \<Longrightarrow> s = t"
proof -
  assume eq: "fnv_multiply s = fnv_multiply t"
  then have lo: "hash_lo s = hash_lo t"
    using hash_lo_fnv_multiply word_cancel_16777531 by metis
  have "(hash_hi s - hash_hi t) * 315 = 0"
    unfolding hash_hi_fnv_multiply [OF lo, symmetric] eq by simp
  then have "hash_hi s - hash_hi t = 0" by (rule word_cancel_315)
  then have "hash_hi s = hash_hi t" by simp
  with lo show "s = t" by (simp add: hash128.expand)
qed

lemma word_xor_cancel: "(x :: u64) XOR a = x XOR b \<longleftrightarrow> a = b"
  by (auto simp: bit_eq_iff bit_simps)

lemma fnv_step_inj_state: "fnv_step s b = fnv_step t b \<Longrightarrow> s = t"
proof -
  assume "fnv_step s b = fnv_step t b"
  then have "Hash128 (hash_hi s) (hash_lo s XOR ucast b) = Hash128 (hash_hi t) (hash_lo t XOR ucast b)"
    unfolding fnv_step_def by (rule fnv_multiply_inj)
  then have "hash_hi s = hash_hi t" and "ucast b XOR hash_lo s = ucast b XOR hash_lo t"
    by (simp_all add: xor.commute)
  then show "s = t" unfolding word_xor_cancel by (simp add: hash128.expand)
qed

lemma ucast_u8_inj: "(ucast (a :: u8) :: u64) = ucast b \<Longrightarrow> a = b"
  by (auto simp: bit_eq_iff bit_simps)

lemma fnv_step_inj_byte: "fnv_step s a = fnv_step s b \<Longrightarrow> a = b"
  unfolding fnv_step_def
  by (drule fnv_multiply_inj) (simp only: hash128.inject word_xor_cancel ucast_u8_inj)

lemma hash128_extend_inj_seed: "hash128_extend s data = hash128_extend t data \<Longrightarrow> s = t"
  unfolding hash128_extend_def
  by (induction data arbitrary: s t) (auto dest: fnv_step_inj_state)

lemma hash128_extend_one_byte:
  "hash128_extend s (xs @ a # ys) = hash128_extend s (xs @ b # ys) \<longleftrightarrow> a = b"
proof
  assume "hash128_extend s (xs @ a # ys) = hash128_extend s (xs @ b # ys)"
  then have "hash128_extend (fnv_step (foldl fnv_step s xs) a) ys
      = hash128_extend (fnv_step (foldl fnv_step s xs) b) ys"
    by (simp add: hash128_extend_def)
  then show "a = b" by (metis hash128_extend_inj_seed fnv_step_inj_byte)
qed simp

section \<open>The hexadecimal round trip\<close>

lemma hex_nibble_digit: "n < 16 \<Longrightarrow> hex_nibble (kHexDigits ! n) = int n"
proof -
  have "\<forall>n < 16. hex_nibble (kHexDigits ! n) = int n"
    by code_simp
  then show "n < 16 \<Longrightarrow> ?thesis" by blast
qed

lemma and_15: "(w :: 'a::len word) AND 0x0F = take_bit 4 w"
  by (simp only: take_bit_eq_mask mask_eq_exp_minus_1) simp

lemma and_255: "(w :: 'a::len word) AND 0xFF = take_bit 8 w"
  by (simp only: take_bit_eq_mask mask_eq_exp_minus_1) simp

lemma hex_digit_word:
  fixes v :: u64 and b :: u8
  assumes "ucast (take_bit 4 b) = take_bit 4 (drop_bit k v)"
  shows "\<not> hex_nibble (kHexDigits ! unat (take_bit 4 b)) < 0"
    and "word_of_int (hex_nibble (kHexDigits ! unat (take_bit 4 b))) = take_bit 4 (drop_bit k v)"
proof -
  have n: "unat (take_bit 4 b) < 16"
    using take_bit_nat_less_exp [of 4 "unat b"] by (simp only: unsigned_take_bit_eq) simp
  show "\<not> hex_nibble (kHexDigits ! unat (take_bit 4 b)) < 0"
    by (simp add: hex_nibble_digit [OF n])
  show "word_of_int (hex_nibble (kHexDigits ! unat (take_bit 4 b))) = take_bit 4 (drop_bit k v)"
    unfolding hex_nibble_digit [OF n] assms [symmetric] by (simp only: ucast_eq uint_nat [symmetric])
qed

lemma byte_nibbles:
  fixes v :: u64
  shows "ucast (take_bit 4 (drop_bit 4 (ucast (take_bit 8 (drop_bit k v)) :: u8))) = take_bit 4 (drop_bit (k + 4) v)"
    and "ucast (take_bit 4 (ucast (take_bit 8 (drop_bit k v)) :: u8)) = take_bit 4 (drop_bit k v)"
  by (rule bit_eqI, simp only: bit_simps bit_unsigned_iff, auto simp: ac_simps bit_unsigned_iff bit_simps)+

lemma nibble_step: "push_bit 4 (drop_bit (k + 4) (v :: u64)) OR take_bit 4 (drop_bit k v) = drop_bit k v"
proof (rule bit_eqI)
  fix n
  assume "possible_bit TYPE(u64) n"
  then show "bit (push_bit 4 (drop_bit (k + 4) v) OR take_bit 4 (drop_bit k v)) n = bit (drop_bit k v) n"
    by (cases "n < 4") (simp_all only: bit_simps, simp_all add: add.assoc)
qed

lemma parse_byte:
  assumes "acc = drop_bit (k + 8) (v :: u64)"
  shows "parse_nibbles (to_hex_bytes (ucast (drop_bit k v AND 0xFF) # bs) @ cs) acc
    = parse_nibbles (to_hex_bytes bs @ cs) (drop_bit k v)"
proof -
  have acc: "acc = drop_bit (k + 4 + 4) v" using assms by (simp add: add.assoc)
  show ?thesis
    by (simp only: to_hex_bytes_def list.map concat.simps append.simps parse_nibbles.simps and_15 and_255
        hex_digit_word [OF byte_nibbles(1)] hex_digit_word [OF byte_nibbles(2)] if_False acc nibble_step
        append_Nil)
qed

lemma parse_be_bytes_hex: "parse_nibbles (to_hex_bytes (be_bytes_u64 v)) 0 = Some v"
proof -
  have bytes: "be_bytes_u64 v = map (\<lambda>k. ucast (drop_bit k v AND 0xFF)) [56, 48, 40, 32, 24, 16, 8, 0]"
    by (simp add: be_bytes_u64_def upt_rec)
  have zero: "0 = drop_bit 64 v"
    by (rule bit_eqI) (auto simp: bit_simps dest: bit_imp_le_length)
  have step: "parse_nibbles (to_hex_bytes (ucast (drop_bit k v AND 0xFF) # bs) @ []) (drop_bit j v)
      = parse_nibbles (to_hex_bytes bs @ []) (drop_bit k v)" if "j = k + 8" for j k bs
    unfolding that by (rule parse_byte) simp
  have "parse_nibbles (to_hex_bytes (be_bytes_u64 v) @ []) 0 = parse_nibbles (to_hex_bytes [] @ []) (drop_bit 0 v)"
    unfolding bytes list.map zero
    by (subst step, simp, subst step, simp, subst step, simp, subst step, simp,
        subst step, simp, subst step, simp, subst step, simp, subst step, simp) (rule refl)
  then show ?thesis by (simp add: to_hex_bytes_def)
qed

lemma to_hex_bytes_append: "to_hex_bytes (xs @ ys) = to_hex_bytes xs @ to_hex_bytes ys"
  by (simp add: to_hex_bytes_def)

lemma length_to_hex_bytes: "length (to_hex_bytes xs) = 2 * length xs"
  by (induction xs) (auto simp: to_hex_bytes_def)

lemma parse_hex128_to_hex: "parse_hex128 (to_hex h) = Some h"
proof -
  have "length (to_hex_bytes (be_bytes_u64 v)) = 16" for v
    by (simp add: length_to_hex_bytes be_bytes_u64_def)
  then show ?thesis
    by (simp add: parse_hex128_def to_hex_def to_hex_bytes_append parse_be_bytes_hex)
qed

lemma id_parse_to_string:
  assumes "CHR ''-'' \<notin> set kind"
  shows "id_parse kind (id_to_string kind i) = Inr i"
proof -
  let ?t = "kind @ CHR ''-'' # to_hex (id_hash i)"
  have "takeWhile (\<lambda>c. c \<noteq> CHR ''-'') ?t = kind"
    and "dropWhile (\<lambda>c. c \<noteq> CHR ''-'') ?t = CHR ''-'' # to_hex (id_hash i)"
    using assms by (auto simp: takeWhile_append dropWhile_append)
  then show ?thesis
    by (simp add: id_parse_def id_to_string_def parse_hex128_to_hex)
qed

section \<open>Main results\<close>

text \<open>
  Printing an identifier and parsing the text back, with the kind it was printed with, returns
  the identifier.
\<close>

lemma identifier_round_trip:
  assumes "CHR ''-'' \<notin> set kind"
  shows "id_parse kind (id_to_string kind i) = Inr i"
  using assms by (rule id_parse_to_string)

text \<open>
  The incremental hash loses nothing of its state and depends on every byte: for fixed data it
  is injective in the state it starts from, and changing any single byte of the data changes the
  result.
\<close>

lemma hash_keeps_state_and_bytes:
  "(hash128_extend s data = hash128_extend t data \<longleftrightarrow> s = t)
   \<and> (hash128_extend s (xs @ a # ys) = hash128_extend s (xs @ b # ys) \<longleftrightarrow> a = b)"
  using hash128_extend_inj_seed hash128_extend_one_byte by blast

text \<open>
  The digest is not the 128-bit FNV-1a the documentation names. Already on one byte it differs
  from the reference function, because the shifted low limb is added to the wrong limb.
\<close>

lemma digest_differs_from_fnv1a: "hash_val (hash128_bytes [97]) \<noteq> fnv1a_128 [97]"
  by (rule hash128_not_fnv1a)

end
