(* ===== verification/Observation.thy ===== *)
theory Observation
  imports Metric Identity
begin

text \<open>
  Observations, accepted evidence and link facts (\<^verbatim>\<open>src/domain/observation.cpp\<close>,
  \<^verbatim>\<open>src/domain/evidence.cpp\<close>, \<^verbatim>\<open>src/domain/link.cpp\<close> and their headers): the
  provenance of an observation and its content address, the ageing of evidence against an explicit
  instant, the freshness classes, the confidence table, and the declared facts of a link.
\<close>

section \<open>Provenance and observations\<close>

record provenance =
  prov_source :: source_id
  prov_incarnation :: incarnation_id
  prov_epoch :: epoch_id
  prov_generation :: generation_id
  prov_sequence :: u64

record sequence_scope =
  scope_source :: source_id
  scope_incarnation :: incarnation_id
  scope_epoch :: epoch_id

definition scope_of :: "provenance \<Rightarrow> sequence_scope" where
  "scope_of p =
     \<lparr>scope_source = prov_source p, scope_incarnation = prov_incarnation p,
      scope_epoch = prov_epoch p\<rparr>"

record source_record =
  src_id :: source_id
  src_name :: string
  src_authority :: source_authority
  src_provenance :: provenance_class
  src_registered :: bool
  src_retired :: bool

record observation =
  obs_id :: observation_id
  obs_provenance :: provenance
  obs_link :: link_id
  obs_key :: metric_key
  obs_payload :: metric_payload
  obs_observed_at :: time_point
  obs_received_at :: time_point

primrec admin_state_code :: "admin_state_value \<Rightarrow> nat" where
  "admin_state_code Admin_Unknown = 0"
| "admin_state_code Admin_Enabled = 1"
| "admin_state_code Admin_Disabled = 2"

primrec oper_state_code :: "oper_state_value \<Rightarrow> nat" where
  "oper_state_code Oper_Unknown = 0"
| "oper_state_code Oper_Up = 1"
| "oper_state_code Oper_Down = 2"
| "oper_state_code Oper_Degraded = 3"

definition hash_key :: "metric_key \<Rightarrow> hash128 \<Rightarrow> hash128" where
  "hash_key k s =
     hb_add_u8 (of_nat (error_class_code (key_error_class k)))
       (hb_add_u8 (of_nat (direction_code (key_direction k)))
         (hb_add_u8 (of_nat (metric_family_code (key_family k))) s))"

primrec hash_payload :: "metric_payload \<Rightarrow> hash128 \<Rightarrow> hash128" where
  "hash_payload (AdminStateReading v) s = hb_add_u8 (of_nat (admin_state_code v)) s"
| "hash_payload (OperStateReading v) s = hb_add_u8 (of_nat (oper_state_code v)) s"
| "hash_payload (CounterReading c) s =
     hb_add_bool (cr_reset_declared c)
       (hb_add_u8 (of_nat (counter_width_code (cr_width c))) (hb_add_u64 (cr_raw c) s))"
| "hash_payload (RatioReading ppb) s = hb_add_u64 ppb s"
| "hash_payload (QualityReading q) s =
     hb_add_bool (qr_degraded_declared q) (hb_add_u64 (qr_value_ppb q) s)"
| "hash_payload (FlapReading f) s = hb_add_i64 (fl_window f) (hb_add_u64 (fl_events f) s)"

definition compute_observation_id :: "observation \<Rightarrow> observation_id" where
  "compute_observation_id o1 =
     (let p = obs_provenance o1;
          s1 = hb_add_str ''observation-v1'' hb_init;
          s2 = hb_add_hash (id_hash (prov_source p)) s1;
          s3 = hb_add_hash (id_hash (prov_incarnation p)) s2;
          s4 = hb_add_hash (id_hash (prov_epoch p)) s3;
          s5 = hb_add_hash (id_hash (prov_generation p)) s4;
          s6 = hb_add_u64 (prov_sequence p) s5;
          s7 = hb_add_hash (id_hash (obs_link o1)) s6;
          s8 = hash_key (obs_key o1) s7;
          s9 = hb_add_u8 (of_nat (payload_index (obs_payload o1))) s8;
          s10 = hash_payload (obs_payload o1) s9;
          s11 = hb_add_i64 (obs_observed_at o1) s10;
          s12 = hb_add_i64 (obs_received_at o1) s11
      in StrongId s12)"

definition with_identity :: "observation \<Rightarrow> observation" where
  "with_identity o1 = o1\<lparr>obs_id := compute_observation_id o1\<rparr>"

definition validate_observation :: "observation \<Rightarrow> policy \<Rightarrow> status" where
  "validate_observation o1 p =
     (if \<not> id_valid (prov_source (obs_provenance o1))
      then status_of SC_InvalidArgument ''observation has no source identity''
      else if \<not> id_valid (prov_incarnation (obs_provenance o1))
      then status_of SC_InvalidArgument ''observation has no source incarnation''
      else if \<not> id_valid (prov_epoch (obs_provenance o1))
      then status_of SC_InvalidArgument ''observation has no source epoch''
      else if \<not> id_valid (obs_link o1)
      then status_of SC_InvalidArgument ''observation has no link identity''
      else let reading = validate_reading (obs_key o1) (obs_payload o1) p in
        if \<not> status_ok reading then reading else status_success)"

section \<open>Evidence, age and freshness\<close>

record evidence =
  ev_observation :: observation
  ev_accepted_at :: time_point
  ev_authority :: source_authority
  ev_provenance :: provenance_class

record age_report =
  observed_age :: duration
  received_age :: duration
  backwards_clock :: bool

definition age_component :: "duration option \<Rightarrow> duration \<times> bool" where
  "age_component d =
     (case d of None \<Rightarrow> (0, True) | Some a \<Rightarrow> if is_negative a then (0, True) else (a, False))"

definition age_evidence :: "evidence \<Rightarrow> time_point \<Rightarrow> age_report" where
  "age_evidence e now =
     (let observed = age_component (difference now (obs_observed_at (ev_observation e)));
          received = age_component (difference now (obs_received_at (ev_observation e)))
      in \<lparr>observed_age = fst observed, received_age = fst received,
          backwards_clock = snd observed \<or> snd received\<rparr>)"

definition classify_freshness :: "age_report \<Rightarrow> freshness_policy \<Rightarrow> freshness" where
  "classify_freshness age p =
     (let effective = (if observed_age age > received_age age then observed_age age
                       else received_age age)
      in if effective \<le> fresh_within p then Fr_Fresh
         else if effective \<le> usable_within p then Fr_Stale
         else Fr_Expired)"

definition derive_confidence ::
  "source_authority \<Rightarrow> freshness \<Rightarrow> conflict_state \<Rightarrow> completeness \<Rightarrow> confidence" where
  "derive_confidence authority fresh conflict complete =
     (if fresh = Fr_Unknown \<or> fresh = Fr_Expired then Conf_Unknown
      else if conflict = CS_Conflicting then Conf_Low
      else if fresh = Fr_Stale then Conf_Low
      else let base = (case authority of
                 SA_Primary \<Rightarrow> Conf_High
               | SA_Secondary \<Rightarrow> Conf_Medium
               | SA_Derived \<Rightarrow> Conf_Low
               | SA_Synthetic \<Rightarrow> Conf_Low
               | SA_Unknown \<Rightarrow> Conf_Unknown)
           in if complete = Compl_Incomplete \<and> base > Conf_Low
              then (case base of Conf_High \<Rightarrow> Conf_Medium | Conf_Medium \<Rightarrow> Conf_Low
                      | Conf_Low \<Rightarrow> Conf_Unknown | Conf_Unknown \<Rightarrow> Conf_Unknown)
              else base)"

definition compute_evidence_id :: "observation \<Rightarrow> evidence_id" where
  "compute_evidence_id o1 =
     (let p = obs_provenance o1;
          s1 = hb_add_str ''evidence-v1'' hb_init;
          s2 = hb_add_hash (id_hash (obs_link o1)) s1;
          s3 = hash_key (obs_key o1) s2;
          s4 = hb_add_hash (id_hash (prov_source p)) s3;
          s5 = hb_add_hash (id_hash (prov_incarnation p)) s4;
          s6 = hb_add_hash (id_hash (prov_epoch p)) s5
      in StrongId (hb_add_u64 (prov_sequence p) s6))"

section \<open>Links\<close>

record link_facts =
  lf_id :: link_id
  lf_name :: string
  lf_local_endpoint :: endpoint_id
  lf_remote_endpoint :: endpoint_id
  lf_local_port :: port_id
  lf_remote_port :: port_id
  lf_kind :: link_kind
  lf_generation :: generation_id
  lf_capacity_known :: bool
  lf_capacity_in_bps :: u64
  lf_capacity_out_bps :: u64
  lf_provenance :: provenance_class

definition empty_link_facts :: link_facts where
  "empty_link_facts =
     \<lparr>lf_id = id_zero, lf_name = [], lf_local_endpoint = id_zero, lf_remote_endpoint = id_zero,
      lf_local_port = id_zero, lf_remote_port = id_zero, lf_kind = LK_Unknown,
      lf_generation = id_zero, lf_capacity_known = False, lf_capacity_in_bps = 0,
      lf_capacity_out_bps = 0, lf_provenance = PC_Unknown\<rparr>"

record link_entry =
  le_facts :: link_facts
  le_registered_at :: time_point
  le_last_evidence_at :: time_point
  le_last_accepted_at :: time_point
  le_accepted_observations :: u64
  le_fenced_observations :: u64
  le_retired :: bool
  le_has_evidence :: bool

definition derive_link_id :: "string \<Rightarrow> link_id" where
  "derive_link_id = link_id_from_name"

definition capacity_for :: "link_facts \<Rightarrow> direction \<Rightarrow> u64 option" where
  "capacity_for facts d =
     (if \<not> lf_capacity_known facts then None
      else case d of
        Dir_In \<Rightarrow> if lf_capacity_in_bps facts = 0 then None else Some (lf_capacity_in_bps facts)
      | Dir_Out \<Rightarrow> if lf_capacity_out_bps facts = 0 then None else Some (lf_capacity_out_bps facts)
      | Dir_Both \<Rightarrow> None
      | Dir_Unknown \<Rightarrow> None)"

definition validate_link_facts :: "link_facts \<Rightarrow> policy \<Rightarrow> status" where
  "validate_link_facts facts p =
     (if \<not> id_valid (lf_id facts)
      then status_of SC_InvalidArgument ''link facts have no link identity''
      else if lf_name facts = []
      then status_of SC_InvalidArgument ''link facts have no name''
      else if length (lf_name facts) > 128
      then status_of SC_OutOfRange ''link name exceeds 128 bytes''
      else if lf_capacity_known facts then
        (if lf_capacity_in_bps facts = 0 \<and> lf_capacity_out_bps facts = 0
         then status_of SC_InvalidArgument
                ''link declares known capacity but both directions are zero''
         else status_success)
      else if lf_capacity_in_bps facts \<noteq> 0 \<or> lf_capacity_out_bps facts \<noteq> 0
      then status_of SC_InvalidArgument
             ''link has capacity values but does not declare capacity as known''
      else status_success)"

section \<open>Freshness against the ages\<close>

lemma validate_observation_reading:
  "status_ok (validate_observation o1 p) \<Longrightarrow> status_ok (validate_reading (obs_key o1) (obs_payload o1) p)"
  by (auto simp: validate_observation_def Let_def split: if_splits)

lemma validate_observation_ids:
  "status_ok (validate_observation o1 p) \<Longrightarrow>
     id_valid (prov_source (obs_provenance o1)) \<and> id_valid (obs_link o1)"
  by (auto simp: validate_observation_def split: if_splits)

text \<open>Instants from the epoch on, the ones a clock returns and a source can honestly report.\<close>

definition calendar :: "time_point \<Rightarrow> bool" where
  "calendar t \<longleftrightarrow> 0 \<le> t \<and> t \<le> i64_max"

definition evidence_calendar :: "evidence \<Rightarrow> bool" where
  "evidence_calendar e \<longleftrightarrow>
     calendar (obs_observed_at (ev_observation e)) \<and> calendar (obs_received_at (ev_observation e))"

text \<open>The age the documentation defines: the larger of the two ages, future dates counting as zero.\<close>

definition effective_age :: "evidence \<Rightarrow> time_point \<Rightarrow> int" where
  "effective_age e now =
     max 0 (max (now - obs_observed_at (ev_observation e)) (now - obs_received_at (ev_observation e)))"

lemma classify_freshness_effective:
  assumes "calendar now" and "evidence_calendar e"
  shows "classify_freshness (age_evidence e now) p =
    (if effective_age e now \<le> fresh_within p then Fr_Fresh
     else if effective_age e now \<le> usable_within p then Fr_Stale else Fr_Expired)"
  using assms
  by (auto simp: classify_freshness_def age_evidence_def age_component_def effective_age_def
      calendar_def evidence_calendar_def difference_nonneg is_negative_def Let_def)

lemma effective_age_mono: "t1 \<le> t2 \<Longrightarrow> effective_age e t1 \<le> effective_age e t2"
  by (auto simp: effective_age_def)

lemma backwards_clock_iff:
  assumes "calendar now" and "evidence_calendar e"
  shows "backwards_clock (age_evidence e now) \<longleftrightarrow>
    now < obs_observed_at (ev_observation e) \<or> now < obs_received_at (ev_observation e)"
  using assms
  by (auto simp: age_evidence_def age_component_def calendar_def evidence_calendar_def
      difference_nonneg is_negative_def Let_def)

lemma classify_freshness_known: "classify_freshness a p \<noteq> Fr_Unknown"
  by (simp add: classify_freshness_def Let_def)

lemma derive_confidence_high_iff:
  "derive_confidence a f c k = Conf_High \<longleftrightarrow>
     a = SA_Primary \<and> f = Fr_Fresh \<and> c \<noteq> CS_Conflicting \<and> k \<noteq> Compl_Incomplete"
  by (cases a; cases f) (auto simp: derive_confidence_def Let_def less_confidence_def)

lemma capacity_for_pos: "capacity_for facts d = Some c \<Longrightarrow> c \<noteq> 0"
  by (auto simp: capacity_for_def split: if_splits direction.splits)

section \<open>Main results\<close>

text \<open>
  For dates from the epoch on, the freshness class of an item of evidence is decided by its
  effective age, the larger of the ages of observation and receipt with dates in the future
  counting as age zero.
\<close>

lemma freshness_by_effective_age:
  assumes "calendar now" and "evidence_calendar e"
  shows "classify_freshness (age_evidence e now) p =
    (if effective_age e now \<le> fresh_within p then Fr_Fresh
     else if effective_age e now \<le> usable_within p then Fr_Stale else Fr_Expired)"
  using assms by (rule classify_freshness_effective)

definition example_evidence :: evidence where
  "example_evidence =
     \<lparr>ev_observation =
        \<lparr>obs_id = StrongId (Hash128 0 9),
         obs_provenance = \<lparr>prov_source = StrongId (Hash128 0 1), prov_incarnation = StrongId (Hash128 0 2),
                           prov_epoch = StrongId (Hash128 0 3), prov_generation = StrongId (Hash128 0 4),
                           prov_sequence = 1\<rparr>,
         obs_link = StrongId (Hash128 0 5), obs_key = MetricKey MF_OperState Dir_Unknown EC_None,
         obs_payload = OperStateReading Oper_Up, obs_observed_at = 1000, obs_received_at = 1500\<rparr>,
      ev_accepted_at = 1500, ev_authority = SA_Primary, ev_provenance = PC_Real\<rparr>"

lemma example_evidence_calendar: "evidence_calendar example_evidence"
  by (simp add: example_evidence_def evidence_calendar_def calendar_def)

text \<open>
  Evidence never becomes fresher as the clock advances: what is fresh later was fresh before,
  and what has expired stays expired.
\<close>

lemma freshness_only_decays:
  assumes "calendar t1" and "calendar t2" and "t1 \<le> t2" and "evidence_calendar e"
    and "fresh_within p \<le> usable_within p"
  shows "(classify_freshness (age_evidence e t2) p = Fr_Fresh \<longrightarrow> classify_freshness (age_evidence e t1) p = Fr_Fresh)
    \<and> (classify_freshness (age_evidence e t1) p = Fr_Expired \<longrightarrow> classify_freshness (age_evidence e t2) p = Fr_Expired)"
  using assms effective_age_mono [OF assms(3), of e] by (auto simp: classify_freshness_effective)

text \<open>
  High confidence is claimed in exactly one situation: fresh evidence of a primary source with
  no conflict and no incompleteness.
\<close>

lemma high_confidence_exactly_when:
  "derive_confidence a f c k = Conf_High \<longleftrightarrow>
     a = SA_Primary \<and> f = Fr_Fresh \<and> c \<noteq> CS_Conflicting \<and> k \<noteq> Compl_Incomplete"
  by (rule derive_confidence_high_iff)

text \<open>
  Outside the calendar range the age can overflow; both ages then count as zero and the evidence
  as fresh.
\<close>

lemma overflowing_age_is_fresh:
  assumes "0 < now" and "0 \<le> fresh_within p"
  shows "classify_freshness (age_evidence (example_evidence\<lparr>ev_observation :=
      (ev_observation example_evidence)\<lparr>obs_observed_at := i64_min, obs_received_at := i64_min\<rparr>\<rparr>) now) p = Fr_Fresh"
  using assms by (simp add: age_evidence_def age_component_def difference_eq checked_sub_i64_def classify_freshness_def)

end
