(* ===== verification/Supersession.thy ===== *)
theory Supersession
  imports Prelude
begin

text \<open>
  The contract shared by the topology generations of a link and the revision scopes of a source:
  one value in force and a bounded list of superseded values, oldest evicted first. A superseded
  value is refused, any other new value supersedes the one in force. The locale states the four
  laws of the entering operation; the registry and the evidence store interpret it on their own
  states.
\<close>

text \<open>The representation invariant of such a state.\<close>

definition sane :: "nat \<Rightarrow> 'g option \<Rightarrow> 'g list \<Rightarrow> bool" where
  "sane n cur ret \<longleftrightarrow>
     length ret \<le> n \<and> distinct ret \<and> (case cur of None \<Rightarrow> ret = [] | Some c \<Rightarrow> c \<notin> set ret)"

lemma sane_initial [simp]: "sane n None []" "sane n (Some c) []"
  by (simp_all add: sane_def)

lemma sane_retire: "sane n (Some c) ret \<Longrightarrow> g \<noteq> c \<Longrightarrow> g \<notin> set ret \<Longrightarrow> sane n (Some g) (retire n c ret)"
  using set_retire [of n c ret] by (auto simp: sane_def)

text \<open>Appending some values and keeping the newest \<open>n\<close>, one by one or all at once.\<close>

lemma retire_run:
  assumes "length xs \<le> n"
  shows "fold (retire n) ys xs = drop (length xs + length ys - n) (xs @ ys)"
  using assms
proof (induction ys arbitrary: xs)
  case (Cons y ys)
  have step: "retire n y xs = drop (Suc (length xs) - n) (xs @ [y])"
    by (simp add: retire_def trim_front_drop)
  have app: "retire n y xs @ ys = drop (Suc (length xs) - n) (xs @ y # ys)"
    using drop_append [of "Suc (length xs) - n" "xs @ [y]" ys] by (simp add: step)
  have len: "length (retire n y xs) = min n (Suc (length xs))"
    by (simp add: retire_def)
  have "fold (retire n) (y # ys) xs = drop (length (retire n y xs) + length ys - n) (retire n y xs @ ys)"
    using Cons.IH [of "retire n y xs"] by simp
  also have "\<dots> = drop (length xs + length (y # ys) - n) (xs @ y # ys)"
  proof -
    have "length (retire n y xs) + length ys - n + (Suc (length xs) - n) = length xs + length (y # ys) - n"
      using Cons.prems by (auto simp: len min_def)
    then show ?thesis unfolding app drop_drop by simp
  qed
  finally show ?case .
qed simp

lemma newest_survives:
  assumes "length xs < n" and "length ys < n"
  shows "c \<in> set (fold (retire n) ys (xs @ [c]))"
proof -
  let ?k = "length (xs @ [c]) + length ys - n"
  have "?k \<le> length xs" using assms by simp
  then have "drop ?k ((xs @ [c]) @ ys) = drop ?k xs @ c # ys" by simp
  then show ?thesis using assms by (simp add: retire_run)
qed

locale supersession =
  fixes current :: "'s \<Rightarrow> 'g option"
    and retired :: "'s \<Rightarrow> 'g list"
    and enter :: "'g \<Rightarrow> 's \<Rightarrow> 's"
    and bound :: nat
  assumes bound_pos: "0 < bound"
    and enter_first: "current s = None \<Longrightarrow> current (enter g s) = Some g \<and> retired (enter g s) = retired s"
    and enter_same: "current s = Some g \<Longrightarrow> current (enter g s) = Some g \<and> retired (enter g s) = retired s"
    and enter_refused:
      "current s = Some c \<Longrightarrow> g \<noteq> c \<Longrightarrow> g \<in> set (retired s) \<Longrightarrow>
         current (enter g s) = Some c \<and> retired (enter g s) = retired s"
    and enter_new:
      "current s = Some c \<Longrightarrow> g \<noteq> c \<Longrightarrow> g \<notin> set (retired s) \<Longrightarrow>
         current (enter g s) = Some g \<and> retired (enter g s) = retire bound c (retired s)"
begin

lemma enter_cases:
  obtains (kept) "current (enter g s) = current s" "retired (enter g s) = retired s"
  | (initial) "current s = None" "current (enter g s) = Some g" "retired (enter g s) = retired s"
  | (changed) c where "current s = Some c" "g \<noteq> c" "g \<notin> set (retired s)"
      "current (enter g s) = Some g" "retired (enter g s) = retire bound c (retired s)"
  using enter_first [of s g] enter_same [of s g] enter_refused [of s _ g] enter_new [of s _ g]
  by (cases "current s") metis+

lemma enter_sane:
  assumes "sane bound (current s) (retired s)"
  shows "sane bound (current (enter g s)) (retired (enter g s))"
proof (cases rule: enter_cases [of g s])
  case kept
  with assms show ?thesis by simp
next
  case initial
  with assms show ?thesis by (simp add: sane_def)
next
  case (changed c)
  with assms show ?thesis by (simp add: sane_retire)
qed

lemma run_sane:
  "sane bound (current s) (retired s) \<Longrightarrow>
     sane bound (current (fold enter gs s)) (retired (fold enter gs s))"
  by (induction gs arbitrary: s) (simp_all add: enter_sane)

lemma retired_refused:
  "sane bound (current s) (retired s) \<Longrightarrow> g \<in> set (retired s) \<Longrightarrow> current (enter g s) \<noteq> Some g"
  using enter_refused by (cases "current s") (force simp: sane_def)+

lemma unknown_entered: "g \<notin> set (retired s) \<Longrightarrow> current (enter g s) = Some g"
  using enter_first enter_same enter_new by (metis not_None_eq)

text \<open>Each entered value retires at most one value.\<close>

lemma run_retires:
  "current s \<noteq> None \<Longrightarrow>
     \<exists>ys. length ys \<le> length gs \<and> retired (fold enter gs s) = fold (retire bound) ys (retired s)"
proof (induction gs arbitrary: s)
  case Nil
  then show ?case by (intro exI [of _ "[]"]) simp
next
  case (Cons g gs)
  have "current (enter g s) \<noteq> None"
    using Cons.prems by (cases rule: enter_cases [of g s]) auto
  from Cons.IH [OF this] obtain ys where
    ys: "length ys \<le> length gs" "retired (fold enter gs (enter g s)) = fold (retire bound) ys (retired (enter g s))"
    by blast
  show ?case
  proof (cases rule: enter_cases [of g s])
    case (changed c)
    with ys show ?thesis by (intro exI [of _ "c # ys"]) simp
  qed (use ys Cons.prems in \<open>auto intro!: exI [of _ ys]\<close>)
qed

text \<open>
  A value just superseded stays superseded through the next \<open>bound - 1\<close> values: none of them
  can put it back in force, whatever they are.
\<close>

lemma superseded_stays_out:
  assumes s: "sane bound (current s) (retired s)" and c: "current s = Some c"
    and g: "current (enter g s) = Some g" "g \<noteq> c" and gs: "length gs < bound"
  shows "c \<in> set (retired (fold enter gs (enter g s))) \<and> current (fold enter gs (enter g s)) \<noteq> Some c"
proof -
  have "g \<notin> set (retired s)" using retired_refused [OF s] g by blast
  then have ret: "retired (enter g s) = retire bound c (retired s)" using enter_new [OF c] g by blast
  have len: "length (retired s) \<le> bound" using s by (simp add: sane_def)
  obtain ys where ys: "length ys \<le> length gs"
      "retired (fold enter gs (enter g s)) = fold (retire bound) ys (retire bound c (retired s))"
    using run_retires [of "enter g s" gs] g(1) ret by auto
  have "retire bound c (retired s) = drop (Suc (length (retired s)) - bound) (retired s) @ [c]"
    using bound_pos by (simp add: retire_def trim_front_snoc)
  moreover have "length (drop (Suc (length (retired s)) - bound) (retired s)) < bound"
    using bound_pos len by simp
  ultimately have mem: "c \<in> set (retired (fold enter gs (enter g s)))"
    using newest_survives [of "drop (Suc (length (retired s)) - bound) (retired s)" bound ys c] ys gs
    by simp
  moreover have "sane bound (current (fold enter gs (enter g s))) (retired (fold enter gs (enter g s)))"
    using s by (intro run_sane enter_sane)
  ultimately show ?thesis by (auto simp: sane_def split: option.splits)
qed

end

end
