(* ===== verification/Restore.thy ===== *)
theory Restore
  imports Status
begin

text \<open>
  Restoring a keyed component from its persisted entries: the loop that stops at the first entry
  that is refused (\<^verbatim>\<open>Observatory::restore_from\<close>), and the contract under which writing out
  a component and restoring the entries in order gives the component back. The registry's links
  and the store's slots and streams interpret the contract.
\<close>

primrec restore_all :: "('s \<Rightarrow> 'p \<Rightarrow> 's \<times> status) \<Rightarrow> 's \<Rightarrow> 'p list \<Rightarrow> 's \<times> status" where
  "restore_all f s [] = (s, status_success)"
| "restore_all f s (p # ps) =
     (let r = f s p in if status_ok (snd r) then restore_all f (fst r) ps else r)"

lemma restore_all_invariant:
  assumes "P s" and "\<And>s p. p \<in> set ps \<Longrightarrow> P s \<Longrightarrow> P (fst (f s p))"
  shows "P (fst (restore_all f s ps))"
  using assms
proof (induction ps arbitrary: s)
  case (Cons p ps)
  then have "P (fst (f s p))" by simp
  with Cons show ?case by (simp add: Let_def)
qed simp

locale restorable =
  fixes contents :: "'s \<Rightarrow> ('k::linorder, 'v) omap"
    and with_contents :: "('k, 'v) omap \<Rightarrow> 's \<Rightarrow> 's"
    and admits :: "'s \<Rightarrow> 'k \<Rightarrow> 'v \<Rightarrow> bool"
    and bound :: "'s \<Rightarrow> nat"
    and persist :: "'k \<times> 'v \<Rightarrow> 'p"
    and restore :: "'s \<Rightarrow> 'p \<Rightarrow> 's \<times> status"
  assumes contents_with: "contents (with_contents m s) = m"
    and with_twice: "with_contents m (with_contents m' s) = with_contents m s"
    and with_own: "with_contents (contents s) s = s"
    and bound_with: "bound (with_contents m s) = bound s"
    and admits_with: "admits (with_contents m s) k v = admits s k v"
    and restore_step:
      "admits s k v \<Longrightarrow> (om_get (contents s) k = None \<Longrightarrow> length (contents s) < bound s) \<Longrightarrow>
         restore s (persist (k, v)) = (with_contents (om_put k v (contents s)) s, status_success)"
begin

lemma restore_suffix:
  assumes "om_wf (contents s @ rest)" and "\<forall>(k, v) \<in> set rest. admits s k v"
    and "length (contents s @ rest) \<le> bound s"
  shows "restore_all restore s (map persist rest) = (with_contents (contents s @ rest) s, status_success)"
  using assms
proof (induction rest arbitrary: s)
  case Nil
  then show ?case by (simp add: with_own)
next
  case (Cons e rest)
  obtain k v where e: "e = (k, v)" by (cases e)
  have put: "om_put k v (contents s) = contents s @ [(k, v)]"
    using Cons.prems(1) by (intro om_put_append) (auto simp: om_wf_def e sorted_wrt_append)
  let ?s = "with_contents (contents s @ [(k, v)]) s"
  have step: "restore s (persist e) = (?s, status_success)"
    using Cons.prems restore_step [of s k v] by (simp add: e put)
  have "restore_all restore ?s (map persist rest) = (with_contents (contents ?s @ rest) ?s, status_success)"
    using Cons.prems by (intro Cons.IH) (auto simp: e contents_with bound_with admits_with)
  then show ?case by (simp add: step [unfolded e] e contents_with with_twice)
qed

text \<open>The round trip: an emptied component gets its contents back.\<close>

lemma restore_round_trip:
  assumes "om_wf (contents s)" and "\<And>k v. om_get (contents s) k = Some v \<Longrightarrow> admits s k v"
    and "length (contents s) \<le> bound s"
  shows "restore_all restore (with_contents [] s) (map persist (contents s)) = (s, status_success)"
proof -
  have "restore_all restore (with_contents [] s) (map persist (contents s))
      = (with_contents (contents (with_contents [] s) @ contents s) (with_contents [] s), status_success)"
    using assms by (intro restore_suffix) (auto simp: contents_with bound_with admits_with om_get_iff)
  then show ?thesis by (simp add: contents_with with_twice with_own)
qed

end

end
