(* ===== verification/Link_Registry.thy ===== *)
theory Link_Registry
  imports Observation Supersession Restore
begin

text \<open>
  The link and source registry (\<^verbatim>\<open>src/store/link_registry.cpp\<close>): declared sources and
  links, the topology generation in force for each link with its bounded list of superseded
  generations, and the per-link acceptance bookkeeping. Operations return the new registry with
  the status or the observation outcome. The generation state interprets \<open>supersession\<close>.
\<close>

section \<open>State\<close>

record generation_observation =
  go_changed :: bool
  go_behind :: bool
  go_previous :: generation_id
  go_current :: generation_id

record link_generation_state =
  lg_current_generation :: generation_id
  lg_has_generation :: bool
  lg_retired_generations :: "generation_id list"
  lg_generation_changes :: u64

record persisted_link =
  pl_facts :: link_facts
  pl_entry :: link_entry
  pl_generations :: link_generation_state

record link_state_rec =
  ls_entry :: link_entry
  ls_generations :: link_generation_state

record link_registry =
  reg_policy :: policy
  reg_links :: "(link_id, link_state_rec) omap"
  reg_sources :: "(source_id, source_record) omap"

definition kMaxRetiredGenerations :: nat where
  "kMaxRetiredGenerations = 32"

definition empty_generations :: link_generation_state where
  "empty_generations =
     \<lparr>lg_current_generation = id_zero, lg_has_generation = False, lg_retired_generations = [],
      lg_generation_changes = 0\<rparr>"

definition empty_link_entry :: link_entry where
  "empty_link_entry =
     \<lparr>le_facts = empty_link_facts, le_registered_at = 0, le_last_evidence_at = 0,
      le_last_accepted_at = 0, le_accepted_observations = 0, le_fenced_observations = 0,
      le_retired = False, le_has_evidence = False\<rparr>"

definition empty_registry :: "policy \<Rightarrow> link_registry" where
  "empty_registry p = \<lparr>reg_policy = p, reg_links = [], reg_sources = []\<rparr>"

section \<open>Sources\<close>

definition register_source :: "link_registry \<Rightarrow> source_record \<Rightarrow> link_registry \<times> status" where
  "register_source reg rec =
     (if \<not> id_valid (src_id rec)
      then (reg, status_of SC_InvalidArgument ''source record has no identity'')
      else if src_name rec = [] \<or> length (src_name rec) > 128
      then (reg, status_of SC_InvalidArgument ''source name must be 1..128 bytes'')
      else if src_provenance rec = PC_Unknown
      then (reg, status_of SC_InvalidArgument
              ''source must declare whether it supplies real, synthetic or replayed evidence'')
      else case om_get (reg_sources reg) (src_id rec) of
        Some existing \<Rightarrow>
          if src_authority existing \<noteq> src_authority rec \<or> src_provenance existing \<noteq> src_provenance rec
          then (reg, status_of SC_Conflict
                  ''source is already registered with different authority or provenance'')
          else (reg\<lparr>reg_sources :=
                  om_put (src_id rec)
                    (existing\<lparr>src_name := src_name rec, src_retired := False, src_registered := True\<rparr>)
                    (reg_sources reg)\<rparr>, status_success)
      | None \<Rightarrow>
          if length (reg_sources reg) \<ge> unat (max_sources (pol_limits (reg_policy reg)))
          then (reg, status_of SC_CapacityExceeded ''source registry is full'')
          else (reg\<lparr>reg_sources :=
                  om_put (src_id rec) (rec\<lparr>src_registered := True\<rparr>) (reg_sources reg)\<rparr>,
                status_success))"

definition retire_source :: "link_registry \<Rightarrow> source_id \<Rightarrow> link_registry \<times> status" where
  "retire_source reg i =
     (case om_get (reg_sources reg) i of
        None \<Rightarrow> (reg, status_of SC_NotFound ''source is not registered'')
      | Some found \<Rightarrow>
          (reg\<lparr>reg_sources := om_put i (found\<lparr>src_retired := True\<rparr>) (reg_sources reg)\<rparr>,
           status_success))"

section \<open>Generations\<close>

text \<open>The part of \<^verbatim>\<open>observe_generation\<close> that acts on the state of one link.\<close>

definition enter_generation ::
  "link_generation_state \<Rightarrow> generation_id \<Rightarrow> link_generation_state \<times> generation_observation" where
  "enter_generation gens generation =
     (let observation = \<lparr>go_changed = False, go_behind = False, go_previous = id_zero,
                         go_current = generation\<rparr>
      in
      if \<not> lg_has_generation gens then
        (gens\<lparr>lg_has_generation := True, lg_current_generation := generation\<rparr>,
         observation\<lparr>go_changed := True, go_previous := id_zero\<rparr>)
      else if lg_current_generation gens = generation then (gens, observation)
      else if generation \<in> set (lg_retired_generations gens)
      then (gens, observation\<lparr>go_behind := True\<rparr>)
      else
        (gens\<lparr>lg_retired_generations :=
                 trim_front kMaxRetiredGenerations
                   (lg_retired_generations gens @ [lg_current_generation gens]),
               lg_current_generation := generation,
               lg_generation_changes := lg_generation_changes gens + 1\<rparr>,
         observation\<lparr>go_changed := True, go_previous := lg_current_generation gens\<rparr>))"

definition observe_generation ::
  "link_registry \<Rightarrow> link_id \<Rightarrow> generation_id \<Rightarrow> link_registry \<times> generation_observation" where
  "observe_generation reg i generation =
     (case om_get (reg_links reg) i of
        None \<Rightarrow> (reg, \<lparr>go_changed = False, go_behind = True, go_previous = id_zero,
                      go_current = generation\<rparr>)
      | Some state \<Rightarrow>
          (let r = enter_generation (ls_generations state) generation
           in (reg\<lparr>reg_links := om_put i (state\<lparr>ls_generations := fst r\<rparr>) (reg_links reg)\<rparr>, snd r)))"

definition current_generation :: "link_registry \<Rightarrow> link_id \<Rightarrow> generation_id" where
  "current_generation reg i =
     (case om_get (reg_links reg) i of
        None \<Rightarrow> id_zero
      | Some state \<Rightarrow>
          if lg_has_generation (ls_generations state)
          then lg_current_generation (ls_generations state) else id_zero)"

definition generation_state :: "link_registry \<Rightarrow> link_id \<Rightarrow> link_generation_state" where
  "generation_state reg i =
     (case om_get (reg_links reg) i of None \<Rightarrow> empty_generations | Some state \<Rightarrow> ls_generations state)"

definition generation_retired :: "link_registry \<Rightarrow> link_id \<Rightarrow> generation_id \<Rightarrow> bool" where
  "generation_retired reg i generation =
     (case om_get (reg_links reg) i of
        None \<Rightarrow> False
      | Some state \<Rightarrow> generation \<in> set (lg_retired_generations (ls_generations state)))"

definition retired_generation_count :: "link_registry \<Rightarrow> link_id \<Rightarrow> nat" where
  "retired_generation_count reg i =
     (case om_get (reg_links reg) i of
        None \<Rightarrow> 0 | Some state \<Rightarrow> length (lg_retired_generations (ls_generations state)))"

section \<open>Links\<close>

text \<open>Writing the entry of a link that is present.\<close>

definition update_link ::
  "link_registry \<Rightarrow> link_id \<Rightarrow> (link_entry \<Rightarrow> link_entry) \<Rightarrow> link_registry" where
  "update_link reg i f =
     (case om_get (reg_links reg) i of
        None \<Rightarrow> reg
      | Some state \<Rightarrow>
          reg\<lparr>reg_links := om_put i (state\<lparr>ls_entry := f (ls_entry state)\<rparr>) (reg_links reg)\<rparr>)"

definition register_link ::
  "link_registry \<Rightarrow> link_facts \<Rightarrow> time_point \<Rightarrow> link_registry \<times> status" where
  "register_link reg facts now =
     (let valid = validate_link_facts facts (reg_policy reg) in
      if \<not> status_ok valid then (reg, valid)
      else case om_get (reg_links reg) (lf_id facts) of
        Some existing \<Rightarrow>
          if le_retired (ls_entry existing)
          then (reg, status_of SC_Conflict ''link is retired'')
          else
            let old = lf_generation (le_facts (ls_entry existing));
                merged = (if \<not> id_valid (lf_generation facts)
                          then facts\<lparr>lf_generation := old\<rparr> else facts);
                observed = (if lf_generation merged \<noteq> old
                            then observe_generation reg (lf_id facts) (lf_generation merged)
                            else (reg, \<lparr>go_changed = False, go_behind = False,
                                        go_previous = id_zero, go_current = id_zero\<rparr>))
            in if go_behind (snd observed)
               then (fst observed,
                     status_of SC_Conflict ''link re-registration names a retired topology generation'')
               else (update_link (fst observed) (lf_id facts) (le_facts_update (\<lambda>_. merged)),
                     status_success)
      | None \<Rightarrow>
          if length (reg_links reg) \<ge> unat (max_links (pol_limits (reg_policy reg)))
          then (reg, status_of SC_CapacityExceeded ''link registry is full'')
          else
            let entry = empty_link_entry\<lparr>le_facts := facts, le_registered_at := now\<rparr>;
                gens = (if id_valid (lf_generation facts)
                        then empty_generations\<lparr>lg_has_generation := True,
                                               lg_current_generation := lf_generation facts\<rparr>
                        else empty_generations)
            in (reg\<lparr>reg_links :=
                  om_put (lf_id facts) \<lparr>ls_entry = entry, ls_generations = gens\<rparr> (reg_links reg)\<rparr>,
                status_success))"

definition retire_link :: "link_registry \<Rightarrow> link_id \<Rightarrow> link_registry \<times> status" where
  "retire_link reg i =
     (case om_get (reg_links reg) i of
        None \<Rightarrow> (reg, status_of SC_NotFound ''link is not registered'')
      | Some found \<Rightarrow> (update_link reg i (le_retired_update (\<lambda>_. True)), status_success))"

definition ensure_implicit_link ::
  "link_registry \<Rightarrow> link_id \<Rightarrow> string \<Rightarrow> time_point \<Rightarrow> link_registry \<times> status" where
  "ensure_implicit_link reg i name now =
     (if \<not> allow_implicit_links (reg_policy reg)
      then (reg, status_of SC_NotFound ''link is not registered'')
      else case om_get (reg_links reg) i of
        Some existing \<Rightarrow>
          if le_retired (ls_entry existing) then (reg, status_of SC_Conflict ''link is retired'')
          else (reg, status_success)
      | None \<Rightarrow>
          let facts = empty_link_facts\<lparr>lf_id := i, lf_name := take 128 name, lf_kind := LK_Unknown,
                                       lf_capacity_known := False, lf_provenance := PC_Unknown\<rparr>;
              r = register_link reg facts now
          in if status_ok (snd r)
             then (update_link (fst r) i
                     (\<lambda>e. e\<lparr>le_facts := (le_facts e)\<lparr>lf_provenance := PC_Unknown\<rparr>\<rparr>), snd r)
             else r)"

definition find_source :: "link_registry \<Rightarrow> source_id \<Rightarrow> source_record option" where
  "find_source reg i = om_get (reg_sources reg) i"

definition find_link :: "link_registry \<Rightarrow> link_id \<Rightarrow> link_entry option" where
  "find_link reg i =
     (case om_get (reg_links reg) i of None \<Rightarrow> None | Some state \<Rightarrow> Some (ls_entry state))"

definition note_registered :: "link_registry \<Rightarrow> link_id \<Rightarrow> time_point \<Rightarrow> link_registry" where
  "note_registered reg i now = update_link reg i (le_registered_at_update (\<lambda>_. now))"

definition note_accepted ::
  "link_registry \<Rightarrow> link_id \<Rightarrow> time_point \<Rightarrow> time_point \<Rightarrow> link_registry" where
  "note_accepted reg i observed_at accepted_at =
     update_link reg i
       (\<lambda>entry. entry\<lparr>le_accepted_observations := le_accepted_observations entry + 1,
          le_last_evidence_at :=
            (if \<not> le_has_evidence entry \<or> observed_at > le_last_evidence_at entry
             then observed_at else le_last_evidence_at entry),
          le_last_accepted_at :=
            (if \<not> le_has_evidence entry \<or> accepted_at > le_last_accepted_at entry
             then accepted_at else le_last_accepted_at entry),
          le_has_evidence := True\<rparr>)"

definition note_fenced :: "link_registry \<Rightarrow> link_id \<Rightarrow> link_registry" where
  "note_fenced reg i =
     update_link reg i
       (\<lambda>entry. entry\<lparr>le_fenced_observations := le_fenced_observations entry + 1\<rparr>)"

definition links :: "link_registry \<Rightarrow> link_entry list" where
  "links reg = map (\<lambda>item. ls_entry (snd item)) (reg_links reg)"

definition sources :: "link_registry \<Rightarrow> source_record list" where
  "sources reg = map snd (reg_sources reg)"

section \<open>Persistence\<close>

definition persisted_links :: "link_registry \<Rightarrow> persisted_link list" where
  "persisted_links reg =
     map (\<lambda>item. \<lparr>pl_facts = le_facts (ls_entry (snd item)), pl_entry = ls_entry (snd item),
                  pl_generations = ls_generations (snd item)\<rparr>) (reg_links reg)"

definition restore_link :: "link_registry \<Rightarrow> persisted_link \<Rightarrow> link_registry \<times> status" where
  "restore_link reg pl =
     (let valid = validate_link_facts (pl_facts pl) (reg_policy reg) in
      if \<not> status_ok valid
      then (reg, status_of SC_CorruptData ''persisted link facts are invalid'')
      else if length (reg_links reg) \<ge> unat (max_links (pol_limits (reg_policy reg)))
              \<and> om_get (reg_links reg) (lf_id (pl_facts pl)) = None
      then (reg, status_of SC_CapacityExceeded ''restored registry exceeds the link bound'')
      else if length (lg_retired_generations (pl_generations pl)) > kMaxRetiredGenerations
      then (reg, status_of SC_CapacityExceeded ''persisted link exceeds the retired generation bound'')
      else
        (reg\<lparr>reg_links :=
           om_put (lf_id (pl_facts pl))
             \<lparr>ls_entry = (pl_entry pl)\<lparr>le_facts := pl_facts pl\<rparr>, ls_generations = pl_generations pl\<rparr>
             (reg_links reg)\<rparr>, status_success))"

section \<open>Generations as a supersession\<close>

definition generation_in_force :: "link_generation_state \<Rightarrow> generation_id option" where
  "generation_in_force gens = (if lg_has_generation gens then Some (lg_current_generation gens) else None)"

lemma enter_generation_cases:
  "\<not> lg_has_generation gens \<Longrightarrow>
     fst (enter_generation gens g) = gens\<lparr>lg_has_generation := True, lg_current_generation := g\<rparr>"
  "lg_has_generation gens \<Longrightarrow> lg_current_generation gens = g \<Longrightarrow> fst (enter_generation gens g) = gens"
  "lg_has_generation gens \<Longrightarrow> lg_current_generation gens \<noteq> g \<Longrightarrow> g \<in> set (lg_retired_generations gens) \<Longrightarrow>
     fst (enter_generation gens g) = gens"
  "lg_has_generation gens \<Longrightarrow> lg_current_generation gens \<noteq> g \<Longrightarrow> g \<notin> set (lg_retired_generations gens) \<Longrightarrow>
     fst (enter_generation gens g) =
       gens\<lparr>lg_retired_generations := retire kMaxRetiredGenerations (lg_current_generation gens) (lg_retired_generations gens),
            lg_current_generation := g, lg_generation_changes := lg_generation_changes gens + 1\<rparr>"
  by (simp_all add: enter_generation_def Let_def retire_def)

interpretation gen: supersession generation_in_force lg_retired_generations
    "\<lambda>g s. fst (enter_generation s g)" kMaxRetiredGenerations
  by unfold_locales
     (auto simp: generation_in_force_def enter_generation_cases kMaxRetiredGenerations_def
       split: if_splits)

definition generations_ok :: "link_generation_state \<Rightarrow> bool" where
  "generations_ok gens \<longleftrightarrow>
     sane kMaxRetiredGenerations (generation_in_force gens) (lg_retired_generations gens)"

lemma generations_ok_empty [simp]: "generations_ok empty_generations"
  by (simp add: generations_ok_def generation_in_force_def empty_generations_def)

lemma generations_ok_first [simp]:
  "generations_ok (empty_generations\<lparr>lg_has_generation := True, lg_current_generation := g\<rparr>)"
  by (simp add: generations_ok_def generation_in_force_def empty_generations_def)

lemma generations_ok_enter: "generations_ok gens \<Longrightarrow> generations_ok (fst (enter_generation gens g))"
  unfolding generations_ok_def by (rule gen.enter_sane)

text \<open>The outcome tells the three cases apart.\<close>

lemma enter_generation_behind_iff:
  "generations_ok gens \<Longrightarrow>
     go_behind (snd (enter_generation gens g)) \<longleftrightarrow> g \<in> set (lg_retired_generations gens)"
  by (auto simp: enter_generation_def generations_ok_def generation_in_force_def sane_def Let_def
      split: if_splits)

lemma enter_generation_changed_iff:
  "go_changed (snd (enter_generation gens g)) \<longleftrightarrow>
     generation_in_force gens \<noteq> Some g \<and> generation_in_force (fst (enter_generation gens g)) = Some g"
  by (auto simp: enter_generation_def generation_in_force_def Let_def)

section \<open>The registry invariant\<close>

definition link_ok :: "policy \<Rightarrow> link_id \<Rightarrow> link_state_rec \<Rightarrow> bool" where
  "link_ok p i st \<longleftrightarrow>
     lf_id (le_facts (ls_entry st)) = i \<and> status_ok (validate_link_facts (le_facts (ls_entry st)) p)
     \<and> generations_ok (ls_generations st)"

definition source_ok :: "source_id \<Rightarrow> source_record \<Rightarrow> bool" where
  "source_ok i rec \<longleftrightarrow>
     src_id rec = i \<and> id_valid i \<and> src_name rec \<noteq> [] \<and> length (src_name rec) \<le> 128
     \<and> src_provenance rec \<noteq> PC_Unknown \<and> src_registered rec"

definition registry_wf :: "link_registry \<Rightarrow> bool" where
  "registry_wf reg \<longleftrightarrow>
     om_wf (reg_links reg) \<and> om_wf (reg_sources reg)
     \<and> length (reg_links reg) \<le> unat (max_links (pol_limits (reg_policy reg)))
     \<and> length (reg_sources reg) \<le> unat (max_sources (pol_limits (reg_policy reg)))
     \<and> (\<forall>i st. om_get (reg_links reg) i = Some st \<longrightarrow> link_ok (reg_policy reg) i st)
     \<and> (\<forall>i rec. om_get (reg_sources reg) i = Some rec \<longrightarrow> source_ok i rec)"

lemma registry_wf_empty: "registry_wf (empty_registry p)"
  by (simp add: registry_wf_def empty_registry_def)

lemma registry_wf_put_link:
  assumes "registry_wf reg" and "link_ok (reg_policy reg) i st"
    and "om_get (reg_links reg) i = None \<Longrightarrow>
           length (reg_links reg) < unat (max_links (pol_limits (reg_policy reg)))"
  shows "registry_wf (reg\<lparr>reg_links := om_put i st (reg_links reg)\<rparr>)"
  using assms om.bounded_put [of "reg_links reg" _ i st]
  by (simp add: registry_wf_def om_get_put)

lemma registry_wf_put_source:
  assumes "registry_wf reg" and "source_ok i rec"
    and "om_get (reg_sources reg) i = None \<Longrightarrow>
           length (reg_sources reg) < unat (max_sources (pol_limits (reg_policy reg)))"
  shows "registry_wf (reg\<lparr>reg_sources := om_put i rec (reg_sources reg)\<rparr>)"
  using assms om.bounded_put [of "reg_sources reg" _ i rec]
  by (simp add: registry_wf_def om_get_put)

lemma registry_wf_linkD: "registry_wf reg \<Longrightarrow> om_get (reg_links reg) i = Some st \<Longrightarrow> link_ok (reg_policy reg) i st"
  by (simp add: registry_wf_def)

lemma registry_wf_sourceD: "registry_wf reg \<Longrightarrow> om_get (reg_sources reg) i = Some r \<Longrightarrow> source_ok i r"
  by (simp add: registry_wf_def)

lemma registry_wf_update_link:
  assumes "registry_wf reg"
    and "\<And>e. lf_id (le_facts e) = i \<Longrightarrow> status_ok (validate_link_facts (le_facts e) (reg_policy reg)) \<Longrightarrow>
           lf_id (le_facts (f e)) = i \<and> status_ok (validate_link_facts (le_facts (f e)) (reg_policy reg))"
  shows "registry_wf (update_link reg i f)"
  using assms
  by (auto simp: update_link_def link_ok_def intro!: registry_wf_put_link dest: registry_wf_linkD
      split: option.splits)

lemma update_link_policy [simp]: "reg_policy (update_link reg i f) = reg_policy reg"
  by (simp add: update_link_def split: option.splits)

lemma observe_generation_policy [simp]: "reg_policy (fst (observe_generation reg i g)) = reg_policy reg"
  by (simp add: observe_generation_def Let_def split: option.splits)

lemma find_link_update_link:
  "find_link (update_link reg i f) j = (if j = i then map_option f (find_link reg j) else find_link reg j)"
  by (auto simp: find_link_def update_link_def om_get_put split: option.splits)

subsection \<open>Every operation keeps it\<close>

lemma register_source_wf: "registry_wf reg \<Longrightarrow> registry_wf (fst (register_source reg rec))"
  by (auto simp: register_source_def source_ok_def intro!: registry_wf_put_source
      dest: registry_wf_sourceD split: option.splits)

lemma retire_source_wf: "registry_wf reg \<Longrightarrow> registry_wf (fst (retire_source reg i))"
  by (auto simp: retire_source_def source_ok_def intro!: registry_wf_put_source
      dest: registry_wf_sourceD split: option.splits)

lemma observe_generation_wf: "registry_wf reg \<Longrightarrow> registry_wf (fst (observe_generation reg i g))"
  by (auto simp: observe_generation_def link_ok_def Let_def generations_ok_enter
      intro!: registry_wf_put_link dest: registry_wf_linkD split: option.splits)

lemma validate_ignores_generation:
  "validate_link_facts (facts\<lparr>lf_generation := g\<rparr>) p = validate_link_facts facts p"
  by (simp add: validate_link_facts_def)

lemma register_link_wf:
  assumes "registry_wf reg"
  shows "registry_wf (fst (register_link reg facts now))"
  using assms
  by (auto simp: register_link_def Let_def link_ok_def validate_ignores_generation
      intro!: registry_wf_update_link registry_wf_put_link observe_generation_wf
      simp: empty_link_entry_def split: option.splits)

lemma retire_link_wf: "registry_wf reg \<Longrightarrow> registry_wf (fst (retire_link reg i))"
  by (auto simp: retire_link_def intro!: registry_wf_update_link split: option.splits)

lemma note_registered_wf: "registry_wf reg \<Longrightarrow> registry_wf (note_registered reg i now)"
  by (auto simp: note_registered_def intro!: registry_wf_update_link)

lemma note_accepted_wf: "registry_wf reg \<Longrightarrow> registry_wf (note_accepted reg i t1 t2)"
  by (auto simp: note_accepted_def intro!: registry_wf_update_link)

lemma note_fenced_wf: "registry_wf reg \<Longrightarrow> registry_wf (note_fenced reg i)"
  by (auto simp: note_fenced_def intro!: registry_wf_update_link)

lemma register_link_policy [simp]: "reg_policy (fst (register_link reg facts now)) = reg_policy reg"
  by (auto simp: register_link_def Let_def split: option.splits)

lemma validate_ignores_provenance:
  "validate_link_facts (facts\<lparr>lf_provenance := x\<rparr>) p = validate_link_facts facts p"
  by (simp add: validate_link_facts_def)

lemma ensure_implicit_link_wf: "registry_wf reg \<Longrightarrow> registry_wf (fst (ensure_implicit_link reg i name now))"
  by (auto simp: ensure_implicit_link_def Let_def validate_ignores_provenance
      intro!: registry_wf_update_link register_link_wf split: option.splits)

lemma restore_link_wf:
  "registry_wf reg \<Longrightarrow> generations_ok (pl_generations pl) \<Longrightarrow> registry_wf (fst (restore_link reg pl))"
  by (auto simp: restore_link_def Let_def link_ok_def not_le intro!: registry_wf_put_link)

lemmas registry_ops_wf =
  register_source_wf retire_source_wf observe_generation_wf register_link_wf retire_link_wf
  note_registered_wf note_accepted_wf note_fenced_wf ensure_implicit_link_wf

section \<open>Saving and restoring the links\<close>

definition persist_link :: "link_id \<times> link_state_rec \<Rightarrow> persisted_link" where
  "persist_link item =
     \<lparr>pl_facts = le_facts (ls_entry (snd item)), pl_entry = ls_entry (snd item),
      pl_generations = ls_generations (snd item)\<rparr>"

lemma persisted_links_map: "persisted_links reg = map persist_link (reg_links reg)"
  by (simp add: persisted_links_def persist_link_def)

lemma restore_persisted:
  assumes "link_ok (reg_policy reg) i st"
    and "om_get (reg_links reg) i = None \<Longrightarrow> length (reg_links reg) < unat (max_links (pol_limits (reg_policy reg)))"
  shows "restore_link reg (persist_link (i, st)) =
    (reg\<lparr>reg_links := om_put i st (reg_links reg)\<rparr>, status_success)"
  using assms
  by (cases st) (auto simp: restore_link_def persist_link_def link_ok_def Let_def generations_ok_def
      sane_def not_less leD)

interpretation link_restore: restorable reg_links "\<lambda>m reg. reg\<lparr>reg_links := m\<rparr>"
    "\<lambda>reg. link_ok (reg_policy reg)" "\<lambda>reg. unat (max_links (pol_limits (reg_policy reg)))"
    persist_link restore_link
  by unfold_locales (simp_all add: restore_persisted)

text \<open>Restoring the persisted links one after the other rebuilds the link map, and no step fails.\<close>

lemma restore_persisted_links:
  assumes "registry_wf reg"
  shows "restore_all restore_link (reg\<lparr>reg_links := []\<rparr>) (persisted_links reg) = (reg, status_success)"
  unfolding persisted_links_map
  using assms by (intro link_restore.restore_round_trip) (auto simp: registry_wf_def)

section \<open>Sequences of registry operations\<close>

text \<open>The registries reached from an empty one through any of the operations.\<close>

inductive registry_reachable :: "policy \<Rightarrow> link_registry \<Rightarrow> bool" for p where
  empty: "registry_reachable p (empty_registry p)"
| register_source: "registry_reachable p reg \<Longrightarrow> registry_reachable p (fst (register_source reg rec))"
| retire_source: "registry_reachable p reg \<Longrightarrow> registry_reachable p (fst (retire_source reg j))"
| register_link: "registry_reachable p reg \<Longrightarrow> registry_reachable p (fst (register_link reg facts now))"
| retire_link: "registry_reachable p reg \<Longrightarrow> registry_reachable p (fst (retire_link reg i))"
| ensure_implicit_link: "registry_reachable p reg \<Longrightarrow> registry_reachable p (fst (ensure_implicit_link reg i name now))"
| observe_generation: "registry_reachable p reg \<Longrightarrow> registry_reachable p (fst (observe_generation reg i g))"
| note_registered: "registry_reachable p reg \<Longrightarrow> registry_reachable p (note_registered reg i now)"
| note_accepted: "registry_reachable p reg \<Longrightarrow> registry_reachable p (note_accepted reg i t1 t2)"
| note_fenced: "registry_reachable p reg \<Longrightarrow> registry_reachable p (note_fenced reg i)"

lemma registry_policy_kept [simp]:
  "reg_policy (fst (register_source reg rec)) = reg_policy reg" "reg_policy (fst (retire_source reg j)) = reg_policy reg"
  "reg_policy (fst (retire_link reg i)) = reg_policy reg" "reg_policy (note_registered reg i now) = reg_policy reg"
  "reg_policy (note_accepted reg i t1 t2) = reg_policy reg" "reg_policy (note_fenced reg i) = reg_policy reg"
  "reg_policy (fst (ensure_implicit_link reg i name now)) = reg_policy reg"
  by (auto simp: register_source_def retire_source_def retire_link_def note_registered_def note_accepted_def
      note_fenced_def ensure_implicit_link_def Let_def split: option.splits)

text \<open>A run of generation observations on one link is a run of its generation state.\<close>

lemma observe_run:
  assumes "om_get (reg_links reg) i = Some st"
  shows "om_get (reg_links (fold (\<lambda>g reg. fst (observe_generation reg i g)) gs reg)) i =
    Some (st\<lparr>ls_generations := fold (\<lambda>g s. fst (enter_generation s g)) gs (ls_generations st)\<rparr>)"
  using assms by (induction gs arbitrary: reg st) (auto simp: observe_generation_def Let_def)

section \<open>Properties\<close>

text \<open>
  Whatever sequence of operations a registry goes through, it stays well formed under its
  policy: keys are sorted and unique, the link and source bounds hold, every entry carries its own
  identity and valid facts, every source is registered with a declared provenance, and the
  generation in force of a link is never among its at most 32 distinct superseded ones.
\<close>

lemma registry_always_wf:
  assumes "registry_reachable p reg"
  shows "registry_wf reg \<and> reg_policy reg = p"
  using assms
  by (induction rule: registry_reachable.induct)
    (simp_all add: registry_wf_empty registry_ops_wf, simp add: empty_registry_def)

text \<open>
  C36: a topology generation that has been superseded stays out. After a link moved from the
  generation \<open>c\<close> to another one, evidence of up to 31 further generations in any order leaves
  \<open>c\<close> retired and not in force, and evidence that names \<open>c\<close> is reported as behind.
\<close>

theorem superseded_generation_stays_out:
  assumes "registry_wf reg" and "om_get (reg_links reg) i = Some st"
    and "generation_in_force (ls_generations st) = Some c" and "g \<noteq> c"
    and "go_changed (snd (observe_generation reg i g))" and "length gs < kMaxRetiredGenerations"
    and "after = fold (\<lambda>g reg. fst (observe_generation reg i g)) (g # gs) reg"
  shows "generation_retired after i c \<and> current_generation after i \<noteq> c
    \<and> go_behind (snd (observe_generation after i c))"
proof -
  let ?enter = "\<lambda>g s. fst (enter_generation s g)"
  let ?s = "fold ?enter gs (?enter g (ls_generations st))"
  have ok: "generations_ok (ls_generations st)"
    using registry_wf_linkD [OF assms(1,2)] by (simp add: link_ok_def)
  have entered: "generation_in_force (?enter g (ls_generations st)) = Some g"
    using assms(2,5) by (simp add: observe_generation_def Let_def enter_generation_changed_iff)
  have out: "c \<in> set (lg_retired_generations ?s)" "generation_in_force ?s \<noteq> Some c"
    using gen.superseded_stays_out [OF ok [unfolded generations_ok_def] assms(3) entered assms(4,6)] by simp_all
  have oks: "generations_ok ?s"
    using gen.run_sane [of "ls_generations st" "g # gs"] ok by (simp add: generations_ok_def)
  then have inforce: "lg_has_generation ?s"
    using out(1) by (auto simp: generations_ok_def sane_def generation_in_force_def split: if_splits)
  have "om_get (reg_links after) i = Some (st\<lparr>ls_generations := ?s\<rparr>)"
    using observe_run [OF assms(2), of "g # gs"] by (simp add: assms(7))
  with out oks inforce show ?thesis
    by (simp add: generation_retired_def current_generation_def generation_in_force_def
        observe_generation_def Let_def enter_generation_behind_iff)
qed

text \<open>A registry with one link, declared under the generation 1.\<close>

definition example_facts :: "64 word \<Rightarrow> link_facts" where
  "example_facts g =
     empty_link_facts\<lparr>lf_id := StrongId (Hash128 0 5), lf_name := ''core'', lf_kind := LK_Physical,
                      lf_generation := StrongId (Hash128 0 g), lf_provenance := PC_Real\<rparr>"

definition example_registry :: link_registry where
  "example_registry = fst (register_link (empty_registry make_default_policy) (example_facts 1) 7)"

lemma example_registry_eq:
  "example_registry =
     \<lparr>reg_policy = make_default_policy,
      reg_links = [(StrongId (Hash128 0 5),
        \<lparr>ls_entry = empty_link_entry\<lparr>le_facts := example_facts 1, le_registered_at := 7\<rparr>,
         ls_generations = empty_generations\<lparr>lg_has_generation := True, lg_current_generation := StrongId (Hash128 0 1)\<rparr>\<rparr>)],
      reg_sources = []\<rparr>"
  by (simp add: example_registry_def register_link_def example_facts_def validate_link_facts_def
      empty_registry_def id_valid_def hash_is_zero_def make_default_policy_def default_limits_def empty_link_facts_def Let_def)

lemma example_registry_wf: "registry_wf example_registry"
  unfolding example_registry_def by (intro register_link_wf registry_wf_empty)

theorem superseded_generation_stays_out_witness:
  "go_behind (snd (observe_generation
     (fold (\<lambda>g reg. fst (observe_generation reg (StrongId (Hash128 0 5)) g))
        [StrongId (Hash128 0 2), StrongId (Hash128 0 3)] example_registry)
     (StrongId (Hash128 0 5)) (StrongId (Hash128 0 1))))"
  using superseded_generation_stays_out [OF example_registry_wf, of "StrongId (Hash128 0 5)" _
      "StrongId (Hash128 0 1)" "StrongId (Hash128 0 2)" "[StrongId (Hash128 0 3)]", OF _ _ _ _ _ refl]
  by (simp add: example_registry_eq om_get_def generation_in_force_def observe_generation_def
      enter_generation_def empty_generations_def kMaxRetiredGenerations_def Let_def)

text \<open>
  The check on retired generations looks at the declared generation only. A re-declaration
  that repeats the generation the link was declared under is accepted even when observations have
  moved the link on and that generation is retired; the declared facts then name a generation that
  is not in force.
\<close>

lemma stale_redeclaration_accepted:
  assumes "find_link reg (lf_id facts) = Some entry" and "\<not> le_retired entry"
    and "status_ok (validate_link_facts facts (reg_policy reg))" and "id_valid (lf_generation facts)"
    and "lf_generation (le_facts entry) = lf_generation facts"
    and "generation_retired reg (lf_id facts) (lf_generation facts)"
  shows "status_ok (snd (register_link reg facts now))
    \<and> map_option le_facts (find_link (fst (register_link reg facts now)) (lf_id facts)) = Some facts
    \<and> generation_retired (fst (register_link reg facts now)) (lf_id facts) (lf_generation facts)"
proof -
  obtain st where st: "om_get (reg_links reg) (lf_id facts) = Some st" "ls_entry st = entry"
    using assms(1) by (auto simp: find_link_def split: option.splits)
  have "register_link reg facts now =
      (update_link reg (lf_id facts) (le_facts_update (\<lambda>_. facts)), status_success)"
    using assms(2-5) st by (simp add: register_link_def Let_def)
  then show ?thesis
    using assms(6) st by (simp add: find_link_def generation_retired_def update_link_def)
qed

end
