(* ===== verification/Transition_Log.thy ===== *)
theory Transition_Log
  imports Identity Policy Clock
begin

text \<open>
  The transition history (\<^verbatim>\<open>src/store/history.cpp\<close>): one global and one per-link bounded
  queue, with the evicted events counted. The lemmas describe both queues as suffixes of the
  sequence of events recorded so far and account for every event dropped.
\<close>

section \<open>State\<close>

record transition_event =
  te_id :: transition_id
  te_link :: link_id
  te_kind :: transition_kind
  te_at :: time_point
  te_generation :: generation_id
  te_source :: source_id
  te_from :: string
  te_to :: string
  te_detail :: u64

record transition_log =
  tl_limits :: limits
  tl_global :: "transition_event list"
  tl_per_link :: "(link_id, transition_event list) omap"
  tl_total_records :: u64
  tl_dropped :: u64

definition empty_log :: "limits \<Rightarrow> transition_log" where
  "empty_log l =
     \<lparr>tl_limits = l, tl_global = [], tl_per_link = [], tl_total_records = 0, tl_dropped = 0\<rparr>"

lemma tl_limits_empty [simp]: "tl_limits (empty_log l) = l"
  by (simp add: empty_log_def)

section \<open>Operations\<close>

definition compute_transition_id :: "transition_event \<Rightarrow> transition_id" where
  "compute_transition_id e =
     (let s1 = hb_add_str ''transition-v1'' hb_init;
          s2 = hb_add_hash (id_hash (te_link e)) s1;
          s3 = hb_add_u8 (of_nat (transition_kind_code (te_kind e))) s2;
          s4 = hb_add_i64 (te_at e) s3;
          s5 = hb_add_hash (id_hash (te_generation e)) s4;
          s6 = hb_add_hash (id_hash (te_source e)) s5;
          s7 = hb_add_str (te_from e) s6;
          s8 = hb_add_str (te_to e) s7
      in StrongId (hb_add_u64 (te_detail e) s8))"

text \<open>\<^verbatim>\<open>while (q.size() > n) { q.pop_front(); dropped += 1; }\<close>\<close>

fun evict :: "nat \<Rightarrow> 'a list \<Rightarrow> u64 \<Rightarrow> 'a list \<times> u64" where
  "evict n [] dropped = ([], dropped)"
| "evict n (x # xs) dropped =
     (if length (x # xs) > n then evict n xs (dropped + 1) else (x # xs, dropped))"

definition normalize_event :: "transition_event \<Rightarrow> transition_event" where
  "normalize_event e =
     (let e1 = (if length (te_from e) > 64 then e\<lparr>te_from := take 64 (te_from e)\<rparr> else e);
          e2 = (if length (te_to e1) > 64 then e1\<lparr>te_to := take 64 (te_to e1)\<rparr> else e1)
      in e2\<lparr>te_id := compute_transition_id e2\<rparr>)"

definition record_event :: "transition_log \<Rightarrow> transition_event \<Rightarrow> transition_log" where
  "record_event log event =
     (let e = normalize_event event;
          bucket = (case om_get (tl_per_link log) (te_link e) of None \<Rightarrow> [] | Some b \<Rightarrow> b) @ [e];
          b = evict (unat (max_transitions_per_link (tl_limits log))) bucket (tl_dropped log);
          g = evict (unat (max_total_transitions (tl_limits log))) (tl_global log @ [e]) (snd b)
      in log\<lparr>tl_per_link := om_put (te_link e) (fst b) (tl_per_link log),
             tl_global := fst g,
             tl_total_records := tl_total_records log + 1,
             tl_dropped := snd g\<rparr>)"

definition result_bound :: "transition_log \<Rightarrow> u64 \<Rightarrow> nat" where
  "result_bound log limit =
     unat (if limit < max_result_rows (tl_limits log) then limit else max_result_rows (tl_limits log))"

definition for_link :: "transition_log \<Rightarrow> link_id \<Rightarrow> u64 \<Rightarrow> transition_event list" where
  "for_link log link limit =
     (case om_get (tl_per_link log) link of
        None \<Rightarrow> []
      | Some bucket \<Rightarrow>
          (let bound = result_bound log limit;
               start = (if length bucket > bound then length bucket - bound else 0)
           in drop start bucket))"

definition recent :: "transition_log \<Rightarrow> u64 \<Rightarrow> transition_event list" where
  "recent log limit =
     (let bound = result_bound log limit;
          start = (if length (tl_global log) > bound then length (tl_global log) - bound else 0)
      in drop start (tl_global log))"

definition events_for :: "transition_log \<Rightarrow> link_id \<Rightarrow> nat" where
  "events_for log link =
     (case om_get (tl_per_link log) link of None \<Rightarrow> 0 | Some bucket \<Rightarrow> length bucket)"

text \<open>The backward scan; it stops at the first event before the instant, or at the limit.\<close>

fun count_back :: "transition_event list \<Rightarrow> time_point \<Rightarrow> nat \<Rightarrow> nat \<Rightarrow> nat" where
  "count_back [] since limit count = count"
| "count_back (e # es) since limit count =
     (if te_at e < since then count
      else if Suc count \<ge> limit then Suc count
      else count_back es since limit (Suc count))"

definition count_since :: "transition_log \<Rightarrow> link_id \<Rightarrow> time_point \<Rightarrow> nat \<Rightarrow> nat" where
  "count_since log link since limit =
     (case om_get (tl_per_link log) link of
        None \<Rightarrow> 0
      | Some bucket \<Rightarrow> count_back (rev bucket) since limit 0)"

definition clear_log :: "transition_log \<Rightarrow> transition_log" where
  "clear_log log =
     log\<lparr>tl_global := [], tl_per_link := [], tl_total_records := 0, tl_dropped := 0\<rparr>"

section \<open>Eviction\<close>

lemma evict_eq: "evict n xs d = (trim_front n xs, d + of_nat (length xs - n))"
proof (induction xs arbitrary: d)
  case (Cons x xs)
  show ?case
  proof (cases "length (x # xs) > n")
    case True
    then have "length (x # xs) - n = Suc (length xs - n)" by simp
    with True Cons show ?thesis by (simp add: algebra_simps)
  qed simp
qed simp

lemma normalize_event_link [simp]: "te_link (normalize_event e) = te_link e"
  by (simp add: normalize_event_def Let_def)

lemma compute_transition_id_ignores [simp]:
  "compute_transition_id (e\<lparr>te_id := i\<rparr>) = compute_transition_id e"
  by (simp add: compute_transition_id_def)

lemma normalize_event_idem [simp]: "normalize_event (normalize_event e) = normalize_event e"
  by (simp add: normalize_event_def Let_def)

lemma normalize_event_bounded:
  "length (te_from (normalize_event e)) \<le> 64" "length (te_to (normalize_event e)) \<le> 64"
  by (simp_all add: normalize_event_def Let_def)

section \<open>The log as suffixes of the recorded sequence\<close>

text \<open>The newest \<open>n\<close> elements of a list.\<close>

definition newest :: "nat \<Rightarrow> 'a list \<Rightarrow> 'a list" where
  "newest n xs = drop (length xs - n) xs"

lemma newest_Nil [simp]: "newest n [] = []"
  by (simp add: newest_def)

lemma length_newest [simp]: "length (newest n xs) = min n (length xs)"
  by (simp add: newest_def)

lemma newest_newest: "newest m (newest n xs) = newest (min m n) xs"
  by (auto simp: newest_def min_def intro!: arg_cong [where f = "\<lambda>k. drop k xs"])

lemma trim_front_newest: "trim_front n (newest n xs @ [x]) = newest n (xs @ [x])"
proof -
  have "trim_front n (newest n xs @ [x]) = newest n (drop (length xs - n) (xs @ [x]))"
    by (simp add: trim_front_drop newest_def)
  also have "\<dots> = newest n (newest (Suc n) (xs @ [x]))"
    by (simp add: newest_def)
  finally show ?thesis by (simp add: newest_newest)
qed

definition record_all :: "transition_log \<Rightarrow> transition_event list \<Rightarrow> transition_log" where
  "record_all log es = fold (\<lambda>e l. record_event l e) es log"

lemma record_event_global:
  "tl_global (record_event log e) =
     trim_front (unat (max_total_transitions (tl_limits log))) (tl_global log @ [normalize_event e])"
  by (simp add: record_event_def Let_def evict_eq)

lemma record_event_limits [simp]: "tl_limits (record_event log e) = tl_limits log"
  by (simp add: record_event_def Let_def)

definition bucket_of :: "transition_log \<Rightarrow> link_id \<Rightarrow> transition_event list" where
  "bucket_of log link = (case om_get (tl_per_link log) link of None \<Rightarrow> [] | Some b \<Rightarrow> b)"

lemma record_event_bucket:
  "bucket_of (record_event log e) link =
     (if link = te_link e
      then trim_front (unat (max_transitions_per_link (tl_limits log))) (bucket_of log link @ [normalize_event e])
      else bucket_of log link)"
  by (auto simp: record_event_def bucket_of_def Let_def evict_eq split: option.splits)

lemma record_all_snoc: "record_all log (es @ [e]) = record_event (record_all log es) e"
  by (simp add: record_all_def)

lemma record_all_limits [simp]: "tl_limits (record_all log es) = tl_limits log"
  by (induction es rule: rev_induct) (simp_all add: record_all_snoc, simp add: record_all_def)

lemma record_all_global:
  "tl_global (record_all (empty_log l) es) = newest (unat (max_total_transitions l)) (map normalize_event es)"
proof (induction es rule: rev_induct)
  case Nil
  then show ?case by (simp add: record_all_def empty_log_def)
next
  case (snoc e es)
  then show ?case
    by (simp add: record_all_snoc record_event_global trim_front_newest)
qed

lemma record_all_bucket:
  "bucket_of (record_all (empty_log l) es) link =
     newest (unat (max_transitions_per_link l))
       (filter (\<lambda>e. te_link e = link) (map normalize_event es))"
proof (induction es rule: rev_induct)
  case Nil
  then show ?case by (simp add: record_all_def empty_log_def bucket_of_def)
next
  case (snoc e es)
  then show ?case
    by (cases "link = te_link e") (auto simp: record_all_snoc record_event_bucket trim_front_newest)
qed

lemma for_link_newest: "for_link log link limit = newest (result_bound log limit) (bucket_of log link)"
  by (simp add: for_link_def bucket_of_def newest_def Let_def split: option.splits)

lemma recent_newest: "recent log limit = newest (result_bound log limit) (tl_global log)"
  by (simp add: recent_def newest_def Let_def)

text \<open>Queries never return more rows than the policy or the caller allows.\<close>

lemma result_bound_le:
  "result_bound log limit \<le> unat (max_result_rows (tl_limits log))" "result_bound log limit \<le> unat limit"
  by (auto simp: result_bound_def less_u64_iff)

section \<open>Bounds, kept by every operation\<close>

definition log_wf :: "transition_log \<Rightarrow> bool" where
  "log_wf log \<longleftrightarrow>
     om_wf (tl_per_link log)
     \<and> length (tl_global log) \<le> unat (max_total_transitions (tl_limits log))
     \<and> (\<forall>e \<in> set (tl_global log). normalize_event e = e)
     \<and> (\<forall>link b. om_get (tl_per_link log) link = Some b \<longrightarrow>
          length b \<le> unat (max_transitions_per_link (tl_limits log))
          \<and> (\<forall>e \<in> set b. te_link e = link))"

lemma log_wf_empty [simp]: "log_wf (empty_log l)" "log_wf (clear_log log)"
  by (simp_all add: log_wf_def empty_log_def clear_log_def)

lemma log_wf_record: "log_wf log \<Longrightarrow> log_wf (record_event log e)"
  by (auto simp: log_wf_def record_event_def Let_def evict_eq om_get_put dest!: subsetD [OF set_trim_front]
      split: option.splits if_splits)

section \<open>Counting recent events\<close>

lemma count_back_takeWhile:
  "count < limit \<Longrightarrow>
     count_back es since limit count = min limit (count + length (takeWhile (\<lambda>e. since \<le> te_at e) es))"
  by (induction es arbitrary: count) (auto simp: not_less)

lemma count_since_spec:
  assumes "0 < limit"
  shows "count_since log link since limit =
    min limit (length (takeWhile (\<lambda>e. since \<le> te_at e) (rev (bucket_of log link))))"
  using count_back_takeWhile [of 0 limit] assms
  by (simp add: count_since_def bucket_of_def split: option.splits)

lemma takeWhile_sorted_rev:
  "sorted (map te_at xs) \<Longrightarrow>
     takeWhile (\<lambda>e. since \<le> te_at e) (rev xs) = rev (filter (\<lambda>e. since \<le> te_at e) xs)"
proof (induction xs rule: rev_induct)
  case (snoc x xs)
  then have le: "\<forall>y \<in> set xs. te_at y \<le> te_at x" and s: "sorted (map te_at xs)"
    by (auto simp: sorted_append)
  show ?case
  proof (cases "since \<le> te_at x")
    case True
    with snoc.IH [OF s] show ?thesis by simp
  next
    case False
    with le have "\<forall>y \<in> set xs. \<not> since \<le> te_at y" by auto
    with False show ?thesis by (simp add: filter_empty_conv)
  qed
qed simp

lemma rev_newest: "rev (newest n xs) = take n (rev xs)"
  by (simp add: newest_def take_rev)

lemma takeWhile_take: "takeWhile P (take n xs) = take n (takeWhile P xs)"
proof (induction xs arbitrary: n)
  case (Cons x xs)
  then show ?case by (cases n) simp_all
qed simp

lemma normalize_event_at [simp]: "te_at (normalize_event e) = te_at e"
  by (simp add: normalize_event_def Let_def)

lemma sorted_filter_events: "sorted (map te_at es) \<Longrightarrow> sorted (map te_at (filter P es))"
  by (simp add: sorted_filter)

section \<open>Properties\<close>

text \<open>
  The log is exactly the tail of what was recorded. After any sequence of events, a query of
  the recent events returns the newest ones, and a query for a link the newest ones of that link,
  in the order of recording and each with its texts cut to 64 bytes and its identity computed; only
  the bounds of the policy and the caller's limit shorten the answer.
\<close>

lemma log_queries_return_the_newest:
  "recent (record_all (empty_log l) es) limit =
     newest (min (min (unat limit) (unat (max_result_rows l))) (unat (max_total_transitions l)))
       (map normalize_event es)
   \<and> for_link (record_all (empty_log l) es) link limit =
     newest (min (min (unat limit) (unat (max_result_rows l))) (unat (max_transitions_per_link l)))
       (map normalize_event (filter (\<lambda>e. te_link e = link) es))"
proof -
  have "result_bound (record_all (empty_log l) es) limit = min (unat limit) (unat (max_result_rows l))"
    by (simp add: result_bound_def less_u64_iff min_def)
  then show ?thesis
    by (simp add: recent_newest for_link_newest record_all_global record_all_bucket newest_newest
        filter_map o_def)
qed

text \<open>
  Counting recent transitions of a link, which flap detection rests on, is exact up to its
  limit: when events arrive in time order, the backward scan that stops at the first older event
  returns the number of events of that link since the instant, capped by the limit and by what the
  log retains for one link.
\<close>

lemma count_since_is_exact:
  assumes "sorted (map te_at es)"
  shows "count_since (record_all (empty_log l) es) link since (Suc n) =
    min (Suc n) (min (unat (max_transitions_per_link l))
      (length (filter (\<lambda>e. te_link e = link \<and> since \<le> te_at e) es)))"
proof -
  let ?xs = "filter (\<lambda>e. te_link e = link) (map normalize_event es)"
  have s: "sorted (map te_at ?xs)"
    using assms by (intro sorted_filter_events) (simp add: o_def)
  have "length (filter (\<lambda>e. since \<le> te_at e) ?xs) = length (filter (\<lambda>e. te_link e = link \<and> since \<le> te_at e) es)"
    by (simp add: filter_map o_def conj_commute)
  then show ?thesis
    by (simp add: count_since_spec record_all_bucket rev_newest takeWhile_take takeWhile_sorted_rev [OF s])
qed

text \<open>An event of the link 5 at an instant.\<close>

definition example_event :: "time_point \<Rightarrow> transition_event" where
  "example_event at =
     \<lparr>te_id = id_zero, te_link = StrongId (Hash128 0 5), te_kind = TK_OperStateChanged, te_at = at,
      te_generation = id_zero, te_source = id_zero, te_from = ''up'', te_to = ''down'', te_detail = 0\<rparr>"

end
