(* ===== verification/Counter_Tracker.thy ===== *)
theory Counter_Tracker
  imports Observation
begin

text \<open>
  Counter continuity and rate derivation (\<^verbatim>\<open>src/store/counter_tracker.cpp\<close>): the fold that
  an accepted sample goes through, the freshness of a retained sample, and the derivation of a
  delta, a rate and a utilization from two samples. Every failure of a derivation is a fault
  value; the lemmas show that a valid result is the exact quotient, that a reset never yields a
  delta, and that the fold and the derivation judge a boundary alike.
\<close>

section \<open>Data\<close>

record counter_sample =
  smp_reading :: counter_reading
  smp_observed_at :: time_point
  smp_received_at :: time_point
  smp_sequence :: u64
  smp_scope :: sequence_scope
  smp_generation :: generation_id
  smp_gap_epoch :: u64

definition empty_scope :: sequence_scope where
  "empty_scope = \<lparr>scope_source = id_zero, scope_incarnation = id_zero, scope_epoch = id_zero\<rparr>"

definition empty_sample :: counter_sample where
  "empty_sample =
     \<lparr>smp_reading = \<lparr>cr_raw = 0, cr_width = CW_Bits64, cr_reset_declared = False\<rparr>,
      smp_observed_at = 0, smp_received_at = 0, smp_sequence = 0, smp_scope = empty_scope,
      smp_generation = id_zero, smp_gap_epoch = 0\<rparr>"

record counter_continuity =
  cc_latest :: counter_sample
  cc_previous :: counter_sample
  cc_has_latest :: bool
  cc_has_previous :: bool
  cc_last_discontinuity :: counter_discontinuity
  cc_reset_count :: u64
  cc_wrap_count :: u64
  cc_gap_count :: u64

definition empty_continuity :: counter_continuity where
  "empty_continuity =
     \<lparr>cc_latest = empty_sample, cc_previous = empty_sample, cc_has_latest = False,
      cc_has_previous = False, cc_last_discontinuity = CD_None, cc_reset_count = 0,
      cc_wrap_count = 0, cc_gap_count = 0\<rparr>"

record continuity_outcome =
  co_discontinuity :: counter_discontinuity
  co_delta_valid :: bool
  co_delta :: u64
  co_sequence_gap :: bool
  co_scope_changed :: bool
  co_generation_changed :: bool
  co_first_sample :: bool

definition empty_outcome :: continuity_outcome where
  "empty_outcome =
     \<lparr>co_discontinuity = CD_None, co_delta_valid = False, co_delta = 0, co_sequence_gap = False,
      co_scope_changed = False, co_generation_changed = False, co_first_sample = False\<rparr>"

record derivation_request =
  dq_previous :: counter_sample
  dq_current :: counter_sample
  dq_has_previous :: bool
  dq_previous_usable :: bool
  dq_current_usable :: bool
  dq_capacity_bps :: u64
  dq_max_window :: duration

record delta_result =
  dl_fault :: derivation_fault
  dl_valid :: bool
  dl_delta :: u64
  dl_window :: duration
  dl_discontinuity :: counter_discontinuity

definition empty_delta :: delta_result where
  "empty_delta =
     \<lparr>dl_fault = DF_None, dl_valid = False, dl_delta = 0, dl_window = 0, dl_discontinuity = CD_None\<rparr>"

record derivation_result =
  dr_fault :: derivation_fault
  dr_valid :: bool
  dr_delta_bytes :: u64
  dr_bits_per_second :: u64
  dr_utilization_ppb :: u64
  dr_window :: duration
  dr_discontinuity :: counter_discontinuity

definition empty_derivation :: derivation_result where
  "empty_derivation =
     \<lparr>dr_fault = DF_None, dr_valid = False, dr_delta_bytes = 0, dr_bits_per_second = 0,
      dr_utilization_ppb = 0, dr_window = 0, dr_discontinuity = CD_None\<rparr>"

section \<open>Operations\<close>

definition counter_range :: "counter_width \<Rightarrow> u64" where
  "counter_range width = (if width = CW_Bits32 then 0xFFFFFFFF else u64_max)"

definition same_identity :: "counter_sample \<Rightarrow> counter_sample \<Rightarrow> bool" where
  "same_identity lhs rhs \<longleftrightarrow>
     smp_scope lhs = smp_scope rhs \<and> smp_generation lhs = smp_generation rhs"

definition wrap_detection_threshold :: "counter_width \<Rightarrow> u64" where
  "wrap_detection_threshold width =
     (if width = CW_Bits32 then 3221225472 else 13835058055282163712)"

text \<open>The outcome of comparing a sample with its baseline.\<close>

definition compare_with_baseline ::
  "counter_sample \<Rightarrow> counter_sample \<Rightarrow> continuity_outcome" where
  "compare_with_baseline baseline sample =
     (if \<not> same_identity baseline sample then
        empty_outcome\<lparr>co_scope_changed := smp_scope baseline \<noteq> smp_scope sample,
                      co_generation_changed := smp_generation baseline \<noteq> smp_generation sample\<rparr>
      else
        let regressed = smp_sequence sample \<le> smp_sequence baseline;
            discontinuity = smp_gap_epoch sample \<noteq> smp_gap_epoch baseline;
            outcome = empty_outcome\<lparr>co_sequence_gap := regressed \<or> discontinuity\<rparr>;
            raw = cr_raw (smp_reading sample);
            base = cr_raw (smp_reading baseline);
            width = cr_width (smp_reading baseline)
        in if cr_reset_declared (smp_reading sample) then
             outcome\<lparr>co_discontinuity := CD_Reset\<rparr>
           else if raw \<ge> base then
             outcome\<lparr>co_delta := raw - base, co_delta_valid := \<not> co_sequence_gap outcome\<rparr>
           else if base \<ge> wrap_detection_threshold width then
             (let head = (counter_range width - base) + 1 in
              case checked_add head raw of
                Some tot \<Rightarrow>
                  outcome\<lparr>co_delta := tot, co_delta_valid := \<not> co_sequence_gap outcome,
                          co_discontinuity := CD_Wrap\<rparr>
              | None \<Rightarrow> outcome\<lparr>co_discontinuity := CD_Reset\<rparr>)
           else outcome\<lparr>co_discontinuity := CD_Reset\<rparr>)"

definition observe_counter ::
  "counter_continuity \<Rightarrow> counter_sample \<Rightarrow> counter_continuity \<times> continuity_outcome" where
  "observe_counter state sample =
     (let outcome =
            (if \<not> cc_has_latest state then empty_outcome\<lparr>co_first_sample := True\<rparr>
             else compare_with_baseline (cc_latest state) sample);
          s1 = (if co_sequence_gap outcome
                then state\<lparr>cc_gap_count := cc_gap_count state + 1\<rparr> else state);
          s2 = (if co_discontinuity outcome = CD_Reset
                then s1\<lparr>cc_reset_count := cc_reset_count s1 + 1\<rparr>
                else if co_discontinuity outcome = CD_Wrap
                then s1\<lparr>cc_wrap_count := cc_wrap_count s1 + 1\<rparr> else s1);
          s3 = s2\<lparr>cc_last_discontinuity := co_discontinuity outcome\<rparr>;
          s4 = (if cc_has_latest s3
                then s3\<lparr>cc_previous := cc_latest s3, cc_has_previous := True\<rparr> else s3)
      in (s4\<lparr>cc_latest := sample, cc_has_latest := True\<rparr>, outcome))"

definition classify_sample_freshness ::
  "counter_sample \<Rightarrow> time_point \<Rightarrow> freshness_policy \<Rightarrow> freshness" where
  "classify_sample_freshness sample now p =
     (let observed = difference now (smp_observed_at sample);
          received = difference now (smp_received_at sample);
          e1 = (case observed of Some d \<Rightarrow> if \<not> is_negative d then d else 0 | None \<Rightarrow> 0);
          e2 = (case received of
                  Some d \<Rightarrow> if \<not> is_negative d \<and> d > e1 then d else e1
                | None \<Rightarrow> e1)
      in if e2 \<le> fresh_within p then Fr_Fresh
         else if e2 \<le> usable_within p then Fr_Stale
         else Fr_Expired)"

definition derive_delta :: "derivation_request \<Rightarrow> delta_result" where
  "derive_delta req =
     (let previous = dq_previous req;
          current = dq_current req
      in
      if \<not> dq_has_previous req then empty_delta\<lparr>dl_fault := DF_MissingPreviousSample\<rparr>
      else if \<not> dq_previous_usable req then empty_delta\<lparr>dl_fault := DF_StaleSample\<rparr>
      else if \<not> dq_current_usable req then empty_delta\<lparr>dl_fault := DF_StaleSample\<rparr>
      else if \<not> same_identity previous current then empty_delta\<lparr>dl_fault := DF_FencedSample\<rparr>
      else if smp_sequence current \<le> smp_sequence previous
              \<or> smp_gap_epoch current \<noteq> smp_gap_epoch previous
      then empty_delta\<lparr>dl_fault := DF_RevisionGap\<rparr>
      else case difference (smp_observed_at current) (smp_observed_at previous) of
        None \<Rightarrow> empty_delta\<lparr>dl_fault := DF_Overflow\<rparr>
      | Some span \<Rightarrow>
          if is_negative span \<or> is_zero span then empty_delta\<lparr>dl_fault := DF_NonMonotonicTime\<rparr>
          else if span > dq_max_window req then empty_delta\<lparr>dl_fault := DF_WindowTooLarge\<rparr>
          else
            let result = empty_delta\<lparr>dl_window := span\<rparr>;
                raw = cr_raw (smp_reading current);
                base = cr_raw (smp_reading previous);
                width = cr_width (smp_reading previous)
            in if cr_reset_declared (smp_reading current) then
                 result\<lparr>dl_discontinuity := CD_Reset, dl_fault := DF_CounterReset\<rparr>
               else if raw \<ge> base then result\<lparr>dl_delta := raw - base, dl_valid := True\<rparr>
               else if base \<ge> wrap_detection_threshold width then
                 (let head = (counter_range width - base) + 1 in
                  case checked_add head raw of
                    None \<Rightarrow> result\<lparr>dl_fault := DF_Overflow\<rparr>
                  | Some tot \<Rightarrow>
                      result\<lparr>dl_discontinuity := CD_Wrap, dl_delta := tot, dl_valid := True\<rparr>)
               else result\<lparr>dl_discontinuity := CD_Reset, dl_fault := DF_CounterReset\<rparr>)"

definition derive_utilization :: "derivation_request \<Rightarrow> derivation_result" where
  "derive_utilization req =
     (if dq_capacity_bps req = 0 then empty_derivation\<lparr>dr_fault := DF_MissingCapacity\<rparr>
      else
        let d = derive_delta req in
        if \<not> dl_valid d then
          empty_derivation\<lparr>dr_fault := dl_fault d, dr_discontinuity := dl_discontinuity d,
                           dr_window := dl_window d\<rparr>
        else case checked_mul (dl_delta d) 8 of
          None \<Rightarrow> empty_derivation\<lparr>dr_fault := DF_Overflow\<rparr>
        | Some bits \<Rightarrow>
            let r1 = empty_derivation\<lparr>dr_delta_bytes := dl_delta d, dr_window := dl_window d,
                                       dr_discontinuity := dl_discontinuity d\<rparr>;
                window_ns = word_of_int (dl_window d)
            in case checked_mul_div bits 1000000000 window_ns of
                 None \<Rightarrow> r1\<lparr>dr_fault := DF_Overflow\<rparr>
               | Some rate \<Rightarrow>
                   let r2 = r1\<lparr>dr_bits_per_second := rate\<rparr>;
                       numerator = u128_mul_u64 bits 1000000000000000000;
                       denominator = u128_mul_u64 (dq_capacity_bps req) window_ns
                   in if u128_is_zero denominator then r2\<lparr>dr_fault := DF_MissingCapacity\<rparr>
                      else case u128_div_u128 numerator denominator of
                        None \<Rightarrow> r2\<lparr>dr_fault := DF_Overflow\<rparr>
                      | Some utilization \<Rightarrow>
                          r2\<lparr>dr_utilization_ppb := utilization, dr_valid := True\<rparr>)"

definition ratio_ppb :: "u64 \<Rightarrow> u64 \<Rightarrow> u64 option" where
  "ratio_ppb numerator denominator =
     (if denominator = 0 then None
      else if numerator = 0 then Some 0
      else u128_div_u64 (u128_mul_u64 numerator 1000000000) denominator)"

section \<open>The exact traffic between two samples\<close>

text \<open>
  What a cumulative counter of the baseline's width advanced by, when it moved from one raw value
  to the next: the difference modulo the counter's range.
\<close>

definition counter_modulus :: "counter_width \<Rightarrow> nat" where
  "counter_modulus width = (if width = CW_Bits32 then 2 ^ 32 else 2 ^ 64)"

definition modular_advance :: "counter_width \<Rightarrow> nat \<Rightarrow> nat \<Rightarrow> nat" where
  "modular_advance width base raw = (if base \<le> raw then raw - base else counter_modulus width + raw - base)"

text \<open>The reading fits its declared width: what validation of an observation guarantees.\<close>

definition reading_fits :: "counter_reading \<Rightarrow> bool" where
  "reading_fits r \<longleftrightarrow> unat (cr_raw r) < counter_modulus (cr_width r)"

lemma validated_reading_fits:
  "status_ok (validate_reading k (CounterReading c) p) \<Longrightarrow> reading_fits c"
  using validate_reading_counter_width [of k c p] unat_u64_lt [of "cr_raw c"]
  by (auto simp: reading_fits_def counter_modulus_def)

lemma unat_counter_range: "unat (counter_range w) = counter_modulus w - 1"
  by (simp add: counter_range_def counter_modulus_def)

lemma threshold_pos: "wrap_detection_threshold w \<le> b \<Longrightarrow> 0 < unat b"
  by (auto simp: wrap_detection_threshold_def le_u64_iff split: if_splits)

lemma wrap_head:
  assumes "reading_fits r" and "wrap_detection_threshold (cr_width r) \<le> cr_raw r"
  shows "unat ((counter_range (cr_width r) - cr_raw r) + 1) = counter_modulus (cr_width r) - unat (cr_raw r)"
proof -
  have le: "cr_raw r \<le> counter_range (cr_width r)"
    using assms(1) by (auto simp: le_u64_iff unat_counter_range reading_fits_def)
  have "0 < unat (cr_raw r)" using assms(2) by (rule threshold_pos)
  moreover have "counter_modulus (cr_width r) \<le> 18446744073709551616"
    by (simp add: counter_modulus_def)
  ultimately show ?thesis
    using assms(1) by (simp add: unat_plus_u64 unat_minus_u64 [OF le] unat_counter_range reading_fits_def)
qed

lemma checked_add_fits:
  "unat a + unat b < 2 ^ 64 \<Longrightarrow> \<exists>t. checked_add a b = Some t \<and> unat t = unat a + unat b"
  by (simp add: checked_add_spec unat_of_nat_u64 del: of_nat_add)

text \<open>Under a detected wrap the two parts never overflow: the sum is below the counter's range.\<close>

lemma wrap_sum:
  assumes "reading_fits r" and "wrap_detection_threshold (cr_width r) \<le> cr_raw r" and "raw < cr_raw r"
  shows "\<exists>tot. checked_add ((counter_range (cr_width r) - cr_raw r) + 1) raw = Some tot
           \<and> unat tot = modular_advance (cr_width r) (unat (cr_raw r)) (unat raw)"
proof -
  have lt: "unat raw < unat (cr_raw r)" using assms(3) by (simp add: less_u64_iff)
  have m: "counter_modulus (cr_width r) \<le> 18446744073709551616"
    by (simp add: counter_modulus_def)
  let ?head = "(counter_range (cr_width r) - cr_raw r) + 1"
  have "unat ?head + unat raw = modular_advance (cr_width r) (unat (cr_raw r)) (unat raw)"
    using lt assms(1) by (simp only: wrap_head [OF assms(1,2)]) (simp add: modular_advance_def reading_fits_def)
  moreover have "modular_advance (cr_width r) (unat (cr_raw r)) (unat raw) < 2 ^ 64"
    using lt m assms(1) by (simp add: modular_advance_def reading_fits_def)
  ultimately show ?thesis
    using checked_add_fits [of ?head raw] by simp
qed

section \<open>Derivations\<close>

lemma derive_delta_valid_fault: "dl_valid (derive_delta q) \<longleftrightarrow> dl_fault (derive_delta q) = DF_None"
  by (auto simp: derive_delta_def empty_delta_def Let_def split: option.splits)

lemma derive_delta_validD:
  assumes "dl_valid (derive_delta q)"
  shows "dq_has_previous q \<and> dq_previous_usable q \<and> dq_current_usable q
      \<and> same_identity (dq_previous q) (dq_current q)
      \<and> smp_sequence (dq_previous q) < smp_sequence (dq_current q)
      \<and> smp_gap_epoch (dq_current q) = smp_gap_epoch (dq_previous q)
      \<and> \<not> cr_reset_declared (smp_reading (dq_current q))"
    and "dl_window (derive_delta q) = smp_observed_at (dq_current q) - smp_observed_at (dq_previous q)"
    and "0 < dl_window (derive_delta q)" and "dl_window (derive_delta q) \<le> dq_max_window q"
    and "dl_discontinuity (derive_delta q) \<noteq> CD_Reset"
  using assms
  by (auto simp: derive_delta_def empty_delta_def Let_def is_negative_def is_zero_def not_le
      dest: difference_SomeD split: if_splits option.splits)

lemma derive_delta_exact:
  assumes "dl_valid (derive_delta q)" and "reading_fits (smp_reading (dq_previous q))"
  shows "unat (dl_delta (derive_delta q)) =
     modular_advance (cr_width (smp_reading (dq_previous q)))
       (unat (cr_raw (smp_reading (dq_previous q)))) (unat (cr_raw (smp_reading (dq_current q))))"
proof (cases "cr_raw (smp_reading (dq_previous q)) \<le> cr_raw (smp_reading (dq_current q))")
  case True
  then show ?thesis
    using assms(1)
    by (auto simp: derive_delta_def empty_delta_def Let_def modular_advance_def unat_minus_u64
        le_u64_iff split: if_splits option.splits)
next
  case False
  then have lt: "cr_raw (smp_reading (dq_current q)) < cr_raw (smp_reading (dq_previous q))" by simp
  then show ?thesis
    using assms(1) wrap_sum [OF assms(2) _ lt]
    by (auto simp: derive_delta_def empty_delta_def Let_def split: if_splits option.splits)
qed

text \<open>The fold and the derivation judge the boundary between two samples alike.\<close>

lemma fold_agrees_with_derivation:
  assumes "dl_valid (derive_delta q)"
  shows "co_delta_valid (compare_with_baseline (dq_previous q) (dq_current q))
    \<and> co_delta (compare_with_baseline (dq_previous q) (dq_current q)) = dl_delta (derive_delta q)
    \<and> co_discontinuity (compare_with_baseline (dq_previous q) (dq_current q))
       = dl_discontinuity (derive_delta q)"
  using assms
  by (auto simp: derive_delta_def compare_with_baseline_def empty_delta_def empty_outcome_def Let_def
      not_le split: if_splits option.splits)

text \<open>The fold keeps exactly the last two samples, whatever the history.\<close>

lemma observe_counter_latest:
  "cc_latest (fst (observe_counter s x)) = x" "cc_has_latest (fst (observe_counter s x))"
  "cc_has_previous (fst (observe_counter s x)) \<longleftrightarrow> cc_has_previous s \<or> cc_has_latest s"
  "cc_has_latest s \<Longrightarrow> cc_previous (fst (observe_counter s x)) = cc_latest s"
  "\<not> cc_has_latest s \<Longrightarrow> cc_previous (fst (observe_counter s x)) = cc_previous s"
  by (auto simp: observe_counter_def Let_def)

lemma fold_observe_two:
  "cc_latest (fold (\<lambda>x s. fst (observe_counter s x)) (xs @ [a, b]) s) = b
   \<and> cc_previous (fold (\<lambda>x s. fst (observe_counter s x)) (xs @ [a, b]) s) = a
   \<and> cc_has_previous (fold (\<lambda>x s. fst (observe_counter s x)) (xs @ [a, b]) s)"
  by (simp add: observe_counter_latest)

section \<open>Utilization\<close>

lemma derive_utilization_valid_fault:
  "dr_valid (derive_utilization q) \<longleftrightarrow> dr_fault (derive_utilization q) = DF_None"
  using derive_delta_valid_fault [of q]
  by (auto simp: derive_utilization_def empty_derivation_def Let_def split: option.splits)

text \<open>The reference values: bits per second and parts per billion of the capacity, rounded down.\<close>

definition rate_spec :: "nat \<Rightarrow> nat \<Rightarrow> nat" where
  "rate_spec bytes window_ns = bytes * 8 * 10 ^ 9 div window_ns"

definition utilization_spec :: "nat \<Rightarrow> nat \<Rightarrow> nat \<Rightarrow> nat" where
  "utilization_spec bytes capacity window_ns = bytes * 8 * 10 ^ 18 div (capacity * window_ns)"

lemma window_word:
  assumes "0 < w" and "w \<le> i64_max"
  shows "unat (word_of_int w :: u64) = nat w" and "(word_of_int w :: u64) \<noteq> 0"
proof -
  show u: "unat (word_of_int w :: u64) = nat w"
    using assms by (simp add: unat_eq_nat_uint uint_word_of_int take_bit_int_eq_self)
  with assms show "(word_of_int w :: u64) \<noteq> 0"
    by (metis unat_0 zero_less_nat_eq less_irrefl)
qed

lemma u128_div_u128_SomeD:
  assumes "u128_div_u128 x d = Some q"
  shows "unat q = u128_val x div u128_val d"
  using u128_div_u128_spec [of x d] assms by (auto split: if_splits)

lemma checked_mul_div_sound:
  "checked_mul_div a b c = Some q \<Longrightarrow> unat q = unat a * unat b div unat c"
  by (auto simp: checked_mul_div_def u128_mul_u64_exact dest: u128_div_u64_sound split: if_splits)

lemma checked_mul_SomeD: "checked_mul a b = Some c \<Longrightarrow> unat c = unat a * unat b"
  by (auto simp: checked_mul_spec unat_of_nat_u64 simp del: of_nat_mult split: if_splits)

lemma derive_utilization_validE:
  assumes "dr_valid (derive_utilization q)"
  obtains bits rate util where
    "dl_valid (derive_delta q)"
    "checked_mul (dl_delta (derive_delta q)) 8 = Some bits"
    "checked_mul_div bits 1000000000 (word_of_int (dl_window (derive_delta q))) = Some rate"
    "u128_div_u128 (u128_mul_u64 bits 1000000000000000000)
       (u128_mul_u64 (dq_capacity_bps q) (word_of_int (dl_window (derive_delta q)))) = Some util"
    "derive_utilization q =
       \<lparr>dr_fault = DF_None, dr_valid = True, dr_delta_bytes = dl_delta (derive_delta q),
        dr_bits_per_second = rate, dr_utilization_ppb = util, dr_window = dl_window (derive_delta q),
        dr_discontinuity = dl_discontinuity (derive_delta q)\<rparr>"
  using assms
  by (auto simp: derive_utilization_def empty_derivation_def Let_def split: if_splits option.splits)

lemma derive_utilization_exact:
  assumes "dr_valid (derive_utilization q)" and "dq_max_window q \<le> i64_max"
  shows "dl_valid (derive_delta q)
    \<and> dr_delta_bytes (derive_utilization q) = dl_delta (derive_delta q)
    \<and> dr_window (derive_utilization q) = dl_window (derive_delta q)
    \<and> unat (dr_bits_per_second (derive_utilization q)) =
        rate_spec (unat (dl_delta (derive_delta q))) (nat (dl_window (derive_delta q)))
    \<and> unat (dr_utilization_ppb (derive_utilization q)) =
        utilization_spec (unat (dl_delta (derive_delta q))) (unat (dq_capacity_bps q))
          (nat (dl_window (derive_delta q)))"
  using assms(1)
proof (rule derive_utilization_validE)
  fix bits rate util
  let ?d = "derive_delta q"
  assume valid: "dl_valid ?d" and bits: "checked_mul (dl_delta ?d) 8 = Some bits"
    and rate: "checked_mul_div bits 1000000000 (word_of_int (dl_window ?d)) = Some rate"
    and util: "u128_div_u128 (u128_mul_u64 bits 1000000000000000000)
       (u128_mul_u64 (dq_capacity_bps q) (word_of_int (dl_window ?d))) = Some util"
    and eq: "derive_utilization q =
       \<lparr>dr_fault = DF_None, dr_valid = True, dr_delta_bytes = dl_delta ?d,
        dr_bits_per_second = rate, dr_utilization_ppb = util, dr_window = dl_window ?d,
        dr_discontinuity = dl_discontinuity ?d\<rparr>"
  have window: "0 < dl_window ?d" "dl_window ?d \<le> i64_max"
    using derive_delta_validD [OF valid] assms(2) by auto
  have b: "unat bits = unat (dl_delta ?d) * 8" using checked_mul_SomeD [OF bits] by simp
  have "unat rate = rate_spec (unat (dl_delta ?d)) (nat (dl_window ?d))"
    using checked_mul_div_sound [OF rate] by (simp add: b window_word [OF window] rate_spec_def)
  moreover have "unat util = utilization_spec (unat (dl_delta ?d)) (unat (dq_capacity_bps q)) (nat (dl_window ?d))"
    using u128_div_u128_SomeD [OF util]
    by (simp add: b u128_mul_u64_exact window_word [OF window] utilization_spec_def)
  ultimately show ?thesis using valid by (simp add: eq)
qed

text \<open>
  When a delta exists and the three exact results fit 64 bits, the derivation succeeds: overflow
  is reported only when a result really does not fit.
\<close>

lemma checked_mul_fits:
  "unat a * unat b < 2 ^ 64 \<Longrightarrow> \<exists>t. checked_mul a b = Some t \<and> unat t = unat a * unat b"
  by (simp add: checked_mul_spec unat_of_nat_u64 del: of_nat_mult)

lemma checked_mul_div_fits:
  assumes "0 < unat c" and "unat c \<le> 2 ^ 63" and "unat a * unat b div unat c < 2 ^ 64"
  shows "\<exists>r. checked_mul_div a b c = Some r"
  using checked_mul_div_spec [OF assms(2), of a b] assms(1,3) by (auto simp: unat_gt_0)

lemma u128_div_u128_fits:
  assumes "0 < u128_val d" and "u128_val x div u128_val d < 2 ^ 64"
  shows "\<exists>r. u128_div_u128 x d = Some r" and "\<not> u128_is_zero d"
  using u128_div_u128_spec [of x d] assms by (auto simp: u128_is_zero_def u128_val_def)

lemma derive_utilization_complete:
  assumes "dl_valid (derive_delta q)" and "dq_max_window q \<le> i64_max" and "dq_capacity_bps q \<noteq> 0"
    and "unat (dl_delta (derive_delta q)) * 8 < 2 ^ 64"
    and "rate_spec (unat (dl_delta (derive_delta q))) (nat (dl_window (derive_delta q))) < 2 ^ 64"
    and "utilization_spec (unat (dl_delta (derive_delta q))) (unat (dq_capacity_bps q))
             (nat (dl_window (derive_delta q))) < 2 ^ 64"
  shows "dr_valid (derive_utilization q)"
proof -
  let ?d = "derive_delta q" and ?w = "word_of_int (dl_window (derive_delta q)) :: u64"
  have window: "0 < dl_window ?d" "dl_window ?d \<le> i64_max"
    using derive_delta_validD [OF assms(1)] assms(2) by auto
  have w: "unat ?w = nat (dl_window ?d)" "0 < unat ?w" "unat ?w \<le> 2 ^ 63"
    using window by (simp_all add: window_word(1) [OF window])
  have cap: "0 < unat (dq_capacity_bps q)" using assms(3) by (simp add: unat_gt_0)
  obtain bits where bits: "checked_mul (dl_delta ?d) 8 = Some bits" "unat bits = unat (dl_delta ?d) * 8"
    using assms(4) checked_mul_fits [of "dl_delta ?d" 8] by auto
  obtain rate where rate: "checked_mul_div bits 1000000000 ?w = Some rate"
    using checked_mul_div_fits [OF w(2,3), of bits 1000000000] assms(5)
    unfolding bits(2) w(1) rate_spec_def by auto
  let ?den = "u128_mul_u64 (dq_capacity_bps q) ?w" and ?num = "u128_mul_u64 bits 1000000000000000000"
  have den: "0 < u128_val ?den" using cap w(2) by (simp add: u128_mul_u64_exact)
  moreover have fits: "u128_val ?num div u128_val ?den < 2 ^ 64"
    using assms(6) by (simp add: u128_mul_u64_exact bits(2) w(1) utilization_spec_def)
  ultimately obtain util where util: "u128_div_u128 ?num ?den = Some util"
    using u128_div_u128_fits(1) by blast
  show ?thesis
    using assms(1,3) bits(1) rate util u128_div_u128_fits(2) [OF den fits]
    by (simp add: derive_utilization_def empty_derivation_def Let_def)
qed

section \<open>Ratios and sample freshness\<close>

lemma ratio_ppb_sound:
  "ratio_ppb n d = Some r \<Longrightarrow> unat d \<noteq> 0 \<and> unat r = unat n * 10 ^ 9 div unat d"
  by (auto simp: ratio_ppb_def u128_mul_u64_exact unat_eq_zero dest!: u128_div_u64_sound split: if_splits)

lemma ratio_ppb_complete:
  assumes "unat d \<le> 2 ^ 63" and "d \<noteq> 0" and "unat n * 10 ^ 9 div unat d < 2 ^ 64"
  shows "\<exists>r. ratio_ppb n d = Some r"
  using u128_div_u64_spec [OF assms(1), of "u128_mul_u64 n 1000000000"] assms
  by (auto simp: ratio_ppb_def u128_mul_u64_exact)

lemma sample_freshness_is_evidence_freshness:
  assumes "smp_observed_at s = obs_observed_at (ev_observation e)"
    and "smp_received_at s = obs_received_at (ev_observation e)"
  shows "classify_sample_freshness s now p = classify_freshness (age_evidence e now) p"
  by (auto simp: classify_sample_freshness_def classify_freshness_def age_evidence_def
      age_component_def is_negative_def Let_def assms split: option.splits)

section \<open>Properties\<close>

text \<open>Two samples of a 32-bit counter that wrapped, one second apart on a link of one megabit.\<close>

definition example_sample :: "u64 \<Rightarrow> u64 \<Rightarrow> time_point \<Rightarrow> counter_sample" where
  "example_sample raw sequence at =
     empty_sample\<lparr>smp_reading := \<lparr>cr_raw = raw, cr_width = CW_Bits32, cr_reset_declared = False\<rparr>,
                  smp_observed_at := at, smp_received_at := at, smp_sequence := sequence\<rparr>"

definition example_request :: derivation_request where
  "example_request =
     \<lparr>dq_previous = example_sample 4294967290 1 1000000000,
      dq_current = example_sample 94 2 2000000000, dq_has_previous = True,
      dq_previous_usable = True, dq_current_usable = True, dq_capacity_bps = 1000000,
      dq_max_window = 60000000000\<rparr>"

lemma example_request_fits: "reading_fits (smp_reading (dq_previous example_request))"
  by (simp add: example_request_def example_sample_def reading_fits_def counter_modulus_def)

text \<open>
  C14: a delta is only claimed between two usable samples of one scope and one generation, in
  sequence order with no revision gap between them and no declared reset, over a positive window
  within the bound; and then it is exactly what the counter advanced by modulo its declared width,
  so a wrap is undone and nothing is lost to 64-bit arithmetic.
\<close>

theorem delta_is_exact:
  assumes "dl_valid (derive_delta q)" and "reading_fits (smp_reading (dq_previous q))"
  shows "dq_has_previous q \<and> dq_previous_usable q \<and> dq_current_usable q
    \<and> same_identity (dq_previous q) (dq_current q)
    \<and> smp_sequence (dq_previous q) < smp_sequence (dq_current q)
    \<and> smp_gap_epoch (dq_current q) = smp_gap_epoch (dq_previous q)
    \<and> \<not> cr_reset_declared (smp_reading (dq_current q))
    \<and> 0 < dl_window (derive_delta q) \<and> dl_window (derive_delta q) \<le> dq_max_window q
    \<and> dl_window (derive_delta q) = smp_observed_at (dq_current q) - smp_observed_at (dq_previous q)
    \<and> unat (dl_delta (derive_delta q)) =
        modular_advance (cr_width (smp_reading (dq_previous q)))
          (unat (cr_raw (smp_reading (dq_previous q)))) (unat (cr_raw (smp_reading (dq_current q))))"
  using derive_delta_validD [OF assms(1)] derive_delta_exact [OF assms] by auto

theorem delta_is_exact_witness: "unat (dl_delta (derive_delta example_request)) = 100"
proof -
  have "dl_valid (derive_delta example_request)" by code_simp
  from delta_is_exact [OF this example_request_fits] show ?thesis
    by (simp add: example_request_def example_sample_def modular_advance_def counter_modulus_def)
qed

text \<open>
  C13: a valid utilization is the floor of the true value. From the raw readings \<open>a\<close> and \<open>b\<close> the
  rate is the bits the counter advanced by, per second, and the utilization the same bits per
  second in parts per billion of the capacity, both rounded down once and over the natural
  numbers, so no intermediate product wraps.
\<close>

theorem utilization_is_exact:
  assumes "dr_valid (derive_utilization q)" and "dq_max_window q \<le> i64_max"
    and "reading_fits (smp_reading (dq_previous q))"
  defines "bytes \<equiv> modular_advance (cr_width (smp_reading (dq_previous q)))
      (unat (cr_raw (smp_reading (dq_previous q)))) (unat (cr_raw (smp_reading (dq_current q))))"
    and "window \<equiv> nat (smp_observed_at (dq_current q) - smp_observed_at (dq_previous q))"
  shows "unat (dr_bits_per_second (derive_utilization q)) = rate_spec bytes window
    \<and> unat (dr_utilization_ppb (derive_utilization q)) =
        utilization_spec bytes (unat (dq_capacity_bps q)) window
    \<and> dr_fault (derive_utilization q) = DF_None"
proof -
  note u = derive_utilization_exact [OF assms(1,2)]
  then have valid: "dl_valid (derive_delta q)" by simp
  from u show ?thesis
    using derive_delta_validD(2) [OF valid] derive_delta_exact [OF valid assms(3)]
      derive_utilization_valid_fault [of q] assms(1)
    by (simp add: bytes_def window_def)
qed

theorem utilization_is_exact_witness:
  "unat (dr_bits_per_second (derive_utilization example_request)) = 800
   \<and> unat (dr_utilization_ppb (derive_utilization example_request)) = 800000"
proof -
  have "dr_valid (derive_utilization example_request)" by code_simp
  from utilization_is_exact [OF this _ example_request_fits] show ?thesis
    by (simp add: example_request_def example_sample_def modular_advance_def counter_modulus_def
        rate_spec_def utilization_spec_def)
qed

text \<open>
  The derivation is complete: whenever a delta exists, the capacity is known and the true bits,
  rate and utilization fit 64 bits, a value is produced; the overflow fault is never raised for a
  representable result.
\<close>

lemma utilization_is_complete:
  assumes "dl_valid (derive_delta q)" and "dq_max_window q \<le> i64_max" and "dq_capacity_bps q \<noteq> 0"
    and "unat (dl_delta (derive_delta q)) * 8 < 2 ^ 64"
    and "rate_spec (unat (dl_delta (derive_delta q))) (nat (dl_window (derive_delta q))) < 2 ^ 64"
    and "utilization_spec (unat (dl_delta (derive_delta q))) (unat (dq_capacity_bps q))
             (nat (dl_window (derive_delta q))) < 2 ^ 64"
  shows "dr_valid (derive_utilization q) \<and> dr_fault (derive_utilization q) = DF_None"
  using derive_utilization_complete [OF assms] derive_utilization_valid_fault [of q] by simp

text \<open>
  The fold that ingestion runs and the derivation that queries run judge a pair of samples
  alike: for the two newest samples of any history, a delta the derivation claims is the delta the
  fold saw, with the same verdict on wrap and reset.
\<close>

lemma fold_and_derivation_agree:
  assumes "dl_valid (derive_delta q)"
    and "state = fold (\<lambda>x s. fst (observe_counter s x)) (history @ [dq_previous q]) s0"
  shows "co_delta_valid (snd (observe_counter state (dq_current q)))
    \<and> co_delta (snd (observe_counter state (dq_current q))) = dl_delta (derive_delta q)
    \<and> co_discontinuity (snd (observe_counter state (dq_current q))) = dl_discontinuity (derive_delta q)
    \<and> cc_previous (fst (observe_counter state (dq_current q))) = dq_previous q
    \<and> cc_latest (fst (observe_counter state (dq_current q))) = dq_current q"
proof -
  have latest: "cc_has_latest state" "cc_latest state = dq_previous q"
    by (simp_all add: assms(2) observe_counter_latest)
  then have "snd (observe_counter state (dq_current q)) = compare_with_baseline (dq_previous q) (dq_current q)"
    by (simp add: observe_counter_def Let_def)
  with latest fold_agrees_with_derivation [OF assms(1)] show ?thesis
    by (simp add: observe_counter_latest)
qed

end
