(* ===== verification/Evidence_Store.thy ===== *)
theory Evidence_Store
  imports Counter_Tracker Supersession Restore
begin

text \<open>
  The evidence store (\<^verbatim>\<open>src/store/evidence_store.cpp\<close>): the per-source revision streams, the
  per-slot bounded evidence history with its counter continuity, the ingest fences in the order
  the code applies them, the evaluation of the contenders of a slot, and the persisted form.
  \<open>accept\<close> is the composition of the guards, the scope entry, the sequence check, the authority
  check, the capacity check and the recording step, each a definition of its own.
\<close>

section \<open>State\<close>

datatype slot_key = SlotKey (sk_link: link_id) (sk_key: metric_key)

instantiation slot_key :: linorder
begin

definition less_eq_slot_key :: "slot_key \<Rightarrow> slot_key \<Rightarrow> bool" where
  "less_eq_slot_key a b \<longleftrightarrow> sk_link a < sk_link b \<or> sk_link a = sk_link b \<and> sk_key a \<le> sk_key b"

definition less_slot_key :: "slot_key \<Rightarrow> slot_key \<Rightarrow> bool" where
  "less_slot_key a b \<longleftrightarrow> sk_link a < sk_link b \<or> sk_link a = sk_link b \<and> sk_key a < sk_key b"

instance
  by standard (auto simp: less_eq_slot_key_def less_slot_key_def slot_key.expand)

end

record stream_state =
  ss_has_scope :: bool
  ss_scope :: sequence_scope
  ss_has_sequence :: bool
  ss_last_sequence :: u64
  ss_last_observation :: observation_id
  ss_gap_open :: bool
  ss_retired_scopes :: "sequence_scope list"
  ss_accepted :: u64
  ss_fenced :: u64
  ss_gap_count :: u64
  ss_scope_changes :: u64

definition empty_stream :: stream_state where
  "empty_stream =
     \<lparr>ss_has_scope = False, ss_scope = empty_scope, ss_has_sequence = False, ss_last_sequence = 0,
      ss_last_observation = id_zero, ss_gap_open = False, ss_retired_scopes = [], ss_accepted = 0,
      ss_fenced = 0, ss_gap_count = 0, ss_scope_changes = 0\<rparr>"

record evaluation_context =
  ec_now :: time_point
  ec_current_generation :: generation_id
  ec_has_generation :: bool

record evaluated_evidence =
  ee_evidence :: evidence
  ee_age :: age_report
  ee_freshness :: freshness
  ee_provisional_confidence :: confidence
  ee_scope_current :: bool
  ee_generation_current :: bool
  ee_eligible :: bool
  ee_historical :: bool

record accept_context =
  ac_source :: "source_record option"
  ac_current_generation :: generation_id
  ac_family_enabled :: bool

record accept_outcome =
  ao_accepted :: bool
  ao_fence :: fence_reason
  ao_duplicate :: bool
  ao_revision_gap :: bool
  ao_scope_changed :: bool
  ao_stale_baseline :: bool
  ao_discontinuity :: counter_discontinuity
  ao_delta_valid :: bool
  ao_delta :: u64
  ao_counter_width :: counter_width

definition empty_accept :: accept_outcome where
  "empty_accept =
     \<lparr>ao_accepted = False, ao_fence = FR_None, ao_duplicate = False, ao_revision_gap = False,
      ao_scope_changed = False, ao_stale_baseline = False, ao_discontinuity = CD_None,
      ao_delta_valid = False, ao_delta = 0, ao_counter_width = CW_Bits64\<rparr>"

record slot_view =
  sv_key :: metric_key
  sv_accepted :: u64
  sv_fenced :: u64
  sv_completeness :: completeness
  sv_retained :: nat
  sv_last_gap_at :: time_point
  sv_has_gap :: bool

record slot =
  sl_key :: metric_key
  sl_history :: "evidence list"
  sl_continuity :: "(source_id, counter_continuity) omap"
  sl_accepted :: u64
  sl_fenced :: u64
  sl_last_gap_at :: time_point
  sl_has_gap :: bool
  sl_reset_count :: u64
  sl_wrap_count :: u64

record persisted_slot =
  ps_slot :: slot_key
  ps_history :: "evidence list"
  ps_continuity :: "(source_id, counter_continuity) omap"
  ps_accepted :: u64
  ps_fenced :: u64
  ps_last_gap_at :: time_point
  ps_has_gap :: bool
  ps_reset_count :: u64
  ps_wrap_count :: u64

record evidence_store =
  es_policy :: policy
  es_slots :: "(slot_key, slot) omap"
  es_streams :: "(source_id, stream_state) omap"
  es_total_accepted :: u64
  es_total_fenced :: u64
  es_duplicates :: u64
  es_revision_gaps :: u64
  es_counter_resets :: u64
  es_counter_wraps :: u64
  es_fence_counts :: "(fence_reason, u64) omap"

definition empty_store :: "policy \<Rightarrow> evidence_store" where
  "empty_store p =
     \<lparr>es_policy = p, es_slots = [], es_streams = [], es_total_accepted = 0, es_total_fenced = 0,
      es_duplicates = 0, es_revision_gaps = 0, es_counter_resets = 0, es_counter_wraps = 0,
      es_fence_counts = []\<rparr>"

definition kMaxKeysPerLink :: nat where
  "kMaxKeysPerLink = kMetricFamilyCount * kDirectionCount * kErrorClassCount"

definition kMaxRetiredScopes :: nat where
  "kMaxRetiredScopes = 32"

text \<open>\<^verbatim>\<open>policy_.limits.max_links * kMaxKeysPerLink\<close>, a \<open>size_t\<close> product.\<close>

definition slot_bound :: "policy \<Rightarrow> nat" where
  "slot_bound p = unat (max_links (pol_limits p) * of_nat kMaxKeysPerLink)"

section \<open>Access to slots, streams and counters\<close>

definition slot_for :: "evidence_store \<Rightarrow> link_id \<Rightarrow> metric_key \<Rightarrow> slot" where
  "slot_for store link key =
     (case om_get (es_slots store) (SlotKey link key) of
        Some s \<Rightarrow> s
      | None \<Rightarrow> \<lparr>sl_key = key, sl_history = [], sl_continuity = [], sl_accepted = 0, sl_fenced = 0,
                 sl_last_gap_at = 0, sl_has_gap = False, sl_reset_count = 0, sl_wrap_count = 0\<rparr>)"

definition stream_for :: "evidence_store \<Rightarrow> source_id \<Rightarrow> stream_state" where
  "stream_for store source =
     (case om_get (es_streams store) source of Some s \<Rightarrow> s | None \<Rightarrow> empty_stream)"

definition put_stream :: "evidence_store \<Rightarrow> source_id \<Rightarrow> stream_state \<Rightarrow> evidence_store" where
  "put_stream store source s = store\<lparr>es_streams := om_put source s (es_streams store)\<rparr>"

definition fence_count :: "evidence_store \<Rightarrow> fence_reason \<Rightarrow> u64" where
  "fence_count store reason =
     (case om_get (es_fence_counts store) reason of None \<Rightarrow> 0 | Some n \<Rightarrow> n)"

definition count_fence :: "evidence_store \<Rightarrow> fence_reason \<Rightarrow> evidence_store" where
  "count_fence store reason =
     store\<lparr>es_total_fenced := es_total_fenced store + 1,
           es_fence_counts :=
             om_put reason (fence_count store reason + 1) (es_fence_counts store)\<rparr>"

section \<open>The ingest fences\<close>

text \<open>The fences that look at the source, the policy and the observation only.\<close>

definition accept_guard ::
  "evidence_store \<Rightarrow> observation \<Rightarrow> accept_context \<Rightarrow> fence_reason + source_record" where
  "accept_guard store o1 ctx =
     (case ac_source ctx of
        None \<Rightarrow> Inl FR_UnknownSource
      | Some source \<Rightarrow>
          if \<not> src_registered source \<or> src_retired source then Inl FR_UnknownSource
          else if src_provenance source = PC_Unknown then Inl FR_UnsupportedProvenance
          else if \<not> ac_family_enabled ctx then Inl FR_UnsupportedFamily
          else if \<not> id_valid (obs_link o1) then Inl FR_UnknownLink
          else
            let valid = validate_observation o1 (es_policy store) in
            if \<not> status_ok valid
            then Inl (if status_code valid = SC_Unsupported then FR_UnsupportedFamily
                      else FR_InvalidValue)
            else if id_valid (ac_current_generation ctx)
                    \<and> prov_generation (obs_provenance o1) \<noteq> ac_current_generation ctx
            then Inl FR_GenerationBehind
            else Inr source)"

definition fence_stream :: "stream_state \<Rightarrow> sequence_scope \<Rightarrow> fence_reason" where
  "fence_stream state scope =
     (if \<not> list_ex (\<lambda>candidate. candidate = scope) (ss_retired_scopes state) then FR_None
      else if scope_incarnation scope \<noteq> scope_incarnation (ss_scope state) then FR_IncarnationBehind
      else FR_EpochBehind)"

text \<open>
  Entering the scope of an observation: the new stream state with the flag that the scope
  changed, or the fence.
\<close>

definition enter_scope ::
  "stream_state \<Rightarrow> sequence_scope \<Rightarrow> fence_reason + (stream_state \<times> bool)" where
  "enter_scope stream scope =
     (if \<not> ss_has_scope stream then
        Inr (stream\<lparr>ss_has_scope := True, ss_scope := scope,
                    ss_scope_changes := ss_scope_changes stream + 1\<rparr>, True)
      else if ss_scope stream \<noteq> scope then
        (let stream_fence = fence_stream stream scope in
         if stream_fence \<noteq> FR_None then Inl stream_fence
         else Inr (stream\<lparr>ss_retired_scopes :=
                             trim_front kMaxRetiredScopes (ss_retired_scopes stream @ [ss_scope stream]),
                           ss_scope := scope, ss_has_sequence := False, ss_gap_open := False,
                           ss_scope_changes := ss_scope_changes stream + 1\<rparr>, True))
      else Inr (stream, False))"

text \<open>
  The revision check: a fence with the flag that the record is an exact duplicate, or whether a
  revision is missing.
\<close>

definition check_sequence :: "stream_state \<Rightarrow> observation \<Rightarrow> (fence_reason \<times> bool) + bool" where
  "check_sequence stream o1 =
     (let sq = prov_sequence (obs_provenance o1) in
      if ss_has_sequence stream then
        if sq = ss_last_sequence stream then
          (if obs_id o1 = ss_last_observation stream then Inl (FR_DuplicateObservation, True)
           else Inl (FR_RevisionReplay, False))
        else (case sequence_next (ss_last_sequence stream) of
                None \<Rightarrow> Inl (FR_RevisionReplay, False)
              | Some expected \<Rightarrow>
                  if sq < ss_last_sequence stream then Inl (FR_RevisionReplay, False)
                  else Inr (sq > expected))
      else Inr False)"

definition open_gap :: "stream_state \<Rightarrow> stream_state" where
  "open_gap stream = stream\<lparr>ss_gap_open := True, ss_gap_count := ss_gap_count stream + 1\<rparr>"

definition fenced_stream :: "stream_state \<Rightarrow> stream_state" where
  "fenced_stream stream = stream\<lparr>ss_fenced := ss_fenced stream + 1\<rparr>"

text \<open>
  The authority check runs through the history from the newest evidence and is decided by the
  first one of the same generation.
\<close>

fun authority_downgrade :: "evidence list \<Rightarrow> observation \<Rightarrow> source_authority \<Rightarrow> bool" where
  "authority_downgrade [] o1 authority = False"
| "authority_downgrade (e # es) o1 authority =
     (if prov_generation (obs_provenance (ev_observation e)) \<noteq> prov_generation (obs_provenance o1)
      then authority_downgrade es o1 authority
      else ev_authority e > authority
           \<and> obs_observed_at (ev_observation e) \<ge> obs_observed_at o1)"

section \<open>Recording\<close>

definition sample_of :: "observation \<Rightarrow> counter_reading \<Rightarrow> stream_state \<Rightarrow> counter_sample" where
  "sample_of o1 reading stream =
     \<lparr>smp_reading = reading, smp_observed_at = obs_observed_at o1,
      smp_received_at = obs_received_at o1, smp_sequence = prov_sequence (obs_provenance o1),
      smp_scope = scope_of (obs_provenance o1), smp_generation = prov_generation (obs_provenance o1),
      smp_gap_epoch = ss_gap_count stream\<rparr>"

definition mark_gap :: "time_point \<Rightarrow> slot \<Rightarrow> slot" where
  "mark_gap now s = s\<lparr>sl_last_gap_at := now, sl_has_gap := True\<rparr>"

text \<open>The counter fold of an accepted observation: slot, store-wide counters, outcome.\<close>

definition track_counter ::
  "slot \<Rightarrow> evidence_store \<Rightarrow> accept_outcome \<Rightarrow> observation \<Rightarrow> stream_state \<Rightarrow> time_point \<Rightarrow>
     slot \<times> evidence_store \<times> accept_outcome" where
  "track_counter s store outcome o1 stream now =
     (if is_counter_family (key_family (obs_key o1)) then
        (case obs_payload o1 of
           CounterReading reading \<Rightarrow>
             (let source = prov_source (obs_provenance o1);
                  continuity = (case om_get (sl_continuity s) source of
                                  Some c \<Rightarrow> c | None \<Rightarrow> empty_continuity);
                  r = observe_counter continuity (sample_of o1 reading stream);
                  s1 = s\<lparr>sl_continuity := om_put source (fst r) (sl_continuity s)\<rparr>;
                  outcome1 = outcome\<lparr>ao_discontinuity := co_discontinuity (snd r),
                                     ao_delta_valid := co_delta_valid (snd r),
                                     ao_delta := co_delta (snd r),
                                     ao_counter_width := cr_width reading\<rparr>;
                  (s2, store2) =
                    (if co_discontinuity (snd r) = CD_Reset
                     then (mark_gap now (s1\<lparr>sl_reset_count := sl_reset_count s1 + 1\<rparr>),
                           store\<lparr>es_counter_resets := es_counter_resets store + 1\<rparr>)
                     else if co_discontinuity (snd r) = CD_Wrap
                     then (s1\<lparr>sl_wrap_count := sl_wrap_count s1 + 1\<rparr>,
                           store\<lparr>es_counter_wraps := es_counter_wraps store + 1\<rparr>)
                     else (s1, store));
                  s3 = (if co_sequence_gap (snd r) then mark_gap now s2 else s2)
              in (s3, store2, outcome1))
         | _ \<Rightarrow> (s, store, outcome))
      else (s, store, outcome))"

definition record_evidence ::
  "evidence_store \<Rightarrow> observation \<Rightarrow> source_record \<Rightarrow> stream_state \<Rightarrow> accept_outcome \<Rightarrow> time_point \<Rightarrow>
     evidence_store \<times> accept_outcome" where
  "record_evidence store o1 source stream outcome now =
     (let link = obs_link o1;
          key = obs_key o1;
          evidence = \<lparr>ev_observation = o1, ev_accepted_at = now,
                      ev_authority = src_authority source, ev_provenance = src_provenance source\<rparr>;
          (s1, store1, outcome1) = track_counter (slot_for store link key) store outcome o1 stream now;
          s2 = (if ao_revision_gap outcome then mark_gap now s1 else s1);
          s3 = s2\<lparr>sl_history :=
                     trim_front (unat (max_evidence_per_key (pol_limits (es_policy store))))
                       (sl_history s2 @ [evidence]),
                   sl_accepted := sl_accepted s2 + 1\<rparr>;
          stream1 = stream\<lparr>ss_has_sequence := True,
                           ss_last_sequence := prov_sequence (obs_provenance o1),
                           ss_last_observation := obs_id o1,
                           ss_accepted := ss_accepted stream + 1\<rparr>;
          store2 = store1\<lparr>es_slots := om_put (SlotKey link key) s3 (es_slots store1),
                          es_total_accepted := es_total_accepted store1 + 1\<rparr>
      in (put_stream store2 (prov_source (obs_provenance o1)) stream1,
          outcome1\<lparr>ao_accepted := True\<rparr>))"

definition accept ::
  "evidence_store \<Rightarrow> observation \<Rightarrow> accept_context \<Rightarrow> time_point \<Rightarrow> evidence_store \<times> accept_outcome" where
  "accept store o1 ctx now =
     (case accept_guard store o1 ctx of
        Inl reason \<Rightarrow> (count_fence store reason, empty_accept\<lparr>ao_fence := reason\<rparr>)
      | Inr source \<Rightarrow>
          let src = prov_source (obs_provenance o1);
              stream = stream_for store src
          in case enter_scope stream (scope_of (obs_provenance o1)) of
               Inl reason \<Rightarrow>
                 (count_fence (put_stream store src (fenced_stream stream)) reason,
                  empty_accept\<lparr>ao_fence := reason\<rparr>)
             | Inr (stream1, changed) \<Rightarrow>
                 let outcome = empty_accept\<lparr>ao_scope_changed := changed\<rparr> in
                 case check_sequence stream1 o1 of
                   Inl (reason, dup) \<Rightarrow>
                     let store1 = put_stream store src (fenced_stream stream1);
                         store2 = (if dup then store1\<lparr>es_duplicates := es_duplicates store1 + 1\<rparr>
                                   else store1)
                     in (count_fence store2 reason,
                         outcome\<lparr>ao_duplicate := dup, ao_fence := reason\<rparr>)
                 | Inr gap \<Rightarrow>
                     let stream2 = (if gap then open_gap stream1 else stream1);
                         store1 = (if gap then store\<lparr>es_revision_gaps := es_revision_gaps store + 1\<rparr>
                                   else store);
                         outcome2 = outcome\<lparr>ao_revision_gap := gap\<rparr>;
                         existing = om_get (es_slots store) (SlotKey (obs_link o1) (obs_key o1))
                     in if (case existing of
                              None \<Rightarrow> False
                            | Some s \<Rightarrow> authority_downgrade (rev (sl_history s)) o1 (src_authority source))
                        then (count_fence (put_stream store1 src (fenced_stream stream2)) FR_AuthorityDowngrade,
                              outcome2\<lparr>ao_fence := FR_AuthorityDowngrade\<rparr>)
                        else if length (es_slots store) \<ge> slot_bound (es_policy store) \<and> existing = None
                        then (count_fence (put_stream store1 src stream2) FR_StoreFull,
                              outcome2\<lparr>ao_fence := FR_StoreFull\<rparr>)
                        else record_evidence store1 o1 source stream2 outcome2 now)"

section \<open>Evaluation\<close>

definition completeness_of :: "evidence_store \<Rightarrow> link_id \<Rightarrow> metric_key \<Rightarrow> time_point \<Rightarrow> completeness" where
  "completeness_of store link key now =
     (case om_get (es_slots store) (SlotKey link key) of
        None \<Rightarrow> Compl_Unknown
      | Some s \<Rightarrow>
          if sl_accepted s = 0 then Compl_Unknown
          else if \<not> sl_has_gap s then Compl_Complete
          else case difference now (sl_last_gap_at s) of
            None \<Rightarrow> Compl_Complete
          | Some since \<Rightarrow>
              if \<not> is_negative since
                 \<and> since \<le> derivation_window (pol_thresholds (es_policy store))
              then Compl_Incomplete else Compl_Complete)"

definition evaluate ::
  "evidence_store \<Rightarrow> freshness_policy \<Rightarrow> completeness \<Rightarrow> evaluation_context \<Rightarrow> evidence \<Rightarrow>
     evaluated_evidence" where
  "evaluate store fp complete ctx e =
     (let age = age_evidence e (ec_now ctx);
          fresh = classify_freshness age fp;
          source = prov_source (obs_provenance (ev_observation e));
          scope_current =
            (case om_get (es_streams store) source of
               None \<Rightarrow> False
             | Some s \<Rightarrow> ss_has_scope s \<and> ss_scope s = scope_of (obs_provenance (ev_observation e)));
          generation_current =
            (\<not> ec_has_generation ctx
             \<or> prov_generation (obs_provenance (ev_observation e)) = ec_current_generation ctx)
      in \<lparr>ee_evidence = e, ee_age = age, ee_freshness = fresh,
          ee_provisional_confidence = derive_confidence (ev_authority e) fresh CS_None complete,
          ee_scope_current = scope_current, ee_generation_current = generation_current,
          ee_eligible = (fresh = Fr_Fresh \<and> scope_current \<and> generation_current),
          ee_historical = (\<not> generation_current)\<rparr>)"

text \<open>The loop over the reversed history; the last argument is the number of rows already out.\<close>

fun contenders_loop ::
  "(evidence \<Rightarrow> evaluated_evidence) \<Rightarrow> nat \<Rightarrow> evidence list \<Rightarrow> source_id list \<Rightarrow> nat \<Rightarrow>
     evaluated_evidence list" where
  "contenders_loop ev bound [] seen out = []"
| "contenders_loop ev bound (e # es) seen out =
     (let source = prov_source (obs_provenance (ev_observation e)) in
      if source \<in> set seen then contenders_loop ev bound es seen out
      else ev e # (if Suc out \<ge> bound then []
                   else contenders_loop ev bound es (seen @ [source]) (Suc out)))"

definition contenders ::
  "evidence_store \<Rightarrow> link_id \<Rightarrow> metric_key \<Rightarrow> evaluation_context \<Rightarrow> evaluated_evidence list" where
  "contenders store link key ctx =
     (case om_get (es_slots store) (SlotKey link key) of
        None \<Rightarrow> []
      | Some s \<Rightarrow>
          contenders_loop
            (evaluate store (freshness_policy_for (es_policy store) (key_family key))
               (completeness_of store link key (ec_now ctx)) ctx)
            (unat (max_contenders_per_key (pol_limits (es_policy store))))
            (rev (sl_history s)) [] 0)"

definition slot_view_of :: "evidence_store \<Rightarrow> link_id \<Rightarrow> metric_key \<Rightarrow> time_point \<Rightarrow> slot_view option" where
  "slot_view_of store link key now =
     (case om_get (es_slots store) (SlotKey link key) of
        None \<Rightarrow> None
      | Some s \<Rightarrow>
          Some \<lparr>sv_key = sl_key s, sv_accepted = sl_accepted s, sv_fenced = sl_fenced s,
                sv_completeness = completeness_of store link key now,
                sv_retained = length (sl_history s), sv_last_gap_at = sl_last_gap_at s,
                sv_has_gap = sl_has_gap s\<rparr>)"

definition continuity_of ::
  "evidence_store \<Rightarrow> link_id \<Rightarrow> metric_key \<Rightarrow> source_id \<Rightarrow> counter_continuity option" where
  "continuity_of store link key source =
     (case om_get (es_slots store) (SlotKey link key) of
        None \<Rightarrow> None | Some s \<Rightarrow> om_get (sl_continuity s) source)"

definition stream_state_of :: "evidence_store \<Rightarrow> source_id \<Rightarrow> stream_state option" where
  "stream_state_of store source = om_get (es_streams store) source"

definition keys_for :: "evidence_store \<Rightarrow> link_id \<Rightarrow> metric_key list" where
  "keys_for store link =
     map (\<lambda>entry. sk_key (fst entry)) (filter (\<lambda>entry. sk_link (fst entry) = link) (es_slots store))"

definition links_with_evidence :: "evidence_store \<Rightarrow> link_id list" where
  "links_with_evidence store =
     fold (\<lambda>entry ls. if sk_link (fst entry) \<in> set ls then ls else ls @ [sk_link (fst entry)])
       (es_slots store) []"

definition evidence_count :: "evidence_store \<Rightarrow> link_id \<Rightarrow> nat" where
  "evidence_count store link =
     fold (\<lambda>entry n. if sk_link (fst entry) = link then n + length (sl_history (snd entry)) else n)
       (es_slots store) 0"

section \<open>Persistence\<close>

definition persist_slot :: "slot_key \<times> slot \<Rightarrow> persisted_slot" where
  "persist_slot entry =
     \<lparr>ps_slot = fst entry, ps_history = sl_history (snd entry),
      ps_continuity = sl_continuity (snd entry), ps_accepted = sl_accepted (snd entry),
      ps_fenced = sl_fenced (snd entry), ps_last_gap_at = sl_last_gap_at (snd entry),
      ps_has_gap = sl_has_gap (snd entry), ps_reset_count = sl_reset_count (snd entry),
      ps_wrap_count = sl_wrap_count (snd entry)\<rparr>"

definition persisted_slots :: "evidence_store \<Rightarrow> persisted_slot list" where
  "persisted_slots store = map persist_slot (es_slots store)"

definition persisted_streams :: "evidence_store \<Rightarrow> (source_id \<times> stream_state) list" where
  "persisted_streams store = map (\<lambda>entry. (fst entry, snd entry)) (es_streams store)"

definition restore_slot :: "evidence_store \<Rightarrow> persisted_slot \<Rightarrow> evidence_store \<times> status" where
  "restore_slot store ps =
     (if \<not> id_valid (sk_link (ps_slot ps))
      then (store, status_of SC_CorruptData ''persisted slot has no link identity'')
      else if length (ps_history ps) > unat (max_evidence_per_key (pol_limits (es_policy store)))
      then (store, status_of SC_CapacityExceeded ''persisted slot exceeds the evidence bound'')
      else if length (ps_continuity ps) > unat (max_sources (pol_limits (es_policy store)))
      then (store, status_of SC_CapacityExceeded ''persisted slot exceeds the source bound'')
      else if length (es_slots store) \<ge> slot_bound (es_policy store)
              \<and> om_get (es_slots store) (ps_slot ps) = None
      then (store, status_of SC_CapacityExceeded ''restored store exceeds the slot bound'')
      else
        (store\<lparr>es_slots :=
           om_put (ps_slot ps)
             \<lparr>sl_key = sk_key (ps_slot ps), sl_history = ps_history ps,
              sl_continuity = ps_continuity ps, sl_accepted = ps_accepted ps,
              sl_fenced = ps_fenced ps, sl_last_gap_at = ps_last_gap_at ps,
              sl_has_gap = ps_has_gap ps, sl_reset_count = ps_reset_count ps,
              sl_wrap_count = ps_wrap_count ps\<rparr> (es_slots store)\<rparr>, status_success))"

definition restore_stream :: "evidence_store \<Rightarrow> source_id \<times> stream_state \<Rightarrow> evidence_store \<times> status" where
  "restore_stream store entry =
     (if \<not> id_valid (fst entry)
      then (store, status_of SC_CorruptData ''persisted stream has no source identity'')
      else if length (ss_retired_scopes (snd entry)) > kMaxRetiredScopes
      then (store, status_of SC_CapacityExceeded ''persisted stream exceeds the retired scope bound'')
      else if length (es_streams store) \<ge> unat (max_sources (pol_limits (es_policy store)))
              \<and> om_get (es_streams store) (fst entry) = None
      then (store, status_of SC_CapacityExceeded ''restored store exceeds the source bound'')
      else (put_stream store (fst entry) (snd entry), status_success))"

definition restore_totals ::
  "evidence_store \<Rightarrow> u64 \<Rightarrow> u64 \<Rightarrow> u64 \<Rightarrow> u64 \<Rightarrow> u64 \<Rightarrow> u64 \<Rightarrow> evidence_store" where
  "restore_totals store accepted fenced duplicates gaps resets wraps =
     store\<lparr>es_total_accepted := accepted, es_total_fenced := fenced, es_duplicates := duplicates,
           es_revision_gaps := gaps, es_counter_resets := resets, es_counter_wraps := wraps\<rparr>"

definition clear_store :: "evidence_store \<Rightarrow> evidence_store" where
  "clear_store store =
     store\<lparr>es_slots := [], es_streams := [], es_total_accepted := 0, es_total_fenced := 0,
           es_duplicates := 0, es_revision_gaps := 0, es_counter_resets := 0, es_counter_wraps := 0,
           es_fence_counts := []\<rparr>"

section \<open>The branches of \<open>accept\<close>\<close>

text \<open>Whether the newest evidence of the slot outranks the observation.\<close>

definition downgraded :: "evidence_store \<Rightarrow> observation \<Rightarrow> source_record \<Rightarrow> bool" where
  "downgraded store o1 source \<longleftrightarrow>
     (case om_get (es_slots store) (SlotKey (obs_link o1) (obs_key o1)) of
        None \<Rightarrow> False
      | Some s \<Rightarrow> authority_downgrade (rev (sl_history s)) o1 (src_authority source))"

definition slots_full :: "evidence_store \<Rightarrow> observation \<Rightarrow> bool" where
  "slots_full store o1 \<longleftrightarrow>
     length (es_slots store) \<ge> slot_bound (es_policy store)
     \<and> om_get (es_slots store) (SlotKey (obs_link o1) (obs_key o1)) = None"

definition gap_stream :: "bool \<Rightarrow> stream_state \<Rightarrow> stream_state" where
  "gap_stream gap stream = (if gap then open_gap stream else stream)"

definition gap_store :: "bool \<Rightarrow> evidence_store \<Rightarrow> evidence_store" where
  "gap_store gap store =
     (if gap then store\<lparr>es_revision_gaps := es_revision_gaps store + 1\<rparr> else store)"

lemma accept_cases:
  obtains
    (guard) reason where "accept_guard store o1 ctx = Inl reason"
      "accept store o1 ctx now = (count_fence store reason, empty_accept\<lparr>ao_fence := reason\<rparr>)"
  | (scope) source reason where "accept_guard store o1 ctx = Inr source"
      "enter_scope (stream_for store (prov_source (obs_provenance o1))) (scope_of (obs_provenance o1)) = Inl reason"
      "accept store o1 ctx now =
         (count_fence (put_stream store (prov_source (obs_provenance o1))
            (fenced_stream (stream_for store (prov_source (obs_provenance o1))))) reason,
          empty_accept\<lparr>ao_fence := reason\<rparr>)"
  | (sequence) source stream1 changed reason dup where "accept_guard store o1 ctx = Inr source"
      "enter_scope (stream_for store (prov_source (obs_provenance o1))) (scope_of (obs_provenance o1)) = Inr (stream1, changed)"
      "check_sequence stream1 o1 = Inl (reason, dup)"
      "accept store o1 ctx now =
         (count_fence ((put_stream store (prov_source (obs_provenance o1)) (fenced_stream stream1))
            \<lparr>es_duplicates := es_duplicates store + (if dup then 1 else 0)\<rparr>) reason,
          empty_accept\<lparr>ao_scope_changed := changed, ao_duplicate := dup, ao_fence := reason\<rparr>)"
  | (downgrade) source stream1 changed gap where "accept_guard store o1 ctx = Inr source"
      "enter_scope (stream_for store (prov_source (obs_provenance o1))) (scope_of (obs_provenance o1)) = Inr (stream1, changed)"
      "check_sequence stream1 o1 = Inr gap" "downgraded store o1 source"
      "accept store o1 ctx now =
         (count_fence (put_stream (gap_store gap store) (prov_source (obs_provenance o1))
            (fenced_stream (gap_stream gap stream1))) FR_AuthorityDowngrade,
          empty_accept\<lparr>ao_scope_changed := changed, ao_revision_gap := gap, ao_fence := FR_AuthorityDowngrade\<rparr>)"
  | (full) source stream1 changed gap where "accept_guard store o1 ctx = Inr source"
      "enter_scope (stream_for store (prov_source (obs_provenance o1))) (scope_of (obs_provenance o1)) = Inr (stream1, changed)"
      "check_sequence stream1 o1 = Inr gap" "slots_full store o1"
      "accept store o1 ctx now =
         (count_fence (put_stream (gap_store gap store) (prov_source (obs_provenance o1))
            (gap_stream gap stream1)) FR_StoreFull,
          empty_accept\<lparr>ao_scope_changed := changed, ao_revision_gap := gap, ao_fence := FR_StoreFull\<rparr>)"
  | (recorded) source stream1 changed gap where "accept_guard store o1 ctx = Inr source"
      "enter_scope (stream_for store (prov_source (obs_provenance o1))) (scope_of (obs_provenance o1)) = Inr (stream1, changed)"
      "check_sequence stream1 o1 = Inr gap" "\<not> downgraded store o1 source" "\<not> slots_full store o1"
      "accept store o1 ctx now =
         record_evidence (gap_store gap store) o1 source (gap_stream gap stream1)
           (empty_accept\<lparr>ao_scope_changed := changed, ao_revision_gap := gap\<rparr>) now"
proof (cases "accept_guard store o1 ctx")
  case (Inl reason)
  then show ?thesis by (intro guard [of reason]) (simp_all add: accept_def)
next
  case source: (Inr source)
  let ?src = "prov_source (obs_provenance o1)"
  show ?thesis
  proof (cases "enter_scope (stream_for store ?src) (scope_of (obs_provenance o1))")
    case (Inl reason)
    with source show ?thesis by (intro scope [of source reason]) (simp_all add: accept_def Let_def)
  next
    case (Inr r)
    obtain stream1 changed where r: "r = (stream1, changed)" by (cases r)
    note es = Inr [unfolded r]
    show ?thesis
    proof (cases "check_sequence stream1 o1")
      case (Inl f)
      obtain reason dup where "f = (reason, dup)" by (cases f)
      with Inl source es show ?thesis
        by (intro sequence [of source stream1 changed reason dup])
          (auto simp: accept_def put_stream_def)
    next
      case seq: (Inr gap)
      consider "downgraded store o1 source"
        | "\<not> downgraded store o1 source" "slots_full store o1"
        | "\<not> downgraded store o1 source" "\<not> slots_full store o1" by blast
      then show ?thesis
      proof cases
        case 1
        with source es seq show ?thesis
          by (intro downgrade [of source stream1 changed gap])
            (auto simp: accept_def downgraded_def gap_store_def gap_stream_def)
      next
        case 2
        with source es seq show ?thesis
          by (intro full [of source stream1 changed gap])
            (auto simp: accept_def downgraded_def slots_full_def gap_store_def gap_stream_def)
      next
        case 3
        with source es seq show ?thesis
          by (intro recorded [of source stream1 changed gap])
            (auto simp: accept_def downgraded_def slots_full_def gap_store_def gap_stream_def)
      qed
    qed
  qed
qed

subsection \<open>What recording changes\<close>

lemma track_counter_frame:
  assumes "track_counter s store outcome o1 stream now = (s1, store1, outcome1)"
  shows "sl_key s1 = sl_key s" "sl_history s1 = sl_history s" "sl_accepted s1 = sl_accepted s"
    "es_policy store1 = es_policy store" "es_slots store1 = es_slots store"
    "es_streams store1 = es_streams store" "es_total_accepted store1 = es_total_accepted store"
    "es_total_fenced store1 = es_total_fenced store" "es_fence_counts store1 = es_fence_counts store"
    "es_duplicates store1 = es_duplicates store"
    "ao_fence outcome1 = ao_fence outcome" "ao_revision_gap outcome1 = ao_revision_gap outcome"
    "ao_scope_changed outcome1 = ao_scope_changed outcome" "ao_duplicate outcome1 = ao_duplicate outcome"
  using assms
  by (auto simp: track_counter_def Let_def mark_gap_def split: metric_payload.splits if_splits)

lemma track_counter_continuity:
  assumes "track_counter s store outcome o1 stream now = (s1, store1, outcome1)"
  shows "sl_continuity s1 =
    (case obs_payload o1 of
       CounterReading reading \<Rightarrow>
         if is_counter_family (key_family (obs_key o1))
         then om_put (prov_source (obs_provenance o1))
                (fst (observe_counter
                   (case om_get (sl_continuity s) (prov_source (obs_provenance o1)) of
                      Some c \<Rightarrow> c | None \<Rightarrow> empty_continuity)
                   (sample_of o1 reading stream)))
                (sl_continuity s)
         else sl_continuity s
     | _ \<Rightarrow> sl_continuity s)"
  using assms
  by (auto simp: track_counter_def Let_def mark_gap_def split: metric_payload.splits if_splits)

definition recorded_evidence :: "observation \<Rightarrow> source_record \<Rightarrow> time_point \<Rightarrow> evidence" where
  "recorded_evidence o1 source now =
     \<lparr>ev_observation = o1, ev_accepted_at = now, ev_authority = src_authority source,
      ev_provenance = src_provenance source\<rparr>"

definition recorded_stream :: "observation \<Rightarrow> stream_state \<Rightarrow> stream_state" where
  "recorded_stream o1 stream =
     stream\<lparr>ss_has_sequence := True, ss_last_sequence := prov_sequence (obs_provenance o1),
            ss_last_observation := obs_id o1, ss_accepted := ss_accepted stream + 1\<rparr>"

lemma record_evidence_eq:
  obtains s1 store1 outcome1 s3 where
    "track_counter (slot_for store (obs_link o1) (obs_key o1)) store outcome o1 stream now = (s1, store1, outcome1)"
    "sl_key s3 = sl_key s1"
    "sl_history s3 = trim_front (unat (max_evidence_per_key (pol_limits (es_policy store))))
        (sl_history s1 @ [recorded_evidence o1 source now])"
    "sl_continuity s3 = sl_continuity s1"
    "sl_accepted s3 = sl_accepted s1 + 1"
    "record_evidence store o1 source stream outcome now =
      (put_stream (store1\<lparr>es_slots := om_put (SlotKey (obs_link o1) (obs_key o1)) s3 (es_slots store1),
                          es_total_accepted := es_total_accepted store1 + 1\<rparr>)
         (prov_source (obs_provenance o1)) (recorded_stream o1 stream),
       outcome1\<lparr>ao_accepted := True\<rparr>)"
proof -
  obtain s1 store1 outcome1 where t:
    "track_counter (slot_for store (obs_link o1) (obs_key o1)) store outcome o1 stream now = (s1, store1, outcome1)"
    by (metis prod_cases3)
  let ?s2 = "if ao_revision_gap outcome then mark_gap now s1 else s1"
  let ?s3 = "?s2\<lparr>sl_history := trim_front (unat (max_evidence_per_key (pol_limits (es_policy store))))
        (sl_history ?s2 @ [recorded_evidence o1 source now]), sl_accepted := sl_accepted ?s2 + 1\<rparr>"
  show thesis
    by (rule that [OF t, of ?s3])
      (simp_all add: mark_gap_def record_evidence_def t Let_def recorded_evidence_def recorded_stream_def)
qed

text \<open>The effect of an accepted observation on slots, streams and totals.\<close>

lemma record_evidence_effect:
  assumes "record_evidence store o1 source stream outcome now = (store', outcome')"
  shows "ao_accepted outcome'" "ao_fence outcome' = ao_fence outcome"
    "es_policy store' = es_policy store"
    "es_total_accepted store' = es_total_accepted store + 1"
    "es_total_fenced store' = es_total_fenced store"
    "es_fence_counts store' = es_fence_counts store"
    "es_duplicates store' = es_duplicates store"
    "es_streams store' = om_put (prov_source (obs_provenance o1)) (recorded_stream o1 stream) (es_streams store)"
    "\<exists>s. es_slots store' = om_put (SlotKey (obs_link o1) (obs_key o1)) s (es_slots store)
       \<and> sl_history s = trim_front (unat (max_evidence_per_key (pol_limits (es_policy store))))
            (sl_history (slot_for store (obs_link o1) (obs_key o1)) @ [recorded_evidence o1 source now])"
  using assms
  by (cases rule: record_evidence_eq [of store o1 outcome stream now source];
      force simp: put_stream_def dest: track_counter_frame)+

lemma gap_store_frame [simp]:
  "es_policy (gap_store g store) = es_policy store" "es_slots (gap_store g store) = es_slots store"
  "es_streams (gap_store g store) = es_streams store"
  "es_total_accepted (gap_store g store) = es_total_accepted store"
  "es_total_fenced (gap_store g store) = es_total_fenced store"
  "es_fence_counts (gap_store g store) = es_fence_counts store"
  "es_duplicates (gap_store g store) = es_duplicates store"
  "slot_for (gap_store g store) = slot_for store"
  by (auto simp: gap_store_def slot_for_def fun_eq_iff)

lemma count_fence_frame [simp]:
  "es_policy (count_fence store r) = es_policy store" "es_slots (count_fence store r) = es_slots store"
  "es_streams (count_fence store r) = es_streams store"
  "es_total_accepted (count_fence store r) = es_total_accepted store"
  "es_total_fenced (count_fence store r) = es_total_fenced store + 1"
  "es_duplicates (count_fence store r) = es_duplicates store"
  by (simp_all add: count_fence_def)

lemma put_stream_frame [simp]:
  "es_policy (put_stream store i s) = es_policy store" "es_slots (put_stream store i s) = es_slots store"
  "es_streams (put_stream store i s) = om_put i s (es_streams store)"
  "es_total_accepted (put_stream store i s) = es_total_accepted store"
  "es_total_fenced (put_stream store i s) = es_total_fenced store"
  "es_fence_counts (put_stream store i s) = es_fence_counts store"
  "es_duplicates (put_stream store i s) = es_duplicates store"
  by (simp_all add: put_stream_def)

lemma fence_count_count_fence:
  "fence_count (count_fence store r) x = fence_count store x + (if x = r then 1 else 0)"
  by (simp add: fence_count_def count_fence_def)

lemma fence_stream_not_None: "fence_stream s c \<noteq> FR_None \<longleftrightarrow> c \<in> set (ss_retired_scopes s)"
  by (auto simp: fence_stream_def list_ex_iff)

lemma guard_reason_not_None: "accept_guard store o1 ctx = Inl r \<Longrightarrow> r \<noteq> FR_None"
  by (auto simp: accept_guard_def Let_def split: option.splits if_splits)

lemma enter_scope_reason_not_None: "enter_scope s c = Inl r \<Longrightarrow> r \<noteq> FR_None"
  by (auto simp: enter_scope_def Let_def split: if_splits)

lemma check_sequence_reason_not_None: "check_sequence s o1 = Inl (r, d) \<Longrightarrow> r \<noteq> FR_None"
  by (auto simp: check_sequence_def Let_def split: if_splits option.splits)

lemma empty_accept_simps [simp]: "\<not> ao_accepted empty_accept" "ao_fence empty_accept = FR_None"
  by (simp_all add: empty_accept_def)

lemma accept_policy [simp]: "es_policy (fst (accept store o1 ctx now)) = es_policy store"
proof (cases rule: accept_cases [of store o1 ctx now])
  case (recorded source stream1 changed gap)
  then show ?thesis
    using record_evidence_effect(3) [OF surjective_pairing] by simp
qed simp_all

text \<open>Exactly one of the two totals moves, and the outcome says which.\<close>

lemma accept_refused:
  assumes "\<not> ao_accepted (snd (accept store o1 ctx now))"
  shows "es_slots (fst (accept store o1 ctx now)) = es_slots store"
    "es_total_accepted (fst (accept store o1 ctx now)) = es_total_accepted store"
    "es_total_fenced (fst (accept store o1 ctx now)) = es_total_fenced store + 1"
    "ao_fence (snd (accept store o1 ctx now)) \<noteq> FR_None"
    "fence_count (fst (accept store o1 ctx now)) r =
       fence_count store r + (if r = ao_fence (snd (accept store o1 ctx now)) then 1 else 0)"
proof -
  have "\<exists>st r'. fst (accept store o1 ctx now) = count_fence st r'
      \<and> ao_fence (snd (accept store o1 ctx now)) = r' \<and> r' \<noteq> FR_None
      \<and> es_slots st = es_slots store \<and> es_total_accepted st = es_total_accepted store
      \<and> es_total_fenced st = es_total_fenced store \<and> es_fence_counts st = es_fence_counts store"
  proof (cases rule: accept_cases [of store o1 ctx now])
    case (recorded source stream1 changed gap)
    then show ?thesis
      using assms record_evidence_effect(1) [OF surjective_pairing] by simp
  qed (auto dest: guard_reason_not_None enter_scope_reason_not_None check_sequence_reason_not_None
        intro!: exI)
  then obtain st r' where r: "fst (accept store o1 ctx now) = count_fence st r'"
      "ao_fence (snd (accept store o1 ctx now)) = r'" "r' \<noteq> FR_None"
      "es_slots st = es_slots store" "es_total_accepted st = es_total_accepted store"
      "es_total_fenced st = es_total_fenced store" "es_fence_counts st = es_fence_counts store"
    by blast
  have "fence_count st x = fence_count store x" for x using r(7) by (simp add: fence_count_def)
  with r show "es_slots (fst (accept store o1 ctx now)) = es_slots store"
    "es_total_accepted (fst (accept store o1 ctx now)) = es_total_accepted store"
    "es_total_fenced (fst (accept store o1 ctx now)) = es_total_fenced store + 1"
    "ao_fence (snd (accept store o1 ctx now)) \<noteq> FR_None"
    "fence_count (fst (accept store o1 ctx now)) r =
       fence_count store r + (if r = ao_fence (snd (accept store o1 ctx now)) then 1 else 0)"
    by (simp_all add: fence_count_count_fence)
qed

lemma accept_acceptedE:
  assumes "ao_accepted (snd (accept store o1 ctx now))"
  obtains source stream1 changed gap where "accept_guard store o1 ctx = Inr source"
    "enter_scope (stream_for store (prov_source (obs_provenance o1))) (scope_of (obs_provenance o1)) = Inr (stream1, changed)"
    "check_sequence stream1 o1 = Inr gap" "\<not> downgraded store o1 source" "\<not> slots_full store o1"
    "accept store o1 ctx now =
       record_evidence (gap_store gap store) o1 source (gap_stream gap stream1)
         (empty_accept\<lparr>ao_scope_changed := changed, ao_revision_gap := gap\<rparr>) now"
  using assms by (cases rule: accept_cases [of store o1 ctx now]) auto

lemma accept_accepted:
  assumes "ao_accepted (snd (accept store o1 ctx now))"
  shows "es_total_accepted (fst (accept store o1 ctx now)) = es_total_accepted store + 1"
    "es_total_fenced (fst (accept store o1 ctx now)) = es_total_fenced store"
    "ao_fence (snd (accept store o1 ctx now)) = FR_None"
proof -
  obtain source stream1 changed gap where
    "accept store o1 ctx now =
       record_evidence (gap_store gap store) o1 source (gap_stream gap stream1)
         (empty_accept\<lparr>ao_scope_changed := changed, ao_revision_gap := gap\<rparr>) now"
    using assms by (rule accept_acceptedE)
  then have r: "record_evidence (gap_store gap store) o1 source (gap_stream gap stream1)
         (empty_accept\<lparr>ao_scope_changed := changed, ao_revision_gap := gap\<rparr>) now
      = (fst (accept store o1 ctx now), snd (accept store o1 ctx now))" by simp
  show "es_total_accepted (fst (accept store o1 ctx now)) = es_total_accepted store + 1"
    "es_total_fenced (fst (accept store o1 ctx now)) = es_total_fenced store"
    "ao_fence (snd (accept store o1 ctx now)) = FR_None"
    using record_evidence_effect(2,4,5) [OF r] by simp_all
qed

section \<open>Scopes as a supersession\<close>

definition scope_in_force :: "stream_state \<Rightarrow> sequence_scope option" where
  "scope_in_force s = (if ss_has_scope s then Some (ss_scope s) else None)"

definition enter_scope_state :: "sequence_scope \<Rightarrow> stream_state \<Rightarrow> stream_state" where
  "enter_scope_state c s = (case enter_scope s c of Inl r \<Rightarrow> s | Inr (s', changed) \<Rightarrow> s')"

lemma enter_scope_simps:
  "\<not> ss_has_scope s \<Longrightarrow>
     enter_scope s c = Inr (s\<lparr>ss_has_scope := True, ss_scope := c, ss_scope_changes := ss_scope_changes s + 1\<rparr>, True)"
  "ss_has_scope s \<Longrightarrow> ss_scope s = c \<Longrightarrow> enter_scope s c = Inr (s, False)"
  "ss_has_scope s \<Longrightarrow> ss_scope s \<noteq> c \<Longrightarrow> c \<in> set (ss_retired_scopes s) \<Longrightarrow>
     enter_scope s c = Inl (fence_stream s c)"
  "ss_has_scope s \<Longrightarrow> ss_scope s \<noteq> c \<Longrightarrow> c \<notin> set (ss_retired_scopes s) \<Longrightarrow>
     enter_scope s c =
       Inr (s\<lparr>ss_retired_scopes := retire kMaxRetiredScopes (ss_scope s) (ss_retired_scopes s),
              ss_scope := c, ss_has_sequence := False, ss_gap_open := False,
              ss_scope_changes := ss_scope_changes s + 1\<rparr>, True)"
  using fence_stream_not_None [of s c] by (auto simp: enter_scope_def Let_def retire_def)

interpretation scp: supersession scope_in_force ss_retired_scopes enter_scope_state kMaxRetiredScopes
  by unfold_locales
     (auto simp: scope_in_force_def enter_scope_state_def enter_scope_simps kMaxRetiredScopes_def
       split: if_splits)

lemma enter_scope_Inr: "enter_scope s c = Inr (s', changed) \<Longrightarrow> s' = enter_scope_state c s"
  by (simp add: enter_scope_state_def)

section \<open>The store invariant\<close>

definition stream_ok :: "source_id \<Rightarrow> stream_state \<Rightarrow> bool" where
  "stream_ok i s \<longleftrightarrow>
     id_valid i \<and> sane kMaxRetiredScopes (scope_in_force s) (ss_retired_scopes s)
     \<and> (ss_has_scope s \<longrightarrow> scope_source (ss_scope s) = i)
     \<and> (ss_has_sequence s \<longrightarrow> ss_has_scope s)"

definition continuity_ok :: "source_id \<Rightarrow> counter_continuity \<Rightarrow> bool" where
  "continuity_ok i c \<longleftrightarrow>
     cc_has_latest c \<and> reading_fits (smp_reading (cc_latest c))
     \<and> scope_source (smp_scope (cc_latest c)) = i
     \<and> (cc_has_previous c \<longrightarrow> reading_fits (smp_reading (cc_previous c)))"

definition evidence_ok :: "policy \<Rightarrow> slot_key \<Rightarrow> evidence \<Rightarrow> bool" where
  "evidence_ok p k e \<longleftrightarrow>
     obs_link (ev_observation e) = sk_link k \<and> obs_key (ev_observation e) = sk_key k
     \<and> status_ok (validate_observation (ev_observation e) p) \<and> ev_provenance e \<noteq> PC_Unknown"

definition slot_ok :: "policy \<Rightarrow> slot_key \<Rightarrow> slot \<Rightarrow> bool" where
  "slot_ok p k s \<longleftrightarrow>
     sl_key s = sk_key k \<and> id_valid (sk_link k)
     \<and> length (sl_history s) \<le> unat (max_evidence_per_key (pol_limits p))
     \<and> (\<forall>e \<in> set (sl_history s). evidence_ok p k e)
     \<and> om_wf (sl_continuity s)
     \<and> (\<forall>i c. om_get (sl_continuity s) i = Some c \<longrightarrow> continuity_ok i c)"

text \<open>Every source that left evidence or a counter sample has a stream.\<close>

definition slot_sources_in :: "(source_id, stream_state) omap \<Rightarrow> slot \<Rightarrow> bool" where
  "slot_sources_in streams s \<longleftrightarrow>
     (\<forall>i. om_get (sl_continuity s) i \<noteq> None \<longrightarrow> om_get streams i \<noteq> None)
     \<and> (\<forall>e \<in> set (sl_history s). om_get streams (prov_source (obs_provenance (ev_observation e))) \<noteq> None)"

definition store_wf :: "evidence_store \<Rightarrow> bool" where
  "store_wf store \<longleftrightarrow>
     om_wf (es_slots store) \<and> om_wf (es_streams store) \<and> om_wf (es_fence_counts store)
     \<and> length (es_slots store) \<le> slot_bound (es_policy store)
     \<and> (\<forall>k s. om_get (es_slots store) k = Some s \<longrightarrow>
          slot_ok (es_policy store) k s \<and> slot_sources_in (es_streams store) s)
     \<and> (\<forall>i s. om_get (es_streams store) i = Some s \<longrightarrow> stream_ok i s)"

lemma store_wf_empty [simp]: "store_wf (empty_store p)"
  by (simp add: store_wf_def empty_store_def)

lemma stream_ok_empty: "id_valid i \<Longrightarrow> stream_ok i empty_stream"
  by (simp add: stream_ok_def empty_stream_def scope_in_force_def)

lemma stream_ok_for: "store_wf store \<Longrightarrow> id_valid i \<Longrightarrow> stream_ok i (stream_for store i)"
  by (auto simp: stream_for_def store_wf_def stream_ok_empty split: option.splits)

lemma stream_ok_enter:
  assumes "stream_ok i s" and "scope_source c = i"
  shows "stream_ok i (enter_scope_state c s)"
proof -
  have "sane kMaxRetiredScopes (scope_in_force (enter_scope_state c s)) (ss_retired_scopes (enter_scope_state c s))"
    using assms by (intro scp.enter_sane) (simp add: stream_ok_def)
  moreover have "ss_has_scope (enter_scope_state c s) \<longrightarrow> scope_source (ss_scope (enter_scope_state c s)) = i"
    and "ss_has_sequence (enter_scope_state c s) \<longrightarrow> ss_has_scope (enter_scope_state c s)"
    using assms by (auto simp: enter_scope_state_def enter_scope_def stream_ok_def Let_def)
  ultimately show ?thesis using assms by (simp add: stream_ok_def)
qed

lemma stream_ok_variants:
  "stream_ok i s \<Longrightarrow> stream_ok i (fenced_stream s)"
  "stream_ok i s \<Longrightarrow> stream_ok i (gap_stream g s)"
  "stream_ok i s \<Longrightarrow> ss_has_scope s \<Longrightarrow> stream_ok i (recorded_stream o1 s)"
  by (auto simp: stream_ok_def fenced_stream_def gap_stream_def open_gap_def recorded_stream_def scope_in_force_def)

lemma store_wf_put_stream:
  "store_wf store \<Longrightarrow> stream_ok i s \<Longrightarrow> store_wf (put_stream store i s)"
  unfolding store_wf_def slot_sources_in_def by (simp add: om_get_put)

lemma store_wf_count_fence: "store_wf store \<Longrightarrow> store_wf (count_fence store r)"
  by (simp add: store_wf_def count_fence_def)

lemma store_wf_gap: "store_wf store \<Longrightarrow> store_wf (gap_store g store)"
  by (simp add: store_wf_def)

lemma store_wf_duplicates: "store_wf store \<Longrightarrow> store_wf (store\<lparr>es_duplicates := d\<rparr>)"
  by (simp add: store_wf_def)

lemma accept_guard_InrD:
  assumes "accept_guard store o1 ctx = Inr source"
  shows "ac_source ctx = Some source" "status_ok (validate_observation o1 (es_policy store))"
    "id_valid (obs_link o1)" "id_valid (prov_source (obs_provenance o1))"
    "src_provenance source \<noteq> PC_Unknown" "src_registered source" "\<not> src_retired source"
    "id_valid (ac_current_generation ctx) \<longrightarrow>
       prov_generation (obs_provenance o1) = ac_current_generation ctx"
  using assms validate_observation_ids [of o1 "es_policy store"]
  by (auto simp: accept_guard_def Let_def split: option.splits if_splits)

lemma accept_guard_gap: "accept_guard (gap_store g store) o1 ctx = accept_guard store o1 ctx"
  by (simp add: accept_guard_def Let_def split: option.split)

lemma scope_of_source [simp]: "scope_source (scope_of p) = prov_source p"
  by (simp add: scope_of_def)

lemma slot_for_ok:
  assumes "store_wf store" and "id_valid l"
  shows "slot_ok (es_policy store) (SlotKey l k) (slot_for store l k)"
    "slot_sources_in (es_streams store) (slot_for store l k)"
  using assms by (auto simp: slot_for_def store_wf_def slot_ok_def slot_sources_in_def split: option.splits)

lemma continuity_ok_observe:
  assumes "c = empty_continuity \<or> continuity_ok i c"
    and "reading_fits (smp_reading x)" and "scope_source (smp_scope x) = i"
  shows "continuity_ok i (fst (observe_counter c x))"
  using assms observe_counter_latest [of c x]
  by (auto simp: continuity_ok_def empty_continuity_def)

lemma track_counter_ok:
  assumes "track_counter s store outcome o1 stream now = (s1, store1, outcome1)"
    and "\<forall>i c. om_get (sl_continuity s) i = Some c \<longrightarrow> continuity_ok i c" and "om_wf (sl_continuity s)"
    and "status_ok (validate_observation o1 p)"
  shows "om_wf (sl_continuity s1)" "\<forall>i c. om_get (sl_continuity s1) i = Some c \<longrightarrow> continuity_ok i c"
    "om_get (sl_continuity s1) i \<noteq> None \<Longrightarrow> i = prov_source (obs_provenance o1) \<or> om_get (sl_continuity s) i \<noteq> None"
proof -
  have fits: "reading_fits r" if "obs_payload o1 = CounterReading r" for r
    using validate_observation_reading [OF assms(4)] that by (auto intro: validated_reading_fits)
  have obs: "continuity_ok (prov_source (obs_provenance o1))
      (fst (observe_counter (case om_get (sl_continuity s) (prov_source (obs_provenance o1)) of
                      Some c \<Rightarrow> c | None \<Rightarrow> empty_continuity) (sample_of o1 r stream)))"
    if "obs_payload o1 = CounterReading r" for r
    using assms(2) fits [OF that]
    by (intro continuity_ok_observe) (auto simp: sample_of_def split: option.splits)
  show "om_wf (sl_continuity s1)" "\<forall>i c. om_get (sl_continuity s1) i = Some c \<longrightarrow> continuity_ok i c"
    "om_get (sl_continuity s1) i \<noteq> None \<Longrightarrow> i = prov_source (obs_provenance o1) \<or> om_get (sl_continuity s) i \<noteq> None"
    using assms(2,3) obs unfolding track_counter_continuity [OF assms(1)]
    by (auto simp: om_get_put split: metric_payload.splits if_splits)
qed

lemma record_evidence_wf:
  assumes wf: "store_wf store" and guard: "accept_guard store o1 ctx = Inr source"
    and stream: "stream_ok (prov_source (obs_provenance o1)) stream" "ss_has_scope stream"
    and room: "\<not> slots_full store o1"
  shows "store_wf (fst (record_evidence store o1 source stream outcome now))"
proof (cases rule: record_evidence_eq [of store o1 outcome stream now source])
  case (1 s1 store1 outcome1 s3)
  note g = accept_guard_InrD [OF guard]
  let ?i = "prov_source (obs_provenance o1)" and ?k = "SlotKey (obs_link o1) (obs_key o1)"
  note frame = track_counter_frame [OF 1(1)]
  note ok = slot_for_ok [OF wf g(3), of "obs_key o1"]
  have cont: "\<forall>i c. om_get (sl_continuity (slot_for store (obs_link o1) (obs_key o1))) i = Some c \<longrightarrow> continuity_ok i c"
    and cwf: "om_wf (sl_continuity (slot_for store (obs_link o1) (obs_key o1)))"
    using ok(1) by (auto simp: slot_ok_def)
  note tc = track_counter_ok [OF 1(1) cont cwf g(2)]
  let ?n = "unat (max_evidence_per_key (pol_limits (es_policy store)))"
  have hist: "e \<in> set (sl_history (slot_for store (obs_link o1) (obs_key o1))) \<or> e = recorded_evidence o1 source now"
    if "e \<in> set (sl_history s3)" for e
    using that set_trim_front [of ?n "sl_history s1 @ [recorded_evidence o1 source now]"] frame(2)
    by (auto simp: 1(3))
  have new: "evidence_ok (es_policy store) ?k (recorded_evidence o1 source now)"
    using g by (simp add: evidence_ok_def recorded_evidence_def)
  have s3: "slot_ok (es_policy store) ?k s3"
    unfolding slot_ok_def
  proof (intro conjI ballI)
    show "sl_key s3 = sk_key ?k" using ok(1) by (simp add: slot_ok_def 1(2) frame(1))
    show "length (sl_history s3) \<le> ?n" by (simp add: 1(3))
    show "evidence_ok (es_policy store) ?k e" if "e \<in> set (sl_history s3)" for e
      using hist [OF that] new ok(1) by (auto simp: slot_ok_def)
    show "id_valid (sk_link ?k)" using g(3) by simp
    show "om_wf (sl_continuity s3)" using tc(1) by (simp only: 1(4))
    show "\<forall>i c. om_get (sl_continuity s3) i = Some c \<longrightarrow> continuity_ok i c"
      using tc(2) by (simp only: 1(4))
  qed
  let ?streams = "om_put ?i (recorded_stream o1 stream) (es_streams store)"
  have src: "slot_sources_in ?streams s3"
    unfolding slot_sources_in_def
  proof (intro conjI allI ballI impI)
    fix i
    assume "om_get (sl_continuity s3) i \<noteq> None"
    then show "om_get ?streams i \<noteq> None"
      using tc(3) [of i] ok(2) by (auto simp: slot_sources_in_def om_get_put 1(4))
  next
    fix e
    assume "e \<in> set (sl_history s3)"
    then show "om_get ?streams (prov_source (obs_provenance (ev_observation e))) \<noteq> None"
      using hist [of e] ok(2) by (auto simp: slot_sources_in_def om_get_put recorded_evidence_def)
  qed
  have grow: "slot_sources_in ?streams s" if "slot_sources_in (es_streams store) s" for s
    using that by (auto simp: slot_sources_in_def om_get_put)
  have len: "length (om_put ?k s3 (es_slots store)) \<le> slot_bound (es_policy store)"
    using wf room by (intro om.bounded_put) (auto simp: store_wf_def slots_full_def)
  show ?thesis
    using wf s3 src grow len stream_ok_variants(3) [OF stream, of o1]
    by (simp add: store_wf_def 1(6) frame om_get_put)
qed

lemma enter_scope_has_scope: "enter_scope s c = Inr (s', ch) \<Longrightarrow> ss_has_scope s' \<and> ss_scope s' = c"
  by (auto simp: enter_scope_def Let_def split: if_splits)

lemma accept_wf:
  assumes "store_wf store"
  shows "store_wf (fst (accept store o1 ctx now))"
proof -
  let ?i = "prov_source (obs_provenance o1)"
  have base: "stream_ok ?i (stream_for store ?i)" if "accept_guard store o1 ctx = Inr source" for source
    using assms accept_guard_InrD(4) [OF that] by (rule stream_ok_for)
  have entered: "stream_ok ?i s1" if "accept_guard store o1 ctx = Inr source"
      "enter_scope (stream_for store ?i) (scope_of (obs_provenance o1)) = Inr (s1, ch)" for source s1 ch
    unfolding enter_scope_Inr [OF that(2)] using base [OF that(1)] by (intro stream_ok_enter) simp_all
  show ?thesis
  proof (cases rule: accept_cases [of store o1 ctx now])
    case (guard reason)
    with assms show ?thesis by (simp add: store_wf_count_fence)
  next
    case (scope source reason)
    with assms base show ?thesis
      by (simp add: store_wf_count_fence store_wf_put_stream stream_ok_variants)
  next
    case (sequence source stream1 changed reason dup)
    with assms entered show ?thesis
      by (simp add: store_wf_count_fence store_wf_put_stream stream_ok_variants store_wf_duplicates)
  next
    case (downgrade source stream1 changed gap)
    with assms entered show ?thesis
      by (simp add: store_wf_count_fence store_wf_put_stream stream_ok_variants store_wf_gap)
  next
    case (full source stream1 changed gap)
    with assms entered show ?thesis
      by (simp add: store_wf_count_fence store_wf_put_stream stream_ok_variants store_wf_gap)
  next
    case (recorded source stream1 changed gap)
    have "accept_guard (gap_store gap store) o1 ctx = Inr source"
      using recorded(1) by (simp add: accept_guard_gap)
    moreover have "ss_has_scope (gap_stream gap stream1)"
      using enter_scope_has_scope [OF recorded(2)] by (simp add: gap_stream_def open_gap_def)
    ultimately show ?thesis
      using recorded assms entered
      by (simp add: record_evidence_wf store_wf_gap stream_ok_variants slots_full_def)
  qed
qed

section \<open>No replay\<close>

text \<open>The part of a stream the fences read.\<close>

definition stream_core ::
  "stream_state \<Rightarrow> bool \<times> sequence_scope \<times> bool \<times> u64 \<times> sequence_scope list" where
  "stream_core s =
     (ss_has_scope s, ss_scope s, ss_has_sequence s, ss_last_sequence s, ss_retired_scopes s)"

lemma stream_core_variants [simp]:
  "stream_core (fenced_stream s) = stream_core s" "stream_core (gap_stream g s) = stream_core s"
  "stream_core (recorded_stream o1 (gap_stream g s)) = stream_core (recorded_stream o1 s)"
  by (auto simp: stream_core_def fenced_stream_def gap_stream_def open_gap_def recorded_stream_def)

lemma stream_for_put [simp]:
  "stream_for (put_stream store i s) j = (if j = i then s else stream_for store j)"
  "stream_for (count_fence store r) j = stream_for store j"
  "stream_for (gap_store g store) j = stream_for store j"
  "stream_for (store\<lparr>es_duplicates := d\<rparr>) j = stream_for store j"
  by (simp_all add: stream_for_def)

lemma accept_stream_cases:
  obtains
    (kept) "stream_core (stream_for (fst (accept store o1 ctx now)) i) = stream_core (stream_for store i)"
      "i = prov_source (obs_provenance o1) \<Longrightarrow> \<not> ao_accepted (snd (accept store o1 ctx now))"
  | (entered) s1 ch where "i = prov_source (obs_provenance o1)"
      "enter_scope (stream_for store i) (scope_of (obs_provenance o1)) = Inr (s1, ch)"
      "stream_core (stream_for (fst (accept store o1 ctx now)) i) = stream_core s1"
      "\<not> ao_accepted (snd (accept store o1 ctx now))"
  | (advanced) s1 ch gap where "i = prov_source (obs_provenance o1)"
      "enter_scope (stream_for store i) (scope_of (obs_provenance o1)) = Inr (s1, ch)"
      "check_sequence s1 o1 = Inr gap"
      "stream_core (stream_for (fst (accept store o1 ctx now)) i) = stream_core (recorded_stream o1 s1)"
proof (cases rule: accept_cases [of store o1 ctx now])
  case (guard reason)
  then show ?thesis by (intro kept) simp_all
next
  case (scope source reason)
  then show ?thesis by (intro kept) auto
next
  case (sequence source stream1 changed reason dup)
  then show ?thesis
    by (cases "i = prov_source (obs_provenance o1)") (auto intro: kept entered [of stream1 changed])
next
  case (downgrade source stream1 changed gap)
  then show ?thesis
    by (cases "i = prov_source (obs_provenance o1)") (auto intro: kept entered [of stream1 changed])
next
  case (full source stream1 changed gap)
  then show ?thesis
    by (cases "i = prov_source (obs_provenance o1)") (auto intro: kept entered [of stream1 changed])
next
  case (recorded source stream1 changed gap)
  have streams: "es_streams (fst (accept store o1 ctx now)) =
      om_put (prov_source (obs_provenance o1)) (recorded_stream o1 (gap_stream gap stream1)) (es_streams store)"
    using record_evidence_effect(8) [OF surjective_pairing] recorded(6) by simp
  show ?thesis
  proof (cases "i = prov_source (obs_provenance o1)")
    case True
    with recorded streams show ?thesis
      by (intro advanced [of stream1 changed gap]) (simp_all add: stream_for_def)
  next
    case False
    with streams show ?thesis by (intro kept) (simp_all add: stream_for_def)
  qed
qed

text \<open>
  A revision \<open>q\<close> of the scope \<open>c\<close> is covered: either the scope is in force and has reached
  \<open>q\<close>, or it is superseded with fewer than \<open>n\<close> scopes superseded after it.
\<close>

definition covers :: "nat \<Rightarrow> sequence_scope \<Rightarrow> u64 \<Rightarrow> stream_state \<Rightarrow> bool" where
  "covers n c q s \<longleftrightarrow>
     ss_has_scope s
     \<and> (if ss_scope s = c then ss_has_sequence s \<and> q \<le> ss_last_sequence s
        else \<exists>xs ys. ss_retired_scopes s = xs @ c # ys \<and> length ys < n)"

lemma covers_core: "stream_core s = stream_core s' \<Longrightarrow> covers n c q s \<longleftrightarrow> covers n c q s'"
  by (simp add: covers_def stream_core_def)

lemma check_sequence_advances:
  "check_sequence s o1 = Inr gap \<Longrightarrow> ss_has_sequence s \<Longrightarrow>
     ss_last_sequence s < prov_sequence (obs_provenance o1)"
  by (auto simp: check_sequence_def Let_def split: if_splits option.splits)

lemma retire_keeps_suffix:
  assumes "length ys + 2 \<le> n"
  shows "\<exists>xs'. retire n x (xs @ c # ys) = xs' @ c # (ys @ [x])"
proof -
  let ?k = "length xs + length ys + 2 - n"
  have "?k \<le> length xs" using assms by simp
  then have "retire n x (xs @ c # ys) = drop ?k xs @ c # (ys @ [x])"
    by (simp add: retire_def trim_front_drop)
  then show ?thesis by blast
qed

lemma covers_enter:
  assumes "covers n c q s" and "enter_scope s d = Inr (s1, ch)" and "d \<noteq> c \<Longrightarrow> n < kMaxRetiredScopes"
  shows "covers (if d = c then n else Suc n) c q s1"
proof (cases "d = ss_scope s")
  case True
  with assms have "s1 = s" by (simp add: covers_def enter_scope_simps)
  then show ?thesis using assms(1) True by (force simp: covers_def)
next
  case False
  have has: "ss_has_scope s" using assms(1) by (simp add: covers_def)
  have notin: "d \<notin> set (ss_retired_scopes s)"
    using assms(2) False has by (auto simp: enter_scope_simps)
  have s1: "s1 = s\<lparr>ss_retired_scopes := retire kMaxRetiredScopes (ss_scope s) (ss_retired_scopes s),
              ss_scope := d, ss_has_sequence := False, ss_gap_open := False,
              ss_scope_changes := ss_scope_changes s + 1\<rparr>"
    using assms(2) False has notin by (simp add: enter_scope_simps)
  have dc: "d \<noteq> c" using assms(1) False notin by (auto simp: covers_def split: if_splits)
  show ?thesis
  proof (cases "ss_scope s = c")
    case True
    have "\<exists>xs. retire kMaxRetiredScopes c (ss_retired_scopes s) = xs @ [c]"
      by (simp add: retire_def trim_front_snoc kMaxRetiredScopes_def)
    with True dc s1 show ?thesis by (force simp: covers_def has)
  next
    case sc: False
    then obtain xs ys where ret: "ss_retired_scopes s = xs @ c # ys" and len: "length ys < n"
      using assms(1) by (auto simp: covers_def)
    obtain xs' where "retire kMaxRetiredScopes (ss_scope s) (xs @ c # ys) = xs' @ c # (ys @ [ss_scope s])"
      using retire_keeps_suffix [of ys kMaxRetiredScopes] len assms(3) [OF dc] by fastforce
    with ret len dc s1 has show ?thesis by (force simp: covers_def)
  qed
qed

lemma covers_recorded:
  assumes "covers n c q s" and "check_sequence s o1 = Inr gap"
  shows "covers n c q (recorded_stream o1 s)"
  using assms check_sequence_advances [OF assms(2)]
  by (force simp: covers_def recorded_stream_def split: if_splits)

lemma covers_accept:
  assumes "covers n c q (stream_for store (scope_source c))"
    and "scope_of (obs_provenance o1) \<noteq> c \<Longrightarrow> prov_source (obs_provenance o1) = scope_source c \<Longrightarrow> n < kMaxRetiredScopes"
  shows "covers (if prov_source (obs_provenance o1) = scope_source c \<and> scope_of (obs_provenance o1) \<noteq> c then Suc n else n)
           c q (stream_for (fst (accept store o1 ctx now)) (scope_source c))"
proof -
  have mono: "covers (Suc n) c q s" if "covers n c q s" for s
    using that by (force simp: covers_def split: if_splits)
  show ?thesis
  proof (cases rule: accept_stream_cases [of store o1 ctx now "scope_source c"])
    case kept
    show ?thesis using assms(1) mono unfolding covers_core [OF kept(1)] by simp
  next
    case (entered s1 ch)
    have "covers (if scope_of (obs_provenance o1) = c then n else Suc n) c q s1"
      by (rule covers_enter [OF assms(1) entered(2) assms(2) [OF _ entered(1) [symmetric]]])
    then show ?thesis unfolding covers_core [OF entered(3)] entered(1) [symmetric] by (simp split: if_splits)
  next
    case (advanced s1 ch gap)
    have "covers (if scope_of (obs_provenance o1) = c then n else Suc n) c q s1"
      by (rule covers_enter [OF assms(1) advanced(2) assms(2) [OF _ advanced(1) [symmetric]]])
    from covers_recorded [OF this advanced(3)] show ?thesis
      unfolding covers_core [OF advanced(4)] advanced(1) [symmetric] by (simp split: if_splits)
  qed
qed

lemma covers_refuses:
  assumes "covers n c q (stream_for store (scope_source c))"
    and "scope_of (obs_provenance o1) = c" and "prov_sequence (obs_provenance o1) \<le> q"
  shows "\<not> ao_accepted (snd (accept store o1 ctx now))"
proof (cases rule: accept_stream_cases [of store o1 ctx now "scope_source c"])
  case (advanced s1 ch gap)
  have "s1 = stream_for store (scope_source c) \<and> ss_has_sequence s1 \<and> q \<le> ss_last_sequence s1"
    using assms(1,2) advanced(2) by (auto simp: covers_def enter_scope_simps split: if_splits)
  then show ?thesis using check_sequence_advances [OF advanced(3)] assms(3) by auto
qed (use assms(2) in auto)

text \<open>Sequences of submissions.\<close>

definition submit_all ::
  "evidence_store \<Rightarrow> (observation \<times> accept_context \<times> time_point) list \<Rightarrow> evidence_store" where
  "submit_all store subs = fold (\<lambda>(o1, ctx, now) st. fst (accept st o1 ctx now)) subs store"

text \<open>How many of them come from the source of a scope but under another scope.\<close>

definition foreign_scopes ::
  "sequence_scope \<Rightarrow> (observation \<times> accept_context \<times> time_point) list \<Rightarrow> nat" where
  "foreign_scopes c subs =
     length (filter (\<lambda>(o1, ctx, now). prov_source (obs_provenance o1) = scope_source c
                                       \<and> scope_of (obs_provenance o1) \<noteq> c) subs)"

lemma covers_submit_all:
  "covers n c q (stream_for store (scope_source c)) \<Longrightarrow> n + foreign_scopes c subs \<le> kMaxRetiredScopes \<Longrightarrow>
     covers (n + foreign_scopes c subs) c q (stream_for (submit_all store subs) (scope_source c))"
proof (induction subs arbitrary: n store)
  case (Cons x subs)
  obtain o1 ctx now where x: "x = (o1, ctx, now)" by (cases x)
  show ?case
  proof (cases "prov_source (obs_provenance o1) = scope_source c \<and> scope_of (obs_provenance o1) \<noteq> c")
    case True
    then have "covers (Suc n) c q (stream_for (fst (accept store o1 ctx now)) (scope_source c))"
      using covers_accept [OF Cons.prems(1), of o1 ctx now] Cons.prems(2) by (simp add: x foreign_scopes_def)
    from Cons.IH [OF this] Cons.prems(2) True show ?thesis by (simp add: x foreign_scopes_def submit_all_def)
  next
    case False
    then have "covers n c q (stream_for (fst (accept store o1 ctx now)) (scope_source c))"
      using covers_accept [OF Cons.prems(1), of o1 ctx now] by auto
    from Cons.IH [OF this] Cons.prems(2) False show ?thesis by (auto simp: x foreign_scopes_def submit_all_def)
  qed
qed (simp add: foreign_scopes_def submit_all_def)

lemma accepted_covers:
  assumes "ao_accepted (snd (accept store o1 ctx now))"
  shows "covers 0 (scope_of (obs_provenance o1)) (prov_sequence (obs_provenance o1))
           (stream_for (fst (accept store o1 ctx now)) (prov_source (obs_provenance o1)))"
proof (cases rule: accept_stream_cases [of store o1 ctx now "prov_source (obs_provenance o1)"])
  case (advanced s1 ch gap)
  have "covers 0 (scope_of (obs_provenance o1)) (prov_sequence (obs_provenance o1)) (recorded_stream o1 s1)"
    using enter_scope_has_scope [OF advanced(2)] by (simp add: covers_def recorded_stream_def)
  with covers_core [OF advanced(4)] show ?thesis by simp
qed (use assms in auto)

lemma no_replay_run:
  assumes "ao_accepted (snd (accept store o1 ctx now))"
    and "foreign_scopes (scope_of (obs_provenance o1)) subs \<le> kMaxRetiredScopes"
    and "scope_of (obs_provenance o2) = scope_of (obs_provenance o1)"
    and "prov_sequence (obs_provenance o2) \<le> prov_sequence (obs_provenance o1)"
  shows "\<not> ao_accepted (snd (accept (submit_all (fst (accept store o1 ctx now)) subs) o2 ctx2 now2))"
proof -
  let ?c = "scope_of (obs_provenance o1)"
  have "covers 0 ?c (prov_sequence (obs_provenance o1)) (stream_for (fst (accept store o1 ctx now)) (scope_source ?c))"
    using accepted_covers [OF assms(1)] by simp
  from covers_submit_all [OF this, of subs] assms(2)
  have "covers (foreign_scopes ?c subs) ?c (prov_sequence (obs_provenance o1))
      (stream_for (submit_all (fst (accept store o1 ctx now)) subs) (scope_source ?c))" by simp
  from covers_refuses [OF this assms(3,4)] show ?thesis .
qed

lemma submit_all_wf: "store_wf store \<Longrightarrow> store_wf (submit_all store subs)"
  by (induction subs arbitrary: store) (auto simp: submit_all_def accept_wf)

section \<open>Contenders\<close>

abbreviation evidence_source :: "evidence \<Rightarrow> source_id" where
  "evidence_source e \<equiv> prov_source (obs_provenance (ev_observation e))"

text \<open>The reference: the first evidence of each source, in list order.\<close>

primrec newest_per_source :: "evidence list \<Rightarrow> evidence list" where
  "newest_per_source [] = []"
| "newest_per_source (e # es) =
     e # filter (\<lambda>x. evidence_source x \<noteq> evidence_source e) (newest_per_source es)"

lemma contenders_loop_eq:
  "out < bound \<Longrightarrow>
     contenders_loop ev bound es seen out =
       map ev (take (bound - out) (filter (\<lambda>x. evidence_source x \<notin> set seen) (newest_per_source es)))"
proof (induction es arbitrary: seen out)
  case (Cons e es)
  show ?case
  proof (cases "evidence_source e \<in> set seen")
    case True
    have "filter (\<lambda>x. evidence_source x \<notin> set seen)
            (filter (\<lambda>x. evidence_source x \<noteq> evidence_source e) (newest_per_source es))
        = filter (\<lambda>x. evidence_source x \<notin> set seen) (newest_per_source es)"
      using True by (auto simp: filter_filter intro!: filter_cong)
    with True Cons show ?thesis by (simp add: Let_def)
  next
    case False
    have step: "bound - out = Suc (bound - Suc out)" using Cons.prems by simp
    have "filter (\<lambda>x. evidence_source x \<notin> set (seen @ [evidence_source e])) (newest_per_source es)
        = filter (\<lambda>x. evidence_source x \<notin> set seen)
            (filter (\<lambda>x. evidence_source x \<noteq> evidence_source e) (newest_per_source es))"
      by (auto simp: filter_filter intro!: filter_cong)
    with False Cons step show ?thesis
      by (cases "Suc out \<ge> bound") (simp_all add: Let_def)
  qed
qed simp

definition slot_history :: "evidence_store \<Rightarrow> link_id \<Rightarrow> metric_key \<Rightarrow> evidence list" where
  "slot_history store l k =
     (case om_get (es_slots store) (SlotKey l k) of None \<Rightarrow> [] | Some s \<Rightarrow> sl_history s)"

lemma contenders_eq:
  assumes "0 < max_contenders_per_key (pol_limits (es_policy store))"
  shows "contenders store l k ctx =
    map (evaluate store (freshness_policy_for (es_policy store) (key_family k))
           (completeness_of store l k (ec_now ctx)) ctx)
      (take (unat (max_contenders_per_key (pol_limits (es_policy store))))
         (newest_per_source (rev (slot_history store l k))))"
proof -
  have "0 < unat (max_contenders_per_key (pol_limits (es_policy store)))"
    using assms by (simp add: less_u64_iff)
  then show ?thesis
    by (simp add: contenders_def slot_history_def contenders_loop_eq split: option.splits)
qed

lemma newest_per_source_set: "set (newest_per_source es) \<subseteq> set es"
  by (induction es) auto

lemma newest_per_source_distinct: "distinct (map evidence_source (newest_per_source es))"
  by (induction es) (auto simp: distinct_map inj_on_def)

lemma newest_per_source_covers:
  "e \<in> set es \<Longrightarrow> \<exists>x \<in> set (newest_per_source es). evidence_source x = evidence_source e"
proof (induction es)
  case (Cons a es)
  then show ?case by (cases "evidence_source a = evidence_source e") force+
qed simp

lemma evaluate_simps [simp]:
  "ee_evidence (evaluate store fp c ctx e) = e"
  "ee_age (evaluate store fp c ctx e) = age_evidence e (ec_now ctx)"
  "ee_freshness (evaluate store fp c ctx e) = classify_freshness (age_evidence e (ec_now ctx)) fp"
  by (simp_all add: evaluate_def Let_def)

lemma evaluate_eligible:
  "ee_eligible (evaluate store fp c ctx e) \<longleftrightarrow>
     classify_freshness (age_evidence e (ec_now ctx)) fp = Fr_Fresh
     \<and> scope_in_force (stream_for store (evidence_source e)) = Some (scope_of (obs_provenance (ev_observation e)))
     \<and> (ec_has_generation ctx \<longrightarrow>
          prov_generation (obs_provenance (ev_observation e)) = ec_current_generation ctx)"
  by (auto simp: evaluate_def Let_def stream_for_def scope_in_force_def empty_stream_def
      split: option.splits if_splits)

section \<open>Saving and restoring\<close>

lemma restore_slot_persisted:
  assumes "slot_ok (es_policy store) k s"
    and "length (sl_continuity s) \<le> unat (max_sources (pol_limits (es_policy store)))"
    and "om_get (es_slots store) k = None \<Longrightarrow> length (es_slots store) < slot_bound (es_policy store)"
  shows "restore_slot store (persist_slot (k, s)) =
    (store\<lparr>es_slots := om_put k s (es_slots store)\<rparr>, status_success)"
  using assms
  by (cases s) (auto simp: restore_slot_def persist_slot_def slot_ok_def not_less leD)

interpretation slot_restore: restorable es_slots "\<lambda>m store. store\<lparr>es_slots := m\<rparr>"
    "\<lambda>store k s. slot_ok (es_policy store) k s
       \<and> length (sl_continuity s) \<le> unat (max_sources (pol_limits (es_policy store)))"
    "\<lambda>store. slot_bound (es_policy store)" persist_slot restore_slot
  by unfold_locales (simp_all add: restore_slot_persisted)

lemma restore_stream_persisted:
  assumes "stream_ok i s"
    and "om_get (es_streams store) i = None \<Longrightarrow>
           length (es_streams store) < unat (max_sources (pol_limits (es_policy store)))"
  shows "restore_stream store (i, s) =
    (store\<lparr>es_streams := om_put i s (es_streams store)\<rparr>, status_success)"
  using assms
  by (auto simp: restore_stream_def put_stream_def stream_ok_def sane_def not_less leD)

interpretation stream_restore: restorable es_streams "\<lambda>m store. store\<lparr>es_streams := m\<rparr>"
    "\<lambda>store. stream_ok" "\<lambda>store. unat (max_sources (pol_limits (es_policy store)))"
    "\<lambda>entry. (fst entry, snd entry)" restore_stream
  by unfold_locales (simp_all add: restore_stream_persisted)

lemma om_keys_length:
  assumes "om_wf m" and "om_wf m'" and "\<And>k. om_get m k \<noteq> None \<Longrightarrow> om_get m' k \<noteq> None"
  shows "length m \<le> length m'"
proof -
  have "fst ` set m \<subseteq> fst ` set m'" using assms(3) by (auto simp: om_get_None_iff)
  then have "card (set (map fst m)) \<le> card (set (map fst m'))" by (simp add: card_mono)
  then show ?thesis
    using om_wf_distinct [OF assms(1)] om_wf_distinct [OF assms(2)] by (simp add: distinct_card del: set_map)
qed

text \<open>
  With no more streams than sources allowed, emptying the store and restoring its persisted slots
  and streams gives it back.
\<close>

lemma restore_persisted_store:
  assumes wf: "store_wf store"
    and few: "length (es_streams store) \<le> unat (max_sources (pol_limits (es_policy store)))"
  shows "restore_all restore_slot (store\<lparr>es_slots := []\<rparr>) (persisted_slots store) = (store, status_success)"
    and "restore_all restore_stream (store\<lparr>es_streams := []\<rparr>) (persisted_streams store) = (store, status_success)"
proof -
  have "length (sl_continuity s) \<le> unat (max_sources (pol_limits (es_policy store)))"
    if "om_get (es_slots store) k = Some s" for k s
  proof -
    have "om_wf (sl_continuity s)" "om_wf (es_streams store)"
      and "\<And>i. om_get (sl_continuity s) i \<noteq> None \<Longrightarrow> om_get (es_streams store) i \<noteq> None"
      using wf that by (auto simp: store_wf_def slot_ok_def slot_sources_in_def)
    from om_keys_length [OF this] few show ?thesis by simp
  qed
  then show "restore_all restore_slot (store\<lparr>es_slots := []\<rparr>) (persisted_slots store) = (store, status_success)"
    unfolding persisted_slots_def
    using wf by (intro slot_restore.restore_round_trip) (auto simp: store_wf_def)
  show "restore_all restore_stream (store\<lparr>es_streams := []\<rparr>) (persisted_streams store) = (store, status_success)"
    unfolding persisted_streams_def
    using wf few by (intro stream_restore.restore_round_trip) (auto simp: store_wf_def)
qed

section \<open>Properties\<close>

text \<open>A store of one link, and an admissible observation of its operational state.\<close>

definition small_policy :: policy where
  "small_policy = make_default_policy\<lparr>pol_limits := default_limits\<lparr>max_links := 1\<rparr>\<rparr>"

definition example_source :: source_record where
  "example_source =
     \<lparr>src_id = StrongId (Hash128 0 1), src_name = ''collector'', src_authority = SA_Primary,
      src_provenance = PC_Real, src_registered = True, src_retired = False\<rparr>"

definition example_accept_context :: accept_context where
  "example_accept_context =
     \<lparr>ac_source = Some example_source, ac_current_generation = StrongId (Hash128 0 4),
      ac_family_enabled = True\<rparr>"

abbreviation example_observation :: observation where
  "example_observation \<equiv> ev_observation example_evidence"

definition example_store :: evidence_store where
  "example_store = fst (accept (empty_store small_policy) example_observation example_accept_context 1500)"

lemma example_accepted:
  "ao_accepted (snd (accept (empty_store small_policy) example_observation example_accept_context 1500))"
  by code_simp



text \<open>
  C7: a record that is refused leaves the evidence alone: no slot changes and the accepted total
  stays, the refusal carries a reason, and the fenced total and the counter of exactly that reason
  go up by one.
\<close>

theorem refused_record_leaves_evidence:
  assumes "\<not> ao_accepted (snd (accept store o1 ctx now))"
  shows "es_slots (fst (accept store o1 ctx now)) = es_slots store
    \<and> es_total_accepted (fst (accept store o1 ctx now)) = es_total_accepted store
    \<and> es_total_fenced (fst (accept store o1 ctx now)) = es_total_fenced store + 1
    \<and> ao_fence (snd (accept store o1 ctx now)) \<noteq> FR_None
    \<and> (\<forall>r. fence_count (fst (accept store o1 ctx now)) r =
         fence_count store r + (if r = ao_fence (snd (accept store o1 ctx now)) then 1 else 0))"
  using accept_refused [OF assms] by simp

theorem refused_record_leaves_evidence_witness:
  "es_slots (fst (accept example_store example_observation example_accept_context 1700)) = es_slots example_store"
proof -
  have "\<not> ao_accepted (snd (accept example_store example_observation example_accept_context 1700))" by code_simp
  from refused_record_leaves_evidence [OF this] show ?thesis by simp
qed

text \<open>
  A record is accepted only with every guarantee the code asks for: a registered source that is
  not retired and declared its provenance, an enabled family, a valid reading, and the generation
  in force when there is one. It then is the newest evidence of its link and key, with the
  authority and provenance of its source, and the accepted total goes up by one.
\<close>

lemma accepted_record_was_admissible:
  assumes "ao_accepted (snd (accept store o1 ctx now))"
    and "0 < max_evidence_per_key (pol_limits (es_policy store))"
  shows "\<exists>source. ac_source ctx = Some source \<and> src_registered source \<and> \<not> src_retired source
    \<and> src_provenance source \<noteq> PC_Unknown \<and> status_ok (validate_observation o1 (es_policy store))
    \<and> (id_valid (ac_current_generation ctx) \<longrightarrow> prov_generation (obs_provenance o1) = ac_current_generation ctx)
    \<and> last (slot_history (fst (accept store o1 ctx now)) (obs_link o1) (obs_key o1)) =
        \<lparr>ev_observation = o1, ev_accepted_at = now, ev_authority = src_authority source,
         ev_provenance = src_provenance source\<rparr>
    \<and> es_total_accepted (fst (accept store o1 ctx now)) = es_total_accepted store + 1
    \<and> es_total_fenced (fst (accept store o1 ctx now)) = es_total_fenced store"
  using assms(1)
proof (rule accept_acceptedE)
  fix source stream1 changed gap
  assume guard: "accept_guard store o1 ctx = Inr source"
    and eq: "accept store o1 ctx now =
       record_evidence (gap_store gap store) o1 source (gap_stream gap stream1)
         (empty_accept\<lparr>ao_scope_changed := changed, ao_revision_gap := gap\<rparr>) now"
  have pos: "0 < unat (max_evidence_per_key (pol_limits (es_policy store)))"
    using assms(2) by (simp add: less_u64_iff)
  have "\<exists>s. es_slots (fst (accept store o1 ctx now)) = om_put (SlotKey (obs_link o1) (obs_key o1)) s (es_slots store)
       \<and> last (sl_history s) = recorded_evidence o1 source now"
    unfolding eq using record_evidence_effect(9) [OF surjective_pairing, of "gap_store gap store" o1 source]
    by (fastforce simp: last_trim_front [OF pos])
  then have "last (slot_history (fst (accept store o1 ctx now)) (obs_link o1) (obs_key o1)) = recorded_evidence o1 source now"
    by (auto simp: slot_history_def)
  then show ?thesis
    using accept_guard_InrD [OF guard] accept_accepted [OF assms(1)]
    by (auto simp: recorded_evidence_def)
qed

text \<open>
  C8: every sequence of submissions leaves a store that is well formed: at most the policy's slots
  and at most its evidence per slot, every piece of evidence valid and filed under its own link and
  key, every counter sample within its width, the scope in force of a source never among its
  superseded ones. And the totals account for every submission exactly once.
\<close>

theorem store_always_wf:
  "store_wf (submit_all (empty_store p) subs)
   \<and> es_policy (submit_all (empty_store p) subs) = p
   \<and> es_total_accepted (submit_all (empty_store p) subs) + es_total_fenced (submit_all (empty_store p) subs)
       = of_nat (length subs)"
proof -
  have step: "es_total_accepted (fst (accept st o1 ctx now)) + es_total_fenced (fst (accept st o1 ctx now))
      = es_total_accepted st + es_total_fenced st + 1" for st o1 ctx now
    using accept_refused [of st o1 ctx now] accept_accepted [of st o1 ctx now]
    by (cases "ao_accepted (snd (accept st o1 ctx now))") (simp_all add: algebra_simps)
  have "es_policy (submit_all st subs) = es_policy st
      \<and> es_total_accepted (submit_all st subs) + es_total_fenced (submit_all st subs)
          = es_total_accepted st + es_total_fenced st + of_nat (length subs)" for st
    by (induction subs arbitrary: st) (auto simp: submit_all_def step algebra_simps)
  from this [of "empty_store p"] show ?thesis by (simp add: submit_all_wf) (simp add: empty_store_def)
qed

text \<open>
  C37: the contenders for a key are, in order of acceptance with the newest first, the newest
  evidence of each source and nothing else, up to the policy's bound. Each one is eligible exactly
  when it is fresh, its scope is the one in force for its source, and its generation is the one in
  force for the link.
\<close>

theorem contenders_are_newest_per_source:
  assumes "0 < max_contenders_per_key (pol_limits (es_policy store))"
    and "c = contenders store l k ctx"
  shows "map ee_evidence c =
      take (unat (max_contenders_per_key (pol_limits (es_policy store))))
        (newest_per_source (rev (slot_history store l k)))
    \<and> distinct (map (\<lambda>x. evidence_source (ee_evidence x)) c)
    \<and> (\<forall>x \<in> set c. ee_eligible x \<longleftrightarrow>
         classify_freshness (age_evidence (ee_evidence x) (ec_now ctx))
           (freshness_policy_for (es_policy store) (key_family k)) = Fr_Fresh
         \<and> scope_in_force (stream_for store (evidence_source (ee_evidence x)))
             = Some (scope_of (obs_provenance (ev_observation (ee_evidence x))))
         \<and> (ec_has_generation ctx \<longrightarrow>
              prov_generation (obs_provenance (ev_observation (ee_evidence x))) = ec_current_generation ctx))"
proof -
  let ?ns = "take (unat (max_contenders_per_key (pol_limits (es_policy store))))
      (newest_per_source (rev (slot_history store l k)))"
  have "distinct (map evidence_source ?ns)"
    using newest_per_source_distinct by (metis distinct_take take_map)
  then show ?thesis
    unfolding assms(2) contenders_eq [OF assms(1)] by (auto simp: o_def evaluate_eligible)
qed

theorem contenders_are_newest_per_source_witness:
  "map ee_evidence (contenders example_store (StrongId (Hash128 0 5)) (MetricKey MF_OperState Dir_Unknown EC_None)
     \<lparr>ec_now = 1600, ec_current_generation = StrongId (Hash128 0 4), ec_has_generation = True\<rparr>) = [example_evidence]"
proof -
  have "take (unat (max_contenders_per_key (pol_limits (es_policy example_store))))
      (newest_per_source (rev (slot_history example_store (StrongId (Hash128 0 5)) (MetricKey MF_OperState Dir_Unknown EC_None))))
      = [example_evidence]"
    by code_simp
  moreover have "0 < max_contenders_per_key (pol_limits (es_policy example_store))" by code_simp
  ultimately show ?thesis
    using contenders_are_newest_per_source [of example_store _ "StrongId (Hash128 0 5)"
        "MetricKey MF_OperState Dir_Unknown EC_None", OF _ refl] by simp
qed

end
