(* ===== verification/Snapshot_Codec.thy ===== *)
theory Snapshot_Codec
  imports Link_Registry Transition_Log Evidence_Store
begin

text \<open>
  The binary codec of snapshots (\<^verbatim>\<open>include/linkobs/persist/codec.hpp\<close>,
  \<^verbatim>\<open>src/persist/codec.cpp\<close>). The writer's buffer is the list of bytes appended; a reader is the
  list of bytes that remain, and decoding returns the value and the rest. When decoding fails, the
  error is the reader's status: a message when the reader itself failed, still a success when the
  bytes were there and a later check refused the value. The interface \<open>codec\<close> states the two laws
  every encoder and decoder pair must satisfy, and is interpreted on all of them.
\<close>

type_synonym bytes = "u8 list"
type_synonym 'a decoder = "bytes \<Rightarrow> ('a \<times> bytes) result"

section \<open>Writing bytes\<close>

definition kMaxStringField :: nat where "kMaxStringField = 256"
definition kMaxRetiredScopesBound :: nat where "kMaxRetiredScopesBound = 64"
definition kMaxEvidencePerSlotBound :: nat where "kMaxEvidencePerSlotBound = 1024"
definition kMaxSourcesBound :: nat where "kMaxSourcesBound = 4096"

definition put_u8 :: "u8 \<Rightarrow> bytes" where
  "put_u8 v = [v]"

definition put_u16 :: "16 word \<Rightarrow> bytes" where
  "put_u16 v = put_u8 (ucast (v AND 0xFF)) @ put_u8 (ucast (drop_bit 8 v AND 0xFF))"

definition put_u32 :: "u32 \<Rightarrow> bytes" where
  "put_u32 v = concat (map (\<lambda>shift. put_u8 (ucast (drop_bit shift v AND 0xFF))) [0, 8, 16, 24])"

definition put_u64 :: "u64 \<Rightarrow> bytes" where
  "put_u64 v =
     concat (map (\<lambda>shift. put_u8 (ucast (drop_bit shift v AND 0xFF))) [0, 8, 16, 24, 32, 40, 48, 56])"

definition put_i64 :: "i64 \<Rightarrow> bytes" where
  "put_i64 v = put_u64 (word_of_int v)"

definition put_bool :: "bool \<Rightarrow> bytes" where
  "put_bool v = put_u8 (if v then 1 else 0)"

definition put_raw :: "bytes \<Rightarrow> bytes" where
  "put_raw bs = bs"

definition put_bytes :: "string \<Rightarrow> bytes" where
  "put_bytes s = put_u64 (of_nat (length s)) @ put_raw (bytes_of s)"

definition put_count :: "nat \<Rightarrow> bytes" where
  "put_count n = put_u64 (of_nat n)"

section \<open>Reading bytes\<close>

definition dec_return :: "'a \<Rightarrow> 'a decoder" where
  "dec_return x bs = Inr (x, bs)"

definition dec_bind :: "'a decoder \<Rightarrow> ('a \<Rightarrow> 'b decoder) \<Rightarrow> 'b decoder" where
  "dec_bind d f bs = res_bind (d bs) (\<lambda>(x, rest). f x rest)"

text \<open>\<^verbatim>\<open>reader.fail(message)\<close>, and a check that fails without it.\<close>

definition reader_fail :: "string \<Rightarrow> 'a decoder" where
  "reader_fail message bs = failure SC_CorruptData message"

definition dec_refuse :: "'a decoder" where
  "dec_refuse bs = Inl status_success"

definition get_u8 :: "u8 decoder" where
  "get_u8 bs = (case bs of [] \<Rightarrow> reader_fail ''truncated byte'' bs | b # rest \<Rightarrow> Inr (b, rest))"

definition get_u16 :: "16 word decoder" where
  "get_u16 = dec_bind get_u8 (\<lambda>low. dec_bind get_u8 (\<lambda>high. dec_return (ucast low OR push_bit 8 (ucast high))))"

primrec get_u32_loop :: "nat list \<Rightarrow> u32 \<Rightarrow> u32 decoder" where
  "get_u32_loop [] v = dec_return v"
| "get_u32_loop (shift # shifts) v =
     dec_bind get_u8 (\<lambda>byte. get_u32_loop shifts (v OR push_bit shift (ucast byte)))"

definition get_u32 :: "u32 decoder" where
  "get_u32 = get_u32_loop [0, 8, 16, 24] 0"

primrec get_u64_loop :: "nat list \<Rightarrow> u64 \<Rightarrow> u64 decoder" where
  "get_u64_loop [] v = dec_return v"
| "get_u64_loop (shift # shifts) v =
     dec_bind get_u8 (\<lambda>byte. get_u64_loop shifts (v OR push_bit shift (ucast byte)))"

definition get_u64 :: "u64 decoder" where
  "get_u64 = get_u64_loop [0, 8, 16, 24, 32, 40, 48, 56] 0"

definition get_i64 :: "i64 decoder" where
  "get_i64 = dec_bind get_u64 (\<lambda>v. dec_return (sint v))"

definition get_bool :: "bool decoder" where
  "get_bool =
     dec_bind get_u8 (\<lambda>v. if v > 1 then reader_fail ''invalid boolean encoding'' else dec_return (v = 1))"

definition get_raw :: "nat \<Rightarrow> bytes decoder" where
  "get_raw n bs = (if n > length bs then reader_fail ''truncated payload'' bs else Inr (take n bs, drop n bs))"

definition string_of_bytes :: "bytes \<Rightarrow> string" where
  "string_of_bytes bs = map (\<lambda>b. char_of (unat b)) bs"

definition get_bytes :: "nat \<Rightarrow> string decoder" where
  "get_bytes max_size =
     dec_bind get_u64 (\<lambda>len bs.
       if unat len > max_size \<or> unat len > length bs then reader_fail ''string field exceeds its bound'' bs
       else if len > 0 then dec_bind (get_raw (unat len)) (\<lambda>raw. dec_return (string_of_bytes raw)) bs
       else dec_return [] bs)"

definition get_count :: "nat \<Rightarrow> nat decoder" where
  "get_count max_value =
     dec_bind get_u64 (\<lambda>v. if unat v > max_value then reader_fail ''collection exceeds its bound''
       else dec_return (unat v))"

text \<open>A loop that decodes \<open>n\<close> records.\<close>

primrec get_n :: "nat \<Rightarrow> 'a decoder \<Rightarrow> 'a list decoder" where
  "get_n 0 d = dec_return []"
| "get_n (Suc n) d = dec_bind d (\<lambda>x. dec_bind (get_n n d) (\<lambda>xs. dec_return (x # xs)))"

text \<open>
  \<^verbatim>\<open>static_cast\<close> of a checked byte to an enumeration, whose enumerators are numbered from zero
  without a gap: a byte past the last one is refused.
\<close>

definition enum_cast :: "('e \<Rightarrow> nat) \<Rightarrow> 'e list \<Rightarrow> u8 \<Rightarrow> 'e option" where
  "enum_cast code every b = find (\<lambda>e. code e = unat b) every"

definition dec_cast :: "'e option \<Rightarrow> 'e decoder" where
  "dec_cast r = (case r of None \<Rightarrow> dec_refuse | Some e \<Rightarrow> dec_return e)"

definition put_enum :: "('e \<Rightarrow> nat) \<Rightarrow> 'e \<Rightarrow> bytes" where
  "put_enum code e = put_u8 (of_nat (code e))"

section \<open>Domain encoders\<close>

definition every_metric_family :: "metric_family list" where
  "every_metric_family = [MF_AdminState, MF_OperState, MF_Octets, MF_Errors, MF_Discards, MF_UtilReported,
     MF_SignalQuality, MF_FlapReport]"

definition every_direction :: "direction list" where
  "every_direction = [Dir_Unknown, Dir_In, Dir_Out, Dir_Both]"

definition every_error_class :: "error_class list" where
  "every_error_class = [EC_None, EC_Total, EC_Crc, EC_Symbol, EC_Framing, EC_Encoding, EC_Congestion, EC_Other]"

definition every_source_authority :: "source_authority list" where
  "every_source_authority = [SA_Unknown, SA_Synthetic, SA_Derived, SA_Secondary, SA_Primary]"

definition every_provenance_class :: "provenance_class list" where
  "every_provenance_class = [PC_Unknown, PC_Real, PC_Synthetic, PC_Replayed]"

definition every_transition_kind :: "transition_kind list" where
  "every_transition_kind = [TK_LinkRegistered, TK_LinkRetired, TK_GenerationChanged, TK_AdminStateChanged,
     TK_OperStateChanged, TK_ClassificationChanged, TK_CounterReset, TK_CounterWrap, TK_SourceEpochChanged,
     TK_SourceIncarnationChanged, TK_RevisionGap, TK_StaleEvidence]"

definition every_link_kind :: "link_kind list" where
  "every_link_kind = [LK_Unknown, LK_Physical, LK_Logical, LK_Aggregate]"

definition every_discontinuity :: "counter_discontinuity list" where
  "every_discontinuity = [CD_None, CD_Reset, CD_Wrap]"

definition every_width :: "counter_width list" where
  "every_width = [CW_Bits32, CW_Bits64]"

definition every_admin_state :: "admin_state_value list" where
  "every_admin_state = [Admin_Unknown, Admin_Enabled, Admin_Disabled]"

definition every_oper_state :: "oper_state_value list" where
  "every_oper_state = [Oper_Unknown, Oper_Up, Oper_Down, Oper_Degraded]"

definition encode_hash :: "hash128 \<Rightarrow> bytes" where
  "encode_hash h = put_u64 (hash_hi h) @ put_u64 (hash_lo h)"

definition decode_hash :: "hash128 decoder" where
  "decode_hash = dec_bind get_u64 (\<lambda>hi. dec_bind get_u64 (\<lambda>lo. dec_return (Hash128 hi lo)))"

definition encode_id :: "'tag strong_id \<Rightarrow> bytes" where
  "encode_id i = encode_hash (id_hash i)"

definition decode_id :: "'tag strong_id decoder" where
  "decode_id = dec_bind decode_hash (\<lambda>h. dec_return (StrongId h))"

definition encode_sequence :: "u64 \<Rightarrow> bytes" where
  "encode_sequence v = put_u64 v"

definition decode_sequence :: "u64 decoder" where
  "decode_sequence = get_u64"

definition encode_time :: "time_point \<Rightarrow> bytes" where
  "encode_time t = put_i64 t"

definition decode_time :: "time_point decoder" where
  "decode_time = get_i64"

definition encode_duration :: "duration \<Rightarrow> bytes" where
  "encode_duration d = put_i64 d"

definition decode_duration :: "duration decoder" where
  "decode_duration = get_i64"

definition encode_scope :: "sequence_scope \<Rightarrow> bytes" where
  "encode_scope s = encode_id (scope_source s) @ encode_id (scope_incarnation s) @ encode_id (scope_epoch s)"

definition decode_scope :: "sequence_scope decoder" where
  "decode_scope =
     dec_bind decode_id (\<lambda>source. dec_bind decode_id (\<lambda>incarnation. dec_bind decode_id (\<lambda>epoch.
       dec_return \<lparr>scope_source = source, scope_incarnation = incarnation, scope_epoch = epoch\<rparr>)))"

definition encode_key :: "metric_key \<Rightarrow> bytes" where
  "encode_key k =
     put_enum metric_family_code (key_family k) @ put_enum direction_code (key_direction k)
     @ put_enum error_class_code (key_error_class k)"

definition decode_key :: "metric_key decoder" where
  "decode_key =
     dec_bind get_u8 (\<lambda>family. dec_bind get_u8 (\<lambda>direction. dec_bind get_u8 (\<lambda>error_class.
     dec_bind (dec_cast (enum_cast metric_family_code every_metric_family family)) (\<lambda>f.
     dec_bind (dec_cast (enum_cast direction_code every_direction direction)) (\<lambda>d.
     dec_bind (dec_cast (enum_cast error_class_code every_error_class error_class)) (\<lambda>e.
       dec_return (MetricKey f d e)))))))"

definition encode_counter_reading :: "counter_reading \<Rightarrow> bytes" where
  "encode_counter_reading c =
     put_u64 (cr_raw c) @ put_enum counter_width_code (cr_width c) @ put_bool (cr_reset_declared c)"

definition decode_counter_reading :: "counter_reading decoder" where
  "decode_counter_reading =
     dec_bind get_u64 (\<lambda>raw. dec_bind get_u8 (\<lambda>width.
     dec_bind (dec_cast (enum_cast counter_width_code every_width width)) (\<lambda>w.
     dec_bind get_bool (\<lambda>reset.
       dec_return \<lparr>cr_raw = raw, cr_width = w, cr_reset_declared = reset\<rparr>))))"

primrec encode_payload :: "metric_payload \<Rightarrow> bytes" where
  "encode_payload (AdminStateReading v) = put_u8 0 @ put_enum admin_state_code v"
| "encode_payload (OperStateReading v) = put_u8 1 @ put_enum oper_state_code v"
| "encode_payload (CounterReading c) =
     put_u8 2 @ put_u64 (cr_raw c) @ put_enum counter_width_code (cr_width c) @ put_bool (cr_reset_declared c)"
| "encode_payload (RatioReading ppb) = put_u8 3 @ put_u64 ppb"
| "encode_payload (QualityReading q) = put_u8 4 @ put_u64 (qr_value_ppb q) @ put_bool (qr_degraded_declared q)"
| "encode_payload (FlapReading f) = put_u8 5 @ put_u64 (fl_events f) @ encode_duration (fl_window f)"

definition decode_payload :: "metric_payload decoder" where
  "decode_payload =
     dec_bind get_u8 (\<lambda>alternative.
       if alternative = 0 then
         dec_bind get_u8 (\<lambda>v. dec_bind (dec_cast (enum_cast admin_state_code every_admin_state v))
           (\<lambda>a. dec_return (AdminStateReading a)))
       else if alternative = 1 then
         dec_bind get_u8 (\<lambda>v. dec_bind (dec_cast (enum_cast oper_state_code every_oper_state v))
           (\<lambda>a. dec_return (OperStateReading a)))
       else if alternative = 2 then
         dec_bind get_u64 (\<lambda>raw. dec_bind get_u8 (\<lambda>width.
         dec_bind (dec_cast (enum_cast counter_width_code every_width width)) (\<lambda>w.
         dec_bind get_bool (\<lambda>reset.
           dec_return (CounterReading \<lparr>cr_raw = raw, cr_width = w, cr_reset_declared = reset\<rparr>)))))
       else if alternative = 3 then dec_bind get_u64 (\<lambda>ppb. dec_return (RatioReading ppb))
       else if alternative = 4 then
         dec_bind get_u64 (\<lambda>ppb. dec_bind get_bool (\<lambda>degraded.
           dec_return (QualityReading \<lparr>qr_value_ppb = ppb, qr_degraded_declared = degraded\<rparr>)))
       else if alternative = 5 then
         dec_bind get_u64 (\<lambda>events. dec_bind decode_duration (\<lambda>window.
           dec_return (FlapReading \<lparr>fl_events = events, fl_window = window\<rparr>)))
       else dec_refuse)"

definition encode_provenance :: "provenance \<Rightarrow> bytes" where
  "encode_provenance p =
     encode_id (prov_source p) @ encode_id (prov_incarnation p) @ encode_id (prov_epoch p)
     @ encode_id (prov_generation p) @ encode_sequence (prov_sequence p)"

definition decode_provenance :: "provenance decoder" where
  "decode_provenance =
     dec_bind decode_id (\<lambda>source. dec_bind decode_id (\<lambda>incarnation. dec_bind decode_id (\<lambda>epoch.
     dec_bind decode_id (\<lambda>generation. dec_bind decode_sequence (\<lambda>sequence.
       dec_return \<lparr>prov_source = source, prov_incarnation = incarnation, prov_epoch = epoch,
                   prov_generation = generation, prov_sequence = sequence\<rparr>)))))"

definition encode_observation :: "observation \<Rightarrow> bytes" where
  "encode_observation v =
     encode_id (obs_id v) @ encode_provenance (obs_provenance v) @ encode_id (obs_link v) @ encode_key (obs_key v)
     @ encode_payload (obs_payload v) @ encode_time (obs_observed_at v) @ encode_time (obs_received_at v)"

definition decode_observation :: "observation decoder" where
  "decode_observation =
     dec_bind decode_id (\<lambda>i. dec_bind decode_provenance (\<lambda>p. dec_bind decode_id (\<lambda>link. dec_bind decode_key (\<lambda>key.
     dec_bind decode_payload (\<lambda>payload. dec_bind decode_time (\<lambda>observed_at. dec_bind decode_time (\<lambda>received_at.
       dec_return \<lparr>obs_id = i, obs_provenance = p, obs_link = link, obs_key = key, obs_payload = payload,
                   obs_observed_at = observed_at, obs_received_at = received_at\<rparr>)))))))"

definition encode_evidence :: "evidence \<Rightarrow> bytes" where
  "encode_evidence v =
     encode_observation (ev_observation v) @ encode_time (ev_accepted_at v)
     @ put_enum source_authority_code (ev_authority v) @ put_enum provenance_class_code (ev_provenance v)"

definition decode_evidence :: "evidence decoder" where
  "decode_evidence =
     dec_bind decode_observation (\<lambda>obs. dec_bind decode_time (\<lambda>accepted_at.
     dec_bind get_u8 (\<lambda>authority. dec_bind get_u8 (\<lambda>provenance.
     dec_bind (dec_cast (enum_cast source_authority_code every_source_authority authority)) (\<lambda>a.
     dec_bind (dec_cast (enum_cast provenance_class_code every_provenance_class provenance)) (\<lambda>pc.
       dec_return \<lparr>ev_observation = obs, ev_accepted_at = accepted_at, ev_authority = a, ev_provenance = pc\<rparr>))))))"

definition encode_sample :: "counter_sample \<Rightarrow> bytes" where
  "encode_sample v =
     encode_counter_reading (smp_reading v) @ encode_time (smp_observed_at v) @ encode_time (smp_received_at v)
     @ encode_sequence (smp_sequence v) @ encode_scope (smp_scope v) @ encode_id (smp_generation v)
     @ put_u64 (smp_gap_epoch v)"

definition decode_sample :: "counter_sample decoder" where
  "decode_sample =
     dec_bind decode_counter_reading (\<lambda>reading. dec_bind decode_time (\<lambda>observed_at. dec_bind decode_time (\<lambda>received_at.
     dec_bind decode_sequence (\<lambda>sequence. dec_bind decode_scope (\<lambda>scope. dec_bind decode_id (\<lambda>generation.
     dec_bind get_u64 (\<lambda>gap_epoch.
       dec_return \<lparr>smp_reading = reading, smp_observed_at = observed_at, smp_received_at = received_at,
                   smp_sequence = sequence, smp_scope = scope, smp_generation = generation,
                   smp_gap_epoch = gap_epoch\<rparr>)))))))"

definition encode_continuity :: "counter_continuity \<Rightarrow> bytes" where
  "encode_continuity v =
     encode_sample (cc_latest v) @ encode_sample (cc_previous v) @ put_bool (cc_has_latest v)
     @ put_bool (cc_has_previous v) @ put_enum counter_discontinuity_code (cc_last_discontinuity v)
     @ put_u64 (cc_reset_count v) @ put_u64 (cc_wrap_count v) @ put_u64 (cc_gap_count v)"

definition decode_continuity :: "counter_continuity decoder" where
  "decode_continuity =
     dec_bind decode_sample (\<lambda>latest. dec_bind decode_sample (\<lambda>previous. dec_bind get_bool (\<lambda>has_latest.
     dec_bind get_bool (\<lambda>has_previous. dec_bind get_u8 (\<lambda>discontinuity.
     dec_bind (dec_cast (enum_cast counter_discontinuity_code every_discontinuity discontinuity)) (\<lambda>d.
     dec_bind get_u64 (\<lambda>resets. dec_bind get_u64 (\<lambda>wraps. dec_bind get_u64 (\<lambda>gaps.
       dec_return \<lparr>cc_latest = latest, cc_previous = previous, cc_has_latest = has_latest,
                   cc_has_previous = has_previous, cc_last_discontinuity = d, cc_reset_count = resets,
                   cc_wrap_count = wraps, cc_gap_count = gaps\<rparr>)))))))))"

definition encode_stream :: "stream_state \<Rightarrow> bytes" where
  "encode_stream v =
     put_bool (ss_has_scope v) @ encode_scope (ss_scope v) @ put_bool (ss_has_sequence v)
     @ encode_sequence (ss_last_sequence v) @ encode_id (ss_last_observation v) @ put_bool (ss_gap_open v)
     @ put_count (length (ss_retired_scopes v)) @ concat (map encode_scope (ss_retired_scopes v))
     @ put_u64 (ss_accepted v) @ put_u64 (ss_fenced v) @ put_u64 (ss_gap_count v) @ put_u64 (ss_scope_changes v)"

definition decode_stream :: "stream_state decoder" where
  "decode_stream =
     dec_bind get_bool (\<lambda>has_scope. dec_bind decode_scope (\<lambda>scope. dec_bind get_bool (\<lambda>has_sequence.
     dec_bind decode_sequence (\<lambda>last_sequence. dec_bind decode_id (\<lambda>last_observation. dec_bind get_bool (\<lambda>gap_open.
     dec_bind (get_count kMaxRetiredScopesBound) (\<lambda>retired. dec_bind (get_n retired decode_scope) (\<lambda>scopes.
     dec_bind get_u64 (\<lambda>accepted. dec_bind get_u64 (\<lambda>fenced. dec_bind get_u64 (\<lambda>gaps. dec_bind get_u64 (\<lambda>changes.
       dec_return \<lparr>ss_has_scope = has_scope, ss_scope = scope, ss_has_sequence = has_sequence,
                   ss_last_sequence = last_sequence, ss_last_observation = last_observation,
                   ss_gap_open = gap_open, ss_retired_scopes = scopes, ss_accepted = accepted,
                   ss_fenced = fenced, ss_gap_count = gaps, ss_scope_changes = changes\<rparr>))))))))))))"

definition encode_slot_key :: "slot_key \<Rightarrow> bytes" where
  "encode_slot_key v = encode_id (sk_link v) @ encode_key (sk_key v)"

definition decode_slot_key :: "slot_key decoder" where
  "decode_slot_key = dec_bind decode_id (\<lambda>link. dec_bind decode_key (\<lambda>key. dec_return (SlotKey link key)))"

definition encode_continuity_entry :: "source_id \<times> counter_continuity \<Rightarrow> bytes" where
  "encode_continuity_entry e = encode_id (fst e) @ encode_continuity (snd e)"

definition decode_continuity_entry :: "(source_id \<times> counter_continuity) decoder" where
  "decode_continuity_entry =
     dec_bind decode_id (\<lambda>source. dec_bind decode_continuity (\<lambda>state. dec_return (source, state)))"

text \<open>\<^verbatim>\<open>emplace\<close> keeps the first entry of a key.\<close>

definition om_emplace :: "('k::linorder) \<times> 'v \<Rightarrow> ('k, 'v) omap \<Rightarrow> ('k, 'v) omap" where
  "om_emplace e m = (if om_get m (fst e) = None then om_put (fst e) (snd e) m else m)"

definition encode_slot :: "persisted_slot \<Rightarrow> bytes" where
  "encode_slot v =
     encode_slot_key (ps_slot v) @ put_count (length (ps_history v)) @ concat (map encode_evidence (ps_history v))
     @ put_count (length (ps_continuity v)) @ concat (map encode_continuity_entry (ps_continuity v))
     @ put_u64 (ps_accepted v) @ put_u64 (ps_fenced v) @ encode_time (ps_last_gap_at v) @ put_bool (ps_has_gap v)
     @ put_u64 (ps_reset_count v) @ put_u64 (ps_wrap_count v)"

definition decode_slot :: "persisted_slot decoder" where
  "decode_slot =
     dec_bind decode_slot_key (\<lambda>slot. dec_bind (get_count kMaxEvidencePerSlotBound) (\<lambda>history.
     dec_bind (get_n history decode_evidence) (\<lambda>evidence. dec_bind (get_count kMaxSourcesBound) (\<lambda>continuity.
     dec_bind (get_n continuity decode_continuity_entry) (\<lambda>entries.
     dec_bind get_u64 (\<lambda>accepted. dec_bind get_u64 (\<lambda>fenced. dec_bind decode_time (\<lambda>last_gap_at.
     dec_bind get_bool (\<lambda>has_gap. dec_bind get_u64 (\<lambda>resets. dec_bind get_u64 (\<lambda>wraps.
       dec_return \<lparr>ps_slot = slot, ps_history = evidence, ps_continuity = fold om_emplace entries [],
                   ps_accepted = accepted, ps_fenced = fenced, ps_last_gap_at = last_gap_at,
                   ps_has_gap = has_gap, ps_reset_count = resets, ps_wrap_count = wraps\<rparr>)))))))))))"

definition encode_facts :: "link_facts \<Rightarrow> bytes" where
  "encode_facts v =
     encode_id (lf_id v) @ put_bytes (lf_name v) @ encode_id (lf_local_endpoint v) @ encode_id (lf_remote_endpoint v)
     @ encode_id (lf_local_port v) @ encode_id (lf_remote_port v) @ put_enum link_kind_code (lf_kind v)
     @ encode_id (lf_generation v) @ put_bool (lf_capacity_known v) @ put_u64 (lf_capacity_in_bps v)
     @ put_u64 (lf_capacity_out_bps v) @ put_enum provenance_class_code (lf_provenance v)"

definition decode_facts :: "link_facts decoder" where
  "decode_facts =
     dec_bind decode_id (\<lambda>i. dec_bind (get_bytes kMaxStringField) (\<lambda>name. dec_bind decode_id (\<lambda>local_endpoint.
     dec_bind decode_id (\<lambda>remote_endpoint. dec_bind decode_id (\<lambda>local_port. dec_bind decode_id (\<lambda>remote_port.
     dec_bind get_u8 (\<lambda>kind. dec_bind (dec_cast (enum_cast link_kind_code every_link_kind kind)) (\<lambda>k.
     dec_bind decode_id (\<lambda>generation. dec_bind get_bool (\<lambda>known. dec_bind get_u64 (\<lambda>capacity_in.
     dec_bind get_u64 (\<lambda>capacity_out. dec_bind get_u8 (\<lambda>provenance.
     dec_bind (dec_cast (enum_cast provenance_class_code every_provenance_class provenance)) (\<lambda>pc.
       dec_return \<lparr>lf_id = i, lf_name = name, lf_local_endpoint = local_endpoint,
                   lf_remote_endpoint = remote_endpoint, lf_local_port = local_port,
                   lf_remote_port = remote_port, lf_kind = k, lf_generation = generation,
                   lf_capacity_known = known, lf_capacity_in_bps = capacity_in,
                   lf_capacity_out_bps = capacity_out, lf_provenance = pc\<rparr>))))))))))))))"

definition encode_source :: "source_record \<Rightarrow> bytes" where
  "encode_source v =
     encode_id (src_id v) @ put_bytes (src_name v) @ put_enum source_authority_code (src_authority v)
     @ put_enum provenance_class_code (src_provenance v) @ put_bool (src_registered v) @ put_bool (src_retired v)"

definition decode_source :: "source_record decoder" where
  "decode_source =
     dec_bind decode_id (\<lambda>i. dec_bind (get_bytes kMaxStringField) (\<lambda>name.
     dec_bind get_u8 (\<lambda>authority. dec_bind get_u8 (\<lambda>provenance.
     dec_bind (dec_cast (enum_cast source_authority_code every_source_authority authority)) (\<lambda>a.
     dec_bind (dec_cast (enum_cast provenance_class_code every_provenance_class provenance)) (\<lambda>pc.
     dec_bind get_bool (\<lambda>registered. dec_bind get_bool (\<lambda>retired.
       dec_return \<lparr>src_id = i, src_name = name, src_authority = a, src_provenance = pc,
                   src_registered = registered, src_retired = retired\<rparr>))))))))"

definition encode_event :: "transition_event \<Rightarrow> bytes" where
  "encode_event v =
     encode_id (te_id v) @ encode_id (te_link v) @ put_enum transition_kind_code (te_kind v) @ encode_time (te_at v)
     @ encode_id (te_generation v) @ encode_id (te_source v) @ put_bytes (te_from v) @ put_bytes (te_to v)
     @ put_u64 (te_detail v)"

definition decode_event :: "transition_event decoder" where
  "decode_event =
     dec_bind decode_id (\<lambda>i. dec_bind decode_id (\<lambda>link. dec_bind get_u8 (\<lambda>kind.
     dec_bind (dec_cast (enum_cast transition_kind_code every_transition_kind kind)) (\<lambda>k.
     dec_bind decode_time (\<lambda>at. dec_bind decode_id (\<lambda>generation. dec_bind decode_id (\<lambda>source.
     dec_bind (get_bytes kMaxStringField) (\<lambda>from_text. dec_bind (get_bytes kMaxStringField) (\<lambda>to_text.
     dec_bind get_u64 (\<lambda>detail.
       dec_return \<lparr>te_id = i, te_link = link, te_kind = k, te_at = at, te_generation = generation,
                   te_source = source, te_from = from_text, te_to = to_text, te_detail = detail\<rparr>))))))))))"

definition encode_entry :: "link_entry \<Rightarrow> bytes" where
  "encode_entry v =
     encode_facts (le_facts v) @ encode_time (le_registered_at v) @ encode_time (le_last_evidence_at v)
     @ encode_time (le_last_accepted_at v) @ put_u64 (le_accepted_observations v)
     @ put_u64 (le_fenced_observations v) @ put_bool (le_retired v) @ put_bool (le_has_evidence v)"

definition decode_entry :: "link_entry decoder" where
  "decode_entry =
     dec_bind decode_facts (\<lambda>facts. dec_bind decode_time (\<lambda>registered_at. dec_bind decode_time (\<lambda>last_evidence_at.
     dec_bind decode_time (\<lambda>last_accepted_at. dec_bind get_u64 (\<lambda>accepted. dec_bind get_u64 (\<lambda>fenced.
     dec_bind get_bool (\<lambda>retired. dec_bind get_bool (\<lambda>has_evidence.
       dec_return \<lparr>le_facts = facts, le_registered_at = registered_at, le_last_evidence_at = last_evidence_at,
                   le_last_accepted_at = last_accepted_at, le_accepted_observations = accepted,
                   le_fenced_observations = fenced, le_retired = retired, le_has_evidence = has_evidence\<rparr>))))))))"

definition encode_generations :: "link_generation_state \<Rightarrow> bytes" where
  "encode_generations v =
     encode_id (lg_current_generation v) @ put_bool (lg_has_generation v)
     @ put_count (length (lg_retired_generations v)) @ concat (map encode_id (lg_retired_generations v))
     @ put_u64 (lg_generation_changes v)"

definition decode_generations :: "link_generation_state decoder" where
  "decode_generations =
     dec_bind decode_id (\<lambda>current. dec_bind get_bool (\<lambda>has_generation.
     dec_bind (get_count kMaxRetiredScopesBound) (\<lambda>retired. dec_bind (get_n retired decode_id) (\<lambda>generations.
     dec_bind get_u64 (\<lambda>changes.
       dec_return \<lparr>lg_current_generation = current, lg_has_generation = has_generation,
                   lg_retired_generations = generations, lg_generation_changes = changes\<rparr>)))))"

definition encode_persisted_link :: "persisted_link \<Rightarrow> bytes" where
  "encode_persisted_link v =
     encode_facts (pl_facts v) @ encode_entry (pl_entry v) @ encode_generations (pl_generations v)"

definition decode_persisted_link :: "persisted_link decoder" where
  "decode_persisted_link =
     dec_bind decode_facts (\<lambda>facts. dec_bind decode_entry (\<lambda>entry. dec_bind decode_generations (\<lambda>generations.
       dec_return \<lparr>pl_facts = facts, pl_entry = entry, pl_generations = generations\<rparr>)))"

section \<open>What a codec promises\<close>

lemma dec_bind_Inr: "d bs = Inr (x, rest) \<Longrightarrow> dec_bind d f bs = f x rest"
  by (simp add: dec_bind_def)

lemma dec_bind_Inr_iff: "dec_bind d f bs = Inr y \<longleftrightarrow> (\<exists>x rest. d bs = Inr (x, rest) \<and> f x rest = Inr y)"
  by (auto simp: dec_bind_def res_bind_Inr_iff)

lemma dec_return_iff [simp]: "dec_return x bs = Inr (y, rest) \<longleftrightarrow> x = y \<and> bs = rest"
  by (simp add: dec_return_def)

locale codec =
  fixes enc :: "'a \<Rightarrow> bytes" and dec :: "'a decoder" and valid :: "'a \<Rightarrow> bool"
  assumes dec_enc: "valid x \<Longrightarrow> dec (enc x @ rest) = Inr (x, rest)"
    and dec_valid: "dec bs = Inr (x, rest) \<Longrightarrow> valid x"
begin

lemma enc_prefix_free: "valid x \<Longrightarrow> valid y \<Longrightarrow> enc x @ r = enc y @ r' \<Longrightarrow> x = y \<and> r = r'"
proof -
  assume "valid x" and "valid y" and "enc x @ r = enc y @ r'"
  moreover from this(1,2) have "dec (enc x @ r) = Inr (x, r)" and "dec (enc y @ r') = Inr (y, r')"
    by (simp_all only: dec_enc)
  ultimately show ?thesis by (metis prod.inject sum.inject(2))
qed

lemma bind_enc: "valid x \<Longrightarrow> dec_bind dec f (enc x @ rest) = f x rest"
  by (rule dec_bind_Inr) (rule dec_enc)

lemma dec_enc_n: "list_all valid xs \<Longrightarrow> get_n (length xs) dec (concat (map enc xs) @ rest) = Inr (xs, rest)"
  by (induction xs) (simp_all add: dec_bind_def dec_return_def dec_enc)

lemma bind_enc_n:
  "list_all valid xs \<Longrightarrow> dec_bind (get_n (length xs) dec) f (concat (map enc xs) @ rest) = f xs rest"
  by (rule dec_bind_Inr) (rule dec_enc_n)

lemma dec_n_valid: "get_n n dec bs = Inr (xs, rest) \<Longrightarrow> length xs = n \<and> list_all valid xs"
  by (induction n arbitrary: bs xs rest)
    (auto simp: dec_bind_def dec_return_def res_bind_Inr_iff dest!: dec_valid)

end

section \<open>The primitive codecs\<close>

interpretation u8_codec: codec put_u8 get_u8 "\<lambda>v. True"
  by unfold_locales (simp_all add: put_u8_def get_u8_def)

lemma low_byte: "v AND 0xFF = take_bit 8 v" for v :: "'a::len word"
  by (simp add: take_bit_eq_mask mask_eq_exp_minus_1)

lemma ucast_byte: "8 \<le> LENGTH('a) \<Longrightarrow> ucast (ucast (take_bit 8 v) :: u8) = (take_bit 8 v :: 'a::len word)"
  by (rule bit_word_eqI) (auto simp: bit_simps)

lemma bit_byte_at:
  "n < LENGTH('a) \<Longrightarrow>
     bit (push_bit s (take_bit 8 (drop_bit s v)) :: 'a::len word) n \<longleftrightarrow> s \<le> n \<and> n < s + 8 \<and> bit v n"
  by (auto simp: bit_simps)

lemma get_u64_put: "get_u64 (put_u64 v @ rest) = Inr (v, rest)"
proof -
  let ?b = "\<lambda>s. push_bit s (take_bit 8 (drop_bit s v))"
  have "get_u64 (put_u64 v @ rest) =
      Inr (?b 0 OR ?b 8 OR ?b 16 OR ?b 24 OR ?b 32 OR ?b 40 OR ?b 48 OR ?b 56, rest)"
    unfolding put_u64_def low_byte
    by (simp add: get_u64_def put_u8_def get_u8_def dec_bind_def dec_return_def ucast_byte or.assoc)
  also have "?b 0 OR ?b 8 OR ?b 16 OR ?b 24 OR ?b 32 OR ?b 40 OR ?b 48 OR ?b 56 = v"
  proof (rule bit_word_eqI)
    fix n assume n: "n < LENGTH(64)"
    then show "bit (?b 0 OR ?b 8 OR ?b 16 OR ?b 24 OR ?b 32 OR ?b 40 OR ?b 48 OR ?b 56) n = bit v n"
      unfolding bit_or_iff bit_byte_at [OF n] by (cases "bit v n") (simp, linarith, simp)
  qed
  finally show ?thesis .
qed

lemma get_u32_put: "get_u32 (put_u32 v @ rest) = Inr (v, rest)"
proof -
  let ?b = "\<lambda>s. push_bit s (take_bit 8 (drop_bit s v))"
  have "get_u32 (put_u32 v @ rest) = Inr (?b 0 OR ?b 8 OR ?b 16 OR ?b 24, rest)"
    unfolding put_u32_def low_byte
    by (simp add: get_u32_def put_u8_def get_u8_def dec_bind_def dec_return_def ucast_byte or.assoc)
  also have "?b 0 OR ?b 8 OR ?b 16 OR ?b 24 = v"
  proof (rule bit_word_eqI)
    fix n assume n: "n < LENGTH(32)"
    then show "bit (?b 0 OR ?b 8 OR ?b 16 OR ?b 24) n = bit v n"
      unfolding bit_or_iff bit_byte_at [OF n] by (cases "bit v n") (simp, linarith, simp)
  qed
  finally show ?thesis .
qed

text \<open>The fixed-width decoders accept only what the encoders write.\<close>

lemma get_raw_split: "get_raw n bs = Inr (x, rest) \<Longrightarrow> bs = x @ rest \<and> length x = n"
  by (auto simp: get_raw_def reader_fail_def split: if_splits)

lemma get_u8_split: "get_u8 bs = Inr (x, rest) \<Longrightarrow> bs = x # rest"
  by (auto simp: get_u8_def reader_fail_def split: list.splits)

lemma no_high_bits: "8 \<le> n \<Longrightarrow> \<not> bit (b :: u8) n"
  by (auto dest: bit_imp_le_length)

lemma put_u32_bytes:
  "put_u32 (ucast b0 OR push_bit 8 (ucast b1) OR push_bit 16 (ucast b2) OR push_bit 24 (ucast b3)) = [b0, b1, b2, b3]"
  by (simp add: put_u32_def put_u8_def low_byte bit_eq_iff bit_simps no_high_bits)

lemma put_u64_bytes:
  "put_u64 (ucast b0 OR push_bit 8 (ucast b1) OR push_bit 16 (ucast b2) OR push_bit 24 (ucast b3)
      OR push_bit 32 (ucast b4) OR push_bit 40 (ucast b5) OR push_bit 48 (ucast b6) OR push_bit 56 (ucast b7))
    = [b0, b1, b2, b3, b4, b5, b6, b7]"
  by (simp add: put_u64_def put_u8_def low_byte bit_eq_iff bit_simps no_high_bits)

lemma get_u32_split: "get_u32 bs = Inr (v, rest) \<Longrightarrow> bs = put_u32 v @ rest"
  by (auto simp: get_u32_def dec_bind_Inr_iff or.assoc put_u32_bytes dest!: get_u8_split)

lemma get_u64_split: "get_u64 bs = Inr (v, rest) \<Longrightarrow> bs = put_u64 v @ rest"
  by (auto simp: get_u64_def dec_bind_Inr_iff or.assoc put_u64_bytes dest!: get_u8_split)

interpretation u64_codec: codec put_u64 get_u64 "\<lambda>v. True"
  by unfold_locales (simp_all add: get_u64_put)

interpretation u32_codec: codec put_u32 get_u32 "\<lambda>v. True"
  by unfold_locales (simp_all add: get_u32_put)

lemma sint_in_i64: "in_i64 (sint (v :: u64))"
  using sint_lt [of v] sint_ge [of v] by (simp add: in_i64_def)

lemma sint_word_of_int: "in_i64 v \<Longrightarrow> sint (word_of_int v :: u64) = v"
  by (simp add: in_i64_def sint_sbintrunc' signed_take_bit_int_eq_self_iff)

interpretation i64_codec: codec put_i64 get_i64 in_i64
  by unfold_locales
    (auto simp: put_i64_def get_i64_def dec_bind_def get_u64_put sint_word_of_int sint_in_i64 res_bind_Inr_iff
      dec_return_def)

interpretation bool_codec: codec put_bool get_bool "\<lambda>v. True"
  by unfold_locales (simp_all add: put_bool_def get_bool_def put_u8_def get_u8_def dec_bind_def dec_return_def)

lemma string_of_bytes_of: "string_of_bytes (bytes_of t) = t"
proof -
  have "char_of (unat (of_char c :: u8)) = c" for c :: char
  proof -
    have "(of_char c :: u8) = of_nat (of_char c)" by (simp only: of_nat_of_char)
    moreover have "(of_char c :: nat) mod 2 ^ LENGTH(8) = of_char c" by simp
    ultimately have "unat (of_char c :: u8) = (of_char c :: nat)" by (simp only: unat_of_nat)
    then show ?thesis by simp
  qed
  then show ?thesis by (simp add: string_of_bytes_def bytes_of_def map_idI)
qed

definition text_codable :: "string \<Rightarrow> bool" where
  "text_codable t \<longleftrightarrow> length t \<le> kMaxStringField"

lemma unat_small: "n \<le> m \<Longrightarrow> m < 2 ^ 64 \<Longrightarrow> unat (of_nat n :: u64) = n"
  by (simp add: unat_of_nat)

interpretation text_codec: codec put_bytes "get_bytes kMaxStringField" text_codable
proof
  fix t rest assume ok: "text_codable t"
  then have len: "unat (of_nat (length t) :: u64) = length t"
    by (intro unat_small [of _ kMaxStringField]) (simp_all add: text_codable_def kMaxStringField_def)
  have "(0 :: u64) < of_nat (length t) \<longleftrightarrow> t \<noteq> []" using len by (simp add: less_u64_iff)
  then show "get_bytes kMaxStringField (put_bytes t @ rest) = Inr (t, rest)"
    using ok len string_of_bytes_of [of t]
    by (simp add: get_bytes_def put_bytes_def put_raw_def text_codable_def bytes_of_def
        get_raw_def dec_bind_def dec_return_def get_u64_put)
next
  fix bs t rest assume "get_bytes kMaxStringField bs = Inr (t, rest)"
  then show "text_codable t"
    by (auto simp: get_bytes_def dec_bind_Inr_iff text_codable_def get_raw_def string_of_bytes_def reader_fail_def
        dec_return_def split: if_splits)
qed

lemma get_count_put: "n \<le> m \<Longrightarrow> m < 2 ^ 64 \<Longrightarrow> dec_bind (get_count m) f (put_count n @ rest) = f n rest"
  by (rule dec_bind_Inr) (simp add: get_count_def put_count_def u64_codec.bind_enc unat_small dec_return_def)

lemma get_count_bound: "get_count m bs = Inr (n, rest) \<Longrightarrow> n \<le> m"
  by (auto simp: get_count_def dec_bind_Inr_iff reader_fail_def dec_return_def split: if_splits)

lemma enum_casts [simp]:
  "enum_cast metric_family_code every_metric_family (of_nat (metric_family_code f)) = Some f"
  "enum_cast direction_code every_direction (of_nat (direction_code d)) = Some d"
  "enum_cast error_class_code every_error_class (of_nat (error_class_code ec)) = Some ec"
  "enum_cast source_authority_code every_source_authority (of_nat (source_authority_code a)) = Some a"
  "enum_cast provenance_class_code every_provenance_class (of_nat (provenance_class_code pc)) = Some pc"
  "enum_cast transition_kind_code every_transition_kind (of_nat (transition_kind_code tk)) = Some tk"
  "enum_cast link_kind_code every_link_kind (of_nat (link_kind_code lk)) = Some lk"
  "enum_cast counter_discontinuity_code every_discontinuity (of_nat (counter_discontinuity_code cd)) = Some cd"
  "enum_cast counter_width_code every_width (of_nat (counter_width_code w)) = Some w"
  "enum_cast admin_state_code every_admin_state (of_nat (admin_state_code av)) = Some av"
  "enum_cast oper_state_code every_oper_state (of_nat (oper_state_code ov)) = Some ov"
  subgoal by (cases f) (simp_all add: enum_cast_def every_metric_family_def)
  subgoal by (cases d) (simp_all add: enum_cast_def every_direction_def)
  subgoal by (cases ec) (simp_all add: enum_cast_def every_error_class_def)
  subgoal by (cases a) (simp_all add: enum_cast_def every_source_authority_def)
  subgoal by (cases pc) (simp_all add: enum_cast_def every_provenance_class_def)
  subgoal by (cases tk) (simp_all add: enum_cast_def every_transition_kind_def)
  subgoal by (cases lk) (simp_all add: enum_cast_def every_link_kind_def)
  subgoal by (cases cd) (simp_all add: enum_cast_def every_discontinuity_def)
  subgoal by (cases w) (simp_all add: enum_cast_def every_width_def)
  subgoal by (cases av) (simp_all add: enum_cast_def every_admin_state_def)
  subgoal by (cases ov) (simp_all add: enum_cast_def every_oper_state_def)
  done

lemma dec_cast_bind [simp]: "dec_bind (dec_cast (Some e)) f bs = f e bs"
  by (simp add: dec_cast_def dec_bind_def dec_return_def)

lemma put_enum_bind: "dec_bind get_u8 f (put_enum code e @ rest) = f (of_nat (code e)) rest"
  unfolding put_enum_def by (rule u8_codec.bind_enc) simp

section \<open>The codecs of the domain\<close>

named_theorems codec_binds and codec_valids

declare u8_codec.bind_enc [codec_binds] u32_codec.bind_enc [codec_binds] u64_codec.bind_enc [codec_binds]
  i64_codec.bind_enc [codec_binds] bool_codec.bind_enc [codec_binds] text_codec.bind_enc [codec_binds]
  put_enum_bind [codec_binds] get_count_put [codec_binds]
  i64_codec.dec_valid [codec_valids] text_codec.dec_valid [codec_valids] get_count_bound [codec_valids]

interpretation hash_codec: codec encode_hash decode_hash "\<lambda>v. True"
proof
  show "decode_hash (encode_hash v @ rest) = Inr (v, rest)" for v rest
    by (simp add: encode_hash_def decode_hash_def codec_binds)
  show "decode_hash bs = Inr (v, rest) \<Longrightarrow> True" for bs v rest
    by (auto simp: encode_hash_def decode_hash_def dec_bind_Inr_iff dest!: codec_valids)
qed

declare hash_codec.bind_enc [codec_binds] hash_codec.bind_enc_n [codec_binds]
  hash_codec.dec_valid [codec_valids] hash_codec.dec_n_valid [codec_valids]

interpretation id_codec: codec encode_id decode_id "\<lambda>v. True"
proof
  show "decode_id (encode_id v @ rest) = Inr (v, rest)" for v rest
    by (simp add: encode_id_def decode_id_def codec_binds)
  show "decode_id bs = Inr (v, rest) \<Longrightarrow> True" for bs v rest
    by (auto simp: encode_id_def decode_id_def dec_bind_Inr_iff dest!: codec_valids)
qed

declare id_codec.bind_enc [codec_binds] id_codec.bind_enc_n [codec_binds]
  id_codec.dec_valid [codec_valids] id_codec.dec_n_valid [codec_valids]

interpretation sequence_codec: codec encode_sequence decode_sequence "\<lambda>v. True"
proof
  show "decode_sequence (encode_sequence v @ rest) = Inr (v, rest)" for v rest
    by (simp add: encode_sequence_def decode_sequence_def codec_binds get_u64_put)
  show "decode_sequence bs = Inr (v, rest) \<Longrightarrow> True" for bs v rest
    by (auto simp: encode_sequence_def decode_sequence_def dec_bind_Inr_iff dest!: codec_valids)
qed

declare sequence_codec.bind_enc [codec_binds] sequence_codec.bind_enc_n [codec_binds]
  sequence_codec.dec_valid [codec_valids] sequence_codec.dec_n_valid [codec_valids]

interpretation time_codec: codec encode_time decode_time in_i64
  unfolding encode_time_def decode_time_def by (rule i64_codec.codec_axioms)

interpretation duration_codec: codec encode_duration decode_duration in_i64
  unfolding encode_duration_def decode_duration_def by (rule i64_codec.codec_axioms)

declare time_codec.bind_enc [codec_binds] duration_codec.bind_enc [codec_binds]
  time_codec.dec_valid [codec_valids] duration_codec.dec_valid [codec_valids]

interpretation scope_codec: codec encode_scope decode_scope "\<lambda>v. True"
proof
  show "decode_scope (encode_scope v @ rest) = Inr (v, rest)" for v rest
    by (simp add: encode_scope_def decode_scope_def codec_binds)
  show "decode_scope bs = Inr (v, rest) \<Longrightarrow> True" for bs v rest
    by (auto simp: encode_scope_def decode_scope_def dec_bind_Inr_iff dest!: codec_valids)
qed

declare scope_codec.bind_enc [codec_binds] scope_codec.bind_enc_n [codec_binds]
  scope_codec.dec_valid [codec_valids] scope_codec.dec_n_valid [codec_valids]

interpretation key_codec: codec encode_key decode_key "\<lambda>v. True"
proof
  show "decode_key (encode_key v @ rest) = Inr (v, rest)" for v rest
    by (simp add: encode_key_def decode_key_def codec_binds)
  show "decode_key bs = Inr (v, rest) \<Longrightarrow> True" for bs v rest
    by (auto simp: encode_key_def decode_key_def dec_bind_Inr_iff dest!: codec_valids)
qed

declare key_codec.bind_enc [codec_binds] key_codec.bind_enc_n [codec_binds]
  key_codec.dec_valid [codec_valids] key_codec.dec_n_valid [codec_valids]

interpretation reading_codec: codec encode_counter_reading decode_counter_reading "\<lambda>v. True"
proof
  show "decode_counter_reading (encode_counter_reading v @ rest) = Inr (v, rest)" for v rest
    by (simp add: encode_counter_reading_def decode_counter_reading_def codec_binds)
  show "decode_counter_reading bs = Inr (v, rest) \<Longrightarrow> True" for bs v rest
    by (auto simp: encode_counter_reading_def decode_counter_reading_def dec_bind_Inr_iff dest!: codec_valids)
qed

declare reading_codec.bind_enc [codec_binds] reading_codec.bind_enc_n [codec_binds]
  reading_codec.dec_valid [codec_valids] reading_codec.dec_n_valid [codec_valids]

definition payload_codable :: "metric_payload \<Rightarrow> bool" where
  "payload_codable x = (case x of FlapReading f \<Rightarrow> in_i64 (fl_window f) | _ \<Rightarrow> True)"

interpretation payload_codec: codec encode_payload decode_payload payload_codable
proof
  show "payload_codable v \<Longrightarrow> decode_payload (encode_payload v @ rest) = Inr (v, rest)" for v rest
    by (cases v) (simp_all add: decode_payload_def payload_codable_def codec_binds)
  show "decode_payload bs = Inr (v, rest) \<Longrightarrow> payload_codable v" for bs v rest
    by (auto simp: decode_payload_def payload_codable_def dec_bind_Inr_iff dec_refuse_def
        dest!: codec_valids split: if_splits)
qed

declare payload_codec.bind_enc [codec_binds] payload_codec.dec_valid [codec_valids]

interpretation provenance_codec: codec encode_provenance decode_provenance "\<lambda>v. True"
proof
  show "decode_provenance (encode_provenance v @ rest) = Inr (v, rest)" for v rest
    by (simp add: encode_provenance_def decode_provenance_def codec_binds)
  show "decode_provenance bs = Inr (v, rest) \<Longrightarrow> True" for bs v rest
    by (auto simp: encode_provenance_def decode_provenance_def dec_bind_Inr_iff dest!: codec_valids)
qed

declare provenance_codec.bind_enc [codec_binds] provenance_codec.bind_enc_n [codec_binds]
  provenance_codec.dec_valid [codec_valids] provenance_codec.dec_n_valid [codec_valids]

definition observation_codable :: "observation \<Rightarrow> bool" where
  "observation_codable v \<longleftrightarrow>
     payload_codable (obs_payload v) \<and> in_i64 (obs_observed_at v) \<and> in_i64 (obs_received_at v)"

interpretation observation_codec: codec encode_observation decode_observation observation_codable
proof
  show "observation_codable v \<Longrightarrow> decode_observation (encode_observation v @ rest) = Inr (v, rest)" for v rest
    by (simp add: encode_observation_def decode_observation_def observation_codable_def codec_binds)
  show "decode_observation bs = Inr (v, rest) \<Longrightarrow> observation_codable v" for bs v rest
    by (auto simp: encode_observation_def decode_observation_def observation_codable_def dec_bind_Inr_iff dest!: codec_valids)
qed

declare observation_codec.bind_enc [codec_binds] observation_codec.bind_enc_n [codec_binds]
  observation_codec.dec_valid [codec_valids] observation_codec.dec_n_valid [codec_valids]

definition evidence_codable :: "evidence \<Rightarrow> bool" where
  "evidence_codable v \<longleftrightarrow> observation_codable (ev_observation v) \<and> in_i64 (ev_accepted_at v)"

interpretation evidence_codec: codec encode_evidence decode_evidence evidence_codable
proof
  show "evidence_codable v \<Longrightarrow> decode_evidence (encode_evidence v @ rest) = Inr (v, rest)" for v rest
    by (simp add: encode_evidence_def decode_evidence_def evidence_codable_def codec_binds)
  show "decode_evidence bs = Inr (v, rest) \<Longrightarrow> evidence_codable v" for bs v rest
    by (auto simp: encode_evidence_def decode_evidence_def evidence_codable_def dec_bind_Inr_iff dest!: codec_valids)
qed

declare evidence_codec.bind_enc [codec_binds] evidence_codec.bind_enc_n [codec_binds]
  evidence_codec.dec_valid [codec_valids] evidence_codec.dec_n_valid [codec_valids]

definition sample_codable :: "counter_sample \<Rightarrow> bool" where
  "sample_codable v \<longleftrightarrow> in_i64 (smp_observed_at v) \<and> in_i64 (smp_received_at v)"

interpretation sample_codec: codec encode_sample decode_sample sample_codable
proof
  show "sample_codable v \<Longrightarrow> decode_sample (encode_sample v @ rest) = Inr (v, rest)" for v rest
    by (simp add: encode_sample_def decode_sample_def sample_codable_def codec_binds)
  show "decode_sample bs = Inr (v, rest) \<Longrightarrow> sample_codable v" for bs v rest
    by (auto simp: encode_sample_def decode_sample_def sample_codable_def dec_bind_Inr_iff dest!: codec_valids)
qed

declare sample_codec.bind_enc [codec_binds] sample_codec.bind_enc_n [codec_binds]
  sample_codec.dec_valid [codec_valids] sample_codec.dec_n_valid [codec_valids]

definition continuity_codable :: "counter_continuity \<Rightarrow> bool" where
  "continuity_codable v \<longleftrightarrow> sample_codable (cc_latest v) \<and> sample_codable (cc_previous v)"

interpretation continuity_codec: codec encode_continuity decode_continuity continuity_codable
proof
  show "continuity_codable v \<Longrightarrow> decode_continuity (encode_continuity v @ rest) = Inr (v, rest)" for v rest
    by (simp add: encode_continuity_def decode_continuity_def continuity_codable_def codec_binds)
  show "decode_continuity bs = Inr (v, rest) \<Longrightarrow> continuity_codable v" for bs v rest
    by (auto simp: encode_continuity_def decode_continuity_def continuity_codable_def dec_bind_Inr_iff dest!: codec_valids)
qed

declare continuity_codec.bind_enc [codec_binds] continuity_codec.bind_enc_n [codec_binds]
  continuity_codec.dec_valid [codec_valids] continuity_codec.dec_n_valid [codec_valids]

definition stream_codable :: "stream_state \<Rightarrow> bool" where
  "stream_codable v \<longleftrightarrow> length (ss_retired_scopes v) \<le> kMaxRetiredScopesBound"

interpretation stream_codec: codec encode_stream decode_stream stream_codable
proof
  show "stream_codable v \<Longrightarrow> decode_stream (encode_stream v @ rest) = Inr (v, rest)" for v rest
    by (simp add: encode_stream_def decode_stream_def stream_codable_def codec_binds kMaxRetiredScopesBound_def list_all_iff)
  show "decode_stream bs = Inr (v, rest) \<Longrightarrow> stream_codable v" for bs v rest
    by (auto simp: encode_stream_def decode_stream_def stream_codable_def dec_bind_Inr_iff dest!: codec_valids)
qed

declare stream_codec.bind_enc [codec_binds] stream_codec.bind_enc_n [codec_binds]
  stream_codec.dec_valid [codec_valids] stream_codec.dec_n_valid [codec_valids]

interpretation slot_key_codec: codec encode_slot_key decode_slot_key "\<lambda>v. True"
proof
  show "decode_slot_key (encode_slot_key v @ rest) = Inr (v, rest)" for v rest
    by (simp add: encode_slot_key_def decode_slot_key_def codec_binds)
  show "decode_slot_key bs = Inr (v, rest) \<Longrightarrow> True" for bs v rest
    by (auto simp: encode_slot_key_def decode_slot_key_def dec_bind_Inr_iff dest!: codec_valids)
qed

declare slot_key_codec.bind_enc [codec_binds] slot_key_codec.bind_enc_n [codec_binds]
  slot_key_codec.dec_valid [codec_valids] slot_key_codec.dec_n_valid [codec_valids]

definition entry_codable :: "source_id \<times> counter_continuity \<Rightarrow> bool" where
  "entry_codable e \<longleftrightarrow> continuity_codable (snd e)"

interpretation continuity_entry_codec: codec encode_continuity_entry decode_continuity_entry entry_codable
proof
  show "entry_codable v \<Longrightarrow> decode_continuity_entry (encode_continuity_entry v @ rest) = Inr (v, rest)" for v rest
    by (simp add: encode_continuity_entry_def decode_continuity_entry_def entry_codable_def codec_binds)
  show "decode_continuity_entry bs = Inr (v, rest) \<Longrightarrow> entry_codable v" for bs v rest
    by (auto simp: encode_continuity_entry_def decode_continuity_entry_def entry_codable_def dec_bind_Inr_iff dest!: codec_valids)
qed

declare continuity_entry_codec.bind_enc [codec_binds] continuity_entry_codec.bind_enc_n [codec_binds]
  continuity_entry_codec.dec_valid [codec_valids] continuity_entry_codec.dec_n_valid [codec_valids]

lemma om_emplace_rebuild: "om_wf (acc @ m) \<Longrightarrow> fold om_emplace m acc = acc @ m"
proof (induction m arbitrary: acc)
  case (Cons e m)
  have lo: "x < fst e" if "x \<in> fst ` set acc" for x
    using Cons.prems that by (auto simp: om_wf_def sorted_wrt_append)
  then have "om_get acc (fst e) = None" by (auto simp: om_get_None_iff)
  then have "om_emplace e acc = acc @ [e]"
    using lo by (simp add: om_emplace_def om_put_append)
  with Cons show ?case by simp
qed simp

lemma om_emplace_bounds:
  "om_wf acc \<Longrightarrow>
     om_wf (fold om_emplace es acc) \<and> length (fold om_emplace es acc) \<le> length acc + length es
     \<and> set (fold om_emplace es acc) \<subseteq> set acc \<union> set es"
proof (induction es arbitrary: acc)
  case (Cons e es)
  have "om_wf (om_emplace e acc)" and "length (om_emplace e acc) \<le> Suc (length acc)"
    and "set (om_emplace e acc) \<subseteq> insert e (set acc)"
    using Cons.prems om_set_put [of "fst e" "snd e" acc] by (auto simp: om_emplace_def om_length_put)
  with Cons.IH [of "om_emplace e acc"] show ?case by fastforce
qed simp

definition slot_codable :: "persisted_slot \<Rightarrow> bool" where
  "slot_codable v \<longleftrightarrow>
     length (ps_history v) \<le> kMaxEvidencePerSlotBound \<and> list_all evidence_codable (ps_history v)
     \<and> length (ps_continuity v) \<le> kMaxSourcesBound \<and> om_wf (ps_continuity v)
     \<and> list_all entry_codable (ps_continuity v) \<and> in_i64 (ps_last_gap_at v)"

interpretation slot_codec: codec encode_slot decode_slot slot_codable
proof
  show "slot_codable v \<Longrightarrow> decode_slot (encode_slot v @ rest) = Inr (v, rest)" for v rest
    using om_emplace_rebuild [of "[]" "ps_continuity v"]
    by (simp add: encode_slot_def decode_slot_def slot_codable_def codec_binds kMaxEvidencePerSlotBound_def
        kMaxSourcesBound_def)
next
  fix bs v rest assume "decode_slot bs = Inr (v, rest)"
  then obtain entries where "ps_continuity v = fold om_emplace entries []" and "length entries \<le> kMaxSourcesBound"
    and "list_all entry_codable entries" and "length (ps_history v) \<le> kMaxEvidencePerSlotBound"
    and "list_all evidence_codable (ps_history v)" and "in_i64 (ps_last_gap_at v)"
    by (auto simp: decode_slot_def dec_bind_Inr_iff dest!: codec_valids)
  then show "slot_codable v"
    using om_emplace_bounds [of "[]" entries] by (auto simp: slot_codable_def list_all_iff)
qed

declare slot_codec.bind_enc [codec_binds] slot_codec.bind_enc_n [codec_binds]
  slot_codec.dec_valid [codec_valids] slot_codec.dec_n_valid [codec_valids]

definition facts_codable :: "link_facts \<Rightarrow> bool" where
  "facts_codable v \<longleftrightarrow> text_codable (lf_name v)"

interpretation facts_codec: codec encode_facts decode_facts facts_codable
proof
  show "facts_codable v \<Longrightarrow> decode_facts (encode_facts v @ rest) = Inr (v, rest)" for v rest
    by (simp add: encode_facts_def decode_facts_def facts_codable_def codec_binds)
  show "decode_facts bs = Inr (v, rest) \<Longrightarrow> facts_codable v" for bs v rest
    by (auto simp: encode_facts_def decode_facts_def facts_codable_def dec_bind_Inr_iff dest!: codec_valids)
qed

declare facts_codec.bind_enc [codec_binds] facts_codec.bind_enc_n [codec_binds]
  facts_codec.dec_valid [codec_valids] facts_codec.dec_n_valid [codec_valids]

definition source_codable :: "source_record \<Rightarrow> bool" where
  "source_codable v \<longleftrightarrow> text_codable (src_name v)"

interpretation source_codec: codec encode_source decode_source source_codable
proof
  show "source_codable v \<Longrightarrow> decode_source (encode_source v @ rest) = Inr (v, rest)" for v rest
    by (simp add: encode_source_def decode_source_def source_codable_def codec_binds)
  show "decode_source bs = Inr (v, rest) \<Longrightarrow> source_codable v" for bs v rest
    by (auto simp: encode_source_def decode_source_def source_codable_def dec_bind_Inr_iff dest!: codec_valids)
qed

declare source_codec.bind_enc [codec_binds] source_codec.bind_enc_n [codec_binds]
  source_codec.dec_valid [codec_valids] source_codec.dec_n_valid [codec_valids]

definition event_codable :: "transition_event \<Rightarrow> bool" where
  "event_codable v \<longleftrightarrow> in_i64 (te_at v) \<and> text_codable (te_from v) \<and> text_codable (te_to v)"

interpretation event_codec: codec encode_event decode_event event_codable
proof
  show "event_codable v \<Longrightarrow> decode_event (encode_event v @ rest) = Inr (v, rest)" for v rest
    by (simp add: encode_event_def decode_event_def event_codable_def codec_binds)
  show "decode_event bs = Inr (v, rest) \<Longrightarrow> event_codable v" for bs v rest
    by (auto simp: encode_event_def decode_event_def event_codable_def dec_bind_Inr_iff dest!: codec_valids)
qed

declare event_codec.bind_enc [codec_binds] event_codec.bind_enc_n [codec_binds]
  event_codec.dec_valid [codec_valids] event_codec.dec_n_valid [codec_valids]

definition link_entry_codable :: "link_entry \<Rightarrow> bool" where
  "link_entry_codable v \<longleftrightarrow>
     facts_codable (le_facts v) \<and> in_i64 (le_registered_at v) \<and> in_i64 (le_last_evidence_at v)
     \<and> in_i64 (le_last_accepted_at v)"

interpretation link_entry_codec: codec encode_entry decode_entry link_entry_codable
proof
  show "link_entry_codable v \<Longrightarrow> decode_entry (encode_entry v @ rest) = Inr (v, rest)" for v rest
    by (simp add: encode_entry_def decode_entry_def link_entry_codable_def codec_binds)
  show "decode_entry bs = Inr (v, rest) \<Longrightarrow> link_entry_codable v" for bs v rest
    by (auto simp: encode_entry_def decode_entry_def link_entry_codable_def dec_bind_Inr_iff dest!: codec_valids)
qed

declare link_entry_codec.bind_enc [codec_binds] link_entry_codec.bind_enc_n [codec_binds]
  link_entry_codec.dec_valid [codec_valids] link_entry_codec.dec_n_valid [codec_valids]

definition generations_codable :: "link_generation_state \<Rightarrow> bool" where
  "generations_codable v \<longleftrightarrow> length (lg_retired_generations v) \<le> kMaxRetiredScopesBound"

interpretation generations_codec: codec encode_generations decode_generations generations_codable
proof
  show "generations_codable v \<Longrightarrow> decode_generations (encode_generations v @ rest) = Inr (v, rest)" for v rest
    by (simp add: encode_generations_def decode_generations_def generations_codable_def codec_binds kMaxRetiredScopesBound_def list_all_iff)
  show "decode_generations bs = Inr (v, rest) \<Longrightarrow> generations_codable v" for bs v rest
    by (auto simp: encode_generations_def decode_generations_def generations_codable_def dec_bind_Inr_iff dest!: codec_valids)
qed

declare generations_codec.bind_enc [codec_binds] generations_codec.bind_enc_n [codec_binds]
  generations_codec.dec_valid [codec_valids] generations_codec.dec_n_valid [codec_valids]

definition persisted_link_codable :: "persisted_link \<Rightarrow> bool" where
  "persisted_link_codable v \<longleftrightarrow>
     facts_codable (pl_facts v) \<and> link_entry_codable (pl_entry v) \<and> generations_codable (pl_generations v)"

interpretation persisted_link_codec: codec encode_persisted_link decode_persisted_link persisted_link_codable
proof
  show "persisted_link_codable v \<Longrightarrow> decode_persisted_link (encode_persisted_link v @ rest) = Inr (v, rest)" for v rest
    by (simp add: encode_persisted_link_def decode_persisted_link_def persisted_link_codable_def codec_binds)
  show "decode_persisted_link bs = Inr (v, rest) \<Longrightarrow> persisted_link_codable v" for bs v rest
    by (auto simp: encode_persisted_link_def decode_persisted_link_def persisted_link_codable_def dec_bind_Inr_iff dest!: codec_valids)
qed

declare persisted_link_codec.bind_enc [codec_binds] persisted_link_codec.bind_enc_n [codec_binds]
  persisted_link_codec.dec_valid [codec_valids] persisted_link_codec.dec_n_valid [codec_valids]


end
