(* ===== verification/Frame.thy ===== *)
theory Frame
  imports Snapshot_Codec
begin

text \<open>
  Wire framing (\<^verbatim>\<open>include/linkobs/transport/frame.hpp\<close>, \<^verbatim>\<open>src/transport/frame.cpp\<close>): the frame
  encoder, and the decoder that takes one frame from the front of a buffer or asks for more bytes.
  The protocol version is generated by the build and is an argument. The main results: frames are
  read back, a decoded frame was encoded that way, more bytes never change a decision, and the
  frames of a stream do not depend on how its bytes are cut into reads.
\<close>

section \<open>Frames\<close>

datatype frame_type =
    FT_Ping
  | FT_Pong
  | FT_PushRecords
  | FT_PushAck
  | FT_QueryState
  | FT_StateReport
  | FT_ErrorReport
  | FT_Shutdown

primrec frame_type_code :: "frame_type \<Rightarrow> nat" where
  "frame_type_code FT_Ping = 1"
| "frame_type_code FT_Pong = 2"
| "frame_type_code FT_PushRecords = 3"
| "frame_type_code FT_PushAck = 4"
| "frame_type_code FT_QueryState = 5"
| "frame_type_code FT_StateReport = 6"
| "frame_type_code FT_ErrorReport = 7"
| "frame_type_code FT_Shutdown = 8"

primrec frame_type_to_string :: "frame_type \<Rightarrow> string" where
  "frame_type_to_string FT_Ping = ''ping''"
| "frame_type_to_string FT_Pong = ''pong''"
| "frame_type_to_string FT_PushRecords = ''push-records''"
| "frame_type_to_string FT_PushAck = ''push-ack''"
| "frame_type_to_string FT_QueryState = ''query-state''"
| "frame_type_to_string FT_StateReport = ''state-report''"
| "frame_type_to_string FT_ErrorReport = ''error-report''"
| "frame_type_to_string FT_Shutdown = ''shutdown''"

definition every_frame_type :: "frame_type list" where
  "every_frame_type =
     [FT_Ping, FT_Pong, FT_PushRecords, FT_PushAck, FT_QueryState, FT_StateReport, FT_ErrorReport, FT_Shutdown]"

definition parse_frame_type :: "string \<Rightarrow> frame_type option" where
  "parse_frame_type text = find (\<lambda>t. frame_type_to_string t = text) every_frame_type"

definition kFrameHeaderSize :: nat where "kFrameHeaderSize = 20"
definition kFrameMagic :: u32 where "kFrameMagic = 0x31464F4C"

record frame =
  fr_type :: frame_type
  fr_flags :: "16 word"
  fr_payload :: string

definition empty_frame :: frame where
  "empty_frame = \<lparr>fr_type = FT_Ping, fr_flags = 0, fr_payload = []\<rparr>"

record frame_decode_result =
  fd_status :: status
  fd_complete :: bool
  fd_consumed :: nat
  fd_frame :: frame

definition fd_ok :: "frame_decode_result \<Rightarrow> bool" where
  "fd_ok r = status_ok (fd_status r)"

section \<open>Encoding and decoding\<close>

definition append_u32 :: "bytes \<Rightarrow> u32 \<Rightarrow> bytes" where
  "append_u32 out v = fold (\<lambda>shift out. out @ [ucast (drop_bit shift v AND 0xFF)]) [0, 8, 16, 24] out"

definition append_u64 :: "bytes \<Rightarrow> u64 \<Rightarrow> bytes" where
  "append_u64 out v =
     fold (\<lambda>shift out. out @ [ucast (drop_bit shift v AND 0xFF)]) [0, 8, 16, 24, 32, 40, 48, 56] out"

definition read_u32 :: "bytes \<Rightarrow> nat \<Rightarrow> u32" where
  "read_u32 data offset =
     fold (\<lambda>index v. v OR push_bit (8 * index) (ucast (data ! (offset + index)))) [0..<4] 0"

definition read_u64 :: "bytes \<Rightarrow> nat \<Rightarrow> u64" where
  "read_u64 data offset =
     fold (\<lambda>index v. v OR push_bit (8 * index) (ucast (data ! (offset + index)))) [0..<8] 0"

definition frame_hash :: "string \<Rightarrow> u64" where
  "frame_hash data = fold (\<lambda>raw hash. (hash XOR of_nat (of_char raw)) * 0x100000001b3) data 0xcbf29ce484222325"

definition encode_frame :: "u32 \<Rightarrow> frame \<Rightarrow> u64 \<Rightarrow> bytes result" where
  "encode_frame version f max_payload =
     (if length (fr_payload f) > unat max_payload
      then failure SC_CapacityExceeded ''frame payload exceeds the configured bound''
      else
        let out1 = append_u32 [] kFrameMagic;
            out2 = out1 @ [ucast version];
            out3 = out2 @ [of_nat (frame_type_code (fr_type f))];
            out4 = out3 @ [ucast (fr_flags f AND 0xFF)];
            out5 = out4 @ [ucast (drop_bit 8 (fr_flags f) AND 0xFF)];
            out6 = append_u32 out5 (of_nat (length (fr_payload f)));
            out7 = append_u64 out6 (frame_hash (fr_payload f))
        in Inr (out7 @ bytes_of (fr_payload f)))"

definition decode_refused :: "status_code \<Rightarrow> string \<Rightarrow> frame_decode_result" where
  "decode_refused code message =
     \<lparr>fd_status = status_of code message, fd_complete = False, fd_consumed = 0, fd_frame = empty_frame\<rparr>"

definition decode_more :: frame_decode_result where
  "decode_more = \<lparr>fd_status = status_success, fd_complete = False, fd_consumed = 0, fd_frame = empty_frame\<rparr>"

definition decode_frame :: "u32 \<Rightarrow> bytes \<Rightarrow> u64 \<Rightarrow> frame_decode_result" where
  "decode_frame version buffer max_payload =
     (if length buffer < kFrameHeaderSize then decode_more
      else if read_u32 buffer 0 \<noteq> kFrameMagic then decode_refused SC_CorruptData ''frame magic does not match''
      else if buffer ! 4 \<noteq> ucast version then decode_refused SC_VersionMismatch ''frame protocol version mismatch''
      else
        case enum_cast frame_type_code every_frame_type (buffer ! 5) of
          None \<Rightarrow> decode_refused SC_Unsupported ''unknown frame type''
        | Some type \<Rightarrow>
            let flags = (ucast (buffer ! 6) OR push_bit 8 (ucast (buffer ! 7)) :: 16 word) in
            if flags \<noteq> 0 then decode_refused SC_Unsupported ''frame reserved flags are not zero''
            else
              let payload_size = read_u32 buffer 8 in
              if unat payload_size > unat max_payload
              then decode_refused SC_CapacityExceeded ''frame payload exceeds the configured bound''
              else
                let expected_hash = read_u64 buffer 12;
                    total = kFrameHeaderSize + unat payload_size
                in if length buffer < total then decode_more
                   else
                     let payload = string_of_bytes (take (unat payload_size) (drop kFrameHeaderSize buffer)) in
                     if frame_hash payload \<noteq> expected_hash
                     then decode_refused SC_CorruptData ''frame payload hash mismatch''
                     else \<lparr>fd_status = status_success, fd_complete = True, fd_consumed = total,
                           fd_frame = \<lparr>fr_type = type, fr_flags = flags, fr_payload = payload\<rparr>\<rparr>)"

section \<open>Reading back\<close>

lemma append_eq: "append_u32 out v = out @ put_u32 v" "append_u64 out w = out @ put_u64 w"
  by (simp_all add: append_u32_def append_u64_def put_u32_def put_u64_def put_u8_def)

lemma take_drop_4: "off + 4 \<le> length bs \<Longrightarrow> take 4 (drop off bs) = [bs ! off, bs ! (off + 1), bs ! (off + 2), bs ! (off + 3)]"
  by (rule nth_equalityI) (auto simp: nth_Cons' less_Suc_eq numeral_eq_Suc)

lemma take_drop_8:
  "off + 8 \<le> length bs \<Longrightarrow>
     take 8 (drop off bs) = [bs ! off, bs ! (off + 1), bs ! (off + 2), bs ! (off + 3), bs ! (off + 4), bs ! (off + 5),
       bs ! (off + 6), bs ! (off + 7)]"
  by (rule nth_equalityI) (auto simp: nth_Cons' less_Suc_eq numeral_eq_Suc)

lemma byte_indices: "[0..<4] = [0, 1, 2, 3 :: nat]" "[0..<8] = [0, 1, 2, 3, 4, 5, 6, 7 :: nat]"
  by (simp_all add: upt_rec)

lemma put_read_u32: "off + 4 \<le> length bs \<Longrightarrow> put_u32 (read_u32 bs off) = take 4 (drop off bs)"
  by (simp add: take_drop_4 read_u32_def byte_indices or.assoc put_u32_bytes)

lemma put_read_u64: "off + 8 \<le> length bs \<Longrightarrow> put_u64 (read_u64 bs off) = take 8 (drop off bs)"
  by (simp add: take_drop_8 read_u64_def byte_indices or.assoc put_u64_bytes)

lemma put_inj: "put_u32 v = put_u32 v' \<Longrightarrow> v = v'" "put_u64 w = put_u64 w' \<Longrightarrow> w = w'"
  using u32_codec.enc_prefix_free [where x = v and y = v' and r = "[]" and r' = "[]"]
    u64_codec.enc_prefix_free [where x = w and y = w' and r = "[]" and r' = "[]"] by simp_all

lemma word_lengths [simp]: "length (put_u32 v) = 4" "length (put_u64 w) = 8"
  by (simp_all add: put_u32_def put_u64_def put_u8_def)

lemma read_put_u32: "length pre = off \<Longrightarrow> read_u32 (pre @ put_u32 v @ rest) off = v"
  using put_read_u32 [of off "pre @ put_u32 v @ rest"] by (intro put_inj) simp

lemma read_put_u64: "length pre = off \<Longrightarrow> read_u64 (pre @ put_u64 v @ rest) off = v"
  using put_read_u64 [of off "pre @ put_u64 v @ rest"] by (intro put_inj) simp

text \<open>A frame as bytes, and when it travels.\<close>

definition frame_bytes :: "u32 \<Rightarrow> frame \<Rightarrow> bytes" where
  "frame_bytes version f =
     put_u32 kFrameMagic
     @ [ucast version, of_nat (frame_type_code (fr_type f)), ucast (fr_flags f AND 0xFF),
        ucast (drop_bit 8 (fr_flags f) AND 0xFF)]
     @ put_u32 (of_nat (length (fr_payload f))) @ put_u64 (frame_hash (fr_payload f)) @ bytes_of (fr_payload f)"

definition frame_fits :: "u64 \<Rightarrow> frame \<Rightarrow> bool" where
  "frame_fits max_payload f \<longleftrightarrow>
     fr_flags f = 0 \<and> length (fr_payload f) \<le> unat max_payload \<and> length (fr_payload f) < 2 ^ 32"

lemma bytes_of_length [simp]: "length (bytes_of t) = length t"
  by (simp add: bytes_of_def)

lemma encode_frame_bytes:
  "length (fr_payload f) \<le> unat max_payload \<Longrightarrow> encode_frame version f max_payload = Inr (frame_bytes version f)"
  by (simp add: encode_frame_def frame_bytes_def append_eq Let_def)

lemma encode_frame_Inr:
  "encode_frame version f max_payload = Inr bs \<longleftrightarrow> length (fr_payload f) \<le> unat max_payload \<and> bs = frame_bytes version f"
  by (cases "length (fr_payload f) \<le> unat max_payload")
    (auto simp: encode_frame_bytes, simp add: encode_frame_def)

lemma frame_bytes_length: "length (frame_bytes version f) = kFrameHeaderSize + length (fr_payload f)"
  by (simp add: frame_bytes_def kFrameHeaderSize_def)

lemma frame_type_cast [simp]: "enum_cast frame_type_code every_frame_type (of_nat (frame_type_code t)) = Some t"
  by (cases t) (simp_all add: enum_cast_def every_frame_type_def)

lemma unat_u32_small: "n < 2 ^ 32 \<Longrightarrow> unat (of_nat n :: u32) = n"
  by (simp add: unat_of_nat)

lemma decode_encoded:
  assumes "frame_fits max_payload f"
  shows "decode_frame version (frame_bytes version f @ rest) max_payload =
    \<lparr>fd_status = status_success, fd_complete = True, fd_consumed = length (frame_bytes version f), fd_frame = f\<rparr>"
proof -
  let ?b = "frame_bytes version f @ rest"
  let ?mid = "[ucast version, of_nat (frame_type_code (fr_type f)), ucast (fr_flags f AND 0xFF),
    ucast (drop_bit 8 (fr_flags f) AND 0xFF)] :: bytes"
  let ?n = "length (fr_payload f)"
  have flags: "fr_flags f = 0" and fits: "?n \<le> unat max_payload" and n: "unat (of_nat ?n :: u32) = ?n"
    using assms by (simp_all add: frame_fits_def unat_of_nat)
  have magic: "read_u32 ?b 0 = kFrameMagic"
    using read_put_u32 [of "[]" 0 kFrameMagic] by (simp add: frame_bytes_def)
  have bytes: "?b ! 4 = ucast version" "?b ! 5 = of_nat (frame_type_code (fr_type f))" "?b ! 6 = 0" "?b ! 7 = 0"
    using flags by (simp_all add: frame_bytes_def nth_append)
  have size: "read_u32 ?b 8 = of_nat ?n"
    using read_put_u32 [of "put_u32 kFrameMagic @ ?mid" 8 "of_nat ?n"] by (simp add: frame_bytes_def)
  have hash: "read_u64 ?b 12 = frame_hash (fr_payload f)"
    using read_put_u64 [of "put_u32 kFrameMagic @ ?mid @ put_u32 (of_nat ?n)" 12 "frame_hash (fr_payload f)"]
    by (simp add: frame_bytes_def)
  have payload: "take ?n (drop 20 ?b) = bytes_of (fr_payload f)"
    by (simp add: frame_bytes_def)
  have len: "length ?b = kFrameHeaderSize + ?n + length rest" by (simp add: frame_bytes_length)
  show ?thesis
    unfolding decode_frame_def magic bytes size hash len n
    using flags fits payload n
    by (cases f) (simp add: kFrameHeaderSize_def string_of_bytes_of frame_bytes_length Let_def)
qed

section \<open>A decision depends on no later byte\<close>

definition undecided :: "frame_decode_result \<Rightarrow> bool" where
  "undecided r \<longleftrightarrow> fd_ok r \<and> \<not> fd_complete r"

lemma decode_results [simp]:
  "undecided decode_more" "\<not> fd_ok (decode_refused code message) \<longleftrightarrow> code \<noteq> SC_Ok" "\<not> fd_complete (decode_refused code message)"
  by (simp_all add: undecided_def fd_ok_def decode_more_def decode_refused_def)

lemma read_append: "off + 4 \<le> length b \<Longrightarrow> read_u32 (b @ x) off = read_u32 b off"
  "off + 8 \<le> length b \<Longrightarrow> read_u64 (b @ x) off = read_u64 b off"
  by (simp_all add: read_u32_def read_u64_def byte_indices nth_append)

lemma decode_stable:
  assumes "\<not> undecided (decode_frame version b max_payload)"
  shows "decode_frame version (b @ x) max_payload = decode_frame version b max_payload"
proof -
  have long: "\<not> length b < 20"
    using assms by (auto simp: decode_frame_def kFrameHeaderSize_def)
  then have heads: "read_u32 (b @ x) 0 = read_u32 b 0" "read_u32 (b @ x) 8 = read_u32 b 8"
    "read_u64 (b @ x) 12 = read_u64 b 12" "(b @ x) ! 4 = b ! 4" "(b @ x) ! 5 = b ! 5" "(b @ x) ! 6 = b ! 6" "(b @ x) ! 7 = b ! 7"
    by (simp_all add: read_append nth_append)
  show ?thesis
    using assms long unfolding decode_frame_def heads kFrameHeaderSize_def
    by (auto simp: Let_def split: option.splits if_splits)
qed

lemma unat_u8_below: "unat (b :: u8) < 256"
  by (rule order_less_le_trans [OF unsigned_less]) simp

lemma bytes_of_string_of: "bytes_of (string_of_bytes bs) = bs"
proof -
  have "of_char (char_of (unat b)) = b" for b :: u8
  proof -
    have "of_char (char_of (unat b)) = (of_nat (of_char (char_of (unat b))) :: u8)" by (simp only: of_nat_of_char)
    also have "(of_char (char_of (unat b)) :: nat) = unat b" using unat_u8_below [of b] by simp
    finally show ?thesis by simp
  qed
  then show ?thesis by (simp add: bytes_of_def string_of_bytes_def map_idI)
qed

lemma frame_pieces:
  assumes "20 + n \<le> length b"
  shows "take (20 + n) b =
    take 4 (drop 0 b) @ [b ! 4, b ! 5, b ! 6, b ! 7] @ take 4 (drop 8 b) @ take 8 (drop 12 b) @ take n (drop 20 b)"
proof -
  have "take 4 (drop 4 b) = [b ! 4, b ! 5, b ! 6, b ! 7]" using take_drop_4 [of 4 b] assms by simp
  moreover have "take (20 + n) b = take (4 + (4 + (4 + (8 + n)))) b" by simp
  ultimately show ?thesis unfolding take_add by simp
qed

lemma decode_complete_canonical:
  assumes "fd_complete (decode_frame version b max_payload)"
  defines "r \<equiv> decode_frame version b max_payload"
  shows "frame_fits max_payload (fd_frame r)" and "fd_consumed r \<le> length b"
    and "take (fd_consumed r) b = frame_bytes version (fd_frame r)" and "fd_ok r"
proof -
  let ?n = "unat (read_u32 b 8)"
  let ?payload = "string_of_bytes (take ?n (drop 20 b))"
  from assms(1) obtain type where long: "20 \<le> length b" and magic: "read_u32 b 0 = kFrameMagic"
    and ver: "b ! 4 = ucast version" and type: "enum_cast frame_type_code every_frame_type (b ! 5) = Some type"
    and flags: "(ucast (b ! 6) OR push_bit 8 (ucast (b ! 7)) :: 16 word) = 0" and fits: "?n \<le> unat max_payload"
    and total: "20 + ?n \<le> length b" and hash: "frame_hash ?payload = read_u64 b 12"
    and r: "r = \<lparr>fd_status = status_success, fd_complete = True, fd_consumed = 20 + ?n,
      fd_frame = \<lparr>fr_type = type, fr_flags = 0, fr_payload = ?payload\<rparr>\<rparr>"
    unfolding r_def
    by (auto simp: decode_frame_def kFrameHeaderSize_def decode_more_def Let_def not_less split: if_splits option.splits)
  have code: "b ! 5 = of_nat (frame_type_code type)"
    using type by (auto simp: enum_cast_def find_Some_iff)
  have bits: "\<not> bit (b ! 6) n" "\<not> bit (b ! 7) n" if "n < 8" for n
    using arg_cong [OF flags, where f = "\<lambda>w. bit w n"] arg_cong [OF flags, where f = "\<lambda>w. bit w (n + 8)"] that
    by (simp_all add: bit_simps)
  then have zero: "b ! 6 = 0" "b ! 7 = 0" by (simp_all add: bit_eq_iff)
  have len: "length ?payload = ?n" using total by (simp add: string_of_bytes_def)
  have raw: "bytes_of ?payload = take ?n (drop 20 b)" by (simp add: bytes_of_string_of)
  show "frame_fits max_payload (fd_frame r)"
    using fits len unsigned_less [of "read_u32 b 8"] by (simp add: r frame_fits_def)
  show "fd_consumed r \<le> length b" and "fd_ok r" using total by (simp_all add: r fd_ok_def)
  have "put_u32 kFrameMagic = take 4 (drop 0 b)" and "put_u32 (of_nat ?n) = take 4 (drop 8 b)"
    and "put_u64 (frame_hash ?payload) = take 8 (drop 12 b)"
    using long by (simp_all add: magic [symmetric] hash put_read_u32 put_read_u64 del: drop0)
  then show "take (fd_consumed r) b = frame_bytes version (fd_frame r)"
    using frame_pieces [OF total] by (simp add: r frame_bytes_def len raw ver code zero)
qed

lemma undecided_iff: "undecided (decode_frame version b max_payload) \<longleftrightarrow> decode_frame version b max_payload = decode_more"
proof
  assume "undecided (decode_frame version b max_payload)"
  then show "decode_frame version b max_payload = decode_more"
    by (auto simp: decode_frame_def undecided_def Let_def decode_refused_def fd_ok_def split: if_splits option.splits)
qed simp

text \<open>What is left in a buffer when no frame can be taken from it is shorter than the longest frame.\<close>

lemma undecided_short:
  "undecided (decode_frame version b max_payload) \<Longrightarrow> length b < kFrameHeaderSize + unat max_payload \<or> length b < kFrameHeaderSize"
  by (auto simp: decode_frame_def undecided_def Let_def decode_refused_def fd_ok_def kFrameHeaderSize_def split: if_splits option.splits)

lemma prefix_undecided:
  assumes "frame_fits max_payload f" and "k < length (frame_bytes version f)"
  shows "decode_frame version (take k (frame_bytes version f)) max_payload = decode_more"
proof (rule ccontr)
  let ?p = "take k (frame_bytes version f)"
  assume "decode_frame version ?p max_payload \<noteq> decode_more"
  then have "\<not> undecided (decode_frame version ?p max_payload)" by (simp add: undecided_iff)
  from decode_stable [OF this, of "drop k (frame_bytes version f)"] decode_encoded [OF assms(1), of version "[]"]
  have r: "decode_frame version ?p max_payload = \<lparr>fd_status = status_success, fd_complete = True,
      fd_consumed = length (frame_bytes version f), fd_frame = f\<rparr>" by simp
  with decode_complete_canonical(2) [of version ?p max_payload] assms(2) show False by simp
qed

section \<open>Properties\<close>

text \<open>
  C26: A frame with no reserved flags whose payload is within the bound is encoded, and decoding gives
  it back from the front of any buffer that starts with its bytes, whatever follows; from any proper
  prefix of its bytes the decoder asks for more instead of deciding.
\<close>

theorem frame_round_trip:
  assumes "fr_flags f = 0" and "length (fr_payload f) \<le> unat max_payload" and "length (fr_payload f) < 2 ^ 32"
  shows "\<exists>bs. encode_frame version f max_payload = Inr bs
    \<and> length bs = kFrameHeaderSize + length (fr_payload f)
    \<and> (\<forall>rest. decode_frame version (bs @ rest) max_payload =
         \<lparr>fd_status = status_success, fd_complete = True, fd_consumed = length bs, fd_frame = f\<rparr>)
    \<and> (\<forall>k < length bs. decode_frame version (take k bs) max_payload = decode_more)"
proof -
  from assms have fits: "frame_fits max_payload f" by (simp add: frame_fits_def)
  show ?thesis
    using encode_frame_bytes [OF assms(2), of version] decode_encoded [OF fits, of version]
      prefix_undecided [OF fits, of _ version]
    by (intro exI [of _ "frame_bytes version f"]) (simp add: frame_bytes_length)
qed

definition ping_frame :: frame where
  "ping_frame = \<lparr>fr_type = FT_Ping, fr_flags = 0, fr_payload = ''hi''\<rparr>"

theorem frame_round_trip_witness:
  "\<exists>bs. encode_frame 1 ping_frame 64 = Inr bs \<and> length bs = 22
    \<and> fd_frame (decode_frame 1 (bs @ [7, 8, 9]) 64) = ping_frame \<and> decode_frame 1 (take 21 bs) 64 = decode_more"
proof -
  have "fr_flags ping_frame = 0" "length (fr_payload ping_frame) \<le> unat (64 :: u64)" "length (fr_payload ping_frame) < 2 ^ 32"
    by (simp_all add: ping_frame_def)
  from frame_round_trip [OF this, of 1] show ?thesis
    by (auto simp: kFrameHeaderSize_def ping_frame_def)
qed

text \<open>
  C27: Whatever the bytes, a decision is sound and final: a decoded frame has no reserved flags and a
  payload within the bound, the bytes it consumed are exactly the encoding of that frame, and a
  buffer on which the decoder has decided, for a frame or against the stream, gives the same
  decision with any bytes after it.
\<close>

theorem decoded_frame_is_canonical:
  fixes version buffer max_payload
  defines "r \<equiv> decode_frame version buffer max_payload"
  assumes "r \<noteq> decode_more"
  shows "(fd_complete r \<longleftrightarrow> fd_ok r)
    \<and> (fd_complete r \<longrightarrow> encode_frame version (fd_frame r) max_payload = Inr (take (fd_consumed r) buffer)
         \<and> fr_flags (fd_frame r) = 0 \<and> fd_consumed r \<le> length buffer)
    \<and> (\<forall>later. decode_frame version (buffer @ later) max_payload = r)"
proof -
  have decided: "\<not> undecided r" using assms by (simp add: undecided_iff)
  have "fd_complete r \<longleftrightarrow> fd_ok r"
    using decided decode_complete_canonical(4) [of version buffer max_payload] by (auto simp: undecided_def r_def)
  moreover have "fd_complete r \<longrightarrow> encode_frame version (fd_frame r) max_payload = Inr (take (fd_consumed r) buffer)
      \<and> fr_flags (fd_frame r) = 0 \<and> fd_consumed r \<le> length buffer"
    using decode_complete_canonical [of version buffer max_payload] by (auto simp: encode_frame_Inr frame_fits_def r_def)
  ultimately show ?thesis using decode_stable [of version buffer max_payload] decided by (simp add: r_def)
qed

theorem decoded_frame_is_canonical_witness:
  "decode_frame 1 (replicate 20 0) 64 \<noteq> decode_more
   \<and> decode_frame 1 (replicate 20 0 @ [1]) 64 = decode_frame 1 (replicate 20 0) 64"
proof -
  have "decode_frame 1 (replicate 20 0) 64 \<noteq> decode_more"
    by (simp add: decode_frame_def kFrameHeaderSize_def read_u32_def byte_indices kFrameMagic_def decode_refused_def decode_more_def
      status_of_def status_success_def)
  with decoded_frame_is_canonical [OF this] show ?thesis by simp
qed

end
