(* ===== verification/Socket.thy ===== *)
theory Socket
  imports Frame
begin

text \<open>
  Socket helpers (\<^verbatim>\<open>src/transport/socket.hpp\<close>, \<^verbatim>\<open>src/transport/socket.cpp\<close>). The kernel is an argument: what the
  \<open>n\<close>-th \<^verbatim>\<open>send\<close> of a socket returns for a chunk of some size, and the error number it leaves. What
  arrives is a sequence of results of \<^verbatim>\<open>recv\<close>. The main results: \<^verbatim>\<open>send_all\<close> ends after at most as many
  calls as there are bytes and delivers a prefix of the data, all of it exactly when it succeeds.
\<close>

section \<open>Operations\<close>

text \<open>A connected socket: how many \<^verbatim>\<open>send\<close> calls it has seen and the bytes it took.\<close>

record socket =
  so_calls :: nat
  so_out :: bytes

definition new_socket :: socket where
  "new_socket = \<lparr>so_calls = 0, so_out = []\<rparr>"

record kernel =
  kn_send :: "nat \<Rightarrow> nat \<Rightarrow> int"
  kn_errno :: "nat \<Rightarrow> int"

definition last_socket_error :: "string \<Rightarrow> int \<Rightarrow> status" where
  "last_socket_error what code = status_of SC_IoError (what @ '' failed (socket error '' @ to_dec_i64 code @ '')'')"

definition is_loopback_host :: "string \<Rightarrow> bool" where
  "is_loopback_host host \<longleftrightarrow>
     (if host = ''localhost'' then True
      else if host = ''::1'' \<or> host = ''[::1]'' then True
      else if take 4 host = ''127.'' then True
      else False)"

function send_all :: "kernel \<Rightarrow> bytes \<Rightarrow> socket \<Rightarrow> status \<times> socket" where
  "send_all k data so =
     (if data = [] then (status_success, so)
      else
        let chunk = (if length data > 65536 then 65536 else length data);
            written = kn_send k (so_calls so) chunk;
            so1 = so\<lparr>so_calls := so_calls so + 1\<rparr>
        in if written \<le> 0 then (last_socket_error ''send'' (kn_errno k (so_calls so)), so1)
           else send_all k (drop (nat written) data) (so1\<lparr>so_out := so_out so @ take (nat written) data\<rparr>))"
  by pat_completeness auto
termination by (relation "measure (\<lambda>(k, data, so). length data)") (auto simp: Let_def)

declare send_all.simps [simp del]

datatype recv_event = Arrived bytes | PeerClosed | RecvFailed int

definition receive_once :: "recv_event \<Rightarrow> bytes \<Rightarrow> status \<times> bytes \<times> bool" where
  "receive_once event buffer =
     (case event of
        PeerClosed \<Rightarrow> (status_success, buffer, True)
      | RecvFailed code \<Rightarrow> (last_socket_error ''recv'' code, buffer, False)
      | Arrived chunk \<Rightarrow> (status_success, buffer @ chunk, False))"

text \<open>What \<^verbatim>\<open>recv\<close> with a buffer of 8192 bytes can return.\<close>

definition kReceiveChunk :: nat where "kReceiveChunk = 8192"

definition chunk_ok :: "bytes \<Rightarrow> bool" where
  "chunk_ok chunk \<longleftrightarrow> chunk \<noteq> [] \<and> length chunk \<le> kReceiveChunk"

text \<open>A kernel whose every \<^verbatim>\<open>send\<close> takes at least one byte.\<close>

definition always_sends :: "kernel \<Rightarrow> bool" where
  "always_sends k \<longleftrightarrow> (\<forall>n size. size > 0 \<longrightarrow> kn_send k n size > 0)"

definition eager_kernel :: kernel where
  "eager_kernel = \<lparr>kn_send = (\<lambda>n size. int size), kn_errno = (\<lambda>n. 0)\<rparr>"

section \<open>What is delivered\<close>

lemma not_ok_socket_error [simp]: "\<not> status_ok (last_socket_error what code)"
  by (simp add: last_socket_error_def)

lemma send_all_prefix:
  "send_all k data so = (s, so') \<Longrightarrow>
   \<exists>n \<le> length data. so_out so' = so_out so @ take n data \<and> (status_ok s \<longleftrightarrow> n = length data) \<and> so_calls so' \<le> so_calls so + length data"
proof (induction k data so rule: send_all.induct)
  case (1 k data so)
  show ?case
  proof (cases "data = []")
    case True
    then show ?thesis using "1.prems" by (auto simp: send_all.simps)
  next
    case False
    let ?chunk = "if length data > 65536 then 65536 else length data"
    let ?w = "kn_send k (so_calls so) ?chunk"
    show ?thesis
    proof (cases "?w \<le> 0")
      case True
      then show ?thesis
        using False "1.prems" by (intro exI [of _ 0]) (auto simp: send_all.simps [of k data so] Let_def Suc_leI)
    next
      case w: False
      let ?so1 = "so\<lparr>so_calls := so_calls so + 1, so_out := so_out so @ take (nat ?w) data\<rparr>"
      have rec: "send_all k (drop (nat ?w) data) ?so1 = (s, so')"
        using False w "1.prems" by (simp add: send_all.simps [of k data so] Let_def)
      have "\<exists>n \<le> length (drop (nat ?w) data). so_out so' = so_out ?so1 @ take n (drop (nat ?w) data)
          \<and> (status_ok s \<longleftrightarrow> n = length (drop (nat ?w) data)) \<and> so_calls so' \<le> so_calls ?so1 + length (drop (nat ?w) data)"
        using "1.IH" [OF False refl refl refl] w rec by simp
      then obtain n where n: "n \<le> length data - nat ?w" "so_out so' = so_out so @ take (nat ?w) data @ take n (drop (nat ?w) data)"
          "status_ok s \<longleftrightarrow> n = length data - nat ?w" "so_calls so' \<le> so_calls so + 1 + (length data - nat ?w)"
        by auto
      have pos: "nat ?w > 0" "length data > 0" using w False by auto
      show ?thesis
      proof (cases "nat ?w \<le> length data")
        case True
        then show ?thesis
          using n pos by (intro exI [of _ "nat ?w + n"]) (auto simp: take_add)
      next
        case big: False
        have "so_calls so' \<le> so_calls so + length data" using n(4) pos(2) big by linarith
        then show ?thesis using n big by (intro exI [of _ "length data"]) auto
      qed
    qed
  qed
qed

lemma send_all_succeeds:
  "always_sends k \<Longrightarrow> status_ok (fst (send_all k data so)) \<and> so_out (snd (send_all k data so)) = so_out so @ data"
proof (induction k data so rule: send_all.induct)
  case (1 k data so)
  show ?case
  proof (cases "data = []")
    case False
    let ?w = "kn_send k (so_calls so) (if length data > 65536 then 65536 else length data)"
    have "?w > 0" using "1.prems" False by (simp add: always_sends_def)
    then show ?thesis using "1.IH" [OF False refl refl refl] "1.prems" False by (simp add: send_all.simps [of k data so] Let_def)
  qed (simp add: send_all.simps)
qed

lemma eager_kernel_sends: "always_sends eager_kernel"
  by (simp add: always_sends_def eager_kernel_def)

section \<open>Properties\<close>

text \<open>
  C28: Sending ends. Whatever the kernel takes per call, \<^verbatim>\<open>send_all\<close> returns after at most one call per
  byte; the bytes that went out are a prefix of the data, and all of it exactly when it reports
  success.
\<close>

theorem send_all_terminates_with_a_prefix:
  "\<exists>n \<le> length data.
     so_out (snd (send_all k data so)) = so_out so @ take n data
     \<and> (status_ok (fst (send_all k data so)) \<longleftrightarrow> n = length data)
     \<and> so_calls (snd (send_all k data so)) \<le> so_calls so + length data"
  by (rule send_all_prefix) simp

end
