(* ===== verification/Classifier.thy ===== *)
theory Classifier
  imports Evidence_Store Transition_Log Link_Registry
begin

text \<open>
  The link state classifier (\<^verbatim>\<open>src/classify/classifier.cpp\<close>): per metric key the contenders,
  the winner, the derived rate, the conflict between sources of the top authority and the
  confidence; then the indicators over all keys, the rule list, the state by fixed precedence and
  the link-level freshness, completeness and confidence. \<open>classify\<close> composes them in the order of
  the code. The classifier reads the store only through its evaluation operations.
\<close>

section \<open>Data\<close>

datatype rule_id =
    Rule_NoEvidence | Rule_SourceConflict | Rule_OperDown | Rule_AdminDisabled | Rule_Flapping
  | Rule_SourceFlapReport | Rule_Erroring | Rule_SaturatedDerived | Rule_SaturatedReported
  | Rule_DegradedQuality | Rule_DegradedDiscards | Rule_DegradedOperState
  | Rule_UnsupportedDecisive | Rule_IncompleteDecisive | Rule_StaleEvidence | Rule_Healthy

primrec rule_code :: "rule_id \<Rightarrow> nat" where
  "rule_code Rule_NoEvidence = 800"
| "rule_code Rule_SourceConflict = 200"
| "rule_code Rule_OperDown = 100"
| "rule_code Rule_AdminDisabled = 110"
| "rule_code Rule_Flapping = 300"
| "rule_code Rule_SourceFlapReport = 310"
| "rule_code Rule_Erroring = 400"
| "rule_code Rule_SaturatedDerived = 500"
| "rule_code Rule_SaturatedReported = 510"
| "rule_code Rule_DegradedQuality = 600"
| "rule_code Rule_DegradedDiscards = 610"
| "rule_code Rule_DegradedOperState = 620"
| "rule_code Rule_UnsupportedDecisive = 810"
| "rule_code Rule_IncompleteDecisive = 820"
| "rule_code Rule_StaleEvidence = 700"
| "rule_code Rule_Healthy = 900"

primrec rule_name :: "rule_id \<Rightarrow> string" where
  "rule_name Rule_NoEvidence = ''no-evidence''"
| "rule_name Rule_SourceConflict = ''source-conflict''"
| "rule_name Rule_OperDown = ''oper-down''"
| "rule_name Rule_AdminDisabled = ''admin-disabled''"
| "rule_name Rule_Flapping = ''flapping''"
| "rule_name Rule_SourceFlapReport = ''source-flap-report''"
| "rule_name Rule_Erroring = ''erroring''"
| "rule_name Rule_SaturatedDerived = ''saturated-derived''"
| "rule_name Rule_SaturatedReported = ''saturated-reported''"
| "rule_name Rule_DegradedQuality = ''degraded-quality''"
| "rule_name Rule_DegradedDiscards = ''degraded-discards''"
| "rule_name Rule_DegradedOperState = ''degraded-oper-state''"
| "rule_name Rule_UnsupportedDecisive = ''unsupported-decisive''"
| "rule_name Rule_IncompleteDecisive = ''incomplete-decisive''"
| "rule_name Rule_StaleEvidence = ''stale-evidence''"
| "rule_name Rule_Healthy = ''healthy''"

record rule_evaluation =
  re_rule :: rule_id
  re_fired :: bool
  re_detail :: string

record family_report =
  rp_key :: metric_key
  rp_support :: support_state
  rp_freshness :: freshness
  rp_confidence :: confidence
  rp_completeness :: completeness
  rp_conflict :: conflict_state
  rp_contenders :: nat
  rp_sources :: nat
  rp_accepted :: u64
  rp_fenced :: u64
  rp_has_value :: bool
  rp_eligible :: bool
  rp_has_delta :: bool
  rp_has_derived :: bool
  rp_value_ppb :: u64
  rp_derived_ppb :: u64
  rp_derived_bps :: u64
  rp_derivation_fault :: derivation_fault
  rp_winner_source :: source_id
  rp_winner_provenance :: provenance_class
  rp_winner_observed_at :: time_point
  rp_winner_received_at :: time_point
  rp_value_text :: string
  rp_reset_count :: u64
  rp_wrap_count :: u64
  rp_has_ratio :: bool
  rp_ratio_ppb :: u64

definition empty_report :: family_report where
  "empty_report =
     \<lparr>rp_key = MetricKey MF_AdminState Dir_Unknown EC_None, rp_support = Sup_Unsupported,
      rp_freshness = Fr_Unknown, rp_confidence = Conf_Unknown, rp_completeness = Compl_Unknown,
      rp_conflict = CS_None, rp_contenders = 0, rp_sources = 0, rp_accepted = 0, rp_fenced = 0,
      rp_has_value = False, rp_eligible = False, rp_has_delta = False, rp_has_derived = False,
      rp_value_ppb = 0, rp_derived_ppb = 0, rp_derived_bps = 0, rp_derivation_fault = DF_None,
      rp_winner_source = id_zero, rp_winner_provenance = PC_Unknown, rp_winner_observed_at = 0,
      rp_winner_received_at = 0, rp_value_text = [], rp_reset_count = 0, rp_wrap_count = 0,
      rp_has_ratio = False, rp_ratio_ppb = 0\<rparr>"

record classification =
  cl_link :: link_id
  cl_state :: link_state
  cl_last_known_state :: link_state
  cl_has_last_known :: bool
  cl_decided_at :: time_point
  cl_generation :: generation_id
  cl_generation_changes :: u64
  cl_retired :: bool
  cl_freshness :: freshness
  cl_confidence :: confidence
  cl_completeness :: completeness
  cl_support :: support_state
  cl_any_evidence :: bool
  cl_any_eligible :: bool
  cl_decisive_unsupported :: bool
  cl_decisive_incomplete :: bool
  cl_families :: "family_report list"
  cl_rules :: "rule_evaluation list"
  cl_accepted_total :: u64
  cl_fenced_total :: u64
  cl_flap_events :: nat
  cl_transitions :: nat
  cl_dropped_transitions :: u64

definition empty_classification :: classification where
  "empty_classification =
     \<lparr>cl_link = id_zero, cl_state = LS_Unknown, cl_last_known_state = LS_Unknown,
      cl_has_last_known = False, cl_decided_at = 0, cl_generation = id_zero,
      cl_generation_changes = 0, cl_retired = False, cl_freshness = Fr_Unknown,
      cl_confidence = Conf_Unknown, cl_completeness = Compl_Unknown, cl_support = Sup_Unsupported,
      cl_any_evidence = False, cl_any_eligible = False, cl_decisive_unsupported = False,
      cl_decisive_incomplete = False, cl_families = [], cl_rules = [], cl_accepted_total = 0,
      cl_fenced_total = 0, cl_flap_events = 0, cl_transitions = 0, cl_dropped_transitions = 0\<rparr>"

record classification_input =
  ci_link :: link_id
  ci_entry :: "link_entry option"
  ci_current_generation :: generation_id
  ci_has_generation :: bool
  ci_generation_changes :: u64
  ci_policy :: "policy option"
  ci_store :: "evidence_store option"
  ci_transitions :: "transition_log option"
  ci_now :: time_point

record derived =
  dv_has_delta :: bool
  dv_delta :: u64
  dv_window :: duration
  dv_fault :: derivation_fault
  dv_has_utilization :: bool
  dv_utilization_ppb :: u64

definition empty_derived :: derived where
  "empty_derived =
     \<lparr>dv_has_delta = False, dv_delta = 0, dv_window = 0, dv_fault = DF_MissingPreviousSample,
      dv_has_utilization = False, dv_utilization_ppb = 0\<rparr>"

definition kOperKey :: metric_key where "kOperKey = MetricKey MF_OperState Dir_Unknown EC_None"
definition kAdminKey :: metric_key where "kAdminKey = MetricKey MF_AdminState Dir_Unknown EC_None"
definition kOctetsKey :: metric_key where "kOctetsKey = MetricKey MF_Octets Dir_In EC_None"

section \<open>Choosing between sources\<close>

definition ee_source :: "evaluated_evidence \<Rightarrow> source_id" where
  "ee_source c = prov_source (obs_provenance (ev_observation (ee_evidence c)))"

definition higher_priority :: "evaluated_evidence \<Rightarrow> evaluated_evidence \<Rightarrow> bool" where
  "higher_priority lhs rhs =
     (if ev_authority (ee_evidence lhs) \<noteq> ev_authority (ee_evidence rhs)
      then ev_authority (ee_evidence lhs) > ev_authority (ee_evidence rhs)
      else if obs_observed_at (ev_observation (ee_evidence lhs))
              \<noteq> obs_observed_at (ev_observation (ee_evidence rhs))
      then obs_observed_at (ev_observation (ee_evidence lhs))
           > obs_observed_at (ev_observation (ee_evidence rhs))
      else if obs_received_at (ev_observation (ee_evidence lhs))
              \<noteq> obs_received_at (ev_observation (ee_evidence rhs))
      then obs_received_at (ev_observation (ee_evidence lhs))
           > obs_received_at (ev_observation (ee_evidence rhs))
      else ee_source lhs < ee_source rhs)"

fun top_authority_loop :: "source_authority \<Rightarrow> evaluated_evidence list \<Rightarrow> source_authority" where
  "top_authority_loop best [] = best"
| "top_authority_loop best (c # cs) =
     top_authority_loop
       (if ee_eligible c \<and> ev_authority (ee_evidence c) > best
        then ev_authority (ee_evidence c) else best) cs"

definition top_authority :: "evaluated_evidence list \<Rightarrow> source_authority" where
  "top_authority cs = top_authority_loop SA_Unknown cs"

fun select_winner_loop ::
  "evaluated_evidence option \<Rightarrow> evaluated_evidence list \<Rightarrow> evaluated_evidence option" where
  "select_winner_loop best [] = best"
| "select_winner_loop best (c # cs) =
     (if \<not> ee_eligible c then select_winner_loop best cs
      else case best of
        None \<Rightarrow> select_winner_loop (Some c) cs
      | Some b \<Rightarrow>
          if higher_priority c b then select_winner_loop (Some c) cs
          else select_winner_loop best cs)"

definition select_winner :: "evaluated_evidence list \<Rightarrow> evaluated_evidence option" where
  "select_winner cs = select_winner_loop None cs"

definition relative_difference_ppb :: "u64 \<Rightarrow> u64 \<Rightarrow> u64" where
  "relative_difference_ppb lhs rhs =
     (let diff = (if lhs > rhs then lhs - rhs else rhs - lhs);
          scale = (if lhs > rhs then lhs else rhs)
      in if scale = 0 then 0
         else case ratio_ppb diff scale of None \<Rightarrow> 1000000000 | Some relative \<Rightarrow> relative)"

text \<open>The number a ratio or a quality reading carries; zero for any other alternative.\<close>

definition reading_ppb :: "metric_payload \<Rightarrow> u64" where
  "reading_ppb payload =
     (case payload of RatioReading ppb \<Rightarrow> ppb | QualityReading q \<Rightarrow> qr_value_ppb q | _ \<Rightarrow> 0)"

definition readings_disagree :: "metric_payload \<Rightarrow> metric_payload \<Rightarrow> u64 \<Rightarrow> bool" where
  "readings_disagree lhs rhs tolerance_ppb =
     (case lhs of
        AdminStateReading left \<Rightarrow>
          (case rhs of
             AdminStateReading right \<Rightarrow>
               left \<noteq> right \<and> left \<noteq> Admin_Unknown \<and> right \<noteq> Admin_Unknown
           | _ \<Rightarrow> False)
      | OperStateReading left \<Rightarrow>
          (case rhs of
             OperStateReading right \<Rightarrow>
               left \<noteq> right \<and> left \<noteq> Oper_Unknown \<and> right \<noteq> Oper_Unknown
           | _ \<Rightarrow> False)
      | _ \<Rightarrow>
          (case payload_difference_ppb lhs rhs of
             None \<Rightarrow> False
           | Some diff \<Rightarrow>
               relative_difference_ppb (reading_ppb lhs) (reading_ppb rhs) > tolerance_ppb))"

section \<open>Derived rates\<close>

definition sample_usable ::
  "counter_sample \<Rightarrow> time_point \<Rightarrow> freshness_policy \<Rightarrow> stream_state option \<Rightarrow> generation_id \<Rightarrow>
     bool \<Rightarrow> bool" where
  "sample_usable sample now fp stream current has_generation =
     (case stream of
        None \<Rightarrow> False
      | Some s \<Rightarrow>
          if \<not> ss_has_scope s \<or> smp_scope sample \<noteq> ss_scope s then False
          else if has_generation \<and> smp_generation sample \<noteq> current then False
          else classify_sample_freshness sample now fp \<noteq> Fr_Expired)"

definition derive_for ::
  "evidence_store \<Rightarrow> link_facts \<Rightarrow> link_id \<Rightarrow> metric_key \<Rightarrow> source_id \<Rightarrow> direction \<Rightarrow> policy \<Rightarrow>
     time_point \<Rightarrow> generation_id \<Rightarrow> bool \<Rightarrow> derived" where
  "derive_for store facts link key source dir p now current has_generation =
     (case continuity_of store link key source of
        None \<Rightarrow> empty_derived\<lparr>dv_fault := DF_MissingPreviousSample\<rparr>
      | Some continuity \<Rightarrow>
          if \<not> cc_has_latest continuity \<or> \<not> cc_has_previous continuity
          then empty_derived\<lparr>dv_fault := DF_MissingPreviousSample\<rparr>
          else
            let stream = stream_state_of store source;
                fp = freshness_policy_for p (key_family key);
                request = \<lparr>dq_previous = cc_previous continuity, dq_current = cc_latest continuity,
                           dq_has_previous = True,
                           dq_previous_usable =
                             sample_usable (cc_previous continuity) now fp stream current has_generation,
                           dq_current_usable =
                             sample_usable (cc_latest continuity) now fp stream current has_generation,
                           dq_capacity_bps = 0,
                           dq_max_window = derivation_window (pol_thresholds p)\<rparr>;
                delta = derive_delta request
            in if \<not> dl_valid delta then empty_derived\<lparr>dv_fault := dl_fault delta\<rparr>
               else
                 let d1 = empty_derived\<lparr>dv_has_delta := True, dv_delta := dl_delta delta,
                                        dv_window := dl_window delta, dv_fault := DF_None\<rparr>
                 in case capacity_for facts dir of
                      None \<Rightarrow> d1\<lparr>dv_fault := DF_MissingCapacity\<rparr>
                    | Some capacity \<Rightarrow>
                        (let utilization = derive_utilization (request\<lparr>dq_capacity_bps := capacity\<rparr>)
                         in if dr_valid utilization
                            then d1\<lparr>dv_has_utilization := True,
                                    dv_utilization_ppb := dr_utilization_ppb utilization\<rparr>
                            else d1\<lparr>dv_fault := dr_fault utilization\<rparr>))"

definition is_decisive_family :: "metric_family \<Rightarrow> bool" where
  "is_decisive_family family \<longleftrightarrow> family \<noteq> MF_FlapReport"

definition weakest :: "confidence \<Rightarrow> confidence \<Rightarrow> confidence" where
  "weakest lhs rhs = (if confidence_code lhs \<le> confidence_code rhs then lhs else rhs)"

primrec freshness_rank :: "freshness \<Rightarrow> int" where
  "freshness_rank Fr_Fresh = 3"
| "freshness_rank Fr_Stale = 2"
| "freshness_rank Fr_Expired = 1"
| "freshness_rank Fr_Unknown = 0"

definition strongest :: "freshness \<Rightarrow> freshness \<Rightarrow> freshness" where
  "strongest lhs rhs = (if freshness_rank lhs \<ge> freshness_rank rhs then lhs else rhs)"

section \<open>The report of one metric key\<close>

text \<open>
  The two nested loops over the contenders of the top authority. The state is the pair of flags
  \<^verbatim>\<open>conflicting\<close> and \<^verbatim>\<open>compared\<close>; the outer loop stops once a conflict is found.
\<close>

fun scan_right ::
  "(evaluated_evidence \<Rightarrow> evaluated_evidence \<Rightarrow> bool) \<Rightarrow> evaluated_evidence \<Rightarrow>
     evaluated_evidence list \<Rightarrow> bool \<times> bool \<Rightarrow> bool \<times> bool" where
  "scan_right disagree lhs [] flags = flags"
| "scan_right disagree lhs (rhs # rest) flags =
     (if ee_source lhs = ee_source rhs then scan_right disagree lhs rest flags
      else scan_right disagree lhs rest (fst flags \<or> disagree lhs rhs, True))"

fun scan_left ::
  "(evaluated_evidence \<Rightarrow> evaluated_evidence \<Rightarrow> bool) \<Rightarrow> evaluated_evidence list \<Rightarrow>
     bool \<times> bool \<Rightarrow> bool \<times> bool" where
  "scan_left disagree [] flags = flags"
| "scan_left disagree (lhs # rest) flags =
     (if fst flags then flags
      else scan_left disagree rest (scan_right disagree lhs rest flags))"

text \<open>
  The comparison of two contenders. For a counter family the left value is always the winner's
  derived rate, as in the code, whatever the left contender is.
\<close>

definition contenders_disagree ::
  "metric_key \<Rightarrow> policy \<Rightarrow> derived option \<Rightarrow> (source_id \<Rightarrow> derived) \<Rightarrow>
     evaluated_evidence \<Rightarrow> evaluated_evidence \<Rightarrow> bool" where
  "contenders_disagree key p left derived_for_source lhs rhs =
     (if is_counter_family (key_family key) then
        (let right = derived_for_source (ee_source rhs) in
         case left of
           None \<Rightarrow> False
         | Some l \<Rightarrow>
             dv_has_utilization l \<and> dv_has_utilization right
             \<and> relative_difference_ppb (dv_utilization_ppb l) (dv_utilization_ppb right)
               > conflict_tolerance_ppb (pol_thresholds p))
      else readings_disagree (obs_payload (ev_observation (ee_evidence lhs)))
             (obs_payload (ev_observation (ee_evidence rhs)))
             (conflict_tolerance_ppb (pol_thresholds p)))"

definition conflict_of ::
  "(evaluated_evidence \<Rightarrow> evaluated_evidence \<Rightarrow> bool) \<Rightarrow> evaluated_evidence list \<Rightarrow>
     source_authority \<Rightarrow> conflict_state" where
  "conflict_of disagree cs authority =
     (let top = filter (\<lambda>c. ee_eligible c \<and> ev_authority (ee_evidence c) = authority) cs in
      if length top < 2 then CS_Insufficient
      else
        let flags = scan_left disagree top (False, False)
        in if fst flags then CS_Conflicting else if snd flags then CS_Corroborated else CS_None)"

text \<open>What the loop over the keys produces for one key.\<close>

record key_result =
  kr_report :: family_report
  kr_contenders :: "evaluated_evidence list"
  kr_derived :: "derived option"
  kr_payload :: "metric_payload option"

text \<open>The slot's own numbers and the evidence it holds.\<close>

definition slot_report ::
  "evidence_store \<Rightarrow> link_id \<Rightarrow> metric_key \<Rightarrow> time_point \<Rightarrow> evaluated_evidence list \<Rightarrow> family_report" where
  "slot_report store link key now cs =
     (let r0 = empty_report\<lparr>rp_key := key\<rparr>;
          r1 = (case slot_view_of store link key now of
                  None \<Rightarrow> r0
                | Some view \<Rightarrow>
                    r0\<lparr>rp_accepted := sv_accepted view, rp_fenced := sv_fenced view,
                       rp_completeness := sv_completeness view,
                       rp_support := (if sv_accepted view > 0 then Sup_Supported else Sup_Unsupported)\<rparr>);
          srcs = fold (\<lambda>c ss. if ee_source c \<in> set ss then ss else ss @ [ee_source c]) cs []
      in r1\<lparr>rp_contenders := length cs, rp_sources := length srcs,
            rp_freshness := fold (\<lambda>c f. strongest f (ee_freshness c)) cs (rp_freshness r1)\<rparr>)"

text \<open>The fields the winner fills in.\<close>

definition winner_report :: "family_report \<Rightarrow> evaluated_evidence \<Rightarrow> family_report" where
  "winner_report r winner =
     (let e = ee_evidence winner;
          o1 = ev_observation e
      in r\<lparr>rp_has_value := True, rp_eligible := True,
           rp_winner_source := prov_source (obs_provenance o1),
           rp_winner_provenance := ev_provenance e,
           rp_winner_observed_at := obs_observed_at o1,
           rp_winner_received_at := obs_received_at o1,
           rp_value_text := format_payload (obs_payload o1),
           rp_value_ppb := (case obs_payload o1 of
                              RatioReading ppb \<Rightarrow> ppb
                            | QualityReading q \<Rightarrow> qr_value_ppb q
                            | _ \<Rightarrow> rp_value_ppb r)\<rparr>)"

definition counter_report ::
  "family_report \<Rightarrow> derived \<Rightarrow> counter_continuity option \<Rightarrow> family_report" where
  "counter_report r d continuity =
     (let r1 = r\<lparr>rp_has_delta := dv_has_delta d, rp_has_derived := dv_has_utilization d,
                 rp_derived_ppb := (if dv_has_utilization d then dv_utilization_ppb d else 0),
                 rp_derivation_fault := dv_fault d\<rparr>
      in case continuity of
           None \<Rightarrow> r1
         | Some c \<Rightarrow> r1\<lparr>rp_reset_count := cc_reset_count c, rp_wrap_count := cc_wrap_count c\<rparr>)"

definition key_report ::
  "evidence_store \<Rightarrow> policy \<Rightarrow> link_facts \<Rightarrow> link_id \<Rightarrow> evaluation_context \<Rightarrow> metric_key \<Rightarrow> key_result" where
  "key_report store p facts link ctx key =
     (let cs = contenders store link key ctx;
          derived_for_source =
            (\<lambda>source. derive_for store facts link key source (key_direction key) p (ec_now ctx)
                        (ec_current_generation ctx) (ec_has_generation ctx));
          r1 = slot_report store link key (ec_now ctx) cs
      in case select_winner cs of
           None \<Rightarrow> \<lparr>kr_report = r1, kr_contenders = cs, kr_derived = None, kr_payload = None\<rparr>
         | Some winner \<Rightarrow>
             let r2 = winner_report r1 winner;
                 dv = (if is_counter_family (key_family key)
                       then Some (derived_for_source (rp_winner_source r2)) else None);
                 r3 = (case dv of
                         None \<Rightarrow> r2
                       | Some d \<Rightarrow> counter_report r2 d (continuity_of store link key (rp_winner_source r2)));
                 authority = top_authority cs;
                 r4 = (if rp_has_value r3 \<and> authority \<noteq> SA_Unknown
                       then r3\<lparr>rp_conflict :=
                               conflict_of (contenders_disagree key p dv derived_for_source) cs authority\<rparr>
                       else r3);
                 r5 = r4\<lparr>rp_confidence :=
                          derive_confidence (ev_authority (ee_evidence winner)) (ee_freshness winner)
                            (rp_conflict r4) (rp_completeness r4)\<rparr>
             in \<lparr>kr_report = r5, kr_contenders = cs, kr_derived = dv,
                 kr_payload = Some (obs_payload (ev_observation (ee_evidence winner)))\<rparr>)"

text \<open>The keys reported for a link: those with evidence and the three always reported.\<close>

definition ensure_key :: "metric_key \<Rightarrow> metric_key list \<Rightarrow> metric_key list" where
  "ensure_key key keys = (if key \<in> set keys then keys else keys @ [key])"

definition report_keys :: "evidence_store \<Rightarrow> link_id \<Rightarrow> metric_key list" where
  "report_keys store link =
     sort (ensure_key kOctetsKey (ensure_key kAdminKey (ensure_key kOperKey (keys_for store link))))"

section \<open>Indicators over all keys\<close>

text \<open>Lookups in the maps the loop filled, by key.\<close>

definition derived_at :: "key_result list \<Rightarrow> metric_key \<Rightarrow> derived option" where
  "derived_at ks key =
     (case find (\<lambda>k. rp_key (kr_report k) = key \<and> kr_derived k \<noteq> None) ks of
        None \<Rightarrow> None | Some k \<Rightarrow> kr_derived k)"

definition payload_at :: "key_result list \<Rightarrow> metric_key \<Rightarrow> metric_payload option" where
  "payload_at ks key =
     (case find (\<lambda>k. rp_key (kr_report k) = key \<and> kr_payload k \<noteq> None) ks of
        None \<Rightarrow> None | Some k \<Rightarrow> kr_payload k)"

definition report_at :: "key_result list \<Rightarrow> metric_key \<Rightarrow> family_report option" where
  "report_at ks key = map_option kr_report (find (\<lambda>k. rp_key (kr_report k) = key) ks)"

definition eligible_at :: "key_result list \<Rightarrow> metric_key \<Rightarrow> bool" where
  "eligible_at ks key = (case report_at ks key of None \<Rightarrow> False | Some r \<Rightarrow> rp_eligible r)"

definition oper_value :: "key_result list \<Rightarrow> oper_state_value" where
  "oper_value ks =
     (case (if eligible_at ks kOperKey then payload_at ks kOperKey else None) of
        Some (OperStateReading v) \<Rightarrow> v | _ \<Rightarrow> Oper_Unknown)"

definition admin_value :: "key_result list \<Rightarrow> admin_state_value" where
  "admin_value ks =
     (case (if eligible_at ks kAdminKey then payload_at ks kAdminKey else None) of
        Some (AdminStateReading v) \<Rightarrow> v | _ \<Rightarrow> Admin_Unknown)"

fun conflict_scan :: "family_report list \<Rightarrow> bool \<times> string \<Rightarrow> bool \<times> string" where
  "conflict_scan [] acc = acc"
| "conflict_scan (r # rs) acc =
     conflict_scan rs
       (if rp_conflict r = CS_Conflicting
        then (True, if snd acc = [] then metric_key_to_string (rp_key r) else snd acc)
        else acc)"

definition flap_event_count ::
  "transition_log option \<Rightarrow> policy \<Rightarrow> link_id \<Rightarrow> time_point \<Rightarrow> nat" where
  "flap_event_count log p link now =
     (case log of
        None \<Rightarrow> 0
      | Some l \<Rightarrow>
          (let window_start = (case advance now (- flap_window (pol_thresholds p)) of
                                 Some t \<Rightarrow> t | None \<Rightarrow> 0)
           in length (filter (\<lambda>e. \<not> te_at e < window_start
                                   \<and> (te_kind e = TK_AdminStateChanged \<or> te_kind e = TK_OperStateChanged))
                        (for_link l link (max_result_rows (pol_limits p))))))"

fun reported_flaps :: "key_result list \<Rightarrow> key_result list \<Rightarrow> bool \<times> u64 \<Rightarrow> bool \<times> u64" where
  "reported_flaps all [] acc = acc"
| "reported_flaps all (k # ks) acc =
     (let r = kr_report k in
      if key_family (rp_key r) \<noteq> MF_FlapReport \<or> \<not> rp_has_value r then reported_flaps all ks acc
      else case payload_at all (rp_key r) of
        Some (FlapReading f) \<Rightarrow>
          reported_flaps all ks (True, if fl_events f > snd acc then fl_events f else snd acc)
      | _ \<Rightarrow> reported_flaps all ks acc)"

fun reported_util :: "family_report list \<Rightarrow> bool \<times> u64 \<Rightarrow> bool \<times> u64" where
  "reported_util [] acc = acc"
| "reported_util (r # rs) acc =
     (if key_family (rp_key r) \<noteq> MF_UtilReported \<or> \<not> rp_has_value r then reported_util rs acc
      else if rp_eligible r
      then reported_util rs (True, if rp_value_ppb r > snd acc then rp_value_ppb r else snd acc)
      else reported_util rs acc)"

text \<open>Whether a utilization was derived for some octet key, the largest one, and the fault.\<close>

fun derived_util ::
  "key_result list \<Rightarrow> key_result list \<Rightarrow> bool \<times> u64 \<times> derivation_fault \<Rightarrow>
     bool \<times> u64 \<times> derivation_fault" where
  "derived_util all [] acc = acc"
| "derived_util all (k # ks) (present, ppb, fault) =
     (let r = kr_report k in
      if key_family (rp_key r) \<noteq> MF_Octets \<or> \<not> rp_has_value r
      then derived_util all ks (present, ppb, fault)
      else case derived_at all (rp_key r) of
        None \<Rightarrow> derived_util all ks (present, ppb, fault)
      | Some d \<Rightarrow>
          if dv_has_utilization d
          then derived_util all ks
                 (True, if dv_utilization_ppb d > ppb then dv_utilization_ppb d else ppb, DF_None)
          else if \<not> present then derived_util all ks (present, ppb, dv_fault d)
          else derived_util all ks (present, ppb, fault))"

text \<open>The inbound octet delta and its window, the denominator of the error ratios.\<close>

fun octet_reference :: "key_result list \<Rightarrow> key_result list \<Rightarrow> (u64 \<times> duration) option" where
  "octet_reference all [] = None"
| "octet_reference all (k # ks) =
     (let r = kr_report k in
      if key_family (rp_key r) \<noteq> MF_Octets \<or> key_direction (rp_key r) \<noteq> Dir_In \<or> \<not> rp_has_value r
      then octet_reference all ks
      else case derived_at all (rp_key r) of
        None \<Rightarrow> octet_reference all ks
      | Some d \<Rightarrow>
          if dv_has_delta d then Some (dv_delta d, dv_window d) else octet_reference all ks)"

definition ratio_for ::
  "key_result list \<Rightarrow> (u64 \<times> duration) option \<Rightarrow> family_report \<Rightarrow> u64 option" where
  "ratio_for all octets r =
     (if key_family (rp_key r) \<noteq> MF_Errors \<and> key_family (rp_key r) \<noteq> MF_Discards then None
      else case derived_at all (rp_key r) of
        None \<Rightarrow> None
      | Some d \<Rightarrow>
          if \<not> dv_has_delta d then None
          else case octets of
            None \<Rightarrow> None
          | Some (delta, window) \<Rightarrow>
              if window = dv_window d then Counter_Tracker.ratio_ppb (dv_delta d) delta else None)"

record ratio_scan =
  rs_families :: "family_report list"
  rs_error :: "u64 option"
  rs_discard :: "u64 option"

text \<open>The ratio pass: a later ratio of the same kind replaces an earlier one.\<close>

fun ratio_pass ::
  "key_result list \<Rightarrow> (u64 \<times> duration) option \<Rightarrow> family_report list \<Rightarrow> ratio_scan \<Rightarrow> ratio_scan" where
  "ratio_pass all octets [] acc = acc"
| "ratio_pass all octets (r # rs) acc =
     (case ratio_for all octets r of
        None \<Rightarrow> ratio_pass all octets rs (acc\<lparr>rs_families := rs_families acc @ [r]\<rparr>)
      | Some ratio \<Rightarrow>
          (let acc1 = acc\<lparr>rs_families :=
                           rs_families acc @ [r\<lparr>rp_has_ratio := True, rp_ratio_ppb := ratio\<rparr>]\<rparr>
           in ratio_pass all octets rs
                (if key_family (rp_key r) = MF_Errors then acc1\<lparr>rs_error := Some ratio\<rparr>
                 else acc1\<lparr>rs_discard := Some ratio\<rparr>)))"

text \<open>Present, worst value, degradation declared. A worst value of zero counts as not set yet.\<close>

fun quality_scan ::
  "key_result list \<Rightarrow> key_result list \<Rightarrow> bool \<times> u64 \<times> bool \<Rightarrow> bool \<times> u64 \<times> bool" where
  "quality_scan all [] acc = acc"
| "quality_scan all (k # ks) (present, worst, degraded) =
     (let r = kr_report k in
      if key_family (rp_key r) \<noteq> MF_SignalQuality \<or> \<not> rp_has_value r \<or> \<not> rp_eligible r
      then quality_scan all ks (present, worst, degraded)
      else case payload_at all (rp_key r) of
        Some (QualityReading q) \<Rightarrow>
          quality_scan all ks
            (True, if worst = 0 \<or> qr_value_ppb q < worst then qr_value_ppb q else worst,
             degraded \<or> qr_degraded_declared q)
      | _ \<Rightarrow> quality_scan all ks (present, worst, degraded))"

fun decisive_scan :: "family_report list \<Rightarrow> bool \<times> bool \<Rightarrow> bool \<times> bool" where
  "decisive_scan [] acc = acc"
| "decisive_scan (r # rs) (incomplete, unsupported) =
     (if \<not> is_decisive_family (key_family (rp_key r)) \<or> key_direction (rp_key r) = Dir_Both
      then decisive_scan rs (incomplete, unsupported)
      else if rp_support r = Sup_Unsupported
      then decisive_scan rs (incomplete, unsupported \<or> key_family (rp_key r) = MF_OperState)
      else decisive_scan rs (incomplete \<or> rp_completeness r = Compl_Incomplete, unsupported))"

section \<open>Rules and state\<close>

text \<open>The conditions the rules and the state selection test, with the numbers the details print.\<close>

record signals =
  sg_no_evidence :: bool
  sg_any_conflict :: bool
  sg_oper_down :: bool
  sg_admin_disabled :: bool
  sg_flapping :: bool
  sg_source_flapping :: bool
  sg_erroring :: bool
  sg_saturated_derived :: bool
  sg_saturated_reported :: bool
  sg_quality_degraded :: bool
  sg_degraded_discards :: bool
  sg_degraded_oper :: bool
  sg_decisive_unsupported :: bool
  sg_decisive_incomplete :: bool
  sg_stale_evidence :: bool
  sg_healthy :: bool
  sg_conflict_detail :: string
  sg_flap_events :: nat
  sg_reported_flap_events :: u64
  sg_error_ratio :: u64
  sg_derived_util_ppb :: u64
  sg_reported_util_ppb :: u64
  sg_worst_quality :: u64
  sg_discard_ratio :: u64
  sg_derived_fault :: derivation_fault

definition option_or_zero :: "u64 option \<Rightarrow> u64" where
  "option_or_zero v = (case v of None \<Rightarrow> 0 | Some x \<Rightarrow> x)"

definition any_evidence :: "key_result list \<Rightarrow> bool" where
  "any_evidence ks = list_ex (\<lambda>k. kr_contenders k \<noteq> []) ks"

definition any_eligible :: "key_result list \<Rightarrow> bool" where
  "any_eligible ks = list_ex (\<lambda>k. list_ex ee_eligible (kr_contenders k)) ks"

definition ratios_of :: "key_result list \<Rightarrow> ratio_scan" where
  "ratios_of ks =
     ratio_pass ks (octet_reference ks ks) (map kr_report ks)
       \<lparr>rs_families = [], rs_error = None, rs_discard = None\<rparr>"

definition signals_of :: "policy \<Rightarrow> key_result list \<Rightarrow> nat \<Rightarrow> signals" where
  "signals_of p ks flaps =
     (let th = pol_thresholds p;
          families = map kr_report ks;
          (conflict, detail) = conflict_scan families (False, []);
          (flap_reported, flap_count) = reported_flaps ks ks (False, 0);
          (util_eligible, util_ppb) = reported_util families (False, 0);
          (derived_present, derived_ppb, fault) = derived_util ks ks (False, 0, DF_MissingPreviousSample);
          ratios = ratios_of ks;
          (quality_present, worst, declared) = quality_scan ks ks (False, 0, False);
          (incomplete, unsupported) = decisive_scan families (False, False);
          oper_eligible = eligible_at ks kOperKey;
          oper_down = (oper_eligible \<and> oper_value ks = Oper_Down);
          admin_disabled = (eligible_at ks kAdminKey \<and> admin_value ks = Admin_Disabled);
          flapping = (flaps \<ge> unat (flap_threshold th));
          source_flapping = (flap_reported \<and> flap_count \<ge> ucast (flap_threshold th));
          erroring = (rs_error ratios \<noteq> None \<and> option_or_zero (rs_error ratios) \<ge> error_ratio_ppb th);
          saturated_reported = (util_eligible \<and> util_ppb \<ge> saturation_ppb th);
          saturated_derived = (derived_present \<and> derived_ppb \<ge> saturation_ppb th);
          degraded_discards =
            (rs_discard ratios \<noteq> None \<and> option_or_zero (rs_discard ratios) \<ge> discard_ratio_ppb th);
          degraded_oper = (oper_eligible \<and> oper_value ks = Oper_Degraded);
          quality_degraded = (declared \<or> quality_present \<and> worst \<le> degraded_quality_ppb th);
          healthy = (oper_eligible \<and> oper_value ks = Oper_Up \<and> \<not> conflict \<and> \<not> erroring
                     \<and> \<not> saturated_reported \<and> \<not> saturated_derived \<and> \<not> quality_degraded
                     \<and> \<not> degraded_discards \<and> \<not> degraded_oper \<and> \<not> flapping \<and> \<not> source_flapping
                     \<and> \<not> incomplete \<and> \<not> unsupported)
      in \<lparr>sg_no_evidence = \<not> any_evidence ks, sg_any_conflict = conflict, sg_oper_down = oper_down,
          sg_admin_disabled = admin_disabled, sg_flapping = flapping,
          sg_source_flapping = source_flapping, sg_erroring = erroring,
          sg_saturated_derived = saturated_derived, sg_saturated_reported = saturated_reported,
          sg_quality_degraded = quality_degraded, sg_degraded_discards = degraded_discards,
          sg_degraded_oper = degraded_oper, sg_decisive_unsupported = unsupported,
          sg_decisive_incomplete = incomplete,
          sg_stale_evidence = (any_evidence ks \<and> \<not> any_eligible ks), sg_healthy = healthy,
          sg_conflict_detail = detail, sg_flap_events = flaps, sg_reported_flap_events = flap_count,
          sg_error_ratio = option_or_zero (rs_error ratios), sg_derived_util_ppb = derived_ppb,
          sg_reported_util_ppb = util_ppb, sg_worst_quality = worst,
          sg_discard_ratio = option_or_zero (rs_discard ratios), sg_derived_fault = fault\<rparr>)"

definition add_rule ::
  "rule_id \<Rightarrow> bool \<Rightarrow> string \<Rightarrow> rule_evaluation list \<Rightarrow> rule_evaluation list" where
  "add_rule rule fired detail rules = rules @ [\<lparr>re_rule = rule, re_fired = fired, re_detail = detail\<rparr>]"

definition when_text :: "bool \<Rightarrow> string \<Rightarrow> string" where
  "when_text c text = (if c then text else [])"

definition rules_of :: "policy \<Rightarrow> signals \<Rightarrow> rule_evaluation list" where
  "rules_of p sg =
     (let rules = fold (\<lambda>(rule, fired, detail). add_rule rule fired detail)
        [(Rule_NoEvidence, sg_no_evidence sg, when_text (sg_no_evidence sg) ''no accepted evidence''),
         (Rule_SourceConflict, sg_any_conflict sg, sg_conflict_detail sg),
         (Rule_OperDown, sg_oper_down sg, when_text (sg_oper_down sg) ''operational state down''),
         (Rule_AdminDisabled, sg_admin_disabled sg,
            when_text (sg_admin_disabled sg) ''administrative state disabled''),
         (Rule_Flapping, sg_flapping sg,
            when_text (sg_flapping sg) (''observed transitions='' @ to_dec (of_nat (sg_flap_events sg)))),
         (Rule_SourceFlapReport, sg_source_flapping sg,
            when_text (sg_source_flapping sg)
              (''reported flap events='' @ to_dec (sg_reported_flap_events sg))),
         (Rule_Erroring, sg_erroring sg,
            when_text (sg_erroring sg) (''error ratio ppb='' @ to_dec (sg_error_ratio sg))),
         (Rule_SaturatedDerived, sg_saturated_derived sg,
            when_text (sg_saturated_derived sg)
              (''derived utilization ppb='' @ to_dec (sg_derived_util_ppb sg))),
         (Rule_SaturatedReported, sg_saturated_reported sg,
            when_text (sg_saturated_reported sg)
              (''reported utilization ppb='' @ to_dec (sg_reported_util_ppb sg))),
         (Rule_DegradedQuality, sg_quality_degraded sg,
            when_text (sg_quality_degraded sg)
              (''quality ppb='' @ to_dec (sg_worst_quality sg) @ '' threshold ppb=''
               @ to_dec (degraded_quality_ppb (pol_thresholds p)))),
         (Rule_DegradedDiscards, sg_degraded_discards sg,
            when_text (sg_degraded_discards sg) (''discard ratio ppb='' @ to_dec (sg_discard_ratio sg))),
         (Rule_DegradedOperState, sg_degraded_oper sg,
            when_text (sg_degraded_oper sg) ''operational state degraded''),
         (Rule_UnsupportedDecisive, sg_decisive_unsupported sg,
            when_text (sg_decisive_unsupported sg) ''a required metric family has no source''),
         (Rule_IncompleteDecisive, sg_decisive_incomplete sg,
            when_text (sg_decisive_incomplete sg)
              (''revision gap within the derivation window; derivation-fault=''
               @ derivation_fault_to_string (sg_derived_fault sg))),
         (Rule_StaleEvidence, sg_stale_evidence sg,
            when_text (sg_stale_evidence sg) ''accepted evidence is no longer usable''),
         (Rule_Healthy, sg_healthy sg,
            when_text (sg_healthy sg) ''operational state up, no adverse indicator'')] []
      in sort_key (\<lambda>r. rule_code (re_rule r)) rules)"

definition select_state :: "signals \<Rightarrow> link_state" where
  "select_state sg =
     (if sg_no_evidence sg then LS_Unknown
      else if sg_any_conflict sg then LS_Conflicting
      else if sg_oper_down sg \<or> sg_admin_disabled sg then LS_Down
      else if sg_flapping sg \<or> sg_source_flapping sg then LS_Flapping
      else if sg_erroring sg then LS_Erroring
      else if sg_saturated_reported sg \<or> sg_saturated_derived sg then LS_Saturated
      else if sg_quality_degraded sg \<or> sg_degraded_discards sg \<or> sg_degraded_oper sg then LS_Degraded
      else if sg_decisive_unsupported sg \<or> sg_decisive_incomplete sg then LS_Unknown
      else if sg_stale_evidence sg then LS_Stale
      else if sg_healthy sg then LS_Healthy
      else LS_Unknown)"

definition link_freshness :: "family_report list \<Rightarrow> freshness" where
  "link_freshness families =
     (let any_fresh = list_ex (\<lambda>r. rp_freshness r = Fr_Fresh) families;
          any_stale = list_ex (\<lambda>r. rp_freshness r = Fr_Stale) families;
          any_expired = list_ex (\<lambda>r. rp_freshness r = Fr_Expired) families
      in if any_fresh then Fr_Fresh
         else if any_stale then Fr_Stale
         else if any_expired then Fr_Expired
         else Fr_Unknown)"

fun confidence_scan :: "family_report list \<Rightarrow> confidence option \<Rightarrow> confidence option" where
  "confidence_scan [] acc = acc"
| "confidence_scan (r # rs) acc =
     (if \<not> is_decisive_family (key_family (rp_key r)) \<or> \<not> rp_has_value r then confidence_scan rs acc
      else confidence_scan rs
             (Some (case acc of None \<Rightarrow> rp_confidence r | Some a \<Rightarrow> weakest a (rp_confidence r))))"

text \<open>The newest recorded classification change decides the last known state.\<close>

fun last_known_loop :: "transition_event list \<Rightarrow> link_state option" where
  "last_known_loop [] = None"
| "last_known_loop (e # es) =
     (if te_kind e \<noteq> TK_ClassificationChanged then last_known_loop es
      else parse_link_state (te_to e))"

definition last_known :: "transition_log option \<Rightarrow> policy \<Rightarrow> link_id \<Rightarrow> link_state option" where
  "last_known log p link =
     (case log of
        None \<Rightarrow> None
      | Some l \<Rightarrow> last_known_loop (rev (for_link l link (max_result_rows (pol_limits p)))))"

definition evaluation_context_of :: "classification_input \<Rightarrow> evaluation_context" where
  "evaluation_context_of input =
     \<lparr>ec_now = ci_now input, ec_current_generation = ci_current_generation input,
      ec_has_generation = id_valid (ci_current_generation input)\<rparr>"

definition input_facts :: "classification_input \<Rightarrow> link_facts" where
  "input_facts input = (case ci_entry input of None \<Rightarrow> empty_link_facts | Some e \<Rightarrow> le_facts e)"

definition key_results :: "classification_input \<Rightarrow> policy \<Rightarrow> evidence_store \<Rightarrow> key_result list" where
  "key_results input p store =
     map (key_report store p (input_facts input) (ci_link input) (evaluation_context_of input))
       (report_keys store (ci_link input))"

definition input_signals :: "classification_input \<Rightarrow> policy \<Rightarrow> evidence_store \<Rightarrow> signals" where
  "input_signals input p store =
     signals_of p (key_results input p store)
       (flap_event_count (ci_transitions input) p (ci_link input) (ci_now input))"

definition classify :: "classification_input \<Rightarrow> classification" where
  "classify input =
     (let out0 = empty_classification\<lparr>cl_link := ci_link input, cl_decided_at := ci_now input,
                   cl_generation := ci_current_generation input,
                   cl_generation_changes := ci_generation_changes input,
                   cl_retired := (case ci_entry input of None \<Rightarrow> False | Some e \<Rightarrow> le_retired e)\<rparr>
      in case ci_policy input of
           None \<Rightarrow> out0
         | Some p \<Rightarrow>
             (case ci_store input of
                None \<Rightarrow> out0
              | Some store \<Rightarrow>
                  let out1 = (case ci_entry input of
                                None \<Rightarrow> out0
                              | Some e \<Rightarrow> out0\<lparr>cl_accepted_total := le_accepted_observations e,
                                               cl_fenced_total := le_fenced_observations e\<rparr>);
                      ks = key_results input p store;
                      sg = input_signals input p store;
                      families = rs_families (ratios_of ks);
                      out2 = out1\<lparr>cl_any_evidence := any_evidence ks, cl_any_eligible := any_eligible ks,
                                  cl_families := families, cl_flap_events := sg_flap_events sg\<rparr>;
                      out3 = (case ci_transitions input of
                                None \<Rightarrow> out2
                              | Some l \<Rightarrow> out2\<lparr>cl_transitions := events_for l (ci_link input),
                                               cl_dropped_transitions := tl_dropped l\<rparr>);
                      out4 = out3\<lparr>cl_rules := rules_of p sg, cl_state := select_state sg,
                                  cl_decisive_incomplete := sg_decisive_incomplete sg,
                                  cl_decisive_unsupported := sg_decisive_unsupported sg,
                                  cl_support :=
                                    (case report_at ks kOperKey of
                                       None \<Rightarrow> Sup_Unsupported
                                     | Some r \<Rightarrow> if rp_support r = Sup_Supported then Sup_Supported
                                                 else Sup_Unsupported),
                                  cl_freshness := (if any_evidence ks then link_freshness families
                                                   else Fr_Unknown),
                                  cl_completeness :=
                                    (if \<not> any_evidence ks then Compl_Unknown
                                     else if sg_decisive_incomplete sg then Compl_Incomplete
                                     else Compl_Complete),
                                  cl_confidence := (case confidence_scan families None of
                                                      None \<Rightarrow> Conf_Unknown | Some c \<Rightarrow> c)\<rparr>
                  in case last_known (ci_transitions input) p (ci_link input) of
                       None \<Rightarrow> out4
                     | Some st \<Rightarrow> out4\<lparr>cl_last_known_state := st, cl_has_last_known := True\<rparr>))"

definition find_report :: "classification \<Rightarrow> metric_family \<Rightarrow> direction \<Rightarrow> family_report option" where
  "find_report c family dir =
     find (\<lambda>r. key_family (rp_key r) = family \<and> key_direction (rp_key r) = dir) (cl_families c)"

definition classification_changed :: "classification \<Rightarrow> classification \<Rightarrow> bool" where
  "classification_changed previous current \<longleftrightarrow> cl_state previous \<noteq> cl_state current"

section \<open>The winner\<close>

lemma higher_priority_irrefl: "\<not> higher_priority c c"
  by (simp add: higher_priority_def)

lemma higher_priority_asym: "higher_priority a b \<Longrightarrow> \<not> higher_priority b a"
  by (auto simp: higher_priority_def split: if_splits)

lemma not_higher_trans:
  "\<not> higher_priority a b \<Longrightarrow> \<not> higher_priority b c \<Longrightarrow> \<not> higher_priority a c"
  by (auto simp: higher_priority_def not_less split: if_splits)

lemma higher_priority_total: "ee_source a \<noteq> ee_source b \<Longrightarrow> higher_priority a b \<or> higher_priority b a"
  by (auto simp: higher_priority_def)

lemma select_winner_loop_spec:
  "case select_winner_loop best cs of
     None \<Rightarrow> best = None \<and> (\<forall>c \<in> set cs. \<not> ee_eligible c)
   | Some w \<Rightarrow>
       (Some w = best \<or> w \<in> set cs \<and> ee_eligible w)
       \<and> (\<forall>b. best = Some b \<longrightarrow> \<not> higher_priority b w)
       \<and> (\<forall>c \<in> set cs. ee_eligible c \<longrightarrow> \<not> higher_priority c w)"
proof (induction cs arbitrary: best)
  case Nil
  then show ?case by (cases best) (auto simp: higher_priority_irrefl)
next
  case (Cons c cs)
  show ?case
  proof (cases "ee_eligible c \<and> (\<forall>b. best = Some b \<longrightarrow> higher_priority c b)")
    case True
    then have step: "select_winner_loop best (c # cs) = select_winner_loop (Some c) cs"
      by (auto split: option.splits)
    show ?thesis
    proof (cases "select_winner_loop (Some c) cs")
      case None
      with Cons.IH [of "Some c"] show ?thesis by simp
    next
      case (Some w)
      have "\<not> higher_priority b w" if "best = Some b" for b
        using Cons.IH [of "Some c"] True that Some not_higher_trans [of b c w] higher_priority_asym by auto
      with Cons.IH [of "Some c"] Some True show ?thesis unfolding step by auto
    qed
  next
    case False
    then have step: "select_winner_loop best (c # cs) = select_winner_loop best cs"
      by (auto split: option.splits)
    show ?thesis
    proof (cases "select_winner_loop best cs")
      case None
      with Cons.IH [of best] False show ?thesis unfolding step by auto
    next
      case (Some w)
      have "\<not> higher_priority c w" if "ee_eligible c"
        using Cons.IH [of best] False that Some not_higher_trans [of c _ w] by auto
      with Cons.IH [of best] Some show ?thesis unfolding step by auto
    qed
  qed
qed

lemma select_winner_SomeD:
  assumes "select_winner cs = Some w"
  shows "w \<in> set cs" "ee_eligible w" "\<And>c. c \<in> set cs \<Longrightarrow> ee_eligible c \<Longrightarrow> \<not> higher_priority c w"
  using select_winner_loop_spec [of None cs] assms by (auto simp: select_winner_def)

lemma select_winner_None_iff: "select_winner cs = None \<longleftrightarrow> (\<forall>c \<in> set cs. \<not> ee_eligible c)"
  using select_winner_loop_spec [of None cs]
  by (auto simp: select_winner_def split: option.splits)

text \<open>With one contender per source the winner does not depend on the order of the contenders.\<close>

lemma select_winner_unique:
  assumes "distinct (map ee_source cs)" and "w \<in> set cs" and "ee_eligible w"
    and "\<And>c. c \<in> set cs \<Longrightarrow> ee_eligible c \<Longrightarrow> \<not> higher_priority c w"
  shows "select_winner cs = Some w"
proof -
  obtain v where v: "select_winner cs = Some v"
    using assms(2,3) select_winner_None_iff [of cs] by (cases "select_winner cs") auto
  note vD = select_winner_SomeD [OF v]
  have "ee_source v = ee_source w"
    using higher_priority_total assms vD by blast
  with assms(1,2) vD(1) have "v = w" by (auto simp: distinct_map inj_on_def)
  with v show ?thesis by simp
qed

lemma select_winner_perm:
  assumes "distinct (map ee_source cs)" and "distinct (map ee_source cs')" and "set cs = set cs'"
  shows "select_winner cs = select_winner cs'"
proof (cases "select_winner cs")
  case None
  then have "select_winner cs' = None" using assms(3) by (simp add: select_winner_None_iff)
  with None show ?thesis by simp
next
  case (Some w)
  note wD = select_winner_SomeD [OF Some]
  have "select_winner cs' = Some w"
    using wD assms(3) by (intro select_winner_unique [OF assms(2)]) auto
  with Some show ?thesis by simp
qed

text \<open>The winner has the top authority among the eligible contenders.\<close>

lemma top_authority_ge:
  "best \<le> top_authority_loop best cs
   \<and> (\<forall>c \<in> set cs. ee_eligible c \<longrightarrow> ev_authority (ee_evidence c) \<le> top_authority_loop best cs)
   \<and> (top_authority_loop best cs = best
      \<or> (\<exists>c \<in> set cs. ee_eligible c \<and> ev_authority (ee_evidence c) = top_authority_loop best cs))"
proof (induction cs arbitrary: best)
  case (Cons c cs)
  let ?b = "if ee_eligible c \<and> ev_authority (ee_evidence c) > best then ev_authority (ee_evidence c) else best"
  show ?case using Cons.IH [of ?b] by (auto split: if_splits)
qed simp

lemma winner_authority:
  assumes "select_winner cs = Some w"
  shows "ev_authority (ee_evidence w) = top_authority cs"
proof -
  note wD = select_winner_SomeD [OF assms]
  have le: "ev_authority (ee_evidence w) \<le> top_authority cs"
    using top_authority_ge [of SA_Unknown cs] wD(1,2) by (simp add: top_authority_def)
  have "\<exists>c \<in> set cs. ee_eligible c \<and> ev_authority (ee_evidence c) = top_authority cs"
  proof (rule ccontr)
    assume no: "\<not> ?thesis"
    then have "top_authority cs = SA_Unknown"
      using top_authority_ge [of SA_Unknown cs] by (auto simp: top_authority_def)
    moreover have "ev_authority (ee_evidence w) = SA_Unknown"
      using le calculation
      by (cases "ev_authority (ee_evidence w)") (simp_all add: less_eq_source_authority_def)
    ultimately show False using no wD(1,2) by auto
  qed
  then obtain c where c: "c \<in> set cs" "ee_eligible c" "ev_authority (ee_evidence c) = top_authority cs"
    by blast
  have "\<not> ev_authority (ee_evidence c) > ev_authority (ee_evidence w)"
    using wD(3) [OF c(1,2)] by (auto simp: higher_priority_def split: if_splits)
  with c(3) le show ?thesis by simp
qed

section \<open>Conflicts between sources\<close>

lemma scan_right_spec:
  "scan_right disagree lhs rs flags =
     (fst flags \<or> (\<exists>r \<in> set rs. ee_source lhs \<noteq> ee_source r \<and> disagree lhs r),
      snd flags \<or> (\<exists>r \<in> set rs. ee_source lhs \<noteq> ee_source r))"
  by (induction rs arbitrary: flags) (auto simp: prod_eq_iff)

text \<open>Two positions of a list, the first before the second.\<close>

primrec ordered_pair :: "('a \<Rightarrow> 'a \<Rightarrow> bool) \<Rightarrow> 'a list \<Rightarrow> bool" where
  "ordered_pair P [] = False"
| "ordered_pair P (x # xs) = ((\<exists>y \<in> set xs. P x y) \<or> ordered_pair P xs)"

lemma ordered_pair_symmetric:
  assumes "\<And>x y. P x y \<longleftrightarrow> P y x" and "\<And>x. \<not> P x x"
  shows "ordered_pair P xs \<longleftrightarrow> (\<exists>x \<in> set xs. \<exists>y \<in> set xs. P x y)"
  using assms by (induction xs) auto

lemma scan_left_conflict:
  "fst (scan_left disagree cs flags) \<longleftrightarrow>
     fst flags \<or> ordered_pair (\<lambda>l r. ee_source l \<noteq> ee_source r \<and> disagree l r) cs"
  by (induction cs arbitrary: flags) (auto simp: scan_right_spec)

lemma scan_left_compared:
  "\<not> fst (scan_left disagree cs flags) \<Longrightarrow>
     snd (scan_left disagree cs flags) \<longleftrightarrow>
       snd flags \<or> ordered_pair (\<lambda>l r. ee_source l \<noteq> ee_source r) cs"
proof (induction cs arbitrary: flags)
  case (Cons c cs)
  then have "\<not> fst flags" by auto
  with Cons.prems Cons.IH [of "scan_right disagree c cs flags"] show ?case
    by (simp add: scan_right_spec disj_ac)
qed simp

definition top_contenders :: "evaluated_evidence list \<Rightarrow> source_authority \<Rightarrow> evaluated_evidence list" where
  "top_contenders cs authority =
     filter (\<lambda>c. ee_eligible c \<and> ev_authority (ee_evidence c) = authority) cs"

lemma conflict_of_conflicting:
  "conflict_of disagree cs authority = CS_Conflicting \<longleftrightarrow>
     ordered_pair (\<lambda>l r. ee_source l \<noteq> ee_source r \<and> disagree l r) (top_contenders cs authority)"
proof -
  have "length (top_contenders cs authority) < 2 \<Longrightarrow> \<not> ordered_pair P (top_contenders cs authority)" for P
    by (cases "top_contenders cs authority"; cases "tl (top_contenders cs authority)") auto
  then show ?thesis
    using scan_left_conflict [of disagree "top_contenders cs authority" "(False, False)"]
    by (auto simp: conflict_of_def top_contenders_def [symmetric] Let_def)
qed

lemma relative_difference_sym: "relative_difference_ppb a b = relative_difference_ppb b a"
proof -
  have "(if a > b then a - b else b - a) = (if b > a then b - a else a - b)"
    and "(if a > b then a else b) = (if b > a then b else a)"
    using less_asym [of a b] by (cases a b rule: linorder_cases; force)+
  then show ?thesis by (simp only: relative_difference_ppb_def Let_def)
qed

lemma relative_difference_self: "relative_difference_ppb a a = 0"
  by (simp add: relative_difference_ppb_def ratio_ppb_def)

lemma payload_difference_defined:
  "payload_difference_ppb a b = None \<longleftrightarrow> payload_difference_ppb b a = None"
  by (cases a; cases b) (simp_all add: payload_difference_ppb_def)

lemma readings_disagree_sym: "readings_disagree a b t \<longleftrightarrow> readings_disagree b a t"
  by (cases a; cases b)
    (auto simp: readings_disagree_def payload_difference_ppb_def relative_difference_sym)

text \<open>
  For state, ratio and quality readings the conflict flag is exact: it is raised if and only if
  two eligible contenders of the top authority, of different sources, disagree.
\<close>

lemma conflict_of_readings:
  assumes "\<not> is_counter_family (key_family key)"
  shows "conflict_of (contenders_disagree key p dv f) cs authority = CS_Conflicting \<longleftrightarrow>
    (\<exists>l \<in> set (top_contenders cs authority). \<exists>r \<in> set (top_contenders cs authority).
       ee_source l \<noteq> ee_source r
       \<and> readings_disagree (obs_payload (ev_observation (ee_evidence l)))
            (obs_payload (ev_observation (ee_evidence r))) (conflict_tolerance_ppb (pol_thresholds p)))"
  unfolding conflict_of_conflicting
  by (subst ordered_pair_symmetric) (use assms readings_disagree_sym in \<open>auto simp: contenders_disagree_def\<close>)

text \<open>
  For counter families it is not: the left value is always the winner's rate, so with two
  contenders of which the winner is listed last, the winner is compared with itself.
\<close>

lemma counter_conflict_missed:
  assumes "is_counter_family (key_family key)"
    and "top_contenders cs authority = [other, winner]"
    and "dv = Some (derived_for_source (ee_source winner))"
  shows "conflict_of (contenders_disagree key p dv derived_for_source) cs authority \<noteq> CS_Conflicting"
  unfolding conflict_of_conflicting
  using assms by (simp add: contenders_disagree_def relative_difference_self)

section \<open>Reports\<close>

lemma slot_report_simps [simp]:
  "rp_key (slot_report store l key now cs) = key" "\<not> rp_has_value (slot_report store l key now cs)"
  "\<not> rp_eligible (slot_report store l key now cs)"
  "rp_conflict (slot_report store l key now cs) = CS_None"
  by (simp_all add: slot_report_def empty_report_def Let_def split: option.splits)

lemma winner_report_simps [simp]:
  "rp_key (winner_report r w) = rp_key r" "rp_has_value (winner_report r w)" "rp_eligible (winner_report r w)"
  "rp_winner_source (winner_report r w) = ee_source w"
  by (simp_all add: winner_report_def Let_def ee_source_def)

lemma counter_report_simps [simp]:
  "rp_key (counter_report r d c) = rp_key r" "rp_has_value (counter_report r d c) = rp_has_value r"
  "rp_eligible (counter_report r d c) = rp_eligible r"
  by (simp_all add: counter_report_def Let_def split: option.splits)

lemma key_report_cases:
  obtains (none) "select_winner (contenders store l key ctx) = None"
      "\<not> rp_has_value (kr_report (key_report store p facts l ctx key))"
      "\<not> rp_eligible (kr_report (key_report store p facts l ctx key))"
      "rp_conflict (kr_report (key_report store p facts l ctx key)) = CS_None"
      "kr_derived (key_report store p facts l ctx key) = None"
      "kr_payload (key_report store p facts l ctx key) = None"
  | (won) w where "select_winner (contenders store l key ctx) = Some w"
      "rp_has_value (kr_report (key_report store p facts l ctx key))"
      "rp_eligible (kr_report (key_report store p facts l ctx key))"
      "kr_payload (key_report store p facts l ctx key) = Some (obs_payload (ev_observation (ee_evidence w)))"
proof (cases "select_winner (contenders store l key ctx)")
  case None
  then show ?thesis by (intro none) (simp_all add: key_report_def Let_def)
next
  case (Some w)
  then show ?thesis
    by (intro won [of w]) (simp_all add: key_report_def Let_def)
qed

lemma key_report_key [simp]: "rp_key (kr_report (key_report store p facts l ctx key)) = key"
  by (simp add: key_report_def Let_def split: option.splits)

lemma key_report_contenders [simp]:
  "kr_contenders (key_report store p facts l ctx key) = contenders store l key ctx"
  by (simp add: key_report_def Let_def split: option.splits)

lemma report_keys_set:
  "set (report_keys store l) = {kOctetsKey, kAdminKey, kOperKey} \<union> set (keys_for store l)"
  by (auto simp: report_keys_def ensure_key_def)

lemma sorted_distinct_report_keys:
  assumes "distinct (keys_for store l)"
  shows "sorted (report_keys store l)" "distinct (report_keys store l)"
  using assms by (auto simp: report_keys_def ensure_key_def)

lemma keys_for_distinct: "om_wf (es_slots store) \<Longrightarrow> distinct (keys_for store l)"
proof -
  assume "om_wf (es_slots store)"
  then have "distinct (map fst (filter (\<lambda>e. sk_link (fst e) = l) (es_slots store)))"
    by (intro distinct_map_filter) (rule om_wf_distinct)
  moreover have "keys_for store l = map sk_key (map fst (filter (\<lambda>e. sk_link (fst e) = l) (es_slots store)))"
    by (simp add: keys_for_def)
  moreover have "inj_on sk_key (set (map fst (filter (\<lambda>e. sk_link (fst e) = l) (es_slots store))))"
    by (rule inj_onI) (auto intro!: slot_key.expand)
  ultimately show ?thesis by (simp add: distinct_map del: map_map)
qed

text \<open>Looking up a key finds the result computed for it.\<close>

lemma find_key_result:
  assumes "key \<in> set keys"
  shows "find (\<lambda>k. rp_key (kr_report k) = key) (map (key_report store p facts l ctx) keys)
    = Some (key_report store p facts l ctx key)"
  using assms by (induction keys) auto

lemma payload_at_key:
  "payload_at (map (key_report store p facts l ctx) keys) key
    = (if key \<in> set keys then kr_payload (key_report store p facts l ctx key) else None)"
  unfolding payload_at_def by (induction keys) (auto split: option.splits)

lemma derived_at_key:
  "derived_at (map (key_report store p facts l ctx) keys) key
    = (if key \<in> set keys then kr_derived (key_report store p facts l ctx key) else None)"
  unfolding derived_at_def by (induction keys) (auto split: option.splits)

section \<open>Indicators\<close>

lemma signals_simps:
  "sg_no_evidence (signals_of p ks n) \<longleftrightarrow> \<not> any_evidence ks"
  "sg_any_conflict (signals_of p ks n) \<longleftrightarrow> fst (conflict_scan (map kr_report ks) (False, []))"
  "sg_oper_down (signals_of p ks n) \<longleftrightarrow> eligible_at ks kOperKey \<and> oper_value ks = Oper_Down"
  "sg_admin_disabled (signals_of p ks n) \<longleftrightarrow> eligible_at ks kAdminKey \<and> admin_value ks = Admin_Disabled"
  "sg_flapping (signals_of p ks n) \<longleftrightarrow> n \<ge> unat (flap_threshold (pol_thresholds p))"
  "sg_source_flapping (signals_of p ks n) \<longleftrightarrow>
     fst (reported_flaps ks ks (False, 0))
     \<and> snd (reported_flaps ks ks (False, 0)) \<ge> ucast (flap_threshold (pol_thresholds p))"
  "sg_erroring (signals_of p ks n) \<longleftrightarrow>
     rs_error (ratios_of ks) \<noteq> None \<and> option_or_zero (rs_error (ratios_of ks)) \<ge> error_ratio_ppb (pol_thresholds p)"
  "sg_saturated_reported (signals_of p ks n) \<longleftrightarrow>
     fst (reported_util (map kr_report ks) (False, 0))
     \<and> snd (reported_util (map kr_report ks) (False, 0)) \<ge> saturation_ppb (pol_thresholds p)"
  "sg_saturated_derived (signals_of p ks n) \<longleftrightarrow>
     fst (derived_util ks ks (False, 0, DF_MissingPreviousSample))
     \<and> fst (snd (derived_util ks ks (False, 0, DF_MissingPreviousSample))) \<ge> saturation_ppb (pol_thresholds p)"
  "sg_degraded_discards (signals_of p ks n) \<longleftrightarrow>
     rs_discard (ratios_of ks) \<noteq> None
     \<and> option_or_zero (rs_discard (ratios_of ks)) \<ge> discard_ratio_ppb (pol_thresholds p)"
  "sg_degraded_oper (signals_of p ks n) \<longleftrightarrow> eligible_at ks kOperKey \<and> oper_value ks = Oper_Degraded"
  "sg_quality_degraded (signals_of p ks n) \<longleftrightarrow>
     snd (snd (quality_scan ks ks (False, 0, False)))
     \<or> fst (quality_scan ks ks (False, 0, False))
       \<and> fst (snd (quality_scan ks ks (False, 0, False))) \<le> degraded_quality_ppb (pol_thresholds p)"
  "sg_stale_evidence (signals_of p ks n) \<longleftrightarrow> any_evidence ks \<and> \<not> any_eligible ks"
  by (simp_all add: signals_of_def Let_def case_prod_unfold)

lemma signals_healthy:
  "sg_healthy (signals_of p ks n) \<longleftrightarrow>
     eligible_at ks kOperKey \<and> oper_value ks = Oper_Up
     \<and> \<not> sg_any_conflict (signals_of p ks n) \<and> \<not> sg_erroring (signals_of p ks n)
     \<and> \<not> sg_saturated_reported (signals_of p ks n) \<and> \<not> sg_saturated_derived (signals_of p ks n)
     \<and> \<not> sg_quality_degraded (signals_of p ks n) \<and> \<not> sg_degraded_discards (signals_of p ks n)
     \<and> \<not> sg_degraded_oper (signals_of p ks n) \<and> \<not> sg_flapping (signals_of p ks n)
     \<and> \<not> sg_source_flapping (signals_of p ks n) \<and> \<not> sg_decisive_incomplete (signals_of p ks n)
     \<and> \<not> sg_decisive_unsupported (signals_of p ks n)"
  by (simp add: signals_of_def Let_def case_prod_unfold)

lemma conflict_scan_iff:
  "fst (conflict_scan rs acc) \<longleftrightarrow> fst acc \<or> (\<exists>r \<in> set rs. rp_conflict r = CS_Conflicting)"
  by (induction rs arbitrary: acc) auto

text \<open>A result without an eligible contender contributes nothing to any indicator.\<close>

definition idle :: "key_result \<Rightarrow> bool" where
  "idle k \<longleftrightarrow>
     \<not> rp_has_value (kr_report k) \<and> \<not> rp_eligible (kr_report k)
     \<and> rp_conflict (kr_report k) = CS_None \<and> kr_derived k = None \<and> kr_payload k = None"

lemma idle_key_report:
  "idle (key_report store p facts l ctx key) \<longleftrightarrow> (\<forall>c \<in> set (contenders store l key ctx). \<not> ee_eligible c)"
proof (cases rule: key_report_cases [of store l key ctx p facts])
  case none
  then show ?thesis by (simp add: idle_def select_winner_None_iff)
next
  case (won w)
  then show ?thesis using select_winner_SomeD [OF won(1)] by (auto simp: idle_def)
qed

lemma idle_scans:
  assumes "\<forall>k \<in> set ks. idle k"
  shows "fst (reported_flaps all ks acc1) = fst acc1"
    "fst (reported_util (map kr_report ks) acc2) = fst acc2"
    "fst (derived_util all ks acc3) = fst acc3"
    "quality_scan all ks acc4 = acc4"
  using assms
  by (induction ks arbitrary: acc1 acc2 acc3 acc4) (auto simp: idle_def Let_def)

lemma idle_lookups:
  assumes "\<forall>k \<in> set ks. idle k"
  shows "derived_at ks key = None" "\<not> eligible_at ks key"
proof -
  show "derived_at ks key = None"
    using assms by (auto simp: derived_at_def idle_def find_Some_iff2 split: option.splits
        dest!: find_Some_iff [THEN iffD1])
  have "rp_eligible r = False" if "report_at ks key = Some r" for r
    using assms that by (auto simp: report_at_def idle_def find_Some_iff)
  then show "\<not> eligible_at ks key" by (auto simp: eligible_at_def split: option.splits)
qed

lemma idle_ratios:
  assumes "\<And>key. derived_at all key = None"
  shows "rs_error (ratio_pass all oct rs acc) = rs_error acc \<and> rs_discard (ratio_pass all oct rs acc) = rs_discard acc"
  using assms by (induction rs arbitrary: acc) (auto simp: ratio_for_def)

lemma idle_signals:
  assumes "\<forall>k \<in> set ks. idle k"
  shows "select_state (signals_of p ks n) \<in> {LS_Unknown, LS_Stale, LS_Flapping}"
    and "select_state (signals_of p ks n) = LS_Flapping \<Longrightarrow> n \<ge> unat (flap_threshold (pol_thresholds p))"
proof -
  note scans = idle_scans [OF assms] and look = idle_lookups [OF assms]
  have "\<not> fst (conflict_scan (map kr_report ks) (False, []))"
    using assms by (auto simp: conflict_scan_iff idle_def)
  moreover have "rs_error (ratios_of ks) = None \<and> rs_discard (ratios_of ks) = None"
    using idle_ratios [of ks] look(1) by (simp add: ratios_of_def)
  ultimately have "\<not> sg_any_conflict (signals_of p ks n)" "\<not> sg_oper_down (signals_of p ks n)"
      "\<not> sg_admin_disabled (signals_of p ks n)" "\<not> sg_source_flapping (signals_of p ks n)"
      "\<not> sg_erroring (signals_of p ks n)" "\<not> sg_saturated_reported (signals_of p ks n)"
      "\<not> sg_saturated_derived (signals_of p ks n)" "\<not> sg_quality_degraded (signals_of p ks n)"
      "\<not> sg_degraded_discards (signals_of p ks n)" "\<not> sg_degraded_oper (signals_of p ks n)"
      "\<not> sg_healthy (signals_of p ks n)"
    using scans look by (simp_all add: signals_simps signals_healthy)
  then show "select_state (signals_of p ks n) \<in> {LS_Unknown, LS_Stale, LS_Flapping}"
    and "select_state (signals_of p ks n) = LS_Flapping \<Longrightarrow> n \<ge> unat (flap_threshold (pol_thresholds p))"
    by (auto simp: select_state_def signals_simps(5) split: if_splits)
qed

section \<open>From the state back to the evidence\<close>

text \<open>
  A reading of a key that is current at the evaluation instant: held in the slot, fresh, under the
  scope in force of its source and the topology generation in force of the link.
\<close>

definition current_reading ::
  "evidence_store \<Rightarrow> link_id \<Rightarrow> metric_key \<Rightarrow> evaluation_context \<Rightarrow> metric_payload \<Rightarrow> bool" where
  "current_reading store l key ctx payload \<longleftrightarrow>
     (\<exists>e \<in> set (slot_history store l key).
        obs_payload (ev_observation e) = payload
        \<and> classify_freshness (age_evidence e (ec_now ctx))
            (freshness_policy_for (es_policy store) (key_family key)) = Fr_Fresh
        \<and> scope_in_force (stream_for store (evidence_source e))
            = Some (scope_of (obs_provenance (ev_observation e)))
        \<and> (ec_has_generation ctx \<longrightarrow>
             prov_generation (obs_provenance (ev_observation e)) = ec_current_generation ctx))"

lemma contenders_loop_subset: "set (contenders_loop ev b es seen out) \<subseteq> ev ` set es"
  by (induction es arbitrary: seen out) (auto simp: Let_def)

lemma contenders_evaluated:
  "c \<in> set (contenders store l key ctx) \<Longrightarrow>
     \<exists>e \<in> set (slot_history store l key).
       c = evaluate store (freshness_policy_for (es_policy store) (key_family key))
             (completeness_of store l key (ec_now ctx)) ctx e"
  using contenders_loop_subset
  by (fastforce simp: contenders_def slot_history_def split: option.splits)

lemma winner_current:
  assumes "select_winner (contenders store l key ctx) = Some w"
  shows "current_reading store l key ctx (obs_payload (ev_observation (ee_evidence w)))"
proof -
  note wD = select_winner_SomeD [OF assms]
  obtain e where e: "e \<in> set (slot_history store l key)"
      "w = evaluate store (freshness_policy_for (es_policy store) (key_family key))
             (completeness_of store l key (ec_now ctx)) ctx e"
    using contenders_evaluated [OF wD(1)] by blast
  show ?thesis
    using e wD(2) unfolding current_reading_def
    by (intro bexI [of _ e]) (auto simp: evaluate_eligible)
qed

lemma eligible_at_winner:
  assumes "key \<in> set keys"
  shows "eligible_at (map (key_report store p facts l ctx) keys) key \<longleftrightarrow>
    select_winner (contenders store l key ctx) \<noteq> None"
  using find_key_result [OF assms, of store p facts l ctx]
  by (cases rule: key_report_cases [of store l key ctx p facts])
    (auto simp: eligible_at_def report_at_def)

lemma payload_at_winner:
  assumes "key \<in> set keys"
  shows "payload_at (map (key_report store p facts l ctx) keys) key =
    map_option (\<lambda>w. obs_payload (ev_observation (ee_evidence w))) (select_winner (contenders store l key ctx))"
  using assms
  by (cases rule: key_report_cases [of store l key ctx p facts]) (auto simp: payload_at_key)

lemma oper_value_current:
  assumes "eligible_at (key_results input p store) kOperKey" and "oper_value (key_results input p store) = v"
    and "v \<noteq> Oper_Unknown"
  shows "current_reading store (ci_link input) kOperKey (evaluation_context_of input) (OperStateReading v)"
proof -
  have k: "kOperKey \<in> set (report_keys store (ci_link input))" by (simp add: report_keys_set)
  obtain w where w: "select_winner (contenders store (ci_link input) kOperKey (evaluation_context_of input)) = Some w"
    using assms(1) eligible_at_winner [OF k] by (auto simp: key_results_def)
  have "obs_payload (ev_observation (ee_evidence w)) = OperStateReading v"
    using assms w payload_at_winner [OF k]
    by (auto simp: oper_value_def key_results_def split: metric_payload.splits if_splits)
  with winner_current [OF w] show ?thesis by simp
qed

lemma admin_value_current:
  assumes "eligible_at (key_results input p store) kAdminKey" and "admin_value (key_results input p store) = v"
    and "v \<noteq> Admin_Unknown"
  shows "current_reading store (ci_link input) kAdminKey (evaluation_context_of input) (AdminStateReading v)"
proof -
  have k: "kAdminKey \<in> set (report_keys store (ci_link input))" by (simp add: report_keys_set)
  obtain w where w: "select_winner (contenders store (ci_link input) kAdminKey (evaluation_context_of input)) = Some w"
    using assms(1) eligible_at_winner [OF k] by (auto simp: key_results_def)
  have "obs_payload (ev_observation (ee_evidence w)) = AdminStateReading v"
    using assms w payload_at_winner [OF k]
    by (auto simp: admin_value_def key_results_def split: metric_payload.splits if_splits)
  with winner_current [OF w] show ?thesis by simp
qed

lemma classify_state:
  assumes "ci_policy input = Some p" and "ci_store input = Some store"
  shows "cl_state (classify input) = select_state (input_signals input p store)"
  using assms by (simp add: classify_def Let_def split: option.splits)

lemma classify_state_cases:
  "cl_state (classify input) \<noteq> LS_Unknown \<Longrightarrow>
     \<exists>p store. ci_policy input = Some p \<and> ci_store input = Some store"
  by (auto simp: classify_def Let_def empty_classification_def split: option.splits)

lemma select_state_down: "select_state sg = LS_Down \<Longrightarrow> sg_oper_down sg \<or> sg_admin_disabled sg"
  by (auto simp: select_state_def split: if_splits)

lemma select_state_healthy_iff:
  "select_state (signals_of p ks n) = LS_Healthy \<longleftrightarrow>
     any_evidence ks \<and> any_eligible ks \<and> sg_healthy (signals_of p ks n) \<and> \<not> sg_admin_disabled (signals_of p ks n)"
proof
  assume "select_state (signals_of p ks n) = LS_Healthy"
  then show "any_evidence ks \<and> any_eligible ks \<and> sg_healthy (signals_of p ks n) \<and> \<not> sg_admin_disabled (signals_of p ks n)"
    by (auto simp: select_state_def signals_simps(1,13) split: if_splits)
next
  assume h: "any_evidence ks \<and> any_eligible ks \<and> sg_healthy (signals_of p ks n) \<and> \<not> sg_admin_disabled (signals_of p ks n)"
  then have "\<not> sg_no_evidence (signals_of p ks n)" "\<not> sg_stale_evidence (signals_of p ks n)"
    "\<not> sg_oper_down (signals_of p ks n)"
    by (auto simp: signals_simps(1,3,13) signals_healthy)
  with h show "select_state (signals_of p ks n) = LS_Healthy"
    by (simp add: select_state_def signals_healthy)
qed

lemma any_eligible_iff:
  "any_eligible (key_results input p store) \<longleftrightarrow> \<not> (\<forall>k \<in> set (key_results input p store). idle k)"
  by (auto simp: any_eligible_def list_ex_iff key_results_def idle_key_report)

text \<open>Without an eligible contender anywhere the state makes no claim about the present.\<close>

lemma no_eligible_no_claim:
  assumes "ci_policy input = Some p" and "ci_store input = Some store"
    and "\<not> any_eligible (key_results input p store)"
  shows "cl_state (classify input) \<in> {LS_Unknown, LS_Stale, LS_Flapping}"
    and "cl_state (classify input) = LS_Flapping \<Longrightarrow>
           flap_event_count (ci_transitions input) p (ci_link input) (ci_now input)
             \<ge> unat (flap_threshold (pol_thresholds p))"
proof -
  have idle: "\<forall>k \<in> set (key_results input p store). idle k" using assms(3) by (simp add: any_eligible_iff)
  show "cl_state (classify input) \<in> {LS_Unknown, LS_Stale, LS_Flapping}"
    using idle_signals(1) [OF idle] by (simp add: classify_state [OF assms(1,2)] input_signals_def)
  show "flap_event_count (ci_transitions input) p (ci_link input) (ci_now input)
             \<ge> unat (flap_threshold (pol_thresholds p))" if "cl_state (classify input) = LS_Flapping"
    using idle_signals(2) [OF idle] that by (simp add: classify_state [OF assms(1,2)] input_signals_def)
qed

text \<open>Evidence older than the freshness window of its family is never eligible.\<close>

lemma aged_not_eligible:
  assumes "calendar (ec_now ctx)"
    and "\<forall>e \<in> set (slot_history store l key).
           evidence_calendar e
           \<and> fresh_within (freshness_policy_for (es_policy store) (key_family key)) < effective_age e (ec_now ctx)"
    and "c \<in> set (contenders store l key ctx)"
  shows "\<not> ee_eligible c"
proof -
  obtain e where e: "e \<in> set (slot_history store l key)"
      "c = evaluate store (freshness_policy_for (es_policy store) (key_family key))
             (completeness_of store l key (ec_now ctx)) ctx e"
    using contenders_evaluated [OF assms(3)] by blast
  then show ?thesis
    using assms(1,2) by (auto simp: evaluate_eligible classify_freshness_effective)
qed

lemma contenders_Nil_iff:
  "contenders store l key ctx = [] \<longleftrightarrow> slot_history store l key = []"
proof -
  have "contenders_loop ev b es [] 0 = [] \<longleftrightarrow> es = []" for ev b es
    by (cases es) (auto simp: Let_def)
  then show ?thesis by (simp add: contenders_def slot_history_def split: option.splits)
qed

lemma no_evidence_unknown:
  assumes "\<And>store key. ci_store input = Some store \<Longrightarrow> slot_history store (ci_link input) key = []"
  shows "cl_state (classify input) = LS_Unknown"
proof (rule ccontr)
  assume a: "cl_state (classify input) \<noteq> LS_Unknown"
  then obtain p store where io: "ci_policy input = Some p" "ci_store input = Some store"
    using classify_state_cases by blast
  have "\<not> any_evidence (key_results input p store)"
    using assms [OF io(2)] by (auto simp: any_evidence_def list_ex_iff key_results_def contenders_Nil_iff)
  then have "cl_state (classify input) = LS_Unknown"
    by (simp add: classify_state [OF io] input_signals_def select_state_def signals_simps(1))
  with a show False by simp
qed

section \<open>The rule list\<close>

lemma rules_in_order:
  "map re_rule (rules_of p sg) =
     [Rule_OperDown, Rule_AdminDisabled, Rule_SourceConflict, Rule_Flapping, Rule_SourceFlapReport,
      Rule_Erroring, Rule_SaturatedDerived, Rule_SaturatedReported, Rule_DegradedQuality,
      Rule_DegradedDiscards, Rule_DegradedOperState, Rule_StaleEvidence, Rule_NoEvidence,
      Rule_UnsupportedDecisive, Rule_IncompleteDecisive, Rule_Healthy]"
  by (simp add: rules_of_def add_rule_def)

text \<open>The rules that fire determine the state.\<close>

primrec signal_of :: "rule_id \<Rightarrow> signals \<Rightarrow> bool" where
  "signal_of Rule_NoEvidence = sg_no_evidence"
| "signal_of Rule_SourceConflict = sg_any_conflict"
| "signal_of Rule_OperDown = sg_oper_down"
| "signal_of Rule_AdminDisabled = sg_admin_disabled"
| "signal_of Rule_Flapping = sg_flapping"
| "signal_of Rule_SourceFlapReport = sg_source_flapping"
| "signal_of Rule_Erroring = sg_erroring"
| "signal_of Rule_SaturatedDerived = sg_saturated_derived"
| "signal_of Rule_SaturatedReported = sg_saturated_reported"
| "signal_of Rule_DegradedQuality = sg_quality_degraded"
| "signal_of Rule_DegradedDiscards = sg_degraded_discards"
| "signal_of Rule_DegradedOperState = sg_degraded_oper"
| "signal_of Rule_UnsupportedDecisive = sg_decisive_unsupported"
| "signal_of Rule_IncompleteDecisive = sg_decisive_incomplete"
| "signal_of Rule_StaleEvidence = sg_stale_evidence"
| "signal_of Rule_Healthy = sg_healthy"

lemma rules_fire:
  "\<forall>r \<in> set (rules_of p sg). re_fired r = signal_of (re_rule r) sg"
  by (simp add: rules_of_def add_rule_def)

section \<open>Link-level freshness and confidence\<close>

lemma strongest_rank: "freshness_rank (strongest a b) = max (freshness_rank a) (freshness_rank b)"
  by (simp add: strongest_def max_def)

lemma freshness_rank_inj: "freshness_rank a = freshness_rank b \<Longrightarrow> a = b"
  by (cases a; cases b) simp_all

lemma link_freshness_fold:
  "link_freshness rs = fold (\<lambda>r f. strongest f (rp_freshness r)) rs Fr_Unknown"
proof (induction rs rule: rev_induct)
  case Nil
  then show ?case by (simp add: link_freshness_def)
next
  case (snoc r rs)
  have "link_freshness (rs @ [r]) = strongest (link_freshness rs) (rp_freshness r)"
    by (cases "rp_freshness r") (auto simp: link_freshness_def strongest_def Let_def)
  with snoc show ?case by simp
qed

lemma weakest_min: "weakest a b = min a b"
  by (simp add: weakest_def min_def less_eq_confidence_def)

lemma confidence_scan_bound:
  "confidence_scan rs acc = Some c \<Longrightarrow>
     (\<forall>a. acc = Some a \<longrightarrow> c \<le> a)
     \<and> (\<forall>r \<in> set rs. is_decisive_family (key_family (rp_key r)) \<and> rp_has_value r \<longrightarrow> c \<le> rp_confidence r)"
proof (induction rs arbitrary: acc)
  case (Cons r rs)
  show ?case
  proof (cases "is_decisive_family (key_family (rp_key r)) \<and> rp_has_value r")
    case True
    with Cons.prems Cons.IH [of "Some (case acc of None \<Rightarrow> rp_confidence r | Some a \<Rightarrow> weakest a (rp_confidence r))"]
    show ?thesis by (auto simp: weakest_min split: option.splits)
  next
    case False
    with Cons.prems Cons.IH [of acc] show ?thesis by auto
  qed
qed simp

section \<open>Properties\<close>

text \<open>The link of the example store, evaluated while its evidence is fresh.\<close>

definition example_input :: classification_input where
  "example_input =
     \<lparr>ci_link = StrongId (Hash128 0 5), ci_entry = None, ci_current_generation = StrongId (Hash128 0 4),
      ci_has_generation = True, ci_generation_changes = 0, ci_policy = Some small_policy,
      ci_store = Some example_store, ci_transitions = None, ci_now = 1600\<rparr>"

text \<open>The same link after a newer observation that reports it down.\<close>

definition down_store :: evidence_store where
  "down_store =
     fst (accept example_store
       (example_observation\<lparr>obs_payload := OperStateReading Oper_Down,
          obs_provenance := (obs_provenance example_observation)\<lparr>prov_sequence := 2\<rparr>\<rparr>)
       example_accept_context 1550)"

text \<open>
  C9: a link is reported down only on current evidence: some retained observation reports the
  operational state down or the administrative state disabled, it is fresh at the evaluation
  instant, it belongs to the scope in force of its source and to the generation in force of the
  link. Stale, superseded or foreign evidence never makes a link down.
\<close>

theorem down_rests_on_current_evidence:
  assumes "cl_state (classify input) = LS_Down"
  shows "\<exists>p store. ci_policy input = Some p \<and> ci_store input = Some store
    \<and> (current_reading store (ci_link input) kOperKey (evaluation_context_of input) (OperStateReading Oper_Down)
       \<or> current_reading store (ci_link input) kAdminKey (evaluation_context_of input) (AdminStateReading Admin_Disabled))"
proof -
  obtain p store where io: "ci_policy input = Some p" "ci_store input = Some store"
    using classify_state_cases [of input] assms by auto
  have "sg_oper_down (input_signals input p store) \<or> sg_admin_disabled (input_signals input p store)"
    using assms by (intro select_state_down) (simp add: classify_state [OF io])
  then have "current_reading store (ci_link input) kOperKey (evaluation_context_of input) (OperStateReading Oper_Down)
       \<or> current_reading store (ci_link input) kAdminKey (evaluation_context_of input) (AdminStateReading Admin_Disabled)"
    using oper_value_current [where v = Oper_Down and p = p] admin_value_current [where v = Admin_Disabled and p = p]
    by (auto simp: input_signals_def signals_simps)
  with io show ?thesis by blast
qed

theorem down_rests_on_current_evidence_witness:
  "cl_state (classify (example_input\<lparr>ci_store := Some down_store\<rparr>)) = LS_Down
   \<and> (\<exists>store. ci_store (example_input\<lparr>ci_store := Some down_store\<rparr>) = Some store)"
proof -
  have down: "cl_state (classify (example_input\<lparr>ci_store := Some down_store\<rparr>)) = LS_Down" by code_simp
  from down_rests_on_current_evidence [OF this] down show ?thesis by blast
qed

text \<open>
  C10: a link is reported healthy only when a current observation says its operational state is up
  and nothing speaks against it: no conflict between sources on any reported key, no administrative
  disabling, and fewer state changes within the flap window than the flap threshold.
\<close>

theorem healthy_rests_on_current_evidence:
  assumes "cl_state (classify input) = LS_Healthy"
  shows "\<exists>p store. ci_policy input = Some p \<and> ci_store input = Some store
    \<and> current_reading store (ci_link input) kOperKey (evaluation_context_of input) (OperStateReading Oper_Up)
    \<and> (\<forall>key \<in> set (report_keys store (ci_link input)).
         rp_conflict (kr_report (key_report store p (input_facts input) (ci_link input)
           (evaluation_context_of input) key)) \<noteq> CS_Conflicting)
    \<and> \<not> sg_admin_disabled (input_signals input p store)
    \<and> flap_event_count (ci_transitions input) p (ci_link input) (ci_now input)
        < unat (flap_threshold (pol_thresholds p))"
proof -
  obtain p store where io: "ci_policy input = Some p" "ci_store input = Some store"
    using classify_state_cases [of input] assms by auto
  let ?ks = "key_results input p store"
  let ?n = "flap_event_count (ci_transitions input) p (ci_link input) (ci_now input)"
  have h: "sg_healthy (signals_of p ?ks ?n)" "\<not> sg_admin_disabled (signals_of p ?ks ?n)"
    using assms classify_state [OF io] select_state_healthy_iff [of p ?ks ?n] by (simp_all add: input_signals_def)
  note hs = h(1) [unfolded signals_healthy]
  have "current_reading store (ci_link input) kOperKey (evaluation_context_of input) (OperStateReading Oper_Up)"
    using hs by (intro oper_value_current) auto
  moreover have "\<forall>key \<in> set (report_keys store (ci_link input)).
         rp_conflict (kr_report (key_report store p (input_facts input) (ci_link input)
           (evaluation_context_of input) key)) \<noteq> CS_Conflicting"
    using hs by (auto simp: signals_simps conflict_scan_iff key_results_def)
  moreover have "?n < unat (flap_threshold (pol_thresholds p))"
    using hs by (simp add: signals_simps not_le)
  ultimately show ?thesis using io h(2) by (auto simp: input_signals_def)
qed

theorem healthy_rests_on_current_evidence_witness:
  "cl_state (classify example_input) = LS_Healthy
   \<and> current_reading example_store (StrongId (Hash128 0 5)) kOperKey (evaluation_context_of example_input)
       (OperStateReading Oper_Up)"
proof -
  have h: "cl_state (classify example_input) = LS_Healthy" by code_simp
  from healthy_rests_on_current_evidence [OF this] h show ?thesis by (auto simp: example_input_def)
qed


lemma example_history: "slot_history example_store l key \<noteq> [] \<Longrightarrow> slot_history example_store l key = [example_evidence]"
proof -
  have "es_slots example_store = [(SlotKey (StrongId (Hash128 0 5)) kOperKey,
      (slot_for (empty_store small_policy) (StrongId (Hash128 0 5)) kOperKey)\<lparr>sl_history := [example_evidence], sl_accepted := 1\<rparr>)]"
    by code_simp
  then show "slot_history example_store l key \<noteq> [] \<Longrightarrow> slot_history example_store l key = [example_evidence]"
    by (auto simp: slot_history_def om_get_def split: if_splits)
qed


text \<open>
  A link with no retained evidence is unknown, whatever the policy, the transitions or the
  declared facts say.
\<close>

lemma no_evidence_is_unknown:
  assumes "\<forall>store key. ci_store input = Some store \<longrightarrow> slot_history store (ci_link input) key = []"
  shows "cl_state (classify input) = LS_Unknown"
  using assms by (intro no_evidence_unknown) blast

text \<open>
  C12: the winner of a key is well defined. With one contender per source, any two orders of the
  same contenders give the same winner; the winner is eligible, carries the highest authority of
  the eligible contenders, and no eligible contender precedes it in authority, observation instant,
  reception instant and source identity. There is a winner exactly when a contender is eligible.
\<close>

theorem winner_is_order_independent:
  assumes "distinct (map ee_source cs)" and "distinct (map ee_source cs')" and "set cs = set cs'"
  shows "select_winner cs = select_winner cs'
    \<and> (select_winner cs = None \<longleftrightarrow> (\<forall>c \<in> set cs. \<not> ee_eligible c))
    \<and> (\<forall>w. select_winner cs = Some w \<longrightarrow>
         w \<in> set cs \<and> ee_eligible w \<and> ev_authority (ee_evidence w) = top_authority cs
         \<and> (\<forall>c \<in> set cs. ee_eligible c \<longrightarrow> \<not> higher_priority c w))"
  using select_winner_perm [OF assms] select_winner_None_iff [of cs] select_winner_SomeD [of cs]
    winner_authority [of cs] by blast

text \<open>The example evidence as a contender, reported by a source, fresh or not.\<close>

definition example_contender :: "u64 \<Rightarrow> bool \<Rightarrow> evaluated_evidence" where
  "example_contender n eligible =
     \<lparr>ee_evidence = example_evidence\<lparr>ev_observation := example_observation\<lparr>obs_provenance :=
        (obs_provenance example_observation)\<lparr>prov_source := StrongId (Hash128 0 n)\<rparr>\<rparr>\<rparr>,
      ee_age = \<lparr>observed_age = 0, received_age = 0, backwards_clock = False\<rparr>,
      ee_freshness = Fr_Fresh, ee_provisional_confidence = Conf_High, ee_scope_current = True,
      ee_generation_current = True, ee_eligible = eligible, ee_historical = False\<rparr>"

lemma example_contender_source [simp]: "ee_source (example_contender n el) = StrongId (Hash128 0 n)"
  by (simp add: example_contender_def ee_source_def)

theorem winner_is_order_independent_witness:
  "select_winner [example_contender 2 True, example_contender 1 True]
     = select_winner [example_contender 1 True, example_contender 2 True]"
  using winner_is_order_independent
    [of "[example_contender 2 True, example_contender 1 True]" "[example_contender 1 True, example_contender 2 True]"]
  by (simp add: insert_commute)

text \<open>
  C38: for state, ratio and quality readings a conflict is reported exactly when there is one: two
  eligible contenders of different sources, both of the highest authority present and that
  authority known, whose readings disagree beyond the tolerance of the policy.
\<close>

theorem conflict_reported_exactly:
  assumes "\<not> is_counter_family (key_family key)" and "cs = contenders store l key ctx"
  shows "rp_conflict (kr_report (key_report store p facts l ctx key)) = CS_Conflicting \<longleftrightarrow>
    top_authority cs \<noteq> SA_Unknown
    \<and> (\<exists>a \<in> set cs. \<exists>b \<in> set cs.
         ee_eligible a \<and> ee_eligible b \<and> ee_source a \<noteq> ee_source b
         \<and> ev_authority (ee_evidence a) = top_authority cs \<and> ev_authority (ee_evidence b) = top_authority cs
         \<and> readings_disagree (obs_payload (ev_observation (ee_evidence a)))
              (obs_payload (ev_observation (ee_evidence b))) (conflict_tolerance_ppb (pol_thresholds p)))"
proof (cases "select_winner cs")
  case None
  then have "rp_conflict (kr_report (key_report store p facts l ctx key)) = CS_None"
    unfolding assms(2) by (simp add: key_report_def Let_def)
  then show ?thesis using None by (auto simp: select_winner_None_iff)
next
  case (Some w)
  have base: "rp_conflict (winner_report (slot_report store l key now cs) w) = CS_None" for now
    using slot_report_simps(4) [of store l key now cs] by (simp add: winner_report_def Let_def)
  have "rp_conflict (kr_report (key_report store p facts l ctx key)) =
      (if top_authority cs \<noteq> SA_Unknown
       then conflict_of (contenders_disagree key p None
              (\<lambda>source. derive_for store facts l key source (key_direction key) p (ec_now ctx)
                          (ec_current_generation ctx) (ec_has_generation ctx))) cs (top_authority cs)
       else CS_None)"
    using assms Some base by (simp add: key_report_def Let_def)
  then show ?thesis
    by (auto simp: conflict_of_readings [OF assms(1)] top_contenders_def)
qed

text \<open>A second source of the same authority that says the link is down.\<close>

definition disputed_store :: evidence_store where
  "disputed_store =
     fst (accept example_store
       (example_observation\<lparr>obs_payload := OperStateReading Oper_Down,
          obs_provenance := (obs_provenance example_observation)\<lparr>prov_source := StrongId (Hash128 0 7)\<rparr>\<rparr>)
       (example_accept_context\<lparr>ac_source := Some (example_source\<lparr>src_id := StrongId (Hash128 0 7)\<rparr>)\<rparr>) 1550)"

theorem conflict_reported_exactly_witness:
  "rp_conflict (kr_report (key_report disputed_store small_policy empty_link_facts (StrongId (Hash128 0 5))
     (evaluation_context_of example_input) kOperKey)) = CS_Conflicting"
proof -
  have "list_ex (\<lambda>a. list_ex (\<lambda>b. ee_eligible a \<and> ee_eligible b \<and> ee_source a \<noteq> ee_source b
         \<and> ev_authority (ee_evidence a) = SA_Primary \<and> ev_authority (ee_evidence b) = SA_Primary
         \<and> readings_disagree (obs_payload (ev_observation (ee_evidence a)))
              (obs_payload (ev_observation (ee_evidence b))) (conflict_tolerance_ppb (pol_thresholds small_policy)))
       (contenders disputed_store (StrongId (Hash128 0 5)) kOperKey (evaluation_context_of example_input)))
     (contenders disputed_store (StrongId (Hash128 0 5)) kOperKey (evaluation_context_of example_input))"
    by code_simp
  moreover have "top_authority (contenders disputed_store (StrongId (Hash128 0 5)) kOperKey
      (evaluation_context_of example_input)) = SA_Primary" by code_simp
  moreover have "\<not> is_counter_family (key_family kOperKey)" by code_simp
  ultimately show ?thesis
    using conflict_reported_exactly [of kOperKey, OF _ refl] by (simp add: list_ex_iff)
qed

text \<open>The states in order of precedence, each with the rule that decides it.\<close>

definition precedence :: "(rule_id \<times> link_state) list" where
  "precedence =
     [(Rule_NoEvidence, LS_Unknown), (Rule_SourceConflict, LS_Conflicting), (Rule_OperDown, LS_Down),
      (Rule_AdminDisabled, LS_Down), (Rule_Flapping, LS_Flapping), (Rule_SourceFlapReport, LS_Flapping),
      (Rule_Erroring, LS_Erroring), (Rule_SaturatedReported, LS_Saturated),
      (Rule_SaturatedDerived, LS_Saturated), (Rule_DegradedQuality, LS_Degraded),
      (Rule_DegradedDiscards, LS_Degraded), (Rule_DegradedOperState, LS_Degraded),
      (Rule_UnsupportedDecisive, LS_Unknown), (Rule_IncompleteDecisive, LS_Unknown),
      (Rule_StaleEvidence, LS_Stale), (Rule_Healthy, LS_Healthy)]"

primrec first_fired :: "(rule_id \<Rightarrow> bool) \<Rightarrow> (rule_id \<times> link_state) list \<Rightarrow> link_state" where
  "first_fired fired [] = LS_Unknown"
| "first_fired fired (entry # table) = (if fired (fst entry) then snd entry else first_fired fired table)"

definition state_of_rules :: "rule_evaluation list \<Rightarrow> link_state" where
  "state_of_rules rules = first_fired (\<lambda>rule. list_ex (\<lambda>r. re_rule r = rule \<and> re_fired r) rules) precedence"

lemma fired_iff:
  "list_ex (\<lambda>r. re_rule r = rule \<and> re_fired r) (rules_of p sg) \<longleftrightarrow> signal_of rule sg"
proof -
  have "rule \<in> set (map re_rule (rules_of p sg))" unfolding rules_in_order by (cases rule) simp_all
  then obtain r where "r \<in> set (rules_of p sg)" "re_rule r = rule" by (metis in_set_conv_nth length_map nth_map nth_mem)
  then show ?thesis using rules_fire [of p sg] unfolding list_ex_iff by metis
qed

lemma select_state_rules: "select_state sg = state_of_rules (rules_of p sg)"
proof -
  have split_or: "(if a \<or> b then x else y) = (if a then x else if b then x else y)" for a b and x y :: link_state
    by simp
  show ?thesis
    unfolding state_of_rules_def fired_iff precedence_def select_state_def
    by (simp only: first_fired.simps fst_conv snd_conv signal_of.simps split_or)
qed



text \<open>
  For counter families a real conflict goes unreported when the winner is listed last. The
  comparison always takes the winner's rate as its left value, so with two contenders of the top
  authority of which the second is the winner, the winner is compared with itself and no
  difference between the two sources, however large, is a conflict.
\<close>

lemma counter_conflict_goes_unreported:
  assumes "is_counter_family (key_family key)" and "cs = contenders store l key ctx"
    and "select_winner cs = Some winner" and "top_contenders cs (top_authority cs) = [other, winner]"
  shows "rp_conflict (kr_report (key_report store p facts l ctx key)) \<noteq> CS_Conflicting"
proof -
  let ?f = "\<lambda>source. derive_for store facts l key source (key_direction key) p (ec_now ctx)
              (ec_current_generation ctx) (ec_has_generation ctx)"
  let ?r = "counter_report (winner_report (slot_report store l key (ec_now ctx) cs) winner)
      (?f (ee_source winner)) (continuity_of store l key (ee_source winner))"
  have base: "rp_conflict ?r = CS_None"
    using slot_report_simps(4) [of store l key "ec_now ctx" cs]
    by (simp add: counter_report_def winner_report_def Let_def split: option.splits)
  have "rp_conflict (kr_report (key_report store p facts l ctx key)) =
      (if top_authority cs \<noteq> SA_Unknown
       then conflict_of (contenders_disagree key p (Some (?f (ee_source winner))) ?f) cs (top_authority cs)
       else CS_None)"
    using assms(1,3) base unfolding assms(2) by (simp add: key_report_def Let_def)
  then show ?thesis using counter_conflict_missed [OF assms(1,4) refl, of p ?f] by auto
qed

text \<open>
  Two sources that count the same link: the first sees 100000 bytes within a second, the second
  none, and the second one reports last.
\<close>

definition counter_observation :: "u64 \<Rightarrow> u64 \<Rightarrow> u64 \<Rightarrow> time_point \<Rightarrow> observation" where
  "counter_observation n sequence raw at =
     example_observation\<lparr>obs_key := kOctetsKey, obs_observed_at := at, obs_received_at := at,
       obs_payload := CounterReading \<lparr>cr_raw = raw, cr_width = CW_Bits64, cr_reset_declared = False\<rparr>,
       obs_provenance := (obs_provenance example_observation)\<lparr>prov_source := StrongId (Hash128 0 n),
                                                              prov_sequence := sequence\<rparr>\<rparr>"

definition counted_store :: evidence_store where
  "counted_store =
     submit_all (empty_store small_policy)
       (map (\<lambda>o1. (o1, example_accept_context, 2000000000))
          [counter_observation 1 1 0 1000000000, counter_observation 1 2 100000 2000000000,
           counter_observation 2 1 0 1000000000, counter_observation 2 2 0 2000000000])"

definition counted_context :: evaluation_context where
  "counted_context =
     \<lparr>ec_now = 2000000000, ec_current_generation = StrongId (Hash128 0 4), ec_has_generation = True\<rparr>"

definition counted_contender :: "u64 \<Rightarrow> evaluated_evidence" where
  "counted_contender n =
     hd (filter (\<lambda>c. ee_source c = StrongId (Hash128 0 n))
       (contenders counted_store (StrongId (Hash128 0 5)) kOctetsKey counted_context))"

lemma counter_conflict_goes_unreported_instance:
  "rp_conflict (kr_report (key_report counted_store small_policy
     (empty_link_facts\<lparr>lf_capacity_known := True, lf_capacity_in_bps := 1000000\<rparr>)
     (StrongId (Hash128 0 5)) counted_context kOctetsKey)) \<noteq> CS_Conflicting"
proof -
  let ?cs = "contenders counted_store (StrongId (Hash128 0 5)) kOctetsKey counted_context"
  have "is_counter_family (key_family kOctetsKey)" by code_simp
  moreover have "select_winner ?cs = Some (counted_contender 1)" by code_simp
  moreover have "top_contenders ?cs (top_authority ?cs) = [counted_contender 2, counted_contender 1]" by code_simp
  ultimately show ?thesis by (rule counter_conflict_goes_unreported [OF _ refl])
qed

end
