(* ===== verification/Explain.thy ===== *)
theory Explain
  imports Classifier
begin

text \<open>
  Text renderings: the full explanation and the one-line summary of a classification
  (\<^verbatim>\<open>src/classify/explain.cpp\<close>), the line of a transition (\<^verbatim>\<open>src/store/history.cpp\<close>), of a slot view
  (\<^verbatim>\<open>src/store/evidence_store.cpp\<close>), of an evidence (\<^verbatim>\<open>src/domain/evidence.cpp\<close>) and of a link
  (\<^verbatim>\<open>src/domain/link.cpp\<close>). The main result: the summary, which clients compare as
  text, determines every field it shows.
\<close>

section \<open>Explanations\<close>

record explain_options =
  xo_include_families :: bool
  xo_include_rules :: bool
  xo_include_last_known :: bool

definition default_explain_options :: explain_options where
  "default_explain_options = \<lparr>xo_include_families = True, xo_include_rules = True, xo_include_last_known = True\<rparr>"

definition newline :: char where "newline = CHR 0x0A"

definition append_line :: "string \<Rightarrow> string \<Rightarrow> string \<Rightarrow> string" where
  "append_line key value out = out @ key @ '': '' @ value @ [newline]"

definition append_line_u64 :: "string \<Rightarrow> u64 \<Rightarrow> string \<Rightarrow> string" where
  "append_line_u64 key value out = append_line key (to_dec value) out"

definition flag_text :: "bool \<Rightarrow> string" where
  "flag_text b = (if b then ''true'' else ''false'')"

definition support_text :: "support_state \<Rightarrow> string" where
  "support_text support = support_state_to_string support"

definition explain_family :: "family_report \<Rightarrow> string" where
  "explain_family report =
     ''metric '' @ metric_key_to_string (rp_key report)
     @ '': support='' @ support_state_to_string (rp_support report)
     @ '' freshness='' @ freshness_to_string (rp_freshness report)
     @ '' completeness='' @ completeness_to_string (rp_completeness report)
     @ '' conflict='' @ conflict_state_to_string (rp_conflict report)
     @ '' confidence='' @ confidence_to_string (rp_confidence report)
     @ '' contenders='' @ to_dec (of_nat (rp_contenders report))
     @ '' sources='' @ to_dec (of_nat (rp_sources report))
     @ '' accepted='' @ to_dec (rp_accepted report)
     @ '' fenced='' @ to_dec (rp_fenced report)
     @ (if rp_has_value report
        then '' eligible=true value='' @ rp_value_text report
             @ '' source='' @ id_to_string ''source'' (rp_winner_source report)
             @ '' provenance='' @ provenance_class_to_string (rp_winner_provenance report)
             @ '' observed-at='' @ to_dec_i64 (rp_winner_observed_at report)
             @ '' received-at='' @ to_dec_i64 (rp_winner_received_at report)
        else '' eligible=false value=none'')
     @ '' delta-derived='' @ flag_text (rp_has_delta report)
     @ (if rp_has_derived report
        then '' derived-utilization-ppb='' @ to_dec (rp_derived_ppb report)
        else '' derived-utilization=none'')
     @ '' derivation-fault='' @ derivation_fault_to_string (rp_derivation_fault report)
     @ (if rp_has_ratio report then '' ratio-ppb='' @ to_dec (rp_ratio_ppb report) else [])
     @ '' counter-resets='' @ to_dec (rp_reset_count report)
     @ '' counter-wraps='' @ to_dec (rp_wrap_count report)
     @ [newline]"

definition explain_rule :: "rule_evaluation \<Rightarrow> string" where
  "explain_rule rule =
     ''rule '' @ to_dec (of_nat (rule_code (re_rule rule))) @ '' '' @ rule_name (re_rule rule)
     @ '': fired='' @ flag_text (re_fired rule)
     @ (if re_detail rule \<noteq> [] then '' detail='' @ re_detail rule else [])
     @ [newline]"

text \<open>
  The instant of the decision is handed to the unsigned overload of \<open>append_line\<close>, which reduces it
  modulo \<open>2 ^ 64\<close>; the retired flag is handed to it too and is printed as 0 or 1.
\<close>

definition explain :: "classification \<Rightarrow> explain_options \<Rightarrow> string" where
  "explain c options =
     (let out1 = append_line ''link'' (id_to_string ''link'' (cl_link c)) [];
          out2 = append_line ''state'' (link_state_to_string (cl_state c)) out1;
          out3 = (if xo_include_last_known options
                  then append_line ''last-known-state''
                         (if cl_has_last_known c then link_state_to_string (cl_last_known_state c) else ''none'') out2
                  else out2);
          out4 = append_line_u64 ''decided-at'' (word_of_int (cl_decided_at c)) out3;
          out5 = append_line ''generation'' (id_to_string ''generation'' (cl_generation c)) out4;
          out6 = append_line_u64 ''generation-changes'' (cl_generation_changes c) out5;
          out7 = append_line_u64 ''retired'' (if cl_retired c then 1 else 0) out6;
          out8 = append_line ''freshness'' (freshness_to_string (cl_freshness c)) out7;
          out9 = append_line ''completeness'' (completeness_to_string (cl_completeness c)) out8;
          out10 = append_line ''confidence'' (confidence_to_string (cl_confidence c)) out9;
          out11 = append_line ''support'' (support_text (cl_support c)) out10;
          out12 = append_line_u64 ''accepted-observations'' (cl_accepted_total c) out11;
          out13 = append_line_u64 ''fenced-observations'' (cl_fenced_total c) out12;
          out14 = append_line_u64 ''flap-events-in-window'' (of_nat (cl_flap_events c)) out13;
          out15 = append_line_u64 ''transitions-retained'' (of_nat (cl_transitions c)) out14;
          out16 = append_line_u64 ''transitions-dropped'' (cl_dropped_transitions c) out15;
          out17 = (if xo_include_families options then out16 @ concat (map explain_family (cl_families c)) else out16)
      in if xo_include_rules options then out17 @ concat (map explain_rule (cl_rules c)) else out17)"

definition summarize :: "classification \<Rightarrow> string" where
  "summarize c =
     tf_buffer
      (tf_add_u64 ''families'' (of_nat (length (cl_families c)))
      (tf_add_i64 ''decided-at'' (cl_decided_at c)
      (tf_add ''generation'' (id_to_string ''generation'' (cl_generation c))
      (tf_add ''confidence'' (confidence_to_string (cl_confidence c))
      (tf_add ''completeness'' (completeness_to_string (cl_completeness c))
      (tf_add ''freshness'' (freshness_to_string (cl_freshness c))
      (tf_add ''state'' (link_state_to_string (cl_state c))
      (tf_add ''link'' (id_to_string ''link'' (cl_link c)) (tf_new (CHR '' '') ) ) ) ) ) ) ) ) )"

section \<open>Transitions and slots\<close>

definition format_transition :: "transition_event \<Rightarrow> string" where
  "format_transition event =
     (let f1 = tf_add ''transition'' (id_to_string ''transition'' (te_id event)) (tf_new (CHR '' ''));
          f2 = tf_add ''link'' (id_to_string ''link'' (te_link event)) f1;
          f3 = tf_add ''kind'' (transition_kind_to_string (te_kind event)) f2;
          f4 = tf_add_i64 ''at'' (te_at event) f3;
          f5 = tf_add ''generation'' (id_to_string ''generation'' (te_generation event)) f4;
          f6 = (if id_valid (te_source event) then tf_add ''source'' (id_to_string ''source'' (te_source event)) f5 else f5);
          f7 = (if te_from event \<noteq> [] then tf_add ''from'' (te_from event) f6 else f6);
          f8 = (if te_to event \<noteq> [] then tf_add ''to'' (te_to event) f7 else f7);
          f9 = (if te_detail event \<noteq> 0 then tf_add_u64 ''detail'' (te_detail event) f8 else f8)
      in tf_buffer f9)"

definition format_slot_view :: "slot_key \<Rightarrow> slot_view \<Rightarrow> string" where
  "format_slot_view slot view =
     tf_buffer
      (tf_add_u64 ''retained'' (of_nat (sv_retained view))
      (tf_add_bool ''has-gap'' (sv_has_gap view)
      (tf_add ''completeness'' (completeness_to_string (sv_completeness view))
      (tf_add_u64 ''fenced'' (sv_fenced view)
      (tf_add_u64 ''accepted'' (sv_accepted view)
      (tf_add ''metric'' (metric_key_to_string (sk_key slot))
      (tf_add ''link'' (id_to_string ''link'' (sk_link slot)) (tf_new (CHR '' '')))))))))"

section \<open>Evidence and links\<close>

definition format_evidence :: "evidence \<Rightarrow> freshness \<Rightarrow> confidence \<Rightarrow> string" where
  "format_evidence evidence freshness confidence =
     (let o1 = ev_observation evidence; p = obs_provenance o1;
          f1 = tf_add ''evidence'' (id_to_string ''evidence'' (compute_evidence_id o1)) (tf_new (CHR '' ''));
          f2 = tf_add ''observation'' (id_to_string ''observation'' (obs_id o1)) f1;
          f3 = tf_add ''link'' (id_to_string ''link'' (obs_link o1)) f2;
          f4 = tf_add ''metric'' (metric_key_to_string (obs_key o1)) f3;
          f5 = tf_add ''source'' (id_to_string ''source'' (prov_source p)) f4;
          f6 = tf_add ''incarnation'' (id_to_string ''incarnation'' (prov_incarnation p)) f5;
          f7 = tf_add ''epoch'' (id_to_string ''epoch'' (prov_epoch p)) f6;
          f8 = tf_add ''generation'' (id_to_string ''generation'' (prov_generation p)) f7;
          f9 = tf_add_u64 ''revision'' (prov_sequence p) f8;
          f10 = tf_add_i64 ''observed-at'' (obs_observed_at o1) f9;
          f11 = tf_add_i64 ''received-at'' (obs_received_at o1) f10;
          f12 = tf_add_i64 ''accepted-at'' (ev_accepted_at evidence) f11;
          f13 = tf_add ''freshness'' (freshness_to_string freshness) f12;
          f14 = tf_add ''confidence'' (confidence_to_string confidence) f13;
          f15 = tf_add ''value'' (format_payload (obs_payload o1)) f14
      in tf_buffer f15)"

definition format_link_facts :: "link_facts \<Rightarrow> string" where
  "format_link_facts facts =
     (let f1 = tf_add ''link'' (id_to_string ''link'' (lf_id facts)) (tf_new (CHR '' ''));
          f2 = tf_add ''name'' (lf_name facts) f1;
          f3 = tf_add ''kind'' (link_kind_to_string (lf_kind facts)) f2;
          f4 = tf_add ''generation'' (id_to_string ''generation'' (lf_generation facts)) f3;
          f5 = tf_add_bool ''capacity-known'' (lf_capacity_known facts) f4;
          f6 = tf_add_u64 ''capacity-in-bps'' (lf_capacity_in_bps facts) f5;
          f7 = tf_add_u64 ''capacity-out-bps'' (lf_capacity_out_bps facts) f6;
          f8 = tf_add ''provenance'' (provenance_class_to_string (lf_provenance facts)) f7;
          f9 = (if id_valid (lf_local_endpoint facts)
                then tf_add ''local-endpoint'' (id_to_string ''endpoint'' (lf_local_endpoint facts)) f8 else f8);
          f10 = (if id_valid (lf_remote_endpoint facts)
                 then tf_add ''remote-endpoint'' (id_to_string ''endpoint'' (lf_remote_endpoint facts)) f9 else f9);
          f11 = (if id_valid (lf_local_port facts)
                 then tf_add ''local-port'' (id_to_string ''port'' (lf_local_port facts)) f10 else f10);
          f12 = (if id_valid (lf_remote_port facts)
                 then tf_add ''remote-port'' (id_to_string ''port'' (lf_remote_port facts)) f11 else f11)
      in tf_buffer f12)"

section \<open>What a line of fields determines\<close>

lemma split_at_separator:
  "sep \<notin> set v \<Longrightarrow> sep \<notin> set w \<Longrightarrow> v @ sep # r = w @ sep # r' \<Longrightarrow> v = w \<and> r = r'"
proof (induction v arbitrary: w)
  case Nil
  then show ?case by (cases w) auto
next
  case (Cons x v)
  then show ?case by (cases w) auto
qed

lemma join_fields_inj:
  assumes "join_fields sep (zip ks vs) = join_fields sep (zip ks ws)"
    and "length vs = length ks" and "length ws = length ks"
    and "\<forall>v \<in> set (butlast vs) \<union> set (butlast ws). sep \<notin> set v"
  shows "vs = ws"
  using assms
proof (induction ks arbitrary: vs ws)
  case (Cons k ks)
  then obtain v vs' w ws' where [simp]: "vs = v # vs'" "ws = w # ws'" by (metis length_Suc_conv)
  show ?case
  proof (cases ks)
    case Nil
    then show ?thesis using Cons.prems by (auto simp: field_text_def)
  next
    case (Cons k' ks')
    with Cons.prems obtain v2 vs2 w2 ws2 where more: "vs' = v2 # vs2" "ws' = w2 # ws2" by (auto simp: length_Suc_conv)
    with Cons Cons.prems have "v @ sep # join_fields sep (zip ks vs') = w @ sep # join_fields sep (zip ks ws')"
      and "sep \<notin> set v" "sep \<notin> set w"
      by (auto simp: field_text_def)
    then have "v = w" and "join_fields sep (zip ks vs') = join_fields sep (zip ks ws')"
      using split_at_separator by metis+
    then show ?thesis using Cons.IH [of vs' ws'] Cons.prems more by simp
  qed
qed simp

lemma hex_no_space: "CHR '' '' \<notin> set (to_hex_bytes bs)"
proof -
  have "kHexDigits ! unat (w AND 0x0F) \<noteq> CHR '' ''" for w :: u8
  proof -
    have "w AND 15 = take_bit 4 w" by (simp add: take_bit_eq_mask mask_eq_exp_minus_1)
    then have "unat (w AND 0x0F) < 16" by (simp add: take_bit_eq_mod unat_mod)
    then have "kHexDigits ! unat (w AND 0x0F) \<in> set kHexDigits" by (intro nth_mem) (simp add: kHexDigits_def)
    then show ?thesis by (auto simp: kHexDigits_def)
  qed
  then show ?thesis by (fastforce simp: to_hex_bytes_def)
qed

lemma dec_no_space: "CHR '' '' \<notin> set (to_dec v)"
  using to_dec_shape [of v] by (auto simp: list_all_iff is_digit_def)

lemma dec_i64_no_space: "CHR '' '' \<notin> set (to_dec_i64 v)"
  by (simp add: to_dec_i64_def dec_no_space)

lemma id_no_space: "CHR '' '' \<notin> set kind \<Longrightarrow> CHR '' '' \<notin> set (id_to_string kind i)"
  by (simp add: id_to_string_def to_hex_def hex_no_space)

lemma enum_no_space:
  "CHR '' '' \<notin> set (link_state_to_string a)" "CHR '' '' \<notin> set (freshness_to_string b)"
  "CHR '' '' \<notin> set (completeness_to_string c)" "CHR '' '' \<notin> set (confidence_to_string d)"
  proof -
  show "CHR '' '' \<notin> set (link_state_to_string a)" by (cases a) simp_all
  show "CHR '' '' \<notin> set (freshness_to_string b)" by (cases b) simp_all
  show "CHR '' '' \<notin> set (completeness_to_string c)" by (cases c) simp_all
  show "CHR '' '' \<notin> set (confidence_to_string d)" by (cases d) simp_all
qed

lemmas no_space = dec_no_space dec_i64_no_space id_no_space enum_no_space

lemma to_dec_i64_inj: "in_i64 a \<Longrightarrow> in_i64 b \<Longrightarrow> to_dec_i64 a = to_dec_i64 b \<Longrightarrow> a = b"
  by (metis option.inject parse_i64_dec_to_dec)

lemma id_to_string_inj: "id_to_string kind i = id_to_string kind j \<Longrightarrow> i = j"
  by (cases i, cases j) (auto simp: id_to_string_def dest!: arg_cong [where f = parse_hex128] simp: parse_hex128_to_hex)

definition summary_keys :: "string list" where
  "summary_keys = [''link'', ''state'', ''freshness'', ''completeness'', ''confidence'', ''generation'', ''decided-at'', ''families'']"

definition summary_values :: "classification \<Rightarrow> string list" where
  "summary_values c =
     [id_to_string ''link'' (cl_link c), link_state_to_string (cl_state c), freshness_to_string (cl_freshness c),
      completeness_to_string (cl_completeness c), confidence_to_string (cl_confidence c),
      id_to_string ''generation'' (cl_generation c), to_dec_i64 (cl_decided_at c), to_dec (of_nat (length (cl_families c)))]"

lemma summarize_fields: "summarize c = join_fields (CHR '' '') (zip summary_keys (summary_values c))"
  unfolding summarize_def tf_simps by (simp add: tf_of_def summary_keys_def summary_values_def)

lemma summary_values_no_space: "v \<in> set (summary_values c) \<Longrightarrow> CHR '' '' \<notin> set v"
  by (auto simp: summary_values_def no_space)

lemma summary_values_length: "length (summary_values c) = length summary_keys"
  by (simp add: summary_values_def summary_keys_def)

section \<open>Properties\<close>

text \<open>
  Two classifications with the same summary agree on everything the summary shows: the link, the
  state, the freshness, the completeness, the confidence, the generation, the instant of the decision
  and the number of families.
\<close>

lemma summary_determines_its_fields:
  assumes "summarize c = summarize d"
    and "in_i64 (cl_decided_at c)" and "in_i64 (cl_decided_at d)"
    and "length (cl_families c) < 2 ^ 64" and "length (cl_families d) < 2 ^ 64"
  shows "cl_link c = cl_link d \<and> cl_state c = cl_state d \<and> cl_freshness c = cl_freshness d
    \<and> cl_completeness c = cl_completeness d \<and> cl_confidence c = cl_confidence d
    \<and> cl_generation c = cl_generation d \<and> cl_decided_at c = cl_decided_at d
    \<and> length (cl_families c) = length (cl_families d)"
proof -
  have "summary_values c = summary_values d"
    using assms(1) [unfolded summarize_fields]
    by (rule join_fields_inj) (auto dest: summary_values_no_space in_set_butlastD simp: summary_values_length)
  moreover have "length (cl_families c) = length (cl_families d)"
    if "(of_nat (length (cl_families c)) :: u64) = of_nat (length (cl_families d))"
    using arg_cong [OF that, of unat] assms(4,5) by (simp add: unat_of_nat)
  ultimately show ?thesis
    using assms(2,3)
    by (auto simp: summary_values_def dest: id_to_string_inj link_state_sp.spell_inj freshness_sp.spell_inj
        completeness_sp.spell_inj confidence_sp.spell_inj to_dec_i64_inj to_dec_inj)
qed

text \<open>
  The line of an evidence determines its provenance, its instants and the judgement; the value at
  its end is the only field that may hold spaces.
\<close>

definition evidence_keys :: "string list" where
  "evidence_keys = [''evidence'', ''observation'', ''link'', ''metric'', ''source'', ''incarnation'', ''epoch'', ''generation'',
     ''revision'', ''observed-at'', ''received-at'', ''accepted-at'', ''freshness'', ''confidence'', ''value'']"

definition evidence_values :: "evidence \<Rightarrow> freshness \<Rightarrow> confidence \<Rightarrow> string list" where
  "evidence_values e f c =
     (let o1 = ev_observation e; p = obs_provenance o1 in
      [id_to_string ''evidence'' (compute_evidence_id o1), id_to_string ''observation'' (obs_id o1),
       id_to_string ''link'' (obs_link o1), metric_key_to_string (obs_key o1), id_to_string ''source'' (prov_source p),
       id_to_string ''incarnation'' (prov_incarnation p), id_to_string ''epoch'' (prov_epoch p),
       id_to_string ''generation'' (prov_generation p), to_dec (prov_sequence p), to_dec_i64 (obs_observed_at o1),
       to_dec_i64 (obs_received_at o1), to_dec_i64 (ev_accepted_at e), freshness_to_string f, confidence_to_string c,
       format_payload (obs_payload o1)])"

lemma format_evidence_fields:
  "format_evidence e f c = join_fields (CHR '' '') (zip evidence_keys (evidence_values e f c))"
  unfolding format_evidence_def tf_simps Let_def by (simp add: tf_of_def evidence_keys_def evidence_values_def Let_def)

lemma key_no_space: "CHR '' '' \<notin> set (metric_key_to_string k)"
proof -
  have "CHR '' '' \<notin> set (metric_family_to_string f)" for f by (cases f) simp_all
  moreover have "CHR '' '' \<notin> set (direction_to_string d)" for d by (cases d) simp_all
  moreover have "CHR '' '' \<notin> set (error_class_to_string e)" for e by (cases e) simp_all
  ultimately show ?thesis by (simp add: metric_key_to_string_def)
qed

lemma evidence_line_determines_its_fields:
  assumes "format_evidence e f c = format_evidence e' f' c'"
    and "in_i64 (ev_accepted_at e)" and "in_i64 (ev_accepted_at e')"
  shows "obs_id (ev_observation e) = obs_id (ev_observation e')
    \<and> obs_link (ev_observation e) = obs_link (ev_observation e')
    \<and> obs_provenance (ev_observation e) = obs_provenance (ev_observation e')
    \<and> ev_accepted_at e = ev_accepted_at e' \<and> f = f' \<and> c = c'
    \<and> format_payload (obs_payload (ev_observation e)) = format_payload (obs_payload (ev_observation e'))"
proof -
  have "evidence_values e f c = evidence_values e' f' c'"
    using assms(1) [unfolded format_evidence_fields]
    by (rule join_fields_inj) (simp_all add: evidence_values_def evidence_keys_def Let_def no_space key_no_space)
  then show ?thesis
    using assms(2,3)
    by (auto simp: evidence_values_def Let_def intro!: provenance.equality
        dest: id_to_string_inj freshness_sp.spell_inj confidence_sp.spell_inj to_dec_i64_inj to_dec_inj)
qed

text \<open>
  The full explanation prints the instant of the decision as an unsigned number: a decision one
  nanosecond before the epoch is printed as \<open>2 ^ 64 - 1\<close>, while the summary prints -1.
\<close>

lemma explanation_of_negative_instant:
  "\<exists>tail. explain (empty_classification\<lparr>cl_decided_at := - 1\<rparr>) default_explain_options =
     append_line ''last-known-state'' ''none''
       (append_line ''state'' ''unknown'' (append_line ''link'' (id_to_string ''link'' (id_zero :: link_id)) []))
     @ ''decided-at: '' @ to_dec (- 1) @ [newline] @ tail"
  by (simp add: explain_def append_line_def append_line_u64_def default_explain_options_def empty_classification_def Let_def)

end
