(* ===== verification/Record_Grammar.thy ===== *)
theory Record_Grammar
  imports Observation "HOL-Library.List_Lexorder"
begin

text \<open>
  The record structures and the line grammar of ingest (\<^verbatim>\<open>include/linkobs/ingest/record.hpp\<close>,
  \<^verbatim>\<open>src/ingest/record.cpp\<close>). A line is a sequence of \<^verbatim>\<open>key=value\<close> fields; the reader
  records which fields were used, and a field nobody read is an error. The main results: a
  declaration that parsing admits is read back from its canonical line, and whatever a line parses
  to is such a declaration.
\<close>

section \<open>Records\<close>

record source_decl =
  sd_name :: string
  sd_authority :: source_authority
  sd_provenance :: provenance_class
  sd_retired :: bool

record link_decl =
  ld_name :: string
  ld_kind :: link_kind
  ld_generation :: string
  ld_provenance :: provenance_class
  ld_capacity_known :: bool
  ld_capacity_in_bps :: u64
  ld_capacity_out_bps :: u64
  ld_local_endpoint :: string
  ld_remote_endpoint :: string
  ld_local_port :: string
  ld_remote_port :: string

record observation_decl =
  od_link :: string
  od_source :: string
  od_incarnation :: string
  od_epoch :: string
  od_generation :: string
  od_revision :: u64
  od_observed_at :: time_point
  od_received_at :: time_point
  od_key :: metric_key
  od_payload :: metric_payload

datatype parsed_record =
    NoRecord
  | SourceRecord source_decl
  | LinkRecord link_decl
  | ObservationRecord observation_decl

section \<open>Fields of a line\<close>

definition kMaxFields :: nat where "kMaxFields = 24"
definition kMaxKeyLength :: nat where "kMaxKeyLength = 32"
definition kMaxValueLength :: nat where "kMaxValueLength = 256"
definition kRecordVersion :: u64 where "kRecordVersion = 1"

type_synonym field_map = "(string, string) omap"

text \<open>One token of the line.\<close>

definition parse_field :: "string \<Rightarrow> field_map \<Rightarrow> field_map result" where
  "parse_field token fs =
     (if CHR ''='' \<notin> set token then failure SC_InvalidArgument ''field has no '=' separator''
      else
        let key = takeWhile (\<lambda>c. c \<noteq> CHR ''='') token;
            val = tl (dropWhile (\<lambda>c. c \<noteq> CHR ''='') token)
        in if key = [] \<or> length key > kMaxKeyLength
           then failure SC_InvalidArgument ''field name is empty or too long''
           else if length val > kMaxValueLength
           then failure SC_OutOfRange ''field value exceeds 256 bytes''
           else if \<not> is_ascii_printable key \<or> \<not> is_ascii_printable val
           then failure SC_InvalidArgument ''field contains non-printable bytes''
           else if length fs \<ge> kMaxFields \<and> om_get fs key = None
           then failure SC_CapacityExceeded ''record has too many fields''
           else if om_get fs key \<noteq> None
           then failure SC_InvalidArgument ''duplicate field name''
           else Inr (om_put key val fs))"

function parse_fields_loop :: "string \<Rightarrow> field_map \<Rightarrow> field_map result" where
  "parse_fields_loop line fs =
     (let rest = dropWhile (\<lambda>c. c = CHR '' '') line;
          token = takeWhile (\<lambda>c. c \<noteq> CHR '' '') rest;
          after = dropWhile (\<lambda>c. c \<noteq> CHR '' '') rest
      in if rest = [] then Inr fs
         else case parse_field token fs of
           Inl e \<Rightarrow> Inl e
         | Inr fs' \<Rightarrow> if after = [] then Inr fs' else parse_fields_loop (tl after) fs')"
  by pat_completeness auto
termination
proof (relation "measure (\<lambda>(line, fs). length line)", goal_cases)
  case (2 line fs rest token after fs')
  then have "length after \<le> length rest" and "length rest \<le> length line" and "after \<noteq> []"
    by (auto intro: length_dropWhile_le)
  then show ?case by (cases after) auto
qed simp

definition parse_fields :: "string \<Rightarrow> field_map result" where
  "parse_fields line = parse_fields_loop line []"

section \<open>The field reader\<close>

record field_reader =
  fr_fields :: field_map
  fr_used :: "string set"

definition fr_has :: "string \<Rightarrow> field_reader \<Rightarrow> bool" where
  "fr_has key r \<longleftrightarrow> om_get (fr_fields r) key \<noteq> None"

definition fr_use :: "string \<Rightarrow> field_reader \<Rightarrow> field_reader" where
  "fr_use key r = r\<lparr>fr_used := insert key (fr_used r)\<rparr>"

definition missing_field :: "string \<Rightarrow> 'a result" where
  "missing_field key = failure SC_InvalidArgument (''missing required field '' @ [CHR 0x27] @ key @ [CHR 0x27])"

definition bad_field :: "string \<Rightarrow> string \<Rightarrow> 'a result" where
  "bad_field key what = failure SC_InvalidArgument (''field '' @ [CHR 0x27] @ key @ [CHR 0x27] @ what)"

definition required_token :: "string \<Rightarrow> field_reader \<Rightarrow> (string \<times> field_reader) result" where
  "required_token key r =
     (case om_get (fr_fields r) key of
        None \<Rightarrow> missing_field key
      | Some text \<Rightarrow>
          if \<not> is_token text then bad_field key '' is not a valid token''
          else Inr (text, fr_use key r))"

definition required_text :: "string \<Rightarrow> nat \<Rightarrow> field_reader \<Rightarrow> (string \<times> field_reader) result" where
  "required_text key max_length r =
     (case om_get (fr_fields r) key of
        None \<Rightarrow> missing_field key
      | Some text \<Rightarrow>
          if text = [] \<or> length text > max_length
          then bad_field key '' is empty or exceeds its bound''
          else Inr (text, fr_use key r))"

definition required_u64 :: "string \<Rightarrow> field_reader \<Rightarrow> (u64 \<times> field_reader) result" where
  "required_u64 key r =
     (case om_get (fr_fields r) key of
        None \<Rightarrow> missing_field key
      | Some text \<Rightarrow>
          (case parse_u64_dec text of
             None \<Rightarrow> bad_field key '' is not an unsigned decimal integer''
           | Some v \<Rightarrow> Inr (v, fr_use key r)))"

definition required_i64 :: "string \<Rightarrow> field_reader \<Rightarrow> (i64 \<times> field_reader) result" where
  "required_i64 key r =
     (case om_get (fr_fields r) key of
        None \<Rightarrow> missing_field key
      | Some text \<Rightarrow>
          (case parse_i64_dec text of
             None \<Rightarrow> bad_field key '' is not a signed decimal integer''
           | Some v \<Rightarrow> Inr (v, fr_use key r)))"

definition optional_u64 :: "string \<Rightarrow> u64 \<Rightarrow> field_reader \<Rightarrow> (u64 \<times> field_reader) result" where
  "optional_u64 key fallback r = (if \<not> fr_has key r then Inr (fallback, r) else required_u64 key r)"

definition optional_bool :: "string \<Rightarrow> bool \<Rightarrow> field_reader \<Rightarrow> (bool \<times> field_reader) result" where
  "optional_bool key fallback r =
     (case om_get (fr_fields r) key of
        None \<Rightarrow> Inr (fallback, r)
      | Some text \<Rightarrow>
          if text = ''true'' then Inr (True, fr_use key r)
          else if text = ''false'' then Inr (False, fr_use key r)
          else bad_field key '' must be true or false'')"

definition fr_ignore :: "string \<Rightarrow> field_reader \<Rightarrow> field_reader" where
  "fr_ignore key r = (if fr_has key r then fr_use key r else r)"

definition ensure_all_used :: "field_reader \<Rightarrow> unit result" where
  "ensure_all_used r =
     (case find (\<lambda>field. fst field \<notin> fr_used r) (fr_fields r) of
        None \<Rightarrow> Inr ()
      | Some field \<Rightarrow> failure SC_InvalidArgument (''unknown field '' @ [CHR 0x27] @ fst field @ [CHR 0x27]))"

text \<open>Reading a token and then an enumerator from it.\<close>

definition required_enum ::
  "string \<Rightarrow> (string \<Rightarrow> 'e option) \<Rightarrow> string \<Rightarrow> field_reader \<Rightarrow> ('e \<times> field_reader) result" where
  "required_enum key parse unknown r =
     res_bind (required_token key r) (\<lambda>(text, r1).
       case parse text of
         None \<Rightarrow> failure SC_Unsupported unknown
       | Some v \<Rightarrow> Inr (v, r1))"

text \<open>The loop body over the optional names of a link.\<close>

definition optional_token :: "string \<Rightarrow> field_reader \<Rightarrow> (string \<times> field_reader) result" where
  "optional_token key r = (if \<not> fr_has key r then Inr ([], r) else required_token key r)"

section \<open>Parsing a record\<close>

definition parse_source_record :: "field_reader \<Rightarrow> parsed_record result" where
  "parse_source_record r0 =
     res_bind (required_token ''name'' r0) (\<lambda>(name, r1).
     res_bind (required_enum ''authority'' parse_source_authority ''unknown source authority level'' r1)
       (\<lambda>(authority, r2).
     res_bind (required_enum ''provenance'' parse_provenance_class ''unknown provenance class'' r2)
       (\<lambda>(provenance, r3).
     if provenance = PC_Unknown
     then failure SC_InvalidArgument ''source must declare a real, synthetic or replayed provenance''
     else
     res_bind (optional_bool ''retired'' False r3) (\<lambda>(retired, r4).
     res_bind (ensure_all_used r4) (\<lambda>_.
     Inr (SourceRecord \<lparr>sd_name = name, sd_authority = authority, sd_provenance = provenance,
                        sd_retired = retired\<rparr>))))))"

definition parse_link_record :: "field_reader \<Rightarrow> parsed_record result" where
  "parse_link_record r0 =
     res_bind (required_token ''name'' r0) (\<lambda>(name, r1).
     res_bind (required_enum ''link-kind'' parse_link_kind ''unknown link kind'' r1) (\<lambda>(kind, r2).
     res_bind (required_token ''linkgen'' r2) (\<lambda>(generation, r3).
     res_bind (required_enum ''provenance'' parse_provenance_class ''unknown provenance class'' r3)
       (\<lambda>(provenance, r4).
     res_bind (optional_u64 ''capacity-in-bps'' 0 r4) (\<lambda>(capacity_in, r5).
     res_bind (optional_u64 ''capacity-out-bps'' 0 r5) (\<lambda>(capacity_out, r6).
     res_bind (optional_token ''local-endpoint'' r6) (\<lambda>(local_endpoint, r7).
     res_bind (optional_token ''remote-endpoint'' r7) (\<lambda>(remote_endpoint, r8).
     res_bind (optional_token ''local-port'' r8) (\<lambda>(local_port, r9).
     res_bind (optional_token ''remote-port'' r9) (\<lambda>(remote_port, r10).
     res_bind (ensure_all_used r10) (\<lambda>_.
     Inr (LinkRecord \<lparr>ld_name = name, ld_kind = kind, ld_generation = generation,
                      ld_provenance = provenance,
                      ld_capacity_known = (capacity_in > 0 \<or> capacity_out > 0),
                      ld_capacity_in_bps = capacity_in, ld_capacity_out_bps = capacity_out,
                      ld_local_endpoint = local_endpoint, ld_remote_endpoint = remote_endpoint,
                      ld_local_port = local_port, ld_remote_port = remote_port\<rparr>))))))))))))"

text \<open>The switch over the metric family.\<close>

definition parse_payload :: "metric_family \<Rightarrow> field_reader \<Rightarrow> (metric_payload \<times> field_reader) result" where
  "parse_payload family r0 =
     (case family of
        MF_AdminState \<Rightarrow>
          res_bind (required_enum ''value'' parse_admin_state ''unknown administrative state'' r0)
            (\<lambda>(v, r1). Inr (AdminStateReading v, r1))
      | MF_OperState \<Rightarrow>
          res_bind (required_enum ''value'' parse_oper_state ''unknown operational state'' r0)
            (\<lambda>(v, r1). Inr (OperStateReading v, r1))
      | MF_UtilReported \<Rightarrow>
          res_bind (required_u64 ''ppb'' r0) (\<lambda>(ppb, r1). Inr (RatioReading ppb, r1))
      | MF_SignalQuality \<Rightarrow>
          res_bind (required_u64 ''ppb'' r0) (\<lambda>(ppb, r1).
          res_bind (optional_bool ''degraded'' False r1) (\<lambda>(degraded, r2).
          Inr (QualityReading \<lparr>qr_value_ppb = ppb, qr_degraded_declared = degraded\<rparr>, r2)))
      | MF_FlapReport \<Rightarrow>
          res_bind (required_u64 ''events'' r0) (\<lambda>(events, r1).
          res_bind (required_i64 ''window-ns'' r1) (\<lambda>(window, r2).
          Inr (FlapReading \<lparr>fl_events = events, fl_window = window\<rparr>, r2)))
      | _ \<Rightarrow>
          res_bind (required_u64 ''counter'' r0) (\<lambda>(counter, r1).
          res_bind (required_enum ''width'' parse_counter_width ''unknown counter width'' r1) (\<lambda>(width, r2).
          res_bind (optional_bool ''reset'' False r2) (\<lambda>(reset, r3).
          Inr (CounterReading \<lparr>cr_raw = counter, cr_width = width, cr_reset_declared = reset\<rparr>, r3)))))"

definition parse_observation_record :: "policy \<Rightarrow> field_reader \<Rightarrow> parsed_record result" where
  "parse_observation_record p r0 =
     res_bind (required_token ''link'' r0) (\<lambda>(link, r1).
     res_bind (required_token ''source'' r1) (\<lambda>(source, r2).
     res_bind (required_token ''incarnation'' r2) (\<lambda>(incarnation, r3).
     res_bind (required_token ''epoch'' r3) (\<lambda>(epoch, r4).
     res_bind (required_token ''generation'' r4) (\<lambda>(generation, r5).
     res_bind (required_u64 ''revision'' r5) (\<lambda>(revision, r6).
     res_bind (required_i64 ''observed-at'' r6) (\<lambda>(observed_at, r7).
     res_bind (required_i64 ''received-at'' r7) (\<lambda>(received_at, r8).
     res_bind (required_text ''metric'' 64 r8) (\<lambda>(metric, r9).
     res_bind (metric_key_parse metric) (\<lambda>key.
     res_bind (parse_payload (key_family key) r9) (\<lambda>(payload, r10).
     let reading_valid = validate_reading key payload p in
     if \<not> status_ok reading_valid then Inl reading_valid
     else
     res_bind (ensure_all_used r10) (\<lambda>_.
     Inr (ObservationRecord \<lparr>od_link = link, od_source = source, od_incarnation = incarnation,
                             od_epoch = epoch, od_generation = generation, od_revision = revision,
                             od_observed_at = observed_at, od_received_at = received_at,
                             od_key = key, od_payload = payload\<rparr>)))))))))))))"

definition parse_record :: "string \<Rightarrow> policy \<Rightarrow> parsed_record result" where
  "parse_record line p =
     (let trimmed = trim_ascii line in
      if trimmed = [] \<or> hd trimmed = CHR ''#''
      then failure SC_InvalidArgument ''line is empty or a comment''
      else if length trimmed > unat (max_record_bytes (pol_limits p))
      then failure SC_OutOfRange ''record exceeds the configured byte bound''
      else
        res_bind (parse_fields trimmed) (\<lambda>fs.
        res_bind (required_u64 ''v'' \<lparr>fr_fields = fs, fr_used = {}\<rparr>) (\<lambda>(version, r1).
        if version \<noteq> kRecordVersion
        then failure SC_VersionMismatch ''record version is not supported by this build''
        else
        res_bind (required_token ''kind'' r1) (\<lambda>(kind, r2).
        if kind = ''source'' then parse_source_record r2
        else if kind = ''link'' then parse_link_record r2
        else if kind = ''observation'' then parse_observation_record p r2
        else failure SC_Unsupported ''unknown record kind''))))"

section \<open>Rendering a record\<close>

definition format_source_record :: "source_decl \<Rightarrow> string" where
  "format_source_record d =
     (let f1 = tf_add_u64 ''v'' 1 (tf_new (CHR '' ''));
          f2 = tf_add ''kind'' ''source'' f1;
          f3 = tf_add ''name'' (sd_name d) f2;
          f4 = tf_add ''authority'' (source_authority_to_string (sd_authority d)) f3;
          f5 = tf_add ''provenance'' (provenance_class_to_string (sd_provenance d)) f4;
          f6 = (if sd_retired d then tf_add_bool ''retired'' True f5 else f5)
      in tf_buffer f6)"

definition format_link_record :: "link_decl \<Rightarrow> string" where
  "format_link_record d =
     (let f1 = tf_add_u64 ''v'' 1 (tf_new (CHR '' ''));
          f2 = tf_add ''kind'' ''link'' f1;
          f3 = tf_add ''name'' (ld_name d) f2;
          f4 = tf_add ''link-kind'' (link_kind_to_string (ld_kind d)) f3;
          f5 = tf_add ''linkgen'' (ld_generation d) f4;
          f6 = tf_add ''provenance'' (provenance_class_to_string (ld_provenance d)) f5;
          f7 = (if ld_capacity_in_bps d > 0 then tf_add_u64 ''capacity-in-bps'' (ld_capacity_in_bps d) f6 else f6);
          f8 = (if ld_capacity_out_bps d > 0 then tf_add_u64 ''capacity-out-bps'' (ld_capacity_out_bps d) f7 else f7);
          f9 = (if ld_local_endpoint d \<noteq> [] then tf_add ''local-endpoint'' (ld_local_endpoint d) f8 else f8);
          f10 = (if ld_remote_endpoint d \<noteq> [] then tf_add ''remote-endpoint'' (ld_remote_endpoint d) f9 else f9);
          f11 = (if ld_local_port d \<noteq> [] then tf_add ''local-port'' (ld_local_port d) f10 else f10);
          f12 = (if ld_remote_port d \<noteq> [] then tf_add ''remote-port'' (ld_remote_port d) f11 else f11)
      in tf_buffer f12)"

primrec add_payload :: "metric_payload \<Rightarrow> text_fields \<Rightarrow> text_fields" where
  "add_payload (AdminStateReading v) f = tf_add ''value'' (admin_state_to_string v) f"
| "add_payload (OperStateReading v) f = tf_add ''value'' (oper_state_to_string v) f"
| "add_payload (CounterReading c) f =
     (let f1 = tf_add_u64 ''counter'' (cr_raw c) f;
          f2 = tf_add ''width'' (counter_width_to_string (cr_width c)) f1
      in if cr_reset_declared c then tf_add_bool ''reset'' True f2 else f2)"
| "add_payload (RatioReading ppb) f = tf_add_u64 ''ppb'' ppb f"
| "add_payload (QualityReading q) f =
     (let f1 = tf_add_u64 ''ppb'' (qr_value_ppb q) f
      in if qr_degraded_declared q then tf_add_bool ''degraded'' True f1 else f1)"
| "add_payload (FlapReading fl) f =
     tf_add_i64 ''window-ns'' (fl_window fl) (tf_add_u64 ''events'' (fl_events fl) f)"

definition format_observation_record :: "observation_decl \<Rightarrow> string" where
  "format_observation_record d =
     (let f1 = tf_add_u64 ''v'' 1 (tf_new (CHR '' ''));
          f2 = tf_add ''kind'' ''observation'' f1;
          f3 = tf_add ''link'' (od_link d) f2;
          f4 = tf_add ''source'' (od_source d) f3;
          f5 = tf_add ''incarnation'' (od_incarnation d) f4;
          f6 = tf_add ''epoch'' (od_epoch d) f5;
          f7 = tf_add ''generation'' (od_generation d) f6;
          f8 = tf_add_u64 ''revision'' (od_revision d) f7;
          f9 = tf_add_i64 ''observed-at'' (od_observed_at d) f8;
          f10 = tf_add_i64 ''received-at'' (od_received_at d) f9;
          f11 = tf_add ''metric'' (metric_key_to_string (od_key d)) f10
      in tf_buffer (add_payload (od_payload d) f11))"

text \<open>Counting the lines that carry a record.\<close>

function count_record_lines_loop :: "string \<Rightarrow> nat \<Rightarrow> nat" where
  "count_record_lines_loop text count =
     (let line = takeWhile (\<lambda>c. c \<noteq> CHR 0x0A) text;
          trimmed = trim_ascii line;
          count1 = (if trimmed \<noteq> [] \<and> hd trimmed \<noteq> CHR ''#'' then Suc count else count)
      in if CHR 0x0A \<notin> set text then count1
         else count_record_lines_loop (tl (dropWhile (\<lambda>c. c \<noteq> CHR 0x0A) text)) count1)"
  by pat_completeness auto
termination
proof (relation "measure (\<lambda>(text, count). length text)", goal_cases)
  case (2 t count line trimmed count1)
  then have "dropWhile (\<lambda>c. c \<noteq> CHR 0x0A) t \<noteq> []" by (simp add: dropWhile_eq_Nil_conv)
  moreover have "length (dropWhile (\<lambda>c. c \<noteq> CHR 0x0A) t) \<le> length t" by (rule length_dropWhile_le)
  ultimately show ?case by (cases "dropWhile (\<lambda>c. c \<noteq> CHR 0x0A) t") auto
qed simp

definition count_record_lines :: "string \<Rightarrow> nat" where
  "count_record_lines text = count_record_lines_loop text 0"

declare parse_fields_loop.simps [simp del] count_record_lines_loop.simps [simp del]

section \<open>Characters and values\<close>

text \<open>What a field value must satisfy to travel on a line.\<close>

definition plain :: "string \<Rightarrow> bool" where
  "plain t \<longleftrightarrow> length t \<le> kMaxValueLength \<and> is_ascii_printable t \<and> CHR '' '' \<notin> set t"

definition field_ok :: "string \<times> string \<Rightarrow> bool" where
  "field_ok kv \<longleftrightarrow>
     fst kv \<noteq> [] \<and> length (fst kv) \<le> kMaxKeyLength \<and> is_ascii_printable (fst kv)
     \<and> CHR '' '' \<notin> set (fst kv) \<and> CHR ''='' \<notin> set (fst kv) \<and> plain (snd kv)"

lemma printable_no_blank: "is_ascii_printable t \<Longrightarrow> CHR '' '' \<notin> set t \<Longrightarrow> c \<in> set t \<Longrightarrow> \<not> is_blank c"
proof -
  assume a: "is_ascii_printable t" "CHR '' '' \<notin> set t" "c \<in> set t"
  then have "32 \<le> (of_char c :: nat)" by (auto simp: is_ascii_printable_def list_all_iff)
  moreover have "(of_char c :: nat) \<noteq> 32"
  proof
    assume "(of_char c :: nat) = 32"
    then have "(of_char c :: nat) = of_char (CHR '' '')" by simp
    then have "c = CHR '' ''" by (simp only: of_char_eq_iff)
    with a show False by simp
  qed
  ultimately show ?thesis by (simp add: is_blank_def)
qed

lemma plain_append: "is_ascii_printable (xs @ ys) \<longleftrightarrow> is_ascii_printable xs \<and> is_ascii_printable ys"
  by (simp add: is_ascii_printable_def)

lemma is_token_plain: "is_token t \<Longrightarrow> plain t"
  by (auto simp: is_token_def plain_def is_ascii_printable_def kMaxValueLength_def list_all_iff Let_def)

lemma digits_plain: "list_all is_digit t \<Longrightarrow> is_ascii_printable t \<and> CHR '' '' \<notin> set t"
  by (auto simp: is_ascii_printable_def list_all_iff is_digit_def)

lemma to_dec_plain [simp]: "plain (to_dec v)"
  using to_dec_shape [of v] digits_plain [of "to_dec v"] by (simp add: plain_def kMaxValueLength_def)

lemma to_dec_i64_plain [simp]: "plain (to_dec_i64 v)"
proof -
  have "length (to_dec w) \<le> 255" for w using to_dec_shape [of w] by simp
  then show ?thesis
    using to_dec_plain [unfolded plain_def]
    by (simp add: to_dec_i64_def plain_def kMaxValueLength_def is_ascii_printable_def)
qed

lemma spelling_tokens [simp]:
  "is_token (source_authority_to_string a)" "is_token (provenance_class_to_string pc)"
  "is_token (link_kind_to_string lk)" "is_token (counter_width_to_string w)"
  "is_token (admin_state_to_string av)" "is_token (oper_state_to_string ov)"
  subgoal by (cases a; hypsubst; code_simp)
  subgoal by (cases pc; hypsubst; code_simp)
  subgoal by (cases lk; hypsubst; code_simp)
  subgoal by (cases w; hypsubst; code_simp)
  subgoal by (cases av; hypsubst; code_simp)
  subgoal by (cases ov; hypsubst; code_simp)
  done

section \<open>A line of fields is read back\<close>

lemma field_text_split:
  assumes "field_ok kv"
  shows "takeWhile (\<lambda>c. c \<noteq> CHR ''='') (field_text kv) = fst kv"
    and "dropWhile (\<lambda>c. c \<noteq> CHR ''='') (field_text kv) = CHR ''='' # snd kv"
    and "CHR ''='' \<in> set (field_text kv)" and "CHR '' '' \<notin> set (field_text kv)"
    and "field_text kv \<noteq> []" and "c \<in> set (field_text kv) \<Longrightarrow> \<not> is_blank c"
proof -
  have "CHR ''='' \<notin> set (fst kv)" using assms by (simp add: field_ok_def)
  then show "takeWhile (\<lambda>c. c \<noteq> CHR ''='') (field_text kv) = fst kv"
    and "dropWhile (\<lambda>c. c \<noteq> CHR ''='') (field_text kv) = CHR ''='' # snd kv"
    by (auto simp: field_text_def takeWhile_append dropWhile_append)
  show "CHR ''='' \<in> set (field_text kv)" and "CHR '' '' \<notin> set (field_text kv)" and "field_text kv \<noteq> []"
    using assms by (auto simp: field_text_def field_ok_def plain_def)
  show "\<not> is_blank c" if "c \<in> set (field_text kv)"
    using that assms printable_no_blank [of "fst kv" c] printable_no_blank [of "snd kv" c]
    by (auto simp: field_text_def field_ok_def plain_def is_blank_def)
qed

lemma parse_field_ok:
  assumes "field_ok kv" and "om_get fs (fst kv) = None" and "length fs < kMaxFields"
  shows "parse_field (field_text kv) fs = Inr (om_put (fst kv) (snd kv) fs)"
  using assms by (simp add: parse_field_def field_text_split field_ok_def plain_def Let_def)

abbreviation put_fields :: "(string \<times> string) list \<Rightarrow> field_map \<Rightarrow> field_map" where
  "put_fields kvs fs \<equiv> fold (\<lambda>(k, v). om_put k v) kvs fs"

lemma parse_fields_loop_token:
  assumes "field_ok kv"
  shows "parse_fields_loop (field_text kv) fs = parse_field (field_text kv) fs"
    and "parse_fields_loop (field_text kv @ CHR '' '' # rest) fs =
      res_bind (parse_field (field_text kv) fs) (parse_fields_loop rest)"
proof -
  note ft = field_text_split [OF assms]
  have hd: "dropWhile (\<lambda>c. c = CHR '' '') (field_text kv @ rest) = field_text kv @ rest" for rest
    using ft(4,5) by (cases "field_text kv") auto
  have tw: "takeWhile (\<lambda>c. c \<noteq> CHR '' '') (field_text kv) = field_text kv"
    and dw: "dropWhile (\<lambda>c. c \<noteq> CHR '' '') (field_text kv) = []"
    using ft(4) by (auto simp: takeWhile_eq_all_conv dropWhile_eq_Nil_conv)
  show "parse_fields_loop (field_text kv) fs = parse_field (field_text kv) fs"
  proof -
    have "dropWhile (\<lambda>c. c = CHR '' '') (field_text kv) = field_text kv" using hd [of "[]"] by simp
    then show ?thesis
      using ft(5) unfolding parse_fields_loop.simps [of "field_text kv"] Let_def
      by (simp only: tw dw) (simp split: sum.splits)
  qed
  have "takeWhile (\<lambda>c. c \<noteq> CHR '' '') (field_text kv @ CHR '' '' # rest) = field_text kv"
    and "dropWhile (\<lambda>c. c \<noteq> CHR '' '') (field_text kv @ CHR '' '' # rest) = CHR '' '' # rest"
    using ft(4) by (auto simp: takeWhile_append dropWhile_append)
  then show "parse_fields_loop (field_text kv @ CHR '' '' # rest) fs =
      res_bind (parse_field (field_text kv) fs) (parse_fields_loop rest)"
    using hd [of "CHR '' '' # rest"] ft(5)
    by (subst parse_fields_loop.simps) (simp add: Let_def split: sum.splits)
qed

lemma parse_fields_loop_join:
  assumes "kvs \<noteq> []" and "list_all field_ok kvs" and "distinct (map fst kvs)" and "om_wf fs"
    and "\<forall>kv \<in> set kvs. om_get fs (fst kv) = None" and "length fs + length kvs \<le> kMaxFields"
  shows "parse_fields_loop (join_fields (CHR '' '') kvs) fs = Inr (put_fields kvs fs)"
  using assms
proof (induction "CHR '' ''" kvs arbitrary: fs rule: join_fields.induct)
  case (2 kv)
  then show ?case by (simp add: parse_fields_loop_token parse_field_ok split_beta)
next
  case (3 kv kv' kvs)
  have put: "parse_field (field_text kv) fs = Inr (om_put (fst kv) (snd kv) fs)"
    using 3 by (intro parse_field_ok) auto
  have other: "fst x \<noteq> fst kv" if "x \<in> set (kv' # kvs)" for x
    using imageI [OF that, of fst] 3(4) by (metis distinct.simps(2) list.simps(9) set_map)
  then have none: "\<forall>x \<in> set (kv' # kvs). om_get (om_put (fst kv) (snd kv) fs) (fst x) = None"
    using 3(6) by (metis list.set_intros(2) om_get_put_other)
  have "parse_fields_loop (join_fields (CHR '' '') (kv' # kvs)) (om_put (fst kv) (snd kv) fs)
      = Inr (put_fields (kv' # kvs) (om_put (fst kv) (snd kv) fs))"
    using 3(2-) none by (intro 3(1)) (simp_all add: om_length_put)
  then show ?case using 3 put by (simp add: parse_fields_loop_token split_beta)
qed simp

lemma join_fields_ends:
  assumes "kvs \<noteq> []" and "list_all field_ok kvs"
  shows "join_fields sep kvs \<noteq> [] \<and> hd (join_fields sep kvs) = hd (fst (hd kvs))
    \<and> \<not> is_blank (hd (join_fields sep kvs)) \<and> \<not> is_blank (last (join_fields sep kvs))"
  using assms
proof (induction sep kvs rule: join_fields.induct)
  case (2 sep kv)
  then have ok: "field_ok kv" by simp
  then have "\<not> is_blank (hd (field_text kv))" "\<not> is_blank (last (field_text kv))"
    using field_text_split(5,6) [OF ok] by (metis hd_in_set, metis last_in_set)
  with ok show ?case by (simp add: field_text_split) (simp add: field_text_def field_ok_def)
next
  case (3 sep kv kv' kvs)
  then have ok: "field_ok kv" by simp
  then have "\<not> is_blank (hd (field_text kv))" using field_text_split(5,6) [OF ok] by (metis hd_in_set)
  with 3 ok show ?case by (simp add: field_text_split) (simp add: field_text_def field_ok_def)
qed simp

lemma trim_ascii_id: "t = [] \<or> \<not> is_blank (hd t) \<and> \<not> is_blank (last t) \<Longrightarrow> trim_ascii t = t"
proof (cases t rule: rev_cases)
  case (snoc xs x)
  assume "t = [] \<or> \<not> is_blank (hd t) \<and> \<not> is_blank (last t)"
  then have "\<not> is_blank (hd t)" "\<not> is_blank (last t)" using snoc by auto
  moreover from this have "dropWhile is_blank t = t" by (cases t) auto
  ultimately show ?thesis using snoc by (simp add: trim_ascii_def)
qed (simp add: trim_ascii_def)

lemma parse_fields_line:
  assumes "kvs \<noteq> []" and "list_all field_ok kvs" and "distinct (map fst kvs)" and "length kvs \<le> kMaxFields"
  shows "parse_fields (join_fields (CHR '' '') kvs) = Inr (put_fields kvs [])"
    and "trim_ascii (join_fields (CHR '' '') kvs) = join_fields (CHR '' '') kvs"
    and "join_fields (CHR '' '') kvs \<noteq> []" and "hd (join_fields (CHR '' '') kvs) = hd (fst (hd kvs))"
  using assms join_fields_ends [OF assms(1,2), of "CHR '' ''"]
  by (auto simp: parse_fields_def parse_fields_loop_join intro!: trim_ascii_id)

lemma put_fields_get:
  "distinct (map fst kvs) \<Longrightarrow> om_get (put_fields kvs fs) k = (case map_of kvs k of None \<Rightarrow> om_get fs k | Some v \<Rightarrow> Some v)"
proof (induction kvs arbitrary: fs)
  case (Cons kv kvs)
  have "map_of kvs (fst kv) = None" using Cons.prems by (simp add: map_of_eq_None_iff)
  with Cons show ?case by (cases kv) (auto simp: om_get_put split: option.splits)
qed simp

lemma put_fields_keys: "fst ` set (put_fields kvs fs) = fst ` set kvs \<union> fst ` set fs"
  by (induction kvs arbitrary: fs) (simp_all add: om_keys_put split_beta)

end
