(* ===== verification/Observatory.thy ===== *)
theory Observatory
  imports Classifier Record_Grammar
begin

text \<open>
  The observatory (\<^verbatim>\<open>src/runtime/observatory.cpp\<close> and \<^verbatim>\<open>src/runtime/config.cpp\<close>): applying
  declarations and observations under the state lock, refreshing the classification, the queries, and taking and
  restoring a snapshot. The clock is an argument of every operation that reads it, and so is the
  snapshot format version, which the build generates. Routing to ingest workers, the snapshot
  file format and the file system are not part of this theory.
\<close>

section \<open>Configuration, statistics and state\<close>

record runtime_config =
  cfg_snapshot_path :: string
  cfg_restore_on_start :: bool
  cfg_persist_on_stop :: bool
  cfg_workers :: u64
  cfg_queue_depth :: u64
  cfg_runtime_name :: string
  cfg_incarnation_name :: string
  cfg_families :: u32
  cfg_policy :: policy

definition disable_family :: "u32 \<Rightarrow> metric_family \<Rightarrow> u32" where
  "disable_family enabled f = enabled AND NOT (push_bit (metric_family_code f) 1)"

definition enable_family :: "u32 \<Rightarrow> metric_family \<Rightarrow> u32" where
  "enable_family enabled f = enabled OR push_bit (metric_family_code f) 1"

definition is_enabled :: "u32 \<Rightarrow> metric_family \<Rightarrow> bool" where
  "is_enabled enabled f \<longleftrightarrow> enabled AND push_bit (metric_family_code f) 1 \<noteq> 0"

definition validate_config :: "runtime_config \<Rightarrow> status" where
  "validate_config c =
     (if cfg_workers c > max_workers (pol_limits (cfg_policy c))
      then status_of SC_OutOfRange ''worker count exceeds the configured bound''
      else if cfg_queue_depth c = 0
      then status_of SC_InvalidArgument ''queue depth must be positive''
      else if cfg_runtime_name c = [] \<or> length (cfg_runtime_name c) > 128
      then status_of SC_InvalidArgument ''runtime name must be 1..128 bytes''
      else if cfg_incarnation_name c = [] \<or> length (cfg_incarnation_name c) > 128
      then status_of SC_InvalidArgument ''incarnation name must be 1..128 bytes''
      else if cfg_families c = 0
      then status_of SC_InvalidArgument ''every metric family is disabled''
      else let policy_status = validate (cfg_policy c) in
        if \<not> status_ok policy_status then policy_status else status_success)"

definition runtime_id_of :: "runtime_config \<Rightarrow> runtime_id" where
  "runtime_id_of c = id_from_name ''runtime'' (cfg_runtime_name c)"

definition incarnation_id_of :: "runtime_config \<Rightarrow> incarnation_id" where
  "incarnation_id_of c = incarnation_id_from_name (cfg_incarnation_name c)"

record runtime_statistics =
  rs_records_submitted :: u64
  rs_records_accepted :: u64
  rs_records_fenced :: u64
  rs_declarations_applied :: u64
  rs_declarations_rejected :: u64
  rs_batches_processed :: u64
  rs_transitions_recorded :: u64
  rs_classifications :: u64
  rs_state_changes :: u64
  rs_snapshot_writes :: u64
  rs_snapshot_reads :: u64
  rs_recoveries :: u64
  rs_cancellations :: u64
  rs_abandoned_batches :: u64

definition empty_statistics :: runtime_statistics where
  "empty_statistics =
     \<lparr>rs_records_submitted = 0, rs_records_accepted = 0, rs_records_fenced = 0,
      rs_declarations_applied = 0, rs_declarations_rejected = 0, rs_batches_processed = 0,
      rs_transitions_recorded = 0, rs_classifications = 0, rs_state_changes = 0,
      rs_snapshot_writes = 0, rs_snapshot_reads = 0, rs_recoveries = 0, rs_cancellations = 0,
      rs_abandoned_batches = 0\<rparr>"

record observatory =
  ob_config :: runtime_config
  ob_runtime_id :: runtime_id
  ob_incarnation_id :: incarnation_id
  ob_registry :: link_registry
  ob_store :: evidence_store
  ob_log :: transition_log
  ob_observed_states :: "(link_id, link_state) omap"
  ob_last_oper_text :: "(link_id, string) omap"
  ob_last_admin_text :: "(link_id, string) omap"
  ob_own_fence_counts :: "(fence_reason, u64) omap"
  ob_stats :: runtime_statistics
  ob_started :: bool
  ob_restored :: bool
  ob_loaded_from_backup :: bool
  ob_load_detail :: string

definition new_observatory :: "runtime_config \<Rightarrow> observatory" where
  "new_observatory c =
     \<lparr>ob_config = c, ob_runtime_id = runtime_id_of c, ob_incarnation_id = incarnation_id_of c,
      ob_registry = empty_registry (cfg_policy c), ob_store = empty_store (cfg_policy c),
      ob_log = empty_log (pol_limits (cfg_policy c)), ob_observed_states = [],
      ob_last_oper_text = [], ob_last_admin_text = [], ob_own_fence_counts = [],
      ob_stats = empty_statistics, ob_started = False, ob_restored = False,
      ob_loaded_from_backup = False, ob_load_detail = []\<rparr>"

section \<open>From declarations to model values\<close>

definition make_observation :: "observation_decl \<Rightarrow> observation" where
  "make_observation d =
     with_identity
       \<lparr>obs_id = id_zero,
        obs_provenance =
          \<lparr>prov_source = source_id_from_name (od_source d),
           prov_incarnation = incarnation_id_from_name (od_incarnation d),
           prov_epoch = epoch_id_from_name (od_epoch d),
           prov_generation = generation_id_from_name (od_generation d),
           prov_sequence = od_revision d\<rparr>,
        obs_link = derive_link_id (od_link d), obs_key = od_key d, obs_payload = od_payload d,
        obs_observed_at = od_observed_at d, obs_received_at = od_received_at d\<rparr>"

definition make_link_facts :: "link_decl \<Rightarrow> link_facts" where
  "make_link_facts d =
     \<lparr>lf_id = derive_link_id (ld_name d), lf_name = ld_name d,
      lf_local_endpoint = (if ld_local_endpoint d \<noteq> [] then endpoint_id_from_name (ld_local_endpoint d) else id_zero),
      lf_remote_endpoint = (if ld_remote_endpoint d \<noteq> [] then endpoint_id_from_name (ld_remote_endpoint d) else id_zero),
      lf_local_port = (if ld_local_port d \<noteq> [] then port_id_from_name (ld_local_port d) else id_zero),
      lf_remote_port = (if ld_remote_port d \<noteq> [] then port_id_from_name (ld_remote_port d) else id_zero),
      lf_kind = ld_kind d, lf_generation = generation_id_from_name (ld_generation d),
      lf_capacity_known = ld_capacity_known d, lf_capacity_in_bps = ld_capacity_in_bps d,
      lf_capacity_out_bps = ld_capacity_out_bps d, lf_provenance = ld_provenance d\<rparr>"

definition source_name_of :: "parsed_record \<Rightarrow> string" where
  "source_name_of r =
     (case r of
        SourceRecord d \<Rightarrow> sd_name d
      | ObservationRecord d \<Rightarrow> od_source d
      | LinkRecord d \<Rightarrow> []
      | NoRecord \<Rightarrow> [])"

section \<open>Small state updates\<close>

definition empty_event :: transition_event where
  "empty_event =
     \<lparr>te_id = id_zero, te_link = id_zero, te_kind = TK_LinkRegistered, te_at = 0,
      te_generation = id_zero, te_source = id_zero, te_from = [], te_to = [], te_detail = 0\<rparr>"

text \<open>\<^verbatim>\<open>transitions_.record(event); stats_.transitions_recorded += 1;\<close>\<close>

definition record_transition :: "observatory \<Rightarrow> transition_event \<Rightarrow> observatory" where
  "record_transition ob e =
     ob\<lparr>ob_log := record_event (ob_log ob) e,
        ob_stats := (ob_stats ob)\<lparr>rs_transitions_recorded := rs_transitions_recorded (ob_stats ob) + 1\<rparr>\<rparr>"

definition count_fenced_record :: "observatory \<Rightarrow> observatory" where
  "count_fenced_record ob =
     ob\<lparr>ob_stats := (ob_stats ob)\<lparr>rs_records_fenced := rs_records_fenced (ob_stats ob) + 1\<rparr>\<rparr>"

definition own_fence_count :: "observatory \<Rightarrow> fence_reason \<Rightarrow> u64" where
  "own_fence_count ob reason =
     (case om_get (ob_own_fence_counts ob) reason of None \<Rightarrow> 0 | Some n \<Rightarrow> n)"

text \<open>\<^verbatim>\<open>++own_fence_counts_[reason]; stats_.records_fenced += 1;\<close>\<close>

definition own_fence :: "observatory \<Rightarrow> fence_reason \<Rightarrow> observatory" where
  "own_fence ob reason =
     count_fenced_record
       (ob\<lparr>ob_own_fence_counts :=
             om_put reason (own_fence_count ob reason + 1) (ob_own_fence_counts ob)\<rparr>)"

definition observatory_fence_count :: "observatory \<Rightarrow> fence_reason \<Rightarrow> u64" where
  "observatory_fence_count ob reason =
     (let total = fence_count (ob_store ob) reason in
      case om_get (ob_own_fence_counts ob) reason of None \<Rightarrow> total | Some n \<Rightarrow> total + n)"

section \<open>Classification refresh\<close>

definition classification_input_for :: "observatory \<Rightarrow> link_id \<Rightarrow> time_point \<Rightarrow> classification_input" where
  "classification_input_for ob link now =
     \<lparr>ci_link = link, ci_entry = find_link (ob_registry ob) link,
      ci_current_generation = current_generation (ob_registry ob) link, ci_has_generation = False,
      ci_generation_changes = lg_generation_changes (generation_state (ob_registry ob) link),
      ci_policy = Some (cfg_policy (ob_config ob)), ci_store = Some (ob_store ob),
      ci_transitions = Some (ob_log ob), ci_now = now\<rparr>"

text \<open>The state-change event of the refresh.\<close>

definition note_state :: "observatory \<Rightarrow> link_id \<Rightarrow> classification \<Rightarrow> time_point \<Rightarrow> observatory" where
  "note_state ob link current now =
     (let changed = (\<lambda>from_text.
            (let ob1 = record_transition ob
                   (empty_event\<lparr>te_link := link, te_kind := TK_ClassificationChanged, te_at := now,
                                te_generation := cl_generation current, te_from := from_text,
                                te_to := link_state_to_string (cl_state current)\<rparr>)
             in ob1\<lparr>ob_observed_states := om_put link (cl_state current) (ob_observed_states ob1),
                    ob_stats := (ob_stats ob1)\<lparr>rs_state_changes := rs_state_changes (ob_stats ob1) + 1\<rparr>\<rparr>))
      in case om_get (ob_observed_states ob) link of
           None \<Rightarrow> changed ''none''
         | Some previous \<Rightarrow>
             if previous \<noteq> cl_state current then changed (link_state_to_string previous) else ob)"

text \<open>
  The text tracker of one family: the value to store, and the text it replaces when that is a
  transition.
\<close>

definition track_text :: "classification \<Rightarrow> metric_family \<Rightarrow> string" where
  "track_text current family =
     (case find_report current family Dir_Unknown of
        Some report \<Rightarrow> if rp_has_value report then rp_value_text report else ''none''
      | None \<Rightarrow> ''none'')"

definition track_event ::
  "link_id \<Rightarrow> time_point \<Rightarrow> transition_kind \<Rightarrow> classification \<Rightarrow> string \<Rightarrow> string \<Rightarrow> transition_event" where
  "track_event link now kind current old text =
     empty_event\<lparr>te_link := link, te_kind := kind, te_at := now,
                 te_generation := cl_generation current, te_from := old, te_to := text\<rparr>"

definition track_oper :: "observatory \<Rightarrow> link_id \<Rightarrow> classification \<Rightarrow> time_point \<Rightarrow> observatory" where
  "track_oper ob link current now =
     (let text = track_text current MF_OperState in
      case om_get (ob_last_oper_text ob) link of
        None \<Rightarrow> ob\<lparr>ob_last_oper_text := om_put link text (ob_last_oper_text ob)\<rparr>
      | Some old \<Rightarrow>
          if old = text then ob
          else
            let ob1 = record_transition ob (track_event link now TK_OperStateChanged current old text)
            in ob1\<lparr>ob_last_oper_text := om_put link text (ob_last_oper_text ob1)\<rparr>)"

definition track_admin :: "observatory \<Rightarrow> link_id \<Rightarrow> classification \<Rightarrow> time_point \<Rightarrow> observatory" where
  "track_admin ob link current now =
     (let text = track_text current MF_AdminState in
      case om_get (ob_last_admin_text ob) link of
        None \<Rightarrow> ob\<lparr>ob_last_admin_text := om_put link text (ob_last_admin_text ob)\<rparr>
      | Some old \<Rightarrow>
          if old = text then ob
          else
            let ob1 = record_transition ob (track_event link now TK_AdminStateChanged current old text)
            in ob1\<lparr>ob_last_admin_text := om_put link text (ob_last_admin_text ob1)\<rparr>)"

definition refresh_classification :: "observatory \<Rightarrow> link_id \<Rightarrow> time_point \<Rightarrow> observatory" where
  "refresh_classification ob link now =
     (let current = classify (classification_input_for ob link now);
          ob1 = ob\<lparr>ob_stats := (ob_stats ob)\<lparr>rs_classifications := rs_classifications (ob_stats ob) + 1\<rparr>\<rparr>;
          ob2 = note_state ob1 link current now;
          ob3 = track_oper ob2 link current now
      in track_admin ob3 link current now)"

section \<open>Applying records\<close>

definition apply_source_record :: "observatory \<Rightarrow> source_decl \<Rightarrow> observatory \<times> status" where
  "apply_source_record ob d =
     (let rejected = (\<lambda>ob. ob\<lparr>ob_stats := (ob_stats ob)\<lparr>rs_declarations_rejected :=
                                   rs_declarations_rejected (ob_stats ob) + 1\<rparr>\<rparr>);
          applied = (\<lambda>ob. ob\<lparr>ob_stats := (ob_stats ob)\<lparr>rs_declarations_applied :=
                                  rs_declarations_applied (ob_stats ob) + 1\<rparr>\<rparr>);
          source = \<lparr>src_id = source_id_from_name (sd_name d), src_name = sd_name d,
                    src_authority = sd_authority d, src_provenance = sd_provenance d,
                    src_registered = False, src_retired = False\<rparr>;
          r1 = register_source (ob_registry ob) source
      in if \<not> status_ok (snd r1) then (rejected (ob\<lparr>ob_registry := fst r1\<rparr>), snd r1)
         else if sd_retired d then
           (let r2 = retire_source (fst r1) (src_id source)
            in if \<not> status_ok (snd r2) then (rejected (ob\<lparr>ob_registry := fst r2\<rparr>), snd r2)
               else (applied (ob\<lparr>ob_registry := fst r2\<rparr>), status_success))
         else (applied (ob\<lparr>ob_registry := fst r1\<rparr>), status_success))"

definition apply_link_record :: "observatory \<Rightarrow> link_decl \<Rightarrow> time_point \<Rightarrow> observatory \<times> status" where
  "apply_link_record ob d now =
     (let facts = make_link_facts d;
          existed = (find_link (ob_registry ob) (lf_id facts) \<noteq> None);
          r1 = register_link (ob_registry ob) facts now
      in if \<not> status_ok (snd r1)
         then (ob\<lparr>ob_registry := fst r1,
                  ob_stats := (ob_stats ob)\<lparr>rs_declarations_rejected :=
                                 rs_declarations_rejected (ob_stats ob) + 1\<rparr>\<rparr>, snd r1)
         else
           let g = observe_generation (fst r1) (lf_id facts) (lf_generation facts);
               ob1 = ob\<lparr>ob_registry := fst g,
                        ob_stats := (ob_stats ob)\<lparr>rs_declarations_applied :=
                                       rs_declarations_applied (ob_stats ob) + 1\<rparr>\<rparr>;
               ob2 = (if \<not> existed
                      then record_transition ob1
                             (empty_event\<lparr>te_link := lf_id facts, te_kind := TK_LinkRegistered,
                                          te_at := now, te_generation := lf_generation facts,
                                          te_to := lf_name facts\<rparr>)
                      else ob1);
               ob3 = (if go_changed (snd g) \<and> existed
                      then record_transition ob2
                             (empty_event\<lparr>te_link := lf_id facts, te_kind := TK_GenerationChanged,
                                          te_at := now, te_generation := lf_generation facts,
                                          te_from := id_to_string ''generation'' (go_previous (snd g)),
                                          te_to := id_to_string ''generation'' (lf_generation facts)\<rparr>)
                      else ob2)
           in (ob3, status_success))"

text \<open>An event of an observation.\<close>

definition observation_event :: "observation \<Rightarrow> transition_kind \<Rightarrow> time_point \<Rightarrow> transition_event" where
  "observation_event o1 kind now =
     empty_event\<lparr>te_link := obs_link o1, te_kind := kind, te_at := now,
                 te_generation := prov_generation (obs_provenance o1),
                 te_source := prov_source (obs_provenance o1)\<rparr>"

text \<open>An observation that the store is known to fence: only the totals move.\<close>

definition submit_fenced :: "observatory \<Rightarrow> observation \<Rightarrow> accept_context \<Rightarrow> time_point \<Rightarrow> observatory" where
  "submit_fenced ob o1 ctx now =
     (let r = accept (ob_store ob) o1 ctx now;
          ob1 = ob\<lparr>ob_store := fst r\<rparr>
      in if \<not> ao_accepted (snd r) then count_fenced_record ob1 else ob1)"

text \<open>What follows acceptance: the bookkeeping, the transitions, the refresh.\<close>

definition after_accept :: "observatory \<Rightarrow> observation \<Rightarrow> accept_outcome \<Rightarrow> time_point \<Rightarrow> observatory" where
  "after_accept ob o1 outcome now =
     (let ob1 = ob\<lparr>ob_stats := (ob_stats ob)\<lparr>rs_records_accepted := rs_records_accepted (ob_stats ob) + 1\<rparr>,
                   ob_registry := note_accepted (ob_registry ob) (obs_link o1) (obs_observed_at o1) now\<rparr>;
          key_text = metric_key_to_string (obs_key o1);
          ob2 = (if ao_discontinuity outcome = CD_Reset
                 then record_transition ob1 ((observation_event o1 TK_CounterReset now)\<lparr>te_to := key_text\<rparr>)
                 else if ao_discontinuity outcome = CD_Wrap
                 then record_transition ob1 ((observation_event o1 TK_CounterWrap now)\<lparr>te_to := key_text\<rparr>)
                 else ob1);
          ob3 = (if ao_revision_gap outcome
                 then record_transition ob2
                        ((observation_event o1 TK_RevisionGap now)\<lparr>te_detail := prov_sequence (obs_provenance o1)\<rparr>)
                 else ob2)
      in refresh_classification ob3 (obs_link o1) now)"

text \<open>The part of the observation path that runs once source, family and link are known.\<close>

definition apply_known :: "observatory \<Rightarrow> observation \<Rightarrow> source_record \<Rightarrow> time_point \<Rightarrow> observatory" where
  "apply_known ob o1 source now =
     (let g = observe_generation (ob_registry ob) (obs_link o1) (prov_generation (obs_provenance o1));
          ob1 = ob\<lparr>ob_registry := fst g\<rparr>
      in if go_behind (snd g) then
           (let ob2 = own_fence ob1 FR_GenerationBehind
            in ob2\<lparr>ob_registry := note_fenced (ob_registry ob2) (obs_link o1)\<rparr>)
         else
           let ob2 = (if go_changed (snd g)
                      then record_transition ob1
                             ((observation_event o1 TK_GenerationChanged now)
                                \<lparr>te_from := id_to_string ''generation'' (go_previous (snd g)),
                                 te_to := id_to_string ''generation'' (prov_generation (obs_provenance o1))\<rparr>)
                      else ob1);
               ctx = \<lparr>ac_source = Some source,
                      ac_current_generation = current_generation (ob_registry ob2) (obs_link o1),
                      ac_family_enabled = True\<rparr>;
               r = accept (ob_store ob2) o1 ctx now;
               ob3 = ob2\<lparr>ob_store := fst r\<rparr>
           in if \<not> ao_accepted (snd r) then
                (let ob4 = count_fenced_record ob3
                 in ob4\<lparr>ob_registry := note_fenced (ob_registry ob4) (obs_link o1)\<rparr>)
              else after_accept ob3 o1 (snd r) now)"

definition apply_observation :: "observatory \<Rightarrow> observation_decl \<Rightarrow> time_point \<Rightarrow> observatory" where
  "apply_observation ob0 d now =
     (let o1 = make_observation d;
          ob = ob0\<lparr>ob_stats := (ob_stats ob0)\<lparr>rs_records_submitted := rs_records_submitted (ob_stats ob0) + 1\<rparr>\<rparr>;
          enabled = is_enabled (cfg_families (ob_config ob)) (key_family (obs_key o1));
          current = current_generation (ob_registry ob) (obs_link o1)
      in case find_source (ob_registry ob) (prov_source (obs_provenance o1)) of
           None \<Rightarrow>
             submit_fenced ob o1
               \<lparr>ac_source = None, ac_current_generation = current, ac_family_enabled = enabled\<rparr> now
         | Some source \<Rightarrow>
             if src_retired source then
               submit_fenced ob o1
                 \<lparr>ac_source = Some source, ac_current_generation = current, ac_family_enabled = enabled\<rparr> now
             else if \<not> enabled then
               submit_fenced ob o1
                 \<lparr>ac_source = Some source, ac_current_generation = current, ac_family_enabled = False\<rparr> now
             else if find_link (ob_registry ob) (obs_link o1) = None then
               (let r = ensure_implicit_link (ob_registry ob) (obs_link o1)
                          (id_to_string ''link'' (obs_link o1)) now;
                    ob1 = ob\<lparr>ob_registry := fst r\<rparr>
                in if \<not> status_ok (snd r) then own_fence ob1 FR_UnknownLink
                   else apply_known ob1 o1 source now)
             else apply_known ob o1 source now)"

definition apply_record :: "observatory \<Rightarrow> parsed_record \<Rightarrow> time_point \<Rightarrow> observatory \<times> status" where
  "apply_record ob r now =
     (case r of
        SourceRecord d \<Rightarrow> apply_source_record ob d
      | LinkRecord d \<Rightarrow> apply_link_record ob d now
      | ObservationRecord d \<Rightarrow> (apply_observation ob d now, status_success)
      | NoRecord \<Rightarrow> (ob, status_success))"

definition apply_source :: "observatory \<Rightarrow> source_decl \<Rightarrow> time_point \<Rightarrow> observatory \<times> status" where
  "apply_source ob d now = apply_record ob (SourceRecord d) now"

definition apply_link :: "observatory \<Rightarrow> link_decl \<Rightarrow> time_point \<Rightarrow> observatory \<times> status" where
  "apply_link ob d now = apply_record ob (LinkRecord d) now"

text \<open>A batch with the instant the clock shows at each record.\<close>

definition apply_batch :: "observatory \<Rightarrow> (parsed_record \<times> time_point) list \<Rightarrow> observatory" where
  "apply_batch ob records =
     fold (\<lambda>(r, now) ob. fst (apply_record ob r now)) records
       (ob\<lparr>ob_stats := (ob_stats ob)\<lparr>rs_batches_processed := rs_batches_processed (ob_stats ob) + 1\<rparr>\<rparr>)"

section \<open>Queries\<close>

definition observatory_find_link :: "observatory \<Rightarrow> string \<Rightarrow> link_entry option" where
  "observatory_find_link ob name = find_link (ob_registry ob) (derive_link_id name)"

definition classify_all :: "observatory \<Rightarrow> time_point \<Rightarrow> classification list" where
  "classify_all ob now =
     map (\<lambda>link. classify (classification_input_for ob link now)) (links_with_evidence (ob_store ob))"

definition classify_link :: "observatory \<Rightarrow> link_id \<Rightarrow> time_point \<Rightarrow> classification option" where
  "classify_link ob link now =
     (if find_link (ob_registry ob) link = None \<and> length (es_slots (ob_store ob)) = 0 then None
      else Some (classify (classification_input_for ob link now)))"

definition classify_named :: "observatory \<Rightarrow> string \<Rightarrow> time_point \<Rightarrow> classification option" where
  "classify_named ob name now = classify_link ob (derive_link_id name) now"

definition link_context :: "observatory \<Rightarrow> link_id \<Rightarrow> time_point \<Rightarrow> evaluation_context" where
  "link_context ob link now =
     \<lparr>ec_now = now, ec_current_generation = current_generation (ob_registry ob) link,
      ec_has_generation = id_valid (current_generation (ob_registry ob) link)\<rparr>"

definition evidence_for :: "observatory \<Rightarrow> link_id \<Rightarrow> metric_key \<Rightarrow> time_point \<Rightarrow> evaluated_evidence list" where
  "evidence_for ob link key now = contenders (ob_store ob) link key (link_context ob link now)"

definition slot_views :: "observatory \<Rightarrow> link_id \<Rightarrow> time_point \<Rightarrow> slot_view list" where
  "slot_views ob link now =
     List.map_filter (\<lambda>key. slot_view_of (ob_store ob) link key now) (keys_for (ob_store ob) link)"

text \<open>The nested loops over keys and contenders return as soon as the bound is reached.\<close>

definition link_evidence :: "observatory \<Rightarrow> link_id \<Rightarrow> u64 \<Rightarrow> time_point \<Rightarrow> evidence list" where
  "link_evidence ob link limit now =
     (let rows = max_result_rows (pol_limits (cfg_policy (ob_config ob)));
          bound = unat (if limit < rows then limit else rows)
      in take bound
           (concat (map (\<lambda>key. map ee_evidence (contenders (ob_store ob) link key (link_context ob link now)))
              (keys_for (ob_store ob) link))))"

section \<open>Snapshots\<close>

record snapshot_contents =
  sn_format_version :: u32
  sn_runtime :: runtime_id
  sn_incarnation :: incarnation_id
  sn_saved_at :: time_point
  sn_acceptance_index :: u64
  sn_links :: "persisted_link list"
  sn_sources :: "source_record list"
  sn_slots :: "persisted_slot list"
  sn_streams :: "(source_id \<times> stream_state) list"
  sn_transitions :: "transition_event list"
  sn_total_accepted :: u64
  sn_total_fenced :: u64
  sn_duplicates :: u64
  sn_revision_gaps :: u64
  sn_counter_resets :: u64
  sn_counter_wraps :: u64
  sn_transitions_dropped :: u64

text \<open>\<open>version\<close> stands for the generated constant \<^verbatim>\<open>kSnapshotFormatVersion\<close>.\<close>

definition collect_snapshot :: "u32 \<Rightarrow> observatory \<Rightarrow> time_point \<Rightarrow> snapshot_contents" where
  "collect_snapshot version ob now =
     \<lparr>sn_format_version = version, sn_runtime = ob_runtime_id ob,
      sn_incarnation = ob_incarnation_id ob, sn_saved_at = now, sn_acceptance_index = 0,
      sn_links = persisted_links (ob_registry ob), sn_sources = sources (ob_registry ob),
      sn_slots = persisted_slots (ob_store ob), sn_streams = persisted_streams (ob_store ob),
      sn_transitions =
        recent (ob_log ob) (max_total_transitions (pol_limits (cfg_policy (ob_config ob)))),
      sn_total_accepted = es_total_accepted (ob_store ob),
      sn_total_fenced = es_total_fenced (ob_store ob), sn_duplicates = es_duplicates (ob_store ob),
      sn_revision_gaps = es_revision_gaps (ob_store ob),
      sn_counter_resets = es_counter_resets (ob_store ob),
      sn_counter_wraps = es_counter_wraps (ob_store ob),
      sn_transitions_dropped = tl_dropped (ob_log ob)\<rparr>"

text \<open>The body of the loop over the source records.\<close>

definition restore_source :: "link_registry \<Rightarrow> source_record \<Rightarrow> link_registry \<times> status" where
  "restore_source reg source =
     (let copy = source\<lparr>src_retired := False\<rparr>;
          r = register_source reg copy
      in if \<not> status_ok (snd r)
         then (fst r, status_of SC_CorruptData ''snapshot source record could not be restored'')
         else if src_retired source then retire_source (fst r) (src_id copy)
         else (fst r, status_success))"

text \<open>
  \<^verbatim>\<open>restore_from\<close> replaces the components first and returns at the first entry that is
  refused, so a failed restore leaves what was restored before it.
\<close>

definition restore_from :: "observatory \<Rightarrow> snapshot_contents \<Rightarrow> observatory \<times> status" where
  "restore_from ob0 c =
     (let p = cfg_policy (ob_config ob0);
          ob = ob0\<lparr>ob_registry := empty_registry p, ob_store := empty_store p,
                   ob_log := clear_log (ob_log ob0), ob_observed_states := [],
                   ob_last_oper_text := [], ob_last_admin_text := []\<rparr>;
          r1 = restore_all restore_source (ob_registry ob) (sn_sources c);
          ob1 = ob\<lparr>ob_registry := fst r1\<rparr>
      in if \<not> status_ok (snd r1) then (ob1, snd r1)
         else
           let r2 = restore_all restore_link (ob_registry ob1) (sn_links c);
               ob2 = ob1\<lparr>ob_registry := fst r2\<rparr>
           in if \<not> status_ok (snd r2) then (ob2, snd r2)
              else
                let r3 = restore_all restore_slot (ob_store ob2) (sn_slots c);
                    ob3 = ob2\<lparr>ob_store := fst r3\<rparr>
                in if \<not> status_ok (snd r3) then (ob3, snd r3)
                   else
                     let r4 = restore_all restore_stream (ob_store ob3) (sn_streams c);
                         ob4 = ob3\<lparr>ob_store := fst r4\<rparr>
                     in if \<not> status_ok (snd r4) then (ob4, snd r4)
                        else
                          let ob5 = ob4\<lparr>ob_log := fold (\<lambda>e l. record_event l e) (sn_transitions c) (ob_log ob4),
                                        ob_store := restore_totals (ob_store ob4) (sn_total_accepted c)
                                          (sn_total_fenced c) (sn_duplicates c) (sn_revision_gaps c)
                                          (sn_counter_resets c) (sn_counter_wraps c)\<rparr>
                          in (ob5\<lparr>ob_stats := (ob_stats ob5)\<lparr>rs_records_accepted := sn_total_accepted c,
                                     rs_records_fenced := sn_total_fenced c,
                                     rs_transitions_recorded := of_nat (length (sn_transitions c))\<rparr>\<rparr>,
                              status_success))"

text \<open>What \<^verbatim>\<open>read_snapshot\<close> hands back.\<close>

record snapshot_load_result =
  slr_ok :: bool
  slr_status :: status
  slr_recovered_from_backup :: bool
  slr_integrity_verified :: bool
  slr_primary_failed :: bool
  slr_detail :: string
  slr_bytes_read :: nat
  slr_contents :: snapshot_contents

definition reload :: "snapshot_load_result \<Rightarrow> observatory \<Rightarrow> observatory \<times> status" where
  "reload loaded ob =
     (if cfg_snapshot_path (ob_config ob) = []
      then (ob, status_of SC_InvalidArgument ''no snapshot path is configured'')
      else if \<not> slr_ok loaded then
          (if status_code (slr_status loaded) = SC_NotFound
           then (ob\<lparr>ob_restored := False, ob_load_detail := ''no snapshot present''\<rparr>, slr_status loaded)
           else (ob\<lparr>ob_restored := False, ob_load_detail := slr_detail loaded\<rparr>, slr_status loaded))
        else
          let r = restore_from ob (slr_contents loaded) in
          if \<not> status_ok (snd r)
          then ((fst r)\<lparr>ob_restored := False,
                        ob_load_detail := ''snapshot could not be applied: '' @ status_to_string (snd r)\<rparr>,
                snd r)
          else
            let ob1 = (fst r)\<lparr>ob_restored := True,
                              ob_loaded_from_backup := slr_recovered_from_backup loaded,
                              ob_load_detail := (if slr_recovered_from_backup loaded then slr_detail loaded
                                                 else ''snapshot loaded'')\<rparr>;
                ob2 = ob1\<lparr>ob_stats := (ob_stats ob1)\<lparr>rs_snapshot_reads := rs_snapshot_reads (ob_stats ob1) + 1\<rparr>\<rparr>;
                ob3 = (if slr_recovered_from_backup loaded
                       then ob2\<lparr>ob_stats := (ob_stats ob2)\<lparr>rs_recoveries := rs_recoveries (ob_stats ob2) + 1\<rparr>\<rparr>
                       else ob2)
            in (ob3, status_success))"

section \<open>The invariant of the observatory\<close>

text \<open>
  Every component keeps its own invariant under the configured policy, every stream belongs to a
  registered source, and every slot to a registered link.
\<close>

definition observatory_wf :: "observatory \<Rightarrow> bool" where
  "observatory_wf ob \<longleftrightarrow>
     registry_wf (ob_registry ob) \<and> store_wf (ob_store ob) \<and> log_wf (ob_log ob)
     \<and> reg_policy (ob_registry ob) = cfg_policy (ob_config ob)
     \<and> es_policy (ob_store ob) = cfg_policy (ob_config ob)
     \<and> tl_limits (ob_log ob) = pol_limits (cfg_policy (ob_config ob))
     \<and> (\<forall>i. om_get (es_streams (ob_store ob)) i \<noteq> None \<longrightarrow> om_get (reg_sources (ob_registry ob)) i \<noteq> None)
     \<and> (\<forall>k. om_get (es_slots (ob_store ob)) k \<noteq> None \<longrightarrow> om_get (reg_links (ob_registry ob)) (sk_link k) \<noteq> None)"

lemma observatory_wf_new: "observatory_wf (new_observatory c)"
  by (simp add: observatory_wf_def new_observatory_def registry_wf_empty)
    (simp add: empty_registry_def empty_store_def)

subsection \<open>What the small updates leave alone\<close>

lemma record_transition_frame [simp]:
  "ob_config (record_transition ob e) = ob_config ob" "ob_registry (record_transition ob e) = ob_registry ob"
  "ob_store (record_transition ob e) = ob_store ob"
  "ob_own_fence_counts (record_transition ob e) = ob_own_fence_counts ob"
  "rs_records_submitted (ob_stats (record_transition ob e)) = rs_records_submitted (ob_stats ob)"
  "rs_records_accepted (ob_stats (record_transition ob e)) = rs_records_accepted (ob_stats ob)"
  "rs_records_fenced (ob_stats (record_transition ob e)) = rs_records_fenced (ob_stats ob)"
  by (simp_all add: record_transition_def)

lemma observatory_wf_transition: "observatory_wf ob \<Longrightarrow> observatory_wf (record_transition ob e)"
  by (simp add: observatory_wf_def record_transition_def log_wf_record)

text \<open>The refresh touches the log, the trackers and their statistics only.\<close>

definition same_core :: "observatory \<Rightarrow> observatory \<Rightarrow> bool" where
  "same_core ob ob' \<longleftrightarrow>
     ob_config ob' = ob_config ob \<and> ob_registry ob' = ob_registry ob \<and> ob_store ob' = ob_store ob
     \<and> ob_own_fence_counts ob' = ob_own_fence_counts ob
     \<and> rs_records_submitted (ob_stats ob') = rs_records_submitted (ob_stats ob)
     \<and> rs_records_accepted (ob_stats ob') = rs_records_accepted (ob_stats ob)
     \<and> rs_records_fenced (ob_stats ob') = rs_records_fenced (ob_stats ob)
     \<and> tl_limits (ob_log ob') = tl_limits (ob_log ob)
     \<and> (log_wf (ob_log ob) \<longrightarrow> log_wf (ob_log ob'))"

lemma same_core_refl: "same_core ob ob"
  by (simp add: same_core_def)

lemma same_core_trans: "same_core a b \<Longrightarrow> same_core b c \<Longrightarrow> same_core a c"
  by (simp add: same_core_def)

lemma same_core_transition: "same_core ob (record_transition ob e)"
  by (simp add: same_core_def, simp add: record_transition_def log_wf_record)

lemma same_core_note_state: "same_core ob (note_state ob l c now)"
  by (auto simp: note_state_def Let_def same_core_def record_transition_def log_wf_record split: option.splits)

lemma same_core_track: "same_core ob (track_oper ob l c now)" "same_core ob (track_admin ob l c now)"
  by (auto simp: track_oper_def track_admin_def Let_def same_core_def record_transition_def log_wf_record
      split: option.splits)

lemma same_core_refresh: "same_core ob (refresh_classification ob l now)"
proof -
  have "same_core ob (ob\<lparr>ob_stats := (ob_stats ob)\<lparr>rs_classifications := n\<rparr>\<rparr>)" for n
    by (simp add: same_core_def)
  then show ?thesis
    unfolding refresh_classification_def Let_def
    by (meson same_core_trans same_core_note_state same_core_track)
qed

lemma observatory_wf_core: "same_core ob ob' \<Longrightarrow> observatory_wf ob \<Longrightarrow> observatory_wf ob'"
  by (simp add: same_core_def observatory_wf_def)

subsection \<open>Registries that only grow\<close>

definition registry_extends :: "link_registry \<Rightarrow> link_registry \<Rightarrow> bool" where
  "registry_extends reg reg' \<longleftrightarrow>
     reg_policy reg' = reg_policy reg
     \<and> (\<forall>i. om_get (reg_sources reg) i \<noteq> None \<longrightarrow> om_get (reg_sources reg') i \<noteq> None)
     \<and> (\<forall>i. om_get (reg_links reg) i \<noteq> None \<longrightarrow> om_get (reg_links reg') i \<noteq> None)"

lemma registry_extends_refl: "registry_extends reg reg"
  by (simp add: registry_extends_def)

lemma registry_extends_trans: "registry_extends a b \<Longrightarrow> registry_extends b c \<Longrightarrow> registry_extends a c"
  by (simp add: registry_extends_def)

lemma registry_extends_update: "registry_extends reg (update_link reg i f)"
  by (auto simp: registry_extends_def update_link_def om_get_put split: option.splits)

lemma registry_extends_put:
  "registry_extends reg (reg\<lparr>reg_links := om_put i v (reg_links reg)\<rparr>)"
  "registry_extends reg (reg\<lparr>reg_sources := om_put j w (reg_sources reg)\<rparr>)"
  by (auto simp: registry_extends_def om_get_put)

lemma registry_extends_source:
  "registry_extends reg (fst (register_source reg r))" "registry_extends reg (fst (retire_source reg i))"
  by (auto simp: register_source_def retire_source_def registry_extends_refl registry_extends_put
      split: option.splits)

lemma registry_extends_generation: "registry_extends reg (fst (observe_generation reg i g))"
  by (auto simp: observe_generation_def Let_def registry_extends_refl registry_extends_put split: option.splits)

lemma registry_extends_link: "registry_extends reg (fst (register_link reg facts now))"
  by (auto simp: register_link_def Let_def registry_extends_refl registry_extends_put
      registry_extends_generation registry_extends_update
      intro: registry_extends_trans [OF registry_extends_generation registry_extends_update]
      split: option.splits)

lemma registry_extends_implicit: "registry_extends reg (fst (ensure_implicit_link reg i name now))"
  by (auto simp: ensure_implicit_link_def Let_def registry_extends_refl registry_extends_link
      intro: registry_extends_trans [OF registry_extends_link registry_extends_update] split: option.splits)

lemma registry_extends_notes:
  "registry_extends reg (note_accepted reg i t1 t2)" "registry_extends reg (note_fenced reg i)"
  by (simp_all add: note_accepted_def note_fenced_def registry_extends_update)

lemma observatory_wf_registry:
  assumes "observatory_wf ob" and "registry_wf reg" and "registry_extends (ob_registry ob) reg"
  shows "observatory_wf (ob\<lparr>ob_registry := reg\<rparr>)"
  using assms by (simp add: observatory_wf_def registry_extends_def)

lemma observatory_wf_stats: "observatory_wf (ob\<lparr>ob_stats := st\<rparr>) \<longleftrightarrow> observatory_wf ob"
  by (simp add: observatory_wf_def)

lemma observatory_wf_own: "observatory_wf (ob\<lparr>ob_own_fence_counts := m\<rparr>) \<longleftrightarrow> observatory_wf ob"
  by (simp add: observatory_wf_def)

lemmas wf_frame = observatory_wf_stats observatory_wf_own

subsection \<open>The store step\<close>

lemma accept_stream_keys:
  assumes "om_get (es_streams (fst (accept store o1 ctx now))) i \<noteq> None"
  shows "om_get (es_streams store) i \<noteq> None \<or> i = prov_source (obs_provenance o1) \<and> ac_source ctx \<noteq> None"
proof (cases rule: accept_cases [of store o1 ctx now])
  case (recorded source stream1 changed gap)
  have "es_streams (fst (accept store o1 ctx now)) =
      om_put (prov_source (obs_provenance o1)) (recorded_stream o1 (gap_stream gap stream1)) (es_streams store)"
    using record_evidence_effect(8) [OF surjective_pairing] recorded(6) by simp
  with assms accept_guard_InrD(1) [OF recorded(1)] show ?thesis by (auto simp: om_get_put split: if_splits)
qed (use assms in \<open>auto simp: om_get_put dest!: accept_guard_InrD(1) split: if_splits\<close>)

lemma accept_slot_keys:
  assumes "om_get (es_slots (fst (accept store o1 ctx now))) k \<noteq> None"
  shows "om_get (es_slots store) k \<noteq> None
    \<or> ao_accepted (snd (accept store o1 ctx now)) \<and> sk_link k = obs_link o1"
proof (cases "ao_accepted (snd (accept store o1 ctx now))")
  case True
  then obtain source stream1 changed gap where
    "accept store o1 ctx now = record_evidence (gap_store gap store) o1 source (gap_stream gap stream1)
         (empty_accept\<lparr>ao_scope_changed := changed, ao_revision_gap := gap\<rparr>) now"
    by (rule accept_acceptedE)
  then obtain s where "es_slots (fst (accept store o1 ctx now)) =
      om_put (SlotKey (obs_link o1) (obs_key o1)) s (es_slots store)"
    using record_evidence_effect(9) [OF surjective_pairing] by (metis gap_store_frame(2))
  with assms True show ?thesis by (auto simp: om_get_put split: if_splits)
next
  case False
  with assms accept_refused(1) show ?thesis by metis
qed

lemma observatory_wf_accept:
  assumes wf: "observatory_wf ob"
    and link: "ao_accepted (snd (accept (ob_store ob) o1 ctx now)) \<Longrightarrow>
                 om_get (reg_links (ob_registry ob)) (obs_link o1) \<noteq> None"
    and source: "ac_source ctx \<noteq> None \<Longrightarrow>
                   om_get (reg_sources (ob_registry ob)) (prov_source (obs_provenance o1)) \<noteq> None"
  shows "observatory_wf (ob\<lparr>ob_store := fst (accept (ob_store ob) o1 ctx now)\<rparr>)"
  using wf link source accept_wf [of "ob_store ob" o1 ctx now]
    accept_stream_keys [of "ob_store ob" o1 ctx now] accept_slot_keys [of "ob_store ob" o1 ctx now]
  unfolding observatory_wf_def by (simp, metis)

section \<open>Accounting\<close>

text \<open>
  Every submitted observation is counted once as accepted or once as fenced, the store's own
  totals agree, and the fences the observatory raises itself are the difference.
\<close>

definition own_fence_total :: "observatory \<Rightarrow> u64" where
  "own_fence_total ob = sum_list (map snd (ob_own_fence_counts ob))"

definition balanced :: "observatory \<Rightarrow> bool" where
  "balanced ob \<longleftrightarrow>
     om_wf (ob_own_fence_counts ob)
     \<and> rs_records_submitted (ob_stats ob) = rs_records_accepted (ob_stats ob) + rs_records_fenced (ob_stats ob)
     \<and> rs_records_accepted (ob_stats ob) = es_total_accepted (ob_store ob)
     \<and> rs_records_fenced (ob_stats ob) = es_total_fenced (ob_store ob) + own_fence_total ob"

lemma balanced_new: "balanced (new_observatory c)"
  by (simp add: balanced_def own_fence_total_def new_observatory_def empty_statistics_def empty_store_def)

lemma om_sum_put:
  fixes v :: "'a :: ab_group_add"
  assumes "om_wf m"
  shows "sum_list (map snd (om_put k v m)) =
    sum_list (map snd m) - (case om_get m k of None \<Rightarrow> 0 | Some w \<Rightarrow> w) + v"
  using assms
proof (induction m)
  case (Cons e m)
  then have lo: "\<forall>x \<in> fst ` set m. fst e < x" and wf: "om_wf m" by (simp_all add: om_wf_Cons)
  obtain x w where e: "e = (x, w)" by (cases e)
  consider "x < k" | "x = k" | "k < x" by (rule linorder_cases)
  then show ?case
  proof cases
    case 1
    then have "om_get (e # m) k = om_get m k" by (auto simp: om_get_def e)
    with 1 Cons.IH [OF wf] show ?thesis by (simp add: e algebra_simps)
  next
    case 2
    then show ?thesis by (simp add: e om_get_def algebra_simps)
  next
    case 3
    then have "om_get (e # m) k = None" using lo by (auto simp: om_get_None_iff e)
    with 3 show ?thesis by (auto simp: e algebra_simps)
  qed
qed simp

lemma own_fence_frame [simp]:
  "ob_config (own_fence ob r) = ob_config ob" "ob_registry (own_fence ob r) = ob_registry ob"
  "ob_store (own_fence ob r) = ob_store ob" "ob_log (own_fence ob r) = ob_log ob"
  "rs_records_submitted (ob_stats (own_fence ob r)) = rs_records_submitted (ob_stats ob)"
  "rs_records_accepted (ob_stats (own_fence ob r)) = rs_records_accepted (ob_stats ob)"
  "rs_records_fenced (ob_stats (own_fence ob r)) = rs_records_fenced (ob_stats ob) + 1"
  by (simp_all add: own_fence_def count_fenced_record_def)

lemma own_fence_total_own_fence:
  "om_wf (ob_own_fence_counts ob) \<Longrightarrow> own_fence_total (own_fence ob r) = own_fence_total ob + 1"
  by (simp add: own_fence_total_def own_fence_def count_fenced_record_def om_sum_put own_fence_count_def
      split: option.splits)

lemma own_fence_counts_wf:
  "om_wf (ob_own_fence_counts ob) \<Longrightarrow> om_wf (ob_own_fence_counts (own_fence ob r))"
  by (simp add: own_fence_def count_fenced_record_def)

lemma own_fence_wf: "observatory_wf (own_fence ob r) \<longleftrightarrow> observatory_wf ob"
  by (simp add: observatory_wf_def)

text \<open>One submission in flight: the counts are short by exactly that one.\<close>

definition in_flight :: "observatory \<Rightarrow> bool" where
  "in_flight ob \<longleftrightarrow>
     om_wf (ob_own_fence_counts ob)
     \<and> rs_records_submitted (ob_stats ob) = rs_records_accepted (ob_stats ob) + rs_records_fenced (ob_stats ob) + 1
     \<and> rs_records_accepted (ob_stats ob) = es_total_accepted (ob_store ob)
     \<and> rs_records_fenced (ob_stats ob) = es_total_fenced (ob_store ob) + own_fence_total ob"

lemma in_flight_start:
  "balanced ob \<Longrightarrow>
     in_flight (ob\<lparr>ob_stats := (ob_stats ob)\<lparr>rs_records_submitted := rs_records_submitted (ob_stats ob) + 1\<rparr>\<rparr>)"
  by (simp add: balanced_def in_flight_def own_fence_total_def)

lemma balanced_core: "same_core ob ob' \<Longrightarrow> balanced ob \<Longrightarrow> balanced ob'"
  by (simp add: same_core_def balanced_def own_fence_total_def)

lemma in_flight_core: "same_core ob ob' \<Longrightarrow> in_flight ob \<Longrightarrow> in_flight ob'"
  by (simp add: same_core_def in_flight_def own_fence_total_def)

lemma accounting_registry [simp]:
  "in_flight (ob\<lparr>ob_registry := reg\<rparr>) \<longleftrightarrow> in_flight ob" "balanced (ob\<lparr>ob_registry := reg\<rparr>) \<longleftrightarrow> balanced ob"
  by (simp_all add: in_flight_def balanced_def own_fence_total_def)

lemma balanced_own_fence: "in_flight ob \<Longrightarrow> balanced (own_fence ob r)"
  by (simp add: in_flight_def balanced_def own_fence_counts_wf own_fence_total_own_fence)

lemma balanced_store_fence:
  assumes "in_flight ob" and "\<not> ao_accepted (snd (accept (ob_store ob) o1 ctx now))"
  shows "balanced (count_fenced_record (ob\<lparr>ob_store := fst (accept (ob_store ob) o1 ctx now)\<rparr>))"
  using assms accept_refused(2,3) [OF assms(2)]
  by (simp add: in_flight_def balanced_def count_fenced_record_def own_fence_total_def)

lemma balanced_store_accept:
  assumes "in_flight ob" and "ao_accepted (snd (accept (ob_store ob) o1 ctx now))"
  shows "balanced (ob\<lparr>ob_store := fst (accept (ob_store ob) o1 ctx now),
    ob_stats := (ob_stats ob)\<lparr>rs_records_accepted := rs_records_accepted (ob_stats ob) + 1\<rparr>\<rparr>)"
  using assms accept_accepted(1,2) [OF assms(2)]
  by (simp add: in_flight_def balanced_def own_fence_total_def)

section \<open>Every record keeps the invariant and the accounts\<close>

definition sound :: "observatory \<Rightarrow> bool" where
  "sound ob \<longleftrightarrow> observatory_wf ob \<and> balanced ob"

lemma submit_fenced_sound:
  assumes "observatory_wf ob" and "in_flight ob"
    and "accept_guard (ob_store ob) o1 ctx = Inl reason"
    and "ac_source ctx \<noteq> None \<Longrightarrow>
           om_get (reg_sources (ob_registry ob)) (prov_source (obs_provenance o1)) \<noteq> None"
  shows "sound (submit_fenced ob o1 ctx now)"
proof -
  have no: "\<not> ao_accepted (snd (accept (ob_store ob) o1 ctx now))"
    using assms(3) by (simp add: accept_def)
  then have "observatory_wf (ob\<lparr>ob_store := fst (accept (ob_store ob) o1 ctx now)\<rparr>)"
    using assms by (intro observatory_wf_accept) auto
  then have "observatory_wf (count_fenced_record (ob\<lparr>ob_store := fst (accept (ob_store ob) o1 ctx now)\<rparr>))"
    by (simp add: count_fenced_record_def observatory_wf_def)
  with no balanced_store_fence [OF assms(2) no] show ?thesis
    by (simp add: submit_fenced_def Let_def sound_def)
qed

lemma same_core_after_accept:
  "same_core
     (ob\<lparr>ob_stats := (ob_stats ob)\<lparr>rs_records_accepted := rs_records_accepted (ob_stats ob) + 1\<rparr>,
         ob_registry := note_accepted (ob_registry ob) (obs_link o1) (obs_observed_at o1) now\<rparr>)
     (after_accept ob o1 outcome now)"
  unfolding after_accept_def Let_def
  by (intro same_core_trans [OF _ same_core_refresh])
    (simp add: same_core_refl same_core_transition same_core_trans [OF same_core_transition same_core_transition])

lemma find_link_None_iff: "find_link reg i = None \<longleftrightarrow> om_get (reg_links reg) i = None"
  by (simp add: find_link_def split: option.splits)

lemma observatory_wf_reg: "observatory_wf ob \<Longrightarrow> registry_wf (ob_registry ob)"
  by (simp add: observatory_wf_def)

lemma observatory_wf_observe:
  "observatory_wf ob \<Longrightarrow> observatory_wf (ob\<lparr>ob_registry := fst (observe_generation (ob_registry ob) i g)\<rparr>)"
  by (rule observatory_wf_registry)
    (simp_all add: observe_generation_wf observatory_wf_reg registry_extends_generation)

lemma observatory_wf_notes:
  "observatory_wf ob \<Longrightarrow> observatory_wf (ob\<lparr>ob_registry := note_accepted (ob_registry ob) i t1 t2\<rparr>)"
  "observatory_wf ob \<Longrightarrow> observatory_wf (ob\<lparr>ob_registry := note_fenced (ob_registry ob) i\<rparr>)"
  by (rule observatory_wf_registry;
      simp add: note_accepted_wf note_fenced_wf observatory_wf_reg registry_extends_notes)+

lemma count_fenced_wf [simp]: "observatory_wf (count_fenced_record ob) \<longleftrightarrow> observatory_wf ob"
  by (simp add: count_fenced_record_def observatory_wf_stats)

text \<open>The accept step of a known source and link, once the generation is in force.\<close>

lemma accept_step_sound:
  assumes wf: "observatory_wf ob" and fl: "in_flight ob"
    and link: "om_get (reg_links (ob_registry ob)) (obs_link o1) \<noteq> None"
    and source: "om_get (reg_sources (ob_registry ob)) (prov_source (obs_provenance o1)) \<noteq> None"
    and r: "r = accept (ob_store ob) o1 ctx now" and ob1: "ob1 = ob\<lparr>ob_store := fst r\<rparr>"
  shows "sound (if \<not> ao_accepted (snd r)
         then (count_fenced_record ob1)
                \<lparr>ob_registry := note_fenced (ob_registry (count_fenced_record ob1)) (obs_link o1)\<rparr>
         else after_accept ob1 o1 (snd r) now)"
proof -
  have wf1: "observatory_wf ob1"
    unfolding ob1 r using wf link source by (intro observatory_wf_accept) auto
  show ?thesis
  proof (cases "ao_accepted (snd r)")
    case True
    let ?ob2 = "ob1\<lparr>ob_stats := (ob_stats ob1)\<lparr>rs_records_accepted := rs_records_accepted (ob_stats ob1) + 1\<rparr>,
        ob_registry := note_accepted (ob_registry ob1) (obs_link o1) (obs_observed_at o1) now\<rparr>"
    have "observatory_wf ?ob2"
      using observatory_wf_notes(1) [OF wf1] by (simp add: observatory_wf_def)
    moreover have "balanced ?ob2"
      using balanced_store_accept [OF fl, of o1 ctx now] True by (simp add: ob1 r)
    ultimately have "sound (after_accept ob1 o1 (snd r) now)"
      unfolding sound_def
      using observatory_wf_core balanced_core same_core_after_accept [of ob1 o1 now "snd r"] by blast
    with True show ?thesis by simp
  next
    case False
    then have "balanced (count_fenced_record ob1)"
      using balanced_store_fence [OF fl, of o1 ctx now] by (simp add: ob1 r)
    with False observatory_wf_notes(2) [of "count_fenced_record ob1"] wf1 show ?thesis
      by (simp add: sound_def)
  qed
qed

lemma apply_known_sound:
  assumes wf: "observatory_wf ob" and fl: "in_flight ob"
    and link: "om_get (reg_links (ob_registry ob)) (obs_link o1) \<noteq> None"
    and source: "om_get (reg_sources (ob_registry ob)) (prov_source (obs_provenance o1)) \<noteq> None"
  shows "sound (apply_known ob o1 source now)"
proof -
  define g where "g = observe_generation (ob_registry ob) (obs_link o1) (prov_generation (obs_provenance o1))"
  define ob1 where "ob1 = ob\<lparr>ob_registry := fst g\<rparr>"
  have ext: "registry_extends (ob_registry ob) (fst g)" by (simp add: g_def registry_extends_generation)
  have wf1: "observatory_wf ob1" and fl1: "in_flight ob1"
    using observatory_wf_observe [OF wf] fl by (simp_all add: ob1_def g_def)
  show ?thesis
  proof (cases "go_behind (snd g)")
    case True
    then show ?thesis
      using observatory_wf_notes(2) [of "own_fence ob1 FR_GenerationBehind"] wf1
        balanced_own_fence [OF fl1, of FR_GenerationBehind]
      by (simp add: sound_def own_fence_wf apply_known_def Let_def flip: g_def ob1_def)
  next
    case False
    define ob2 where "ob2 = (if go_changed (snd g)
        then record_transition ob1
               ((observation_event o1 TK_GenerationChanged now)
                  \<lparr>te_from := id_to_string ''generation'' (go_previous (snd g)),
                   te_to := id_to_string ''generation'' (prov_generation (obs_provenance o1))\<rparr>)
        else ob1)"
    have core: "same_core ob1 ob2" by (simp add: ob2_def same_core_refl same_core_transition)
    have reg2: "ob_registry ob2 = fst g" using core by (simp add: same_core_def ob1_def)
    show ?thesis
      unfolding apply_known_def Let_def g_def [symmetric] ob1_def [symmetric] ob2_def [symmetric]
        if_not_P [OF False]
      using link source ext
      by (intro accept_step_sound [OF observatory_wf_core [OF core wf1] in_flight_core [OF core fl1] _ _ refl refl])
        (simp_all add: reg2 registry_extends_def)
  qed
qed

lemma ensure_implicit_link_present:
  "status_ok (snd (ensure_implicit_link reg i name now)) \<Longrightarrow>
     om_get (reg_links (fst (ensure_implicit_link reg i name now))) i \<noteq> None"
  by (auto simp: ensure_implicit_link_def register_link_def update_link_def Let_def empty_link_facts_def
      split: option.splits if_splits)

lemma apply_observation_sound:
  assumes "sound ob"
  shows "sound (apply_observation ob d now)"
proof -
  define o1 where "o1 = make_observation d"
  define ob1 where "ob1 = ob\<lparr>ob_stats := (ob_stats ob)\<lparr>rs_records_submitted := rs_records_submitted (ob_stats ob) + 1\<rparr>\<rparr>"
  have wf: "observatory_wf ob1" and fl: "in_flight ob1"
    using assms in_flight_start [of ob] by (simp_all add: sound_def ob1_def observatory_wf_stats)
  show ?thesis
  proof (cases "om_get (reg_sources (ob_registry ob1)) (prov_source (obs_provenance o1))")
    case None
    then show ?thesis
      using wf fl
      by (auto simp: apply_observation_def Let_def find_source_def accept_guard_def
          intro!: submit_fenced_sound simp flip: o1_def ob1_def)
  next
    case (Some source)
    show ?thesis
    proof (cases "src_retired source \<or> \<not> is_enabled (cfg_families (ob_config ob1)) (key_family (obs_key o1))")
      case True
      let ?ctx = "\<lparr>ac_source = Some source, ac_current_generation = current_generation (ob_registry ob1) (obs_link o1),
           ac_family_enabled = is_enabled (cfg_families (ob_config ob1)) (key_family (obs_key o1))\<rparr>"
      have "\<exists>reason. accept_guard (ob_store ob1) o1 ?ctx = Inl reason"
        using True by (auto simp: accept_guard_def)
      then have "sound (submit_fenced ob1 o1 ?ctx now)"
        using submit_fenced_sound [OF wf fl] Some by blast
      moreover have "apply_observation ob d now = submit_fenced ob1 o1 ?ctx now"
        using True Some unfolding apply_observation_def Let_def o1_def [symmetric] ob1_def [symmetric]
        by (cases "src_retired source") (simp_all add: find_source_def)
      ultimately show ?thesis by simp
    next
      case False
      show ?thesis
      proof (cases "find_link (ob_registry ob1) (obs_link o1)")
        case None
        let ?r = "ensure_implicit_link (ob_registry ob1) (obs_link o1) (id_to_string ''link'' (obs_link o1)) now"
        have wf2: "observatory_wf (ob1\<lparr>ob_registry := fst ?r\<rparr>)"
          by (intro observatory_wf_registry wf ensure_implicit_link_wf observatory_wf_reg registry_extends_implicit)
        have src2: "om_get (reg_sources (fst ?r)) (prov_source (obs_provenance o1)) \<noteq> None"
          using registry_extends_implicit Some by (simp add: registry_extends_def)
        show ?thesis
          using False None Some wf2 fl src2 ensure_implicit_link_present [of "ob_registry ob1"]
            apply_known_sound [of "ob1\<lparr>ob_registry := fst ?r\<rparr>" o1]
            balanced_own_fence [of "ob1\<lparr>ob_registry := fst ?r\<rparr>" FR_UnknownLink]
          by (simp add: apply_observation_def Let_def find_source_def sound_def own_fence_wf
              flip: o1_def ob1_def)
      next
        case (Some entry)
        then show ?thesis
          using False \<open>om_get (reg_sources (ob_registry ob1)) _ = Some source\<close>
            apply_known_sound [OF wf fl, of o1] find_link_None_iff [of "ob_registry ob1" "obs_link o1"]
          by (simp add: apply_observation_def Let_def find_source_def flip: o1_def ob1_def)
      qed
    qed
  qed
qed

lemma sound_declaration_stats:
  "sound (ob\<lparr>ob_stats := (ob_stats ob)\<lparr>rs_declarations_rejected := n\<rparr>\<rparr>) \<longleftrightarrow> sound ob"
  "sound (ob\<lparr>ob_stats := (ob_stats ob)\<lparr>rs_declarations_applied := n\<rparr>\<rparr>) \<longleftrightarrow> sound ob"
  "sound (ob\<lparr>ob_stats := (ob_stats ob)\<lparr>rs_batches_processed := n\<rparr>\<rparr>) \<longleftrightarrow> sound ob"
  by (simp_all add: sound_def observatory_wf_stats balanced_def own_fence_total_def)

lemma sound_registry:
  "sound ob \<Longrightarrow> registry_wf reg \<Longrightarrow> registry_extends (ob_registry ob) reg \<Longrightarrow> sound (ob\<lparr>ob_registry := reg\<rparr>)"
  by (simp add: sound_def observatory_wf_registry)

lemma sound_reg_wf: "sound ob \<Longrightarrow> registry_wf (ob_registry ob)"
  by (simp add: sound_def observatory_wf_reg)

lemma sound_transition: "sound ob \<Longrightarrow> sound (record_transition ob e)"
  unfolding sound_def using observatory_wf_core balanced_core same_core_transition by blast

lemma apply_source_record_sound:
  assumes "sound ob"
  shows "sound (fst (apply_source_record ob d))"
proof -
  have reg: "registry_wf (ob_registry ob)" using assms by (rule sound_reg_wf)
  have "sound (ob\<lparr>ob_registry := fst (register_source (ob_registry ob) x)\<rparr>)"
    and "sound (ob\<lparr>ob_registry := fst (retire_source (fst (register_source (ob_registry ob) x)) i)\<rparr>)" for x i
    using assms reg registry_extends_trans [OF registry_extends_source(1) registry_extends_source(2)]
    by (auto intro!: sound_registry simp: register_source_wf retire_source_wf registry_extends_source)
  moreover have "sound (ob\<lparr>ob_registry := reg, ob_stats := (ob_stats ob)\<lparr>rs_declarations_rejected := n\<rparr>\<rparr>)"
      "sound (ob\<lparr>ob_registry := reg, ob_stats := (ob_stats ob)\<lparr>rs_declarations_applied := n\<rparr>\<rparr>)"
    if "sound (ob\<lparr>ob_registry := reg\<rparr>)" for reg n
    using that sound_declaration_stats(1,2) [where ob = "ob\<lparr>ob_registry := reg\<rparr>" and n = n] by simp_all
  ultimately show ?thesis by (simp add: apply_source_record_def Let_def)
qed

lemma apply_link_record_sound:
  assumes "sound ob"
  shows "sound (fst (apply_link_record ob d now))"
proof -
  let ?f = "make_link_facts d"
  let ?r = "register_link (ob_registry ob) ?f now"
  let ?g = "observe_generation (fst ?r) (lf_id ?f) (lf_generation ?f)"
  have reg: "registry_wf (ob_registry ob)" using assms by (rule sound_reg_wf)
  have "sound (ob\<lparr>ob_registry := fst ?r\<rparr>)" and "sound (ob\<lparr>ob_registry := fst ?g\<rparr>)"
    using assms reg registry_extends_trans [OF registry_extends_link registry_extends_generation]
    by (auto intro!: sound_registry simp: register_link_wf observe_generation_wf registry_extends_link)
  then have "sound (ob\<lparr>ob_registry := fst ?r, ob_stats := (ob_stats ob)\<lparr>rs_declarations_rejected := n\<rparr>\<rparr>)"
    and "sound (ob\<lparr>ob_registry := fst ?g, ob_stats := (ob_stats ob)\<lparr>rs_declarations_applied := n\<rparr>\<rparr>)" for n
    using sound_declaration_stats(1) [where ob = "ob\<lparr>ob_registry := fst ?r\<rparr>" and n = n]
      sound_declaration_stats(2) [where ob = "ob\<lparr>ob_registry := fst ?g\<rparr>" and n = n] by simp_all
  then show ?thesis by (simp add: apply_link_record_def Let_def sound_transition)
qed

lemma apply_record_sound: "sound ob \<Longrightarrow> sound (fst (apply_record ob r now))"
  by (cases r)
    (simp_all add: apply_record_def apply_source_record_sound apply_link_record_sound apply_observation_sound)

lemma apply_records_sound: "sound ob \<Longrightarrow> sound (fold (\<lambda>(r, now) ob. fst (apply_record ob r now)) rs ob)"
  by (induction rs arbitrary: ob) (auto simp: apply_record_sound)

lemma apply_batch_sound: "sound ob \<Longrightarrow> sound (apply_batch ob rs)"
  by (simp add: apply_batch_def apply_records_sound sound_declaration_stats(3))

lemma new_observatory_sound: "sound (new_observatory c)"
  by (simp add: sound_def observatory_wf_new balanced_new)

text \<open>The states an observatory reaches from its construction by applying batches.\<close>

inductive reachable :: "runtime_config \<Rightarrow> observatory \<Rightarrow> bool" for c where
  start: "reachable c (new_observatory c)"
| batch: "reachable c ob \<Longrightarrow> reachable c (apply_batch ob rs)"
| source: "reachable c ob \<Longrightarrow> reachable c (fst (apply_source ob d now))"
| link: "reachable c ob \<Longrightarrow> reachable c (fst (apply_link ob ld now))"

lemma reachable_sound: "reachable c ob \<Longrightarrow> sound ob"
  by (induction rule: reachable.induct)
    (simp_all add: new_observatory_sound apply_batch_sound apply_source_def apply_link_def apply_record_sound)

section \<open>Snapshots\<close>

lemma restore_source_persisted:
  assumes "source_ok i rec"
    and "om_get (reg_sources reg) i = None" and "length (reg_sources reg) < unat (max_sources (pol_limits (reg_policy reg)))"
  shows "restore_source reg rec = (reg\<lparr>reg_sources := om_put i rec (reg_sources reg)\<rparr>, status_success)"
proof -
  have put: "om_put i rec (om_put i x m) = om_put i rec m" for x and m :: "(source_id, source_record) omap"
    by (induction m) auto
  show ?thesis
    using assms put
    by (cases rec) (auto simp: restore_source_def register_source_def retire_source_def source_ok_def Let_def not_le)
qed

text \<open>Restoring the source records in order rebuilds the source map.\<close>

lemma restore_sources:
  assumes "om_wf (reg_sources reg @ rest)" and "\<forall>(i, rec) \<in> set rest. source_ok i rec"
    and "length (reg_sources reg @ rest) \<le> unat (max_sources (pol_limits (reg_policy reg)))"
  shows "restore_all restore_source reg (map snd rest) = (reg\<lparr>reg_sources := reg_sources reg @ rest\<rparr>, status_success)"
  using assms
proof (induction rest arbitrary: reg)
  case (Cons e rest)
  obtain i rec where e: "e = (i, rec)" by (cases e)
  have fresh: "om_get (reg_sources reg) i = None"
    using Cons.prems(1) by (force simp: om_wf_def e sorted_wrt_append om_get_None_iff)
  have put: "om_put i rec (reg_sources reg) = reg_sources reg @ [(i, rec)]"
    using Cons.prems(1) by (intro om_put_append) (auto simp: om_wf_def e sorted_wrt_append)
  have step: "restore_source reg rec = (reg\<lparr>reg_sources := reg_sources reg @ [(i, rec)]\<rparr>, status_success)"
    using Cons.prems fresh by (subst restore_source_persisted [of i]) (auto simp: e put)
  have "restore_all restore_source (reg\<lparr>reg_sources := reg_sources reg @ [(i, rec)]\<rparr>) (map snd rest)
      = (reg\<lparr>reg_sources := reg_sources reg @ e # rest\<rparr>, status_success)"
    using Cons.prems by (subst Cons.IH) (auto simp: e)
  then show ?case by (simp add: step e)
qed simp

lemma registry_round_trip:
  assumes wf: "registry_wf reg"
  shows "restore_all restore_source (empty_registry (reg_policy reg)) (sources reg) = (reg\<lparr>reg_links := []\<rparr>, status_success)"
    and "restore_all restore_link (reg\<lparr>reg_links := []\<rparr>) (persisted_links reg) = (reg, status_success)"
proof -
  have ok: "\<forall>(i, rec) \<in> set (reg_sources reg). source_ok i rec"
    using wf by (auto simp: registry_wf_def om_get_iff)
  show "restore_all restore_source (empty_registry (reg_policy reg)) (sources reg) = (reg\<lparr>reg_links := []\<rparr>, status_success)"
    using wf ok restore_sources [of "empty_registry (reg_policy reg)" "reg_sources reg"]
    by (cases reg) (simp add: sources_def empty_registry_def registry_wf_def)
  show "restore_all restore_link (reg\<lparr>reg_links := []\<rparr>) (persisted_links reg) = (reg, status_success)"
    using wf by (rule restore_persisted_links)
qed

lemma store_round_trip:
  assumes wf: "store_wf store"
    and few: "length (es_streams store) \<le> unat (max_sources (pol_limits (es_policy store)))"
  defines "s1 \<equiv> (empty_store (es_policy store))\<lparr>es_slots := es_slots store\<rparr>"
  shows "restore_all restore_slot (empty_store (es_policy store)) (persisted_slots store) = (s1, status_success)"
    and "restore_all restore_stream s1 (persisted_streams store) = (s1\<lparr>es_streams := es_streams store\<rparr>, status_success)"
proof -
  have ok: "\<forall>(k, s) \<in> set (es_slots store). slot_ok (es_policy store) k s \<and> slot_sources_in (es_streams store) s"
    using wf by (auto simp: store_wf_def om_get_iff)
  have "length (sl_continuity s) \<le> unat (max_sources (pol_limits (es_policy store)))"
    if "(k, s) \<in> set (es_slots store)" for k s
  proof -
    have "om_wf (sl_continuity s)" and "om_wf (es_streams store)"
      and "\<And>i. om_get (sl_continuity s) i \<noteq> None \<Longrightarrow> om_get (es_streams store) i \<noteq> None"
      using ok that wf by (auto simp: slot_ok_def slot_sources_in_def store_wf_def)
    from om_keys_length [OF this] few show ?thesis by simp
  qed
  with ok wf show "restore_all restore_slot (empty_store (es_policy store)) (persisted_slots store) = (s1, status_success)"
    using slot_restore.restore_suffix [of "empty_store (es_policy store)" "es_slots store"]
    by (fastforce simp: persisted_slots_def s1_def empty_store_def store_wf_def)
  have "\<forall>(i, s) \<in> set (es_streams store). stream_ok i s"
    using wf by (auto simp: store_wf_def om_get_iff)
  with wf few show "restore_all restore_stream s1 (persisted_streams store) = (s1\<lparr>es_streams := es_streams store\<rparr>, status_success)"
    using stream_restore.restore_suffix [of s1 "es_streams store"]
    by (simp add: persisted_streams_def s1_def empty_store_def store_wf_def)
qed

text \<open>A source registry bounds the streams, so a snapshot always fits.\<close>

lemma streams_bounded:
  assumes "observatory_wf ob"
  shows "length (es_streams (ob_store ob)) \<le> unat (max_sources (pol_limits (cfg_policy (ob_config ob))))"
proof -
  have "length (es_streams (ob_store ob)) \<le> length (reg_sources (ob_registry ob))"
    using assms by (intro om_keys_length) (auto simp: observatory_wf_def store_wf_def registry_wf_def)
  also have "\<dots> \<le> unat (max_sources (pol_limits (reg_policy (ob_registry ob))))"
    using observatory_wf_reg [OF assms] by (simp add: registry_wf_def)
  finally show ?thesis using assms by (simp add: observatory_wf_def)
qed

lemma clear_log_empty: "clear_log log = empty_log (tl_limits log)"
  by (cases log) (simp add: clear_log_def empty_log_def)

lemma restore_round_trip_eq:
  assumes wf: "observatory_wf ob" and cfg: "cfg_policy (ob_config ob0) = cfg_policy (ob_config ob)"
    and c_def: "c = collect_snapshot v ob saved"
  shows "snd (restore_from ob0 c) = status_success"
    and "ob_config (fst (restore_from ob0 c)) = ob_config ob0"
    and "ob_registry (fst (restore_from ob0 c)) = ob_registry ob"
    and "ob_store (fst (restore_from ob0 c)) = (ob_store ob)\<lparr>es_fence_counts := []\<rparr>"
    and "ob_log (fst (restore_from ob0 c)) = record_all (empty_log (tl_limits (ob_log ob0))) (sn_transitions c)"
proof -
  let ?p = "cfg_policy (ob_config ob)"
  have pol: "reg_policy (ob_registry ob) = ?p" "es_policy (ob_store ob) = ?p"
    using wf by (simp_all add: observatory_wf_def)
  have rw: "registry_wf (ob_registry ob)" and sw: "store_wf (ob_store ob)"
    using wf by (simp_all add: observatory_wf_def)
  note reg = registry_round_trip [OF rw, unfolded pol]
  note st = store_round_trip [OF sw, unfolded pol, OF streams_bounded [OF wf]]
  have fields: "sn_sources c = sources (ob_registry ob)" "sn_links c = persisted_links (ob_registry ob)"
      "sn_slots c = persisted_slots (ob_store ob)" "sn_streams c = persisted_streams (ob_store ob)"
    by (simp_all add: c_def collect_snapshot_def)
  show "snd (restore_from ob0 c) = status_success"
    and "ob_config (fst (restore_from ob0 c)) = ob_config ob0"
    and "ob_registry (fst (restore_from ob0 c)) = ob_registry ob"
    and "ob_store (fst (restore_from ob0 c)) = (ob_store ob)\<lparr>es_fence_counts := []\<rparr>"
    and "ob_log (fst (restore_from ob0 c)) = record_all (empty_log (tl_limits (ob_log ob0))) (sn_transitions c)"
    by (simp_all add: restore_from_def Let_def fields cfg reg st record_all_def clear_log_empty)
      (simp add: restore_totals_def c_def collect_snapshot_def empty_store_def pol(2) [symmetric])
qed

text \<open>The per-reason fence counters are not read by any evaluation.\<close>

lemma evaluation_ignores_fence_counts [simp]:
  "contenders (store\<lparr>es_fence_counts := m\<rparr>) l k ctx = contenders store l k ctx"
  "slot_view_of (store\<lparr>es_fence_counts := m\<rparr>) l k now = slot_view_of store l k now"
  "continuity_of (store\<lparr>es_fence_counts := m\<rparr>) l k i = continuity_of store l k i"
  "stream_state_of (store\<lparr>es_fence_counts := m\<rparr>) i = stream_state_of store i"
  "keys_for (store\<lparr>es_fence_counts := m\<rparr>) l = keys_for store l"
proof -
  have "completeness_of (store\<lparr>es_fence_counts := m\<rparr>) = completeness_of store"
    and "evaluate (store\<lparr>es_fence_counts := m\<rparr>) = evaluate store"
    by (auto simp: completeness_of_def evaluate_def fun_eq_iff Let_def split: option.splits)
  then show "contenders (store\<lparr>es_fence_counts := m\<rparr>) l k ctx = contenders store l k ctx"
    "slot_view_of (store\<lparr>es_fence_counts := m\<rparr>) l k now = slot_view_of store l k now"
    by (auto simp: contenders_def slot_view_of_def split: option.splits)
qed (simp_all add: continuity_of_def stream_state_of_def keys_for_def)

lemma key_report_ignores_fence_counts [simp]:
  "key_report (store\<lparr>es_fence_counts := m\<rparr>) p facts l ctx = key_report store p facts l ctx"
proof -
  have "derive_for (store\<lparr>es_fence_counts := m\<rparr>) = derive_for store"
    unfolding derive_for_def evaluation_ignores_fence_counts by (rule refl)
  moreover have "slot_report (store\<lparr>es_fence_counts := m\<rparr>) = slot_report store"
    unfolding slot_report_def evaluation_ignores_fence_counts by (rule refl)
  ultimately show ?thesis by (intro ext) (simp only: key_report_def evaluation_ignores_fence_counts)
qed

lemma report_keys_ignores_fence_counts [simp]: "report_keys (store\<lparr>es_fence_counts := m\<rparr>) l = report_keys store l"
  by (simp add: report_keys_def)

end
