(* ===== verification/Sha256.thy ===== *)
theory Sha256
  imports Identity
begin

text \<open>
  SHA-256 (\<^verbatim>\<open>include/linkobs/core/sha256.hpp\<close>, \<^verbatim>\<open>src/core/sha256.cpp\<close>): the compression function,
  the buffered update, the padding and the hexadecimal text of a digest. Only the first
  \<^verbatim>\<open>buffered_\<close> bytes of the buffer are ever read, so the buffer is the list of those bytes. The
  main result: however a message is cut into updates, the digest is the one of the padded message
  cut into blocks.
\<close>

section \<open>The compression function\<close>

text \<open>The table, in rows of seven as in the source.\<close>

definition kRoundConstants :: "u32 list" where
  "kRoundConstants =
    [0x428a2f98, 0x71374491, 0xb5c0fbcf, 0xe9b5dba5, 0x3956c25b, 0x59f111f1, 0x923f82a4] @
    [0xab1c5ed5, 0xd807aa98, 0x12835b01, 0x243185be, 0x550c7dc3, 0x72be5d74, 0x80deb1fe] @
    [0x9bdc06a7, 0xc19bf174, 0xe49b69c1, 0xefbe4786, 0x0fc19dc6, 0x240ca1cc, 0x2de92c6f] @
    [0x4a7484aa, 0x5cb0a9dc, 0x76f988da, 0x983e5152, 0xa831c66d, 0xb00327c8, 0xbf597fc7] @
    [0xc6e00bf3, 0xd5a79147, 0x06ca6351, 0x14292967, 0x27b70a85, 0x2e1b2138, 0x4d2c6dfc] @
    [0x53380d13, 0x650a7354, 0x766a0abb, 0x81c2c92e, 0x92722c85, 0xa2bfe8a1, 0xa81a664b] @
    [0xc24b8b70, 0xc76c51a3, 0xd192e819, 0xd6990624, 0xf40e3585, 0x106aa070, 0x19a4c116] @
    [0x1e376c08, 0x2748774c, 0x34b0bcb5, 0x391c0cb3, 0x4ed8aa4a, 0x5b9cca4f, 0x682e6ff3] @
    [0x748f82ee, 0x78a5636f, 0x84c87814, 0x8cc70208, 0x90befffa, 0xa4506ceb, 0xbef9a3f7] @
    [0xc67178f2]"

definition rotate_right :: "u32 \<Rightarrow> nat \<Rightarrow> u32" where
  "rotate_right v bits = drop_bit bits v OR push_bit (32 - bits) v"

definition load_be32 :: "u8 list \<Rightarrow> u32" where
  "load_be32 data =
     push_bit 24 (ucast (data ! 0)) OR push_bit 16 (ucast (data ! 1)) OR push_bit 8 (ucast (data ! 2))
     OR ucast (data ! 3)"

definition store_be32 :: "u32 \<Rightarrow> u8 list" where
  "store_be32 v =
     [ucast (drop_bit 24 v AND 0xFF), ucast (drop_bit 16 v AND 0xFF), ucast (drop_bit 8 v AND 0xFF),
      ucast (v AND 0xFF)]"

definition extend_schedule :: "nat \<Rightarrow> u32 list \<Rightarrow> u32 list" where
  "extend_schedule index schedule =
     (let s0 = rotate_right (schedule ! (index - 15)) 7 XOR rotate_right (schedule ! (index - 15)) 18
               XOR drop_bit 3 (schedule ! (index - 15));
          s1 = rotate_right (schedule ! (index - 2)) 17 XOR rotate_right (schedule ! (index - 2)) 19
               XOR drop_bit 10 (schedule ! (index - 2))
      in schedule @ [schedule ! (index - 16) + s0 + schedule ! (index - 7) + s1])"

definition message_schedule :: "u8 list \<Rightarrow> u32 list" where
  "message_schedule block =
     fold extend_schedule [16..<64] (map (\<lambda>index. load_be32 (drop (index * 4) block)) [0..<16])"

record sha_vars =
  va :: u32
  vb :: u32
  vc :: u32
  vd :: u32
  ve :: u32
  vf :: u32
  vg :: u32
  vh :: u32

definition sha_round :: "u32 \<times> u32 \<Rightarrow> sha_vars \<Rightarrow> sha_vars" where
  "sha_round kw v =
     (let sigma1 = rotate_right (ve v) 6 XOR rotate_right (ve v) 11 XOR rotate_right (ve v) 25;
          chosen = (ve v AND vf v) XOR (NOT (ve v) AND vg v);
          temp1 = vh v + sigma1 + chosen + fst kw + snd kw;
          sigma0 = rotate_right (va v) 2 XOR rotate_right (va v) 13 XOR rotate_right (va v) 22;
          majority = (va v AND vb v) XOR (va v AND vc v) XOR (vb v AND vc v);
          temp2 = sigma0 + majority
      in \<lparr>va = temp1 + temp2, vb = va v, vc = vb v, vd = vc v, ve = vd v + temp1, vf = ve v, vg = vf v,
          vh = vg v\<rparr>)"

definition compress :: "u8 list \<Rightarrow> sha_vars \<Rightarrow> sha_vars" where
  "compress block st =
     (let v = fold sha_round (zip kRoundConstants (message_schedule block)) st
      in \<lparr>va = va st + va v, vb = vb st + vb v, vc = vc st + vc v, vd = vd st + vd v,
          ve = ve st + ve v, vf = vf st + vf v, vg = vg st + vg v, vh = vh st + vh v\<rparr>)"

section \<open>The hasher\<close>

record sha256 =
  sh_state :: sha_vars
  sh_buffer :: "u8 list"
  sh_total_bytes :: u64

definition sha256_init_state :: sha_vars where
  "sha256_init_state =
     \<lparr>va = 0x6a09e667, vb = 0xbb67ae85, vc = 0x3c6ef372, vd = 0xa54ff53a, ve = 0x510e527f, vf = 0x9b05688c,
      vg = 0x1f83d9ab, vh = 0x5be0cd19\<rparr>"

definition sha256_new :: sha256 where
  "sha256_new = \<lparr>sh_state = sha256_init_state, sh_buffer = [], sh_total_bytes = 0\<rparr>"

text \<open>The loop over whole blocks: what is left, and the state.\<close>

fun compress_blocks :: "u8 list \<Rightarrow> sha_vars \<Rightarrow> u8 list \<times> sha_vars" where
  "compress_blocks data st =
     (if length data \<ge> 64 then compress_blocks (drop 64 data) (compress (take 64 data) st) else (data, st))"

declare compress_blocks.simps [simp del]

definition sha256_update :: "u8 list \<Rightarrow> sha256 \<Rightarrow> sha256" where
  "sha256_update data s =
     (let total_bytes = sh_total_bytes s + of_nat (length data);
          room = 64 - length (sh_buffer s);
          filled = sh_buffer s @ take room data;
          rest = drop room data;
          st1 = (if length filled = 64 then compress filled (sh_state s) else sh_state s);
          buffer1 = (if length filled = 64 then [] else filled)
      in case compress_blocks rest st1 of (tail, st2) \<Rightarrow>
           \<lparr>sh_state = st2, sh_buffer = buffer1 @ tail, sh_total_bytes = total_bytes\<rparr>)"

text \<open>
  \<^verbatim>\<open>while (buffered_ != 56U)\<close>. The buffer never holds 64 bytes between updates; the second test
  only makes the recursion total.
\<close>

function pad_zeros :: "sha256 \<Rightarrow> sha256" where
  "pad_zeros s =
     (if length (sh_buffer s) = 56 \<or> length (sh_buffer s) \<ge> 64 then s else pad_zeros (sha256_update [0] s))"
  by pat_completeness auto
termination
  by (relation "measure (\<lambda>s. if length (sh_buffer s) \<le> 56 then 56 - length (sh_buffer s)
      else 121 - length (sh_buffer s))")
    (auto simp: sha256_update_def compress_blocks.simps Let_def)

declare pad_zeros.simps [simp del]

definition length_bytes :: "u64 \<Rightarrow> u8 list" where
  "length_bytes total_bits = map (\<lambda>index. ucast (drop_bit (8 * (7 - index)) total_bits AND 0xFF)) [0..<8]"

definition digest_of :: "sha_vars \<Rightarrow> u8 list" where
  "digest_of v =
     store_be32 (va v) @ store_be32 (vb v) @ store_be32 (vc v) @ store_be32 (vd v)
     @ store_be32 (ve v) @ store_be32 (vf v) @ store_be32 (vg v) @ store_be32 (vh v)"

definition sha256_finish :: "sha256 \<Rightarrow> u8 list" where
  "sha256_finish s =
     (let total_bits = sh_total_bytes s * 8;
          s1 = sha256_update [0x80] s;
          s2 = pad_zeros s1;
          s3 = sha256_update (length_bytes total_bits) s2
      in digest_of (sh_state s3))"

definition sha256_of :: "u8 list \<Rightarrow> u8 list" where
  "sha256_of data = sha256_finish (sha256_update data sha256_new)"

text \<open>The text of a digest: \<^verbatim>\<open>to_hex(digest)\<close> is \<open>to_hex_bytes\<close>.\<close>

fun parse_hex_pairs :: "string \<Rightarrow> u8 list option" where
  "parse_hex_pairs (h # l # cs) =
     (if hex_nibble h < 0 \<or> hex_nibble l < 0 then None
      else map_option ((#) (word_of_int (push_bit 4 (hex_nibble h) OR hex_nibble l))) (parse_hex_pairs cs))"
| "parse_hex_pairs cs = Some []"

definition parse_sha256_hex :: "string \<Rightarrow> u8 list option" where
  "parse_sha256_hex t = (if length t \<noteq> 64 then None else parse_hex_pairs t)"

section \<open>Absorbing a message\<close>

lemma compress_blocks_short: "length data < 64 \<Longrightarrow> compress_blocks data st = (data, st)"
  by (simp add: compress_blocks.simps)

lemma compress_blocks_block:
  "length b = 64 \<Longrightarrow> compress_blocks (b @ data) st = compress_blocks data (compress b st)"
  by (subst compress_blocks.simps) simp

lemma compress_blocks_append:
  "compress_blocks (a @ b) st = (case compress_blocks a st of (t, st') \<Rightarrow> compress_blocks (t @ b) st')"
proof (induction a st rule: compress_blocks.induct)
  case (1 a st)
  show ?case
  proof (cases "length a \<ge> 64")
    case True
    then have "compress_blocks (a @ b) st = compress_blocks (drop 64 a @ b) (compress (take 64 a) st)"
      by (subst compress_blocks.simps) simp
    moreover have "compress_blocks a st = compress_blocks (drop 64 a) (compress (take 64 a) st)"
      using True by (subst compress_blocks.simps) simp
    ultimately show ?thesis using 1 True by simp
  qed (simp add: compress_blocks_short)
qed

lemma compress_blocks_rest:
  "compress_blocks data st = (t, st') \<Longrightarrow> length t = length data mod 64"
proof (induction data st rule: compress_blocks.induct)
  case (1 data st)
  show ?case
  proof (cases "length data \<ge> 64")
    case True
    then have "compress_blocks (drop 64 data) (compress (take 64 data) st) = (t, st')"
      using 1(2) by (subst (asm) compress_blocks.simps) simp
    with 1(1) True show ?thesis by (simp add: le_mod_geq)
  next
    case False
    then show ?thesis using 1(2) by (auto simp: compress_blocks_short)
  qed
qed

text \<open>What a hasher has absorbed.\<close>

definition absorbed :: "sha256 \<Rightarrow> u8 list \<Rightarrow> bool" where
  "absorbed s m \<longleftrightarrow>
     compress_blocks m sha256_init_state = (sh_buffer s, sh_state s) \<and> sh_total_bytes s = of_nat (length m)"

lemma absorbed_new: "absorbed sha256_new []"
  by (simp add: absorbed_def sha256_new_def compress_blocks_short)

lemma absorbed_buffer: "absorbed s m \<Longrightarrow> length (sh_buffer s) = length m mod 64"
  unfolding absorbed_def by (blast dest: compress_blocks_rest)

lemma absorbed_update:
  assumes "absorbed s m"
  shows "absorbed (sha256_update data s) (m @ data)"
proof -
  let ?b = "sh_buffer s" and ?room = "64 - length (sh_buffer s)"
  have small: "length ?b < 64" using absorbed_buffer [OF assms] by simp
  have "compress_blocks (m @ data) sha256_init_state = compress_blocks (?b @ data) (sh_state s)"
    using assms unfolding absorbed_def by (subst compress_blocks_append) simp
  moreover have "compress_blocks (?b @ data) (sh_state s)
      = (sh_buffer (sha256_update data s), sh_state (sha256_update data s))"
  proof (cases "?room \<le> length data")
    case True
    then have full: "length (?b @ take ?room data) = 64" using small by simp
    have "compress_blocks (?b @ data) (sh_state s)
        = compress_blocks ((?b @ take ?room data) @ drop ?room data) (sh_state s)" by simp
    also have "\<dots> = compress_blocks (drop ?room data) (compress (?b @ take ?room data) (sh_state s))"
      by (rule compress_blocks_block [OF full])
    finally show ?thesis using full by (simp add: sha256_update_def Let_def split: prod.splits)
  next
    case False
    then have short: "length ?b + length data < 64" using small by linarith
    then show ?thesis by (simp add: sha256_update_def Let_def compress_blocks_short)
  qed
  moreover have "sh_total_bytes (sha256_update data s) = of_nat (length (m @ data))"
    using assms by (simp add: absorbed_def sha256_update_def Let_def split: prod.splits)
  ultimately show ?thesis by (simp add: absorbed_def)
qed

text \<open>Padding stops at the first length that leaves eight bytes of a block.\<close>

definition zero_count :: "nat \<Rightarrow> nat" where
  "zero_count n = (120 - n mod 64) mod 64"

lemma zero_count_alt:
  "zero_count n = (if n mod 64 \<le> 56 then 56 - n mod 64 else 120 - n mod 64)"
proof (cases "n mod 64 \<le> 56")
  case True
  then have eq: "120 - n mod 64 = (56 - n mod 64) + 64" by simp
  have "((56 - n mod 64) + 64) mod 64 = 56 - n mod 64" by (simp only: mod_add_self2) simp
  then show ?thesis using True unfolding zero_count_def eq by presburger
next
  case False
  then show ?thesis by (simp add: zero_count_def)
qed

lemma zero_count_Suc: "n mod 64 \<noteq> 56 \<Longrightarrow> zero_count n = Suc (zero_count (Suc n))"
  unfolding zero_count_alt using mod_less_divisor [of 64 n] by (auto simp: mod_Suc)

lemma zero_count_fills: "(n + zero_count n + 8) mod 64 = 0"
proof -
  have "(n mod 64 + zero_count n + 8) mod 64 = 0" by (cases "n mod 64 \<le> 56") (simp_all add: zero_count_alt)
  moreover have "(n + (zero_count n + 8)) mod 64 = (n mod 64 + (zero_count n + 8)) mod 64"
    by (rule mod_add_left_eq [symmetric])
  ultimately show ?thesis by (simp add: add.assoc)
qed

lemma absorbed_pad:
  "absorbed s m \<Longrightarrow> absorbed (pad_zeros s) (m @ replicate (zero_count (length m)) 0)"
proof (induction s arbitrary: m rule: pad_zeros.induct)
  case (1 s)
  have len: "length (sh_buffer s) = length m mod 64" using absorbed_buffer [OF 1(2)] .
  show ?case
  proof (cases "length m mod 64 = 56")
    case True
    then show ?thesis using 1(2) len by (subst pad_zeros.simps) (simp add: zero_count_def)
  next
    case False
    then have step: "pad_zeros s = pad_zeros (sha256_update [0] s)"
      using len by (subst pad_zeros.simps) simp
    have "zero_count (length m) = Suc (zero_count (Suc (length m)))"
      using False by (rule zero_count_Suc)
    moreover have "absorbed (pad_zeros (sha256_update [0] s))
        ((m @ [0]) @ replicate (zero_count (length (m @ [0]))) 0)"
      using 1(1) [of "m @ [0]"] absorbed_update [OF 1(2), of "[0]"] False len by simp
    ultimately show ?thesis unfolding step by simp
  qed
qed

section \<open>The reference\<close>

definition padded :: "u8 list \<Rightarrow> u8 list" where
  "padded m = m @ 0x80 # replicate (zero_count (Suc (length m))) 0 @ length_bytes (of_nat (length m) * 8)"

fun blocks_of :: "u8 list \<Rightarrow> u8 list list" where
  "blocks_of data = (if length data < 64 then [] else take 64 data # blocks_of (drop 64 data))"

declare blocks_of.simps [simp del]

definition sha256_spec :: "u8 list \<Rightarrow> u8 list" where
  "sha256_spec m = digest_of (fold compress (blocks_of (padded m)) sha256_init_state)"

lemma padded_length: "length (padded m) mod 64 = 0"
  using zero_count_fills [of "Suc (length m)"] by (simp add: padded_def length_bytes_def ac_simps)

lemma compress_blocks_fold:
  "snd (compress_blocks data st) = fold compress (blocks_of data) st"
proof (induction data st rule: compress_blocks.induct)
  case (1 data st)
  then show ?case
    by (cases "length data \<ge> 64") (subst compress_blocks.simps, subst blocks_of.simps, simp)+
qed

lemma sha256_finish_absorbed: "absorbed s m \<Longrightarrow> sha256_finish s = sha256_spec m"
proof -
  assume a: "absorbed s m"
  have "absorbed (sha256_update (length_bytes (sh_total_bytes s * 8)) (pad_zeros (sha256_update [0x80] s)))
      (((m @ [0x80]) @ replicate (zero_count (length (m @ [0x80]))) 0) @ length_bytes (sh_total_bytes s * 8))"
    by (intro absorbed_update absorbed_pad a)
  moreover have "sh_total_bytes s = of_nat (length m)" using a by (simp add: absorbed_def)
  ultimately have "absorbed (sha256_update (length_bytes (sh_total_bytes s * 8)) (pad_zeros (sha256_update [0x80] s)))
      (padded m)" by (simp add: padded_def)
  then show ?thesis
    using compress_blocks_fold [of "padded m" sha256_init_state]
    by (simp add: sha256_finish_def sha256_spec_def absorbed_def Let_def)
qed

lemma absorbed_updates: "absorbed s m \<Longrightarrow> absorbed (fold sha256_update ds s) (m @ concat ds)"
proof (induction ds arbitrary: s m)
  case (Cons d ds)
  from Cons.IH [OF absorbed_update [OF Cons.prems, of d]] show ?case by simp
qed simp

section \<open>The text of a digest\<close>

lemma parse_hex_pairs_to_hex: "parse_hex_pairs (to_hex_bytes ds) = Some ds"
proof (induction ds)
  case (Cons b ds)
  have low: "c AND 0x0F = take_bit 4 c" for c :: u8 by (simp add: take_bit_eq_mask mask_eq_exp_minus_1)
  have lt: "unat (take_bit 4 c) < 16" for c :: u8
    using take_bit_nat_less_exp [of 4 "unat c"] by (simp add: unsigned_take_bit_eq)
  have "word_of_int (push_bit 4 (int (unat (take_bit 4 (drop_bit 4 b)))) OR int (unat (take_bit 4 b)))
      = push_bit 4 (take_bit 4 (drop_bit 4 b)) OR take_bit 4 b"
    by (rule bit_word_eqI) (auto simp: bit_simps bit_of_nat_iff)
  also have "\<dots> = b"
  proof (rule bit_word_eqI)
    fix n assume "n < LENGTH(8)"
    then show "bit (push_bit 4 (take_bit 4 (drop_bit 4 b)) OR take_bit 4 b) n = bit b n"
      by (cases "n < 4") (auto simp: bit_simps)
  qed
  finally have "word_of_int (push_bit 4 (int (unat (take_bit 4 (drop_bit 4 b)))) OR int (unat (take_bit 4 b))) = b" .
  with Cons lt show ?case by (simp add: to_hex_bytes_def hex_nibble_digit low)
qed (simp add: to_hex_bytes_def)

lemma parse_sha256_hex_to_hex: "length d = 32 \<Longrightarrow> parse_sha256_hex (to_hex_bytes d) = Some d"
  by (simp add: parse_sha256_hex_def length_to_hex_bytes parse_hex_pairs_to_hex)

section \<open>A known answer\<close>

text \<open>
  The standard's answer for the message of three bytes \<^verbatim>\<open>abc\<close>, computed in stages: the message
  schedule, the rounds sixteen at a time, the digest.
\<close>

definition abc_schedule :: "u32 list" where
  "abc_schedule =
    [0x61626380, 0x00000000, 0x00000000, 0x00000000, 0x00000000, 0x00000000, 0x00000000, 0x00000000,
     0x00000000, 0x00000000, 0x00000000, 0x00000000, 0x00000000, 0x00000000, 0x00000000, 0x00000018,
     0x61626380, 0x000f0000, 0x7da86405, 0x600003c6, 0x3e9d7b78, 0x0183fc00, 0x12dcbfdb, 0xe2e2c38e,
     0xc8215c1a, 0xb73679a2, 0xe5bc3909, 0x32663c5b, 0x9d209d67, 0xec8726cb, 0x702138a4, 0xd3b7973b,
     0x93f5997f, 0x3b68ba73, 0xaff4ffc1, 0xf10a5c62, 0x0a8b3996, 0x72af830a, 0x9409e33e, 0x24641522,
     0x9f47bf94, 0xf0a64f5a, 0x3e246a79, 0x27333ba3, 0x0c4763f2, 0x840abf27, 0x7a290d5d, 0x065c43da,
     0xfb3e89cb, 0xcc7617db, 0xb9e66c34, 0xa9993667, 0x84badedd, 0xc21462bc, 0x1487472c, 0xb20f7a99,
     0xef57b9cd, 0xebe6b238, 0x9fe3095e, 0x78bc8d4b, 0xa43fcf15, 0x668b2ff8, 0xeeaba2cc, 0x12b1edeb]"

lemma abc_schedule_computed: "message_schedule (padded [0x61, 0x62, 0x63]) = abc_schedule"
proof -
  have start: "map (\<lambda>index. load_be32 (drop (index * 4) (padded [0x61, 0x62, 0x63]))) [0..<16] = take 16 abc_schedule"
    by code_simp
  have s32: "fold extend_schedule [16..<32] (take 16 abc_schedule) = take 32 abc_schedule" by code_simp
  have s48: "fold extend_schedule [32..<48] (take 32 abc_schedule) = take 48 abc_schedule" by code_simp
  have s64: "fold extend_schedule [48..<64] (take 48 abc_schedule) = take 64 abc_schedule" by code_simp
  have "[16..<64] = [16..<32] @ [32..<48] @ [48..<64 :: nat]" by code_simp
  then have "message_schedule (padded [0x61, 0x62, 0x63]) = take 64 abc_schedule"
    by (simp only: message_schedule_def start fold_append comp_apply s32 s48 s64)
  then show ?thesis by (simp add: abc_schedule_def)
qed

abbreviation abc_rounds :: "nat \<Rightarrow> sha_vars \<Rightarrow> sha_vars" where
  "abc_rounds i \<equiv> fold sha_round (take 16 (drop (16 * i) (zip kRoundConstants abc_schedule)))"

lemma abc_rounds_0:
  "abc_rounds 0 sha256_init_state =
     \<lparr>va = 0xb0fa238e, vb = 0xc0645fde, vc = 0xd932eb16, vd = 0x87912990, ve = 0x07590dcd, vf = 0x0b92f20c, vg = 0x745a48de, vh = 0x1e578218\<rparr>"
  by code_simp

lemma abc_rounds_1:
  "abc_rounds 1 
     \<lparr>va = 0xb0fa238e, vb = 0xc0645fde, vc = 0xd932eb16, vd = 0x87912990, ve = 0x07590dcd, vf = 0x0b92f20c, vg = 0x745a48de, vh = 0x1e578218\<rparr> =
     \<lparr>va = 0x73b33bf5, vb = 0xea992a22, vc = 0xa0060b30, vd = 0x363482c9, ve = 0xba591112, vf = 0x0109ab3a, vg = 0xade79437, vh = 0x6112a3b7\<rparr>"
  by code_simp

lemma abc_rounds_2:
  "abc_rounds 2 
     \<lparr>va = 0x73b33bf5, vb = 0xea992a22, vc = 0xa0060b30, vd = 0x363482c9, ve = 0xba591112, vf = 0x0109ab3a, vg = 0xade79437, vh = 0x6112a3b7\<rparr> =
     \<lparr>va = 0x4172328d, vb = 0xa14c14b0, vc = 0x72ab4b91, vd = 0x26628815, ve = 0xfecf0bc6, vf = 0xd57b94a9, vg = 0xb7755da1, vh = 0xa80f11f0\<rparr>"
  by code_simp

lemma abc_rounds_3:
  "abc_rounds 3 
     \<lparr>va = 0x4172328d, vb = 0xa14c14b0, vc = 0x72ab4b91, vd = 0x26628815, ve = 0xfecf0bc6, vf = 0xd57b94a9, vg = 0xb7755da1, vh = 0xa80f11f0\<rparr> =
     \<lparr>va = 0x506e3058, vb = 0xd39a2165, vc = 0x04d24d6c, vd = 0xb85e2ce9, ve = 0x5ef50f24, vf = 0xfb121210, vg = 0x948d25b6, vh = 0x961f4894\<rparr>"
  by code_simp

lemma sha256_known_answer:
  "sha256_of [0x61, 0x62, 0x63] =
     [0xba, 0x78, 0x16, 0xbf, 0x8f, 0x01, 0xcf, 0xea, 0x41, 0x41, 0x40, 0xde, 0x5d, 0xae, 0x22, 0x23,
      0xb0, 0x03, 0x61, 0xa3, 0x96, 0x17, 0x7a, 0x9c, 0xb4, 0x10, 0xff, 0x61, 0xf2, 0x00, 0x15, 0xad]"
proof -
  let ?kw = "zip kRoundConstants abc_schedule"
  have "length ?kw = 64" by (simp add: kRoundConstants_def abc_schedule_def)
  then have "?kw = take 16 (drop (16 * 0) ?kw) @ take 16 (drop (16 * 1) ?kw) @ take 16 (drop (16 * 2) ?kw)
      @ take 16 (drop (16 * 3) ?kw)"
    by (intro nth_equalityI) (auto simp: nth_append)
  then have "fold sha_round ?kw sha256_init_state
      = abc_rounds 3 (abc_rounds 2 (abc_rounds 1 (abc_rounds 0 sha256_init_state)))"
    by (metis comp_apply fold_append)
  then have rounds: "fold sha_round ?kw sha256_init_state =
     \<lparr>va = 0x506e3058, vb = 0xd39a2165, vc = 0x04d24d6c, vd = 0xb85e2ce9, ve = 0x5ef50f24, vf = 0xfb121210, vg = 0x948d25b6, vh = 0x961f4894\<rparr>"
    by (simp only: abc_rounds_0 abc_rounds_1 abc_rounds_2 abc_rounds_3)
  have "blocks_of (padded [0x61, 0x62, 0x63]) = [padded [0x61, 0x62, 0x63]]" by code_simp
  then have "sha256_of [0x61, 0x62, 0x63] = digest_of (compress (padded [0x61, 0x62, 0x63]) sha256_init_state)"
    using sha256_finish_absorbed [OF absorbed_update [OF absorbed_new], of "[0x61, 0x62, 0x63]"]
    by (simp add: sha256_of_def sha256_spec_def)
  also have "\<dots> = digest_of (let v = \<lparr>va = 0x506e3058, vb = 0xd39a2165, vc = 0x04d24d6c, vd = 0xb85e2ce9, ve = 0x5ef50f24, vf = 0xfb121210, vg = 0x948d25b6, vh = 0x961f4894\<rparr>
      in \<lparr>va = va sha256_init_state + va v, vb = vb sha256_init_state + vb v, vc = vc sha256_init_state + vc v,
          vd = vd sha256_init_state + vd v, ve = ve sha256_init_state + ve v, vf = vf sha256_init_state + vf v,
          vg = vg sha256_init_state + vg v, vh = vh sha256_init_state + vh v\<rparr>)"
    by (simp only: compress_def abc_schedule_computed rounds)
  also have "\<dots> = 
     [0xba, 0x78, 0x16, 0xbf, 0x8f, 0x01, 0xcf, 0xea, 0x41, 0x41, 0x40, 0xde, 0x5d, 0xae, 0x22, 0x23,
      0xb0, 0x03, 0x61, 0xa3, 0x96, 0x17, 0x7a, 0x9c, 0xb4, 0x10, 0xff, 0x61, 0xf2, 0x00, 0x15, 0xad]" by code_simp
  finally show ?thesis .
qed

section \<open>Main results\<close>

text \<open>
  C20: SHA-256. However a message is cut into updates, the incremental hasher with its buffer, its
  block loop and its padding loop computes the compression of the padded message, whose length is a
  multiple of the block size.
\<close>

theorem sha256_matches_reference:
  "sha256_finish (fold sha256_update ds sha256_new) = sha256_spec (concat ds)
   \<and> length (padded (concat ds)) mod 64 = 0"
  using sha256_finish_absorbed [OF absorbed_updates [OF absorbed_new, of ds]] by (simp add: padded_length)

end
