(* ===== verification/Snapshot_File.thy ===== *)
theory Snapshot_File
  imports Observatory Snapshot_Codec Sha256
begin

text \<open>
  Snapshot files (\<^verbatim>\<open>include/linkobs/persist/snapshot.hpp\<close>, \<^verbatim>\<open>src/persist/snapshot.cpp\<close>): the container
  with its two digests, the loader with every refusal, the rotation of the previous file and the
  fallback to it. A file system is a map from paths to bytes; what the operating system may refuse
  is an argument. The writer returns every state the file system goes through, so that a crash at
  any moment is one of them. The format version is generated by the build and is an argument.
\<close>

type_synonym file_system = "string \<Rightarrow> bytes option"

section \<open>File operations\<close>

text \<open>The operations on a path that the operating system refuses.\<close>

record read_faults =
  rf_open :: bool
  rf_length :: bool
  rf_read :: bool

definition no_read_faults :: "string \<Rightarrow> read_faults" where
  "no_read_faults path = \<lparr>rf_open = False, rf_length = False, rf_read = False\<rparr>"

text \<open>\<open>wf_written\<close> is the number of bytes written when writing fails.\<close>

record write_faults =
  wf_create :: bool
  wf_written :: "nat option"
  wf_probe :: bool
  wf_remove :: bool
  wf_rotate :: bool
  wf_move :: bool

definition no_write_faults :: write_faults where
  "no_write_faults = \<lparr>wf_create = False, wf_written = None, wf_probe = False, wf_remove = False,
     wf_rotate = False, wf_move = False\<rparr>"

definition read_file :: "(string \<Rightarrow> read_faults) \<Rightarrow> file_system \<Rightarrow> string \<Rightarrow> u64 \<Rightarrow> bytes result" where
  "read_file env fs path max_bytes =
     (case fs path of
        None \<Rightarrow> failure SC_NotFound ''snapshot file could not be opened''
      | Some data \<Rightarrow>
          if rf_open (env path) then failure SC_NotFound ''snapshot file could not be opened''
          else if rf_length (env path) then failure SC_IoError ''snapshot file size could not be determined''
          else if length data > unat max_bytes
          then failure SC_CapacityExceeded ''snapshot exceeds the configured size bound''
          else if length data > 0 \<and> rf_read (env path) then failure SC_IoError ''snapshot read failed''
          else Inr data)"

text \<open>The states of the file system while the stream is truncated and written, and the status.\<close>

definition write_file :: "write_faults \<Rightarrow> file_system \<Rightarrow> string \<Rightarrow> bytes \<Rightarrow> file_system list \<times> status" where
  "write_file faults fs path data =
     (if wf_create faults then ([fs], status_of SC_IoError ''snapshot file could not be created'')
      else
        let written = (case wf_written faults of None \<Rightarrow> data | Some n \<Rightarrow> take n data);
            states = map (\<lambda>k. fs(path \<mapsto> take k written)) [0..<Suc (length written)]
        in (fs # states,
            if wf_written faults = None then status_success
            else status_of SC_IoError ''snapshot write failed''))"

definition remove_file :: "bool \<Rightarrow> file_system \<Rightarrow> string \<Rightarrow> file_system \<times> bool" where
  "remove_file fault fs path =
     (if fault \<or> fs path = None then (fs, False) else (fs(path := None), True))"

definition rename_file :: "bool \<Rightarrow> file_system \<Rightarrow> string \<Rightarrow> string \<Rightarrow> file_system \<times> status" where
  "rename_file fault fs src dst =
     (if fault \<or> fs src = None then (fs, status_of SC_IoError ''snapshot rename failed'')
      else (fs(dst := fs src, src := None), status_success))"

definition file_exists :: "bool \<Rightarrow> file_system \<Rightarrow> string \<Rightarrow> bool" where
  "file_exists fault fs path \<longleftrightarrow> \<not> fault \<and> fs path \<noteq> None"

definition snapshot_backup_path :: "string \<Rightarrow> string" where
  "snapshot_backup_path path = path @ ''.prev''"

definition snapshot_temporary_path :: "string \<Rightarrow> string" where
  "snapshot_temporary_path path = path @ ''.tmp''"

definition snapshot_exists :: "bool \<Rightarrow> file_system \<Rightarrow> string \<Rightarrow> bool" where
  "snapshot_exists fault fs path = file_exists fault fs path"

section \<open>The container\<close>

definition kMagic :: bytes where "kMagic = bytes_of ''LKOBSNAP''"
definition kMinimumReaderVersion :: u32 where "kMinimumReaderVersion = 1"

record header =
  hd_format_version :: u32
  hd_minimum_reader :: u32
  hd_payload_size :: u64
  hd_payload_digest :: bytes

definition encode_header_fields :: "header \<Rightarrow> bytes" where
  "encode_header_fields h =
     put_raw kMagic @ put_u32 (hd_format_version h) @ put_u32 (hd_minimum_reader h)
     @ put_u64 (hd_payload_size h) @ put_raw (hd_payload_digest h)"

definition encode_header :: "header \<Rightarrow> bytes" where
  "encode_header h =
     (let data = encode_header_fields h; digest = sha256_of data in data @ put_raw digest)"

definition encode_stream_entry :: "source_id \<times> stream_state \<Rightarrow> bytes" where
  "encode_stream_entry e = encode_id (fst e) @ encode_stream (snd e)"

definition encode_contents :: "u32 \<Rightarrow> snapshot_contents \<Rightarrow> bytes" where
  "encode_contents version c =
     put_u32 version @ encode_id (sn_runtime c) @ encode_id (sn_incarnation c) @ encode_time (sn_saved_at c)
     @ put_u64 (sn_acceptance_index c)
     @ put_count (length (sn_links c)) @ concat (map encode_persisted_link (sn_links c))
     @ put_count (length (sn_sources c)) @ concat (map encode_source (sn_sources c))
     @ put_count (length (sn_slots c)) @ concat (map encode_slot (sn_slots c))
     @ put_count (length (sn_streams c)) @ concat (map encode_stream_entry (sn_streams c))
     @ put_count (length (sn_transitions c)) @ concat (map encode_event (sn_transitions c))
     @ put_u64 (sn_total_accepted c) @ put_u64 (sn_total_fenced c) @ put_u64 (sn_duplicates c)
     @ put_u64 (sn_revision_gaps c) @ put_u64 (sn_counter_resets c) @ put_u64 (sn_counter_wraps c)
     @ put_u64 (sn_transitions_dropped c)"

definition header_for :: "u32 \<Rightarrow> bytes \<Rightarrow> header" where
  "header_for version payload =
     \<lparr>hd_format_version = version, hd_minimum_reader = kMinimumReaderVersion,
      hd_payload_size = of_nat (length payload), hd_payload_digest = sha256_of payload\<rparr>"

definition container_for :: "u32 \<Rightarrow> bytes \<Rightarrow> bytes" where
  "container_for version payload = encode_header (header_for version payload) @ payload"

record snapshot_write_result =
  swr_status :: status
  swr_bytes_written :: nat
  swr_payload_digest :: string

definition write_failed :: "status \<Rightarrow> snapshot_write_result" where
  "write_failed s = \<lparr>swr_status = s, swr_bytes_written = 0, swr_payload_digest = []\<rparr>"

text \<open>The last two renames: the previous file becomes the backup, the temporary file the snapshot.\<close>

definition move_into_place ::
  "write_faults \<Rightarrow> file_system \<Rightarrow> string \<Rightarrow> file_system list \<times> status" where
  "move_into_place faults fs path =
     (let r = rename_file (wf_move faults) fs (snapshot_temporary_path path) path in ([fst r], snd r))"

definition rotate_and_move ::
  "write_faults \<Rightarrow> file_system \<Rightarrow> string \<Rightarrow> file_system list \<times> status" where
  "rotate_and_move faults fs path =
     (let backup = snapshot_backup_path path; temporary = snapshot_temporary_path path in
      if file_exists (wf_probe faults) fs path then
        let removed = remove_file (wf_remove faults) fs backup;
            rotated = rename_file (wf_rotate faults) (fst removed) path backup
        in if \<not> status_ok (snd rotated) then
             let cleaned = remove_file (wf_remove faults) (fst rotated) temporary
             in ([fst removed, fst rotated, fst cleaned], snd rotated)
           else
             let moved = move_into_place faults (fst rotated) path
             in ([fst removed, fst rotated] @ fst moved, snd moved)
      else move_into_place faults fs path)"

text \<open>
  \<^verbatim>\<open>write_snapshot\<close> with every state the file system goes through; the last one is the state the call
  leaves.
\<close>

definition write_snapshot ::
  "u32 \<Rightarrow> write_faults \<Rightarrow> file_system \<Rightarrow> string \<Rightarrow> snapshot_contents \<Rightarrow> policy
     \<Rightarrow> file_system list \<times> snapshot_write_result" where
  "write_snapshot version faults fs path c p =
     (let payload = encode_contents version c in
      if length payload > unat (max_snapshot_bytes (pol_limits p))
      then ([fs], write_failed (status_of SC_CapacityExceeded ''encoded snapshot exceeds the configured size bound''))
      else
        let container = container_for version payload;
            written = write_file faults fs (snapshot_temporary_path path) container
        in if \<not> status_ok (snd written) then (fst written, write_failed (snd written))
           else
             let moved = rotate_and_move faults (last (fst written)) path
             in (fst written @ fst moved,
                 if \<not> status_ok (snd moved) then write_failed (snd moved)
                 else \<lparr>swr_status = status_success, swr_bytes_written = length container,
                       swr_payload_digest = to_hex_bytes (sha256_of payload)\<rparr>))"

section \<open>Reading\<close>

text \<open>The header reader: the header and the stored digest.\<close>

definition decode_header_fields :: "header decoder" where
  "decode_header_fields =
     dec_bind get_u32 (\<lambda>format_version. dec_bind get_u32 (\<lambda>minimum_reader. dec_bind get_u64 (\<lambda>payload_size.
     dec_bind (get_raw 32) (\<lambda>payload_digest.
       dec_return \<lparr>hd_format_version = format_version, hd_minimum_reader = minimum_reader,
                   hd_payload_size = payload_size, hd_payload_digest = payload_digest\<rparr>))))"

definition read_header :: "bytes \<Rightarrow> (header \<times> bytes) result" where
  "read_header bs =
     (case get_raw 8 bs of
        Inl _ \<Rightarrow> failure SC_CorruptData ''snapshot header is truncated''
      | Inr (_, r1) \<Rightarrow>
          (case decode_header_fields r1 of
             Inl _ \<Rightarrow> failure SC_CorruptData ''snapshot header fields are truncated''
           | Inr (h, r2) \<Rightarrow>
               (case get_raw 32 r2 of
                  Inl _ \<Rightarrow> failure SC_CorruptData ''snapshot header digest is truncated''
                | Inr (stored, _) \<Rightarrow> Inr (h, stored))))"

text \<open>The checks on the container, up to the digest of the payload, which is returned.\<close>

definition verify_container :: "u32 \<Rightarrow> policy \<Rightarrow> bytes \<Rightarrow> bytes result" where
  "verify_container version p raw =
     (if length raw < 88 then failure SC_CorruptData ''snapshot is shorter than its header''
      else if take (length kMagic) raw \<noteq> kMagic then failure SC_CorruptData ''snapshot magic does not match''
      else
        res_bind (read_header (take 88 raw)) (\<lambda>(h, stored).
          if sha256_of (take 56 raw) \<noteq> stored then failure SC_CorruptData ''snapshot header digest mismatch''
          else if hd_format_version h \<noteq> version
          then failure SC_VersionMismatch ''snapshot format version is not supported by this build''
          else if hd_minimum_reader h > version
          then failure SC_VersionMismatch ''snapshot requires a newer reader than this build''
          else if hd_payload_size h > max_snapshot_bytes (pol_limits p)
          then failure SC_CapacityExceeded ''snapshot payload exceeds the configured size bound''
          else if hd_payload_size h \<noteq> of_nat (length raw - 88)
          then failure SC_CorruptData ''snapshot payload length mismatch''
          else
            let payload = take (unat (hd_payload_size h)) (drop 88 raw) in
            if sha256_of payload \<noteq> hd_payload_digest h
            then failure SC_CorruptData ''snapshot payload digest mismatch''
            else Inr payload))"

definition empty_contents :: snapshot_contents where
  "empty_contents =
     \<lparr>sn_format_version = 0, sn_runtime = StrongId (Hash128 0 0), sn_incarnation = StrongId (Hash128 0 0),
      sn_saved_at = 0, sn_acceptance_index = 0, sn_links = [], sn_sources = [], sn_slots = [], sn_streams = [],
      sn_transitions = [], sn_total_accepted = 0, sn_total_fenced = 0, sn_duplicates = 0, sn_revision_gaps = 0,
      sn_counter_resets = 0, sn_counter_wraps = 0, sn_transitions_dropped = 0\<rparr>"

text \<open>
  Loading fills the contents field by field. A step takes the contents so far and the bytes that
  remain; a failed step keeps the contents filled before it, with the status of the refusal.
\<close>

type_synonym load_state = "snapshot_contents \<times> bytes"
type_synonym loader = "load_state \<Rightarrow> (snapshot_contents \<times> status) + load_state"

definition load_field ::
  "'a decoder \<Rightarrow> ('a \<Rightarrow> snapshot_contents \<Rightarrow> snapshot_contents) \<Rightarrow> (status \<Rightarrow> status) \<Rightarrow> loader" where
  "load_field d store refusal s =
     (case d (snd s) of
        Inl e \<Rightarrow> Inl (fst s, refusal e)
      | Inr (x, rest) \<Rightarrow> Inr (store x (fst s), rest))"

definition load_then :: "loader \<Rightarrow> loader \<Rightarrow> loader" where
  "load_then l1 l2 s = (case l1 s of Inl e \<Rightarrow> Inl e | Inr s' \<Rightarrow> l2 s')"

primrec load_records ::
  "nat \<Rightarrow> 'a decoder \<Rightarrow> ('a \<Rightarrow> snapshot_contents \<Rightarrow> snapshot_contents) \<Rightarrow> (status \<Rightarrow> status) \<Rightarrow> loader" where
  "load_records 0 d push refusal = Inr"
| "load_records (Suc n) d push refusal =
     load_then (load_field d push refusal) (load_records n d push refusal)"

text \<open>A length, then as many records.\<close>

definition load_counted ::
  "u64 \<Rightarrow> 'a decoder \<Rightarrow> ('a \<Rightarrow> snapshot_contents \<Rightarrow> snapshot_contents) \<Rightarrow> string \<Rightarrow> loader" where
  "load_counted bound d push message s =
     (case get_count (unat bound) (snd s) of
        Inl e \<Rightarrow> Inl (fst s, e)
      | Inr (n, rest) \<Rightarrow> load_records n d push (\<lambda>_. status_of SC_CorruptData message) (fst s, rest))"

definition push_link :: "persisted_link \<Rightarrow> snapshot_contents \<Rightarrow> snapshot_contents" where
  "push_link x c = c\<lparr>sn_links := sn_links c @ [x]\<rparr>"

definition push_source :: "source_record \<Rightarrow> snapshot_contents \<Rightarrow> snapshot_contents" where
  "push_source x c = c\<lparr>sn_sources := sn_sources c @ [x]\<rparr>"

definition push_slot :: "persisted_slot \<Rightarrow> snapshot_contents \<Rightarrow> snapshot_contents" where
  "push_slot x c = c\<lparr>sn_slots := sn_slots c @ [x]\<rparr>"

definition push_stream :: "source_id \<times> stream_state \<Rightarrow> snapshot_contents \<Rightarrow> snapshot_contents" where
  "push_stream x c = c\<lparr>sn_streams := sn_streams c @ [x]\<rparr>"

definition push_transition :: "transition_event \<Rightarrow> snapshot_contents \<Rightarrow> snapshot_contents" where
  "push_transition x c = c\<lparr>sn_transitions := sn_transitions c @ [x]\<rparr>"

definition decode_stream_entry :: "(source_id \<times> stream_state) decoder" where
  "decode_stream_entry =
     dec_bind decode_id (\<lambda>source. dec_bind decode_stream (\<lambda>state. dec_return (source, state)))"

definition header_refusal :: "status \<Rightarrow> status" where
  "header_refusal s =
     (if status_ok s then status_of SC_CorruptData ''snapshot payload header is invalid'' else s)"

definition decode_version :: "u32 \<Rightarrow> u32 decoder" where
  "decode_version version =
     dec_bind get_u32 (\<lambda>inner_version. if inner_version = version then dec_return inner_version else dec_refuse)"

definition load_header :: "u32 \<Rightarrow> loader" where
  "load_header version =
     load_then (load_field (decode_version version) (\<lambda>_ c. c) header_refusal)
    (load_then (load_field decode_id (\<lambda>x c. c\<lparr>sn_runtime := x\<rparr>) header_refusal)
    (load_then (load_field decode_id (\<lambda>x c. c\<lparr>sn_incarnation := x\<rparr>) header_refusal)
    (load_then (load_field decode_time (\<lambda>x c. c\<lparr>sn_saved_at := x\<rparr>) header_refusal)
               (load_field get_u64 (\<lambda>x c. c\<lparr>sn_acceptance_index := x\<rparr>) header_refusal))))"

definition totals_refusal :: "status \<Rightarrow> status" where
  "totals_refusal s = status_of SC_CorruptData ''snapshot totals are truncated''"

definition load_totals :: loader where
  "load_totals =
     load_then (load_field get_u64 (\<lambda>x c. c\<lparr>sn_total_accepted := x\<rparr>) totals_refusal)
    (load_then (load_field get_u64 (\<lambda>x c. c\<lparr>sn_total_fenced := x\<rparr>) totals_refusal)
    (load_then (load_field get_u64 (\<lambda>x c. c\<lparr>sn_duplicates := x\<rparr>) totals_refusal)
    (load_then (load_field get_u64 (\<lambda>x c. c\<lparr>sn_revision_gaps := x\<rparr>) totals_refusal)
    (load_then (load_field get_u64 (\<lambda>x c. c\<lparr>sn_counter_resets := x\<rparr>) totals_refusal)
    (load_then (load_field get_u64 (\<lambda>x c. c\<lparr>sn_counter_wraps := x\<rparr>) totals_refusal)
               (load_field get_u64 (\<lambda>x c. c\<lparr>sn_transitions_dropped := x\<rparr>) totals_refusal))))))"

definition decode_slot_bound :: "limits \<Rightarrow> u64" where
  "decode_slot_bound l =
     max_links l * of_nat kMetricFamilyCount * of_nat kDirectionCount * of_nat kErrorClassCount"

definition load_body :: "nat \<Rightarrow> limits \<Rightarrow> loader" where
  "load_body link_count l =
     load_then (load_records link_count decode_persisted_link push_link
                  (\<lambda>_. status_of SC_CorruptData ''snapshot link record is invalid''))
    (load_then (load_counted (max_sources l) decode_source push_source ''snapshot source record is invalid'')
    (load_then (load_counted (decode_slot_bound l) decode_slot push_slot ''snapshot evidence slot is invalid'')
    (load_then (load_counted (max_sources l) decode_stream_entry push_stream ''snapshot stream record is invalid'')
    (load_then (load_counted (max_total_transitions l) decode_event push_transition
                  ''snapshot transition record is invalid'')
               load_totals))))"

definition empty_load_result :: snapshot_load_result where
  "empty_load_result =
     \<lparr>slr_ok = False, slr_status = status_success, slr_recovered_from_backup = False,
      slr_integrity_verified = False, slr_primary_failed = False, slr_detail = [], slr_bytes_read = 0,
      slr_contents = empty_contents\<rparr>"

definition load_failed :: "snapshot_load_result \<Rightarrow> status \<Rightarrow> snapshot_load_result" where
  "load_failed r s = r\<lparr>slr_status := s, slr_detail := status_to_string s\<rparr>"

definition header_failed :: "snapshot_load_result \<Rightarrow> snapshot_contents \<Rightarrow> status \<Rightarrow> snapshot_load_result" where
  "header_failed r c s = (load_failed (r\<lparr>slr_contents := c\<rparr>) s)\<lparr>slr_integrity_verified := False\<rparr>"

definition load_payload :: "u32 \<Rightarrow> limits \<Rightarrow> bytes \<Rightarrow> snapshot_load_result \<Rightarrow> snapshot_load_result" where
  "load_payload version l payload r =
     (case load_header version (slr_contents r, payload) of
        Inl (c, s) \<Rightarrow> header_failed r c s
      | Inr (c1, bs1) \<Rightarrow>
          (case get_count (unat (max_links l)) bs1 of
             Inl s \<Rightarrow> header_failed r c1 (header_refusal s)
           | Inr (link_count, bs2) \<Rightarrow>
               (case load_body link_count l (c1\<lparr>sn_format_version := version\<rparr>, bs2) of
                  Inl (c, s) \<Rightarrow> load_failed (r\<lparr>slr_contents := c\<rparr>) s
                | Inr (c, rest) \<Rightarrow>
                    if rest \<noteq> []
                    then load_failed (r\<lparr>slr_contents := c\<rparr>) (status_of SC_CorruptData ''snapshot has trailing bytes'')
                    else r\<lparr>slr_ok := True, slr_status := status_success, slr_contents := c\<rparr>)))"

definition load_once ::
  "u32 \<Rightarrow> (string \<Rightarrow> read_faults) \<Rightarrow> file_system \<Rightarrow> string \<Rightarrow> policy \<Rightarrow> snapshot_load_result" where
  "load_once version env fs path p =
     (case read_file env fs path (max_snapshot_bytes (pol_limits p) + 128) of
        Inl s \<Rightarrow> load_failed empty_load_result s
      | Inr raw \<Rightarrow>
          let r = empty_load_result\<lparr>slr_bytes_read := length raw\<rparr> in
          (case verify_container version p raw of
             Inl s \<Rightarrow> load_failed r s
           | Inr payload \<Rightarrow> load_payload version (pol_limits p) payload (r\<lparr>slr_integrity_verified := True\<rparr>)))"

definition read_snapshot ::
  "u32 \<Rightarrow> (string \<Rightarrow> read_faults) \<Rightarrow> file_system \<Rightarrow> string \<Rightarrow> policy \<Rightarrow> snapshot_load_result" where
  "read_snapshot version env fs path p =
     (let primary = load_once version env fs path p in
      if slr_ok primary then primary
      else
        let backup = snapshot_backup_path path in
        if backup = path \<or> \<not> file_exists (rf_open (env backup)) fs backup then primary
        else
          let fallback = load_once version env fs backup p in
          if \<not> slr_ok fallback
          then primary\<lparr>slr_detail := slr_detail primary @ ''; backup also unusable: ''
                                      @ status_to_string (slr_status fallback)\<rparr>
          else fallback\<lparr>slr_primary_failed := True, slr_recovered_from_backup := True,
                        slr_detail := ''primary snapshot unusable ('' @ status_to_string (slr_status primary)
                                       @ ''); recovered from backup''\<rparr>)"

section \<open>Lengths\<close>

lemma unat_u64_below [simp]: "unat (w :: u64) < 18446744073709551616"
  using unsigned_less [of w] by simp

lemma put_lengths [simp]: "length (put_u32 v) = 4" "length (put_u64 w) = 8" "length (put_raw bs) = length bs"
  by (simp_all add: put_u32_def put_u64_def put_u8_def put_raw_def)

lemma digest_length [simp]: "length (sha256_of data) = 32"
  by (simp add: sha256_of_def sha256_finish_def digest_of_def store_be32_def Let_def)

lemma magic_length [simp]: "length kMagic = 8"
  by (simp add: kMagic_def bytes_of_def)

lemma header_length [simp]:
  "length (hd_payload_digest h) = 32 \<Longrightarrow> length (encode_header_fields h) = 56"
  "length (hd_payload_digest h) = 32 \<Longrightarrow> length (encode_header h) = 88"
  by (simp_all add: encode_header_fields_def encode_header_def Let_def)

section \<open>The container reads back\<close>

lemma get_raw_append: "length a = n \<Longrightarrow> get_raw n (a @ rest) = Inr (a, rest)"
  by (simp add: get_raw_def)

lemma get_raw_bind: "length a = n \<Longrightarrow> dec_bind (get_raw n) f (a @ rest) = f a rest"
  by (rule dec_bind_Inr) (rule get_raw_append)

lemma read_header_encode:
  assumes "length (hd_payload_digest h) = 32"
  shows "read_header (encode_header h) = Inr (h, sha256_of (encode_header_fields h))"
proof -
  have "decode_header_fields (put_u32 (hd_format_version h) @ put_u32 (hd_minimum_reader h)
      @ put_u64 (hd_payload_size h) @ hd_payload_digest h @ rest) = Inr (h, rest)" for rest
    using assms by (simp add: decode_header_fields_def codec_binds get_raw_bind)
  then show ?thesis
    using get_raw_append [of "sha256_of (encode_header_fields h)" 32 "[]"]
    by (simp add: read_header_def encode_header_def encode_header_fields_def Let_def get_raw_append put_raw_def)
qed

lemma verify_container_for:
  assumes "length payload \<le> unat (max_snapshot_bytes (pol_limits p))" and "1 \<le> version"
  shows "verify_container version p (container_for version payload) = Inr payload"
proof -
  let ?h = "header_for version payload"
  have dig: "length (hd_payload_digest ?h) = 32" by (simp add: header_for_def)
  have size: "unat (of_nat (length payload) :: u64) = length payload"
    using assms(1) by (intro unat_small [of _ "unat (max_snapshot_bytes (pol_limits p))"]) simp_all
  have magic: "take 8 (container_for version payload) = kMagic"
    by (simp add: container_for_def encode_header_def encode_header_fields_def Let_def put_raw_def)
  have head: "take 88 (container_for version payload) = encode_header ?h"
    and body: "drop 88 (container_for version payload) = payload"
    using dig by (simp_all add: container_for_def)
  have fields: "take 56 (container_for version payload) = encode_header_fields ?h"
    using dig by (simp add: container_for_def encode_header_def Let_def)
  have len: "length (container_for version payload) = 88 + length payload"
    using dig by (simp add: container_for_def)
  show ?thesis
    unfolding verify_container_def magic_length magic head body fields len read_header_encode [OF dig]
    using assms size by (auto simp add: header_for_def kMinimumReaderVersion_def not_less word_le_nat_alt Let_def)
qed

section \<open>The contents read back\<close>

definition stream_entry_codable :: "source_id \<times> stream_state \<Rightarrow> bool" where
  "stream_entry_codable e \<longleftrightarrow> stream_codable (snd e)"

interpretation stream_entry_codec: codec encode_stream_entry decode_stream_entry stream_entry_codable
proof
  show "stream_entry_codable v \<Longrightarrow> decode_stream_entry (encode_stream_entry v @ rest) = Inr (v, rest)" for v rest
    by (simp add: encode_stream_entry_def decode_stream_entry_def stream_entry_codable_def codec_binds)
  show "decode_stream_entry bs = Inr (v, rest) \<Longrightarrow> stream_entry_codable v" for bs v rest
    by (auto simp: decode_stream_entry_def stream_entry_codable_def dec_bind_Inr_iff dest!: codec_valids)
qed

text \<open>What fits in a snapshot file under a policy.\<close>

definition contents_codable :: "limits \<Rightarrow> snapshot_contents \<Rightarrow> bool" where
  "contents_codable l c \<longleftrightarrow>
     in_i64 (sn_saved_at c)
     \<and> length (sn_links c) \<le> unat (max_links l) \<and> list_all persisted_link_codable (sn_links c)
     \<and> length (sn_sources c) \<le> unat (max_sources l) \<and> list_all source_codable (sn_sources c)
     \<and> length (sn_slots c) \<le> unat (decode_slot_bound l) \<and> list_all slot_codable (sn_slots c)
     \<and> length (sn_streams c) \<le> unat (max_sources l) \<and> list_all stream_entry_codable (sn_streams c)
     \<and> length (sn_transitions c) \<le> unat (max_total_transitions l) \<and> list_all event_codable (sn_transitions c)"

lemma load_then_Inr_iff: "load_then l1 l2 s = Inr s' \<longleftrightarrow> (\<exists>s1. l1 s = Inr s1 \<and> l2 s1 = Inr s')"
  by (auto simp: load_then_def split: sum.splits)

lemma load_field_Inr_iff:
  "load_field d store refusal (c, bs) = Inr (c', rest) \<longleftrightarrow> (\<exists>x. d bs = Inr (x, rest) \<and> c' = store x c)"
  by (auto simp: load_field_def split: sum.splits)

lemma load_records_Inr_iff:
  "load_records n d push refusal (c, bs) = Inr (c', rest)
     \<longleftrightarrow> (\<exists>xs. get_n n d bs = Inr (xs, rest) \<and> c' = fold push xs c)"
proof (induction n arbitrary: c bs)
  case (Suc n)
  show ?case
    by (auto simp: load_then_Inr_iff load_field_Inr_iff Suc.IH dec_bind_Inr_iff)
qed auto

lemma load_counted_Inr_iff:
  "load_counted bound d push message (c, bs) = Inr (c', rest)
     \<longleftrightarrow> (\<exists>n bs1 xs. get_count (unat bound) bs = Inr (n, bs1) \<and> get_n n d bs1 = Inr (xs, rest)
           \<and> c' = fold push xs c)"
  by (auto simp: load_counted_def load_records_Inr_iff split: sum.splits)

lemma fold_pushes:
  "fold push_link ls c = c\<lparr>sn_links := sn_links c @ ls\<rparr>"
  "fold push_source ss c = c\<lparr>sn_sources := sn_sources c @ ss\<rparr>"
  "fold push_slot ts c = c\<lparr>sn_slots := sn_slots c @ ts\<rparr>"
  "fold push_stream ms c = c\<lparr>sn_streams := sn_streams c @ ms\<rparr>"
  "fold push_transition es c = c\<lparr>sn_transitions := sn_transitions c @ es\<rparr>"
  subgoal by (induction ls arbitrary: c) (simp_all add: push_link_def)
  subgoal by (induction ss arbitrary: c) (simp_all add: push_source_def)
  subgoal by (induction ts arbitrary: c) (simp_all add: push_slot_def)
  subgoal by (induction ms arbitrary: c) (simp_all add: push_stream_def)
  subgoal by (induction es arbitrary: c) (simp_all add: push_transition_def)
  done

lemma get_count_enc: "n \<le> unat m \<Longrightarrow> get_count (unat m) (put_count n @ bs) = Inr (n, bs)" for m :: u64
  using get_count_put [of n "unat m" dec_return bs] by (simp add: dec_bind_def dec_return_def res_bind_Inr_iff)

context codec
begin

lemma load_field_enc: "valid x \<Longrightarrow> load_field dec store refusal (c, enc x @ rest) = Inr (store x c, rest)"
  by (simp add: load_field_Inr_iff dec_enc)

lemma load_records_enc:
  "list_all valid xs \<Longrightarrow>
     load_records (length xs) dec push refusal (c, concat (map enc xs) @ rest) = Inr (fold push xs c, rest)"
  by (simp add: load_records_Inr_iff dec_enc_n)

lemma load_counted_enc:
  assumes "list_all valid xs" and "length xs \<le> unat bound"
  shows "load_counted bound dec push message (c, put_count (length xs) @ concat (map enc xs) @ rest)
    = Inr (fold push xs c, rest)"
  using assms by (simp add: load_counted_Inr_iff dec_enc_n get_count_enc)

lemma load_records_refused:
  assumes "list_all valid xs" and "dec (enc y @ concat (map enc zs) @ rest) = Inl e"
  shows "load_records (length (xs @ y # zs)) dec push refusal (c, concat (map enc (xs @ y # zs)) @ rest)
    = Inl (fold push xs c, refusal e)"
  using assms(1)
proof (induction xs arbitrary: c)
  case Nil
  show ?case using assms(2) by (simp add: load_then_def load_field_def)
next
  case (Cons x xs)
  then show ?case using load_field_enc [of x push refusal c] by (simp add: load_then_def)
qed

lemma load_counted_valid:
  assumes "load_counted bound dec push message (c, bs) = Inr (c', rest)"
  obtains xs where "length xs \<le> unat bound" and "list_all valid xs" and "c' = fold push xs c"
  using assms by (auto simp: load_counted_Inr_iff dest!: get_count_bound dec_n_valid)

lemma load_records_valid:
  assumes "load_records n dec push refusal (c, bs) = Inr (c', rest)"
  obtains xs where "length xs = n" and "list_all valid xs" and "c' = fold push xs c"
  using assms by (auto simp: load_records_Inr_iff dest!: dec_n_valid)

end

lemma version_codec_enc: "load_field (decode_version version) (\<lambda>_ c. c) refusal (c, put_u32 version @ rest) = Inr (c, rest)"
  by (simp add: load_field_Inr_iff decode_version_def codec_binds)

lemmas load_encs =
  version_codec_enc id_codec.load_field_enc i64_codec.load_field_enc u64_codec.load_field_enc
  persisted_link_codec.load_records_enc source_codec.load_counted_enc slot_codec.load_counted_enc
  stream_entry_codec.load_counted_enc event_codec.load_counted_enc

definition encode_totals :: "snapshot_contents \<Rightarrow> bytes" where
  "encode_totals c =
     put_u64 (sn_total_accepted c) @ put_u64 (sn_total_fenced c) @ put_u64 (sn_duplicates c)
     @ put_u64 (sn_revision_gaps c) @ put_u64 (sn_counter_resets c) @ put_u64 (sn_counter_wraps c)
     @ put_u64 (sn_transitions_dropped c)"

lemma load_totals_enc:
  "load_totals (c0, encode_totals c @ rest) =
     Inr (c0\<lparr>sn_total_accepted := sn_total_accepted c, sn_total_fenced := sn_total_fenced c,
             sn_duplicates := sn_duplicates c, sn_revision_gaps := sn_revision_gaps c,
             sn_counter_resets := sn_counter_resets c, sn_counter_wraps := sn_counter_wraps c,
             sn_transitions_dropped := sn_transitions_dropped c\<rparr>, rest)"
  by (simp add: load_totals_def encode_totals_def load_then_def load_encs)

lemma load_body_enc:
  assumes "contents_codable l c"
  shows "load_body (length (sn_links c)) l
      (c0, concat (map encode_persisted_link (sn_links c))
        @ put_count (length (sn_sources c)) @ concat (map encode_source (sn_sources c))
        @ put_count (length (sn_slots c)) @ concat (map encode_slot (sn_slots c))
        @ put_count (length (sn_streams c)) @ concat (map encode_stream_entry (sn_streams c))
        @ put_count (length (sn_transitions c)) @ concat (map encode_event (sn_transitions c))
        @ encode_totals c)
    = Inr (c0\<lparr>sn_links := sn_links c0 @ sn_links c, sn_sources := sn_sources c0 @ sn_sources c,
             sn_slots := sn_slots c0 @ sn_slots c, sn_streams := sn_streams c0 @ sn_streams c,
             sn_transitions := sn_transitions c0 @ sn_transitions c, sn_total_accepted := sn_total_accepted c,
             sn_total_fenced := sn_total_fenced c, sn_duplicates := sn_duplicates c,
             sn_revision_gaps := sn_revision_gaps c, sn_counter_resets := sn_counter_resets c,
             sn_counter_wraps := sn_counter_wraps c, sn_transitions_dropped := sn_transitions_dropped c\<rparr>, [])"
  using assms load_totals_enc [of _ c "[]"]
  by (simp add: load_body_def load_then_def load_encs contents_codable_def fold_pushes)

text \<open>The payload: the header, the number of links, and the body.\<close>

definition encode_body :: "snapshot_contents \<Rightarrow> bytes" where
  "encode_body c =
     concat (map encode_persisted_link (sn_links c))
     @ put_count (length (sn_sources c)) @ concat (map encode_source (sn_sources c))
     @ put_count (length (sn_slots c)) @ concat (map encode_slot (sn_slots c))
     @ put_count (length (sn_streams c)) @ concat (map encode_stream_entry (sn_streams c))
     @ put_count (length (sn_transitions c)) @ concat (map encode_event (sn_transitions c))
     @ encode_totals c"

lemma load_header_enc:
  assumes "in_i64 (sn_saved_at c)"
  shows "load_header version (empty_contents, encode_contents version c) =
    Inr (empty_contents\<lparr>sn_runtime := sn_runtime c, sn_incarnation := sn_incarnation c,
           sn_saved_at := sn_saved_at c, sn_acceptance_index := sn_acceptance_index c\<rparr>,
         put_count (length (sn_links c)) @ encode_body c)"
  using assms
  by (simp add: load_header_def load_then_def load_encs encode_contents_def encode_body_def encode_totals_def
      encode_time_def decode_time_def)

lemma load_payload_enc:
  assumes "contents_codable l c" and "slr_contents r = empty_contents"
  shows "load_payload version l (encode_contents version c) r =
    r\<lparr>slr_ok := True, slr_status := status_success, slr_contents := c\<lparr>sn_format_version := version\<rparr>\<rparr>"
proof -
  have "in_i64 (sn_saved_at c)" and "length (sn_links c) \<le> unat (max_links l)"
    using assms(1) by (simp_all add: contents_codable_def)
  then show ?thesis
    using load_body_enc [OF assms(1)] assms(2)
    by (simp add: load_payload_def load_header_enc get_count_enc encode_body_def) (simp add: empty_contents_def)
qed

text \<open>Loading depends on the file's bytes and on what the operating system refuses for it.\<close>

lemma load_once_cong:
  "env a = env b \<Longrightarrow> fs a = fs' b \<Longrightarrow> load_once version env fs a p = load_once version env fs' b p"
  unfolding load_once_def read_file_def by (simp only:)

lemma load_once_missing: "fs path = None \<Longrightarrow> \<not> slr_ok (load_once version env fs path p)"
  by (simp add: load_once_def read_file_def failure_def load_failed_def empty_load_result_def)

text \<open>The bound on the file leaves room for the header, unless the sum wraps.\<close>

definition room_for_header :: "policy \<Rightarrow> bool" where
  "room_for_header p \<longleftrightarrow> unat (max_snapshot_bytes (pol_limits p)) + 128 < 2 ^ 64"

lemma room_unat:
  assumes "room_for_header p"
  shows "unat (max_snapshot_bytes (pol_limits p) + 128) = unat (max_snapshot_bytes (pol_limits p)) + 128"
proof -
  have "unat (max_snapshot_bytes (pol_limits p)) + unat (128 :: u64) < 2 ^ LENGTH(64)"
    using assms by (simp add: room_for_header_def)
  then show ?thesis by (subst unat_add_lem [THEN iffD1]) simp_all
qed

definition fits :: "u32 \<Rightarrow> policy \<Rightarrow> snapshot_contents \<Rightarrow> bool" where
  "fits version p c \<longleftrightarrow>
     1 \<le> version \<and> room_for_header p \<and> contents_codable (pol_limits p) c
     \<and> length (encode_contents version c) \<le> unat (max_snapshot_bytes (pol_limits p))"

lemma container_length: "length (container_for version payload) = 88 + length payload"
  by (simp add: container_for_def header_for_def)

lemma read_file_container:
  assumes "fs path = Some (container_for version payload)" and "env path = no_read_faults path"
    and "room_for_header p" and "length payload \<le> unat (max_snapshot_bytes (pol_limits p))"
  shows "read_file env fs path (max_snapshot_bytes (pol_limits p) + 128) = Inr (container_for version payload)"
  using assms by (simp add: read_file_def no_read_faults_def room_unat container_length)

lemma load_once_container:
  assumes "fits version p c" and "env path = no_read_faults path"
    and "fs path = Some (container_for version (encode_contents version c))"
  shows "load_once version env fs path p =
    empty_load_result\<lparr>slr_ok := True, slr_integrity_verified := True,
      slr_bytes_read := 88 + length (encode_contents version c),
      slr_contents := c\<lparr>sn_format_version := version\<rparr>\<rparr>"
proof -
  have read: "read_file env fs path (max_snapshot_bytes (pol_limits p) + 128)
      = Inr (container_for version (encode_contents version c))"
    using assms by (intro read_file_container) (simp_all add: fits_def)
  have verified: "verify_container version p (container_for version (encode_contents version c))
      = Inr (encode_contents version c)"
    using assms(1) by (intro verify_container_for) (simp_all add: fits_def)
  have payload: "load_payload version (pol_limits p) (encode_contents version c) r =
      r\<lparr>slr_ok := True, slr_status := status_success, slr_contents := c\<lparr>sn_format_version := version\<rparr>\<rparr>"
    if "slr_contents r = empty_contents" for r
    using assms(1) that by (intro load_payload_enc) (simp_all add: fits_def)
  show ?thesis
    unfolding load_once_def read by (simp add: verified payload empty_load_result_def container_length)
qed

section \<open>What the writer leaves at every moment\<close>

lemma paths_differ [simp]:
  "snapshot_backup_path path \<noteq> path" "path \<noteq> snapshot_backup_path path"
  "snapshot_temporary_path path \<noteq> path" "path \<noteq> snapshot_temporary_path path"
  "snapshot_backup_path path \<noteq> snapshot_temporary_path path"
  "snapshot_temporary_path path \<noteq> snapshot_backup_path path"
  by (simp_all add: snapshot_backup_path_def snapshot_temporary_path_def)

lemma write_file_other: "s \<in> set (fst (write_file faults fs path data)) \<Longrightarrow> q \<noteq> path \<Longrightarrow> s q = fs q"
  by (auto simp: write_file_def Let_def split: if_splits)

lemma write_file_done:
  assumes "status_ok (snd (write_file faults fs path data))"
  shows "last (fst (write_file faults fs path data)) = fs(path \<mapsto> data)"
  using assms by (auto simp: write_file_def Let_def split: if_splits)

text \<open>
  Seen from the reader, the rotation goes through three phases: the old primary, the old primary
  as the backup, the new primary.
\<close>

definition phase :: "bytes \<Rightarrow> bytes \<Rightarrow> string \<Rightarrow> file_system \<Rightarrow> bool" where
  "phase old new path s \<longleftrightarrow>
     s path = Some old \<or> (s path = None \<and> s (snapshot_backup_path path) = Some old) \<or> s path = Some new"

lemma rotate_and_move_phases:
  assumes "fs path = Some old" and "fs (snapshot_temporary_path path) = Some new"
    and "s \<in> set (fst (rotate_and_move faults fs path))"
  shows "phase old new path s"
  using assms
  by (auto simp: rotate_and_move_def move_into_place_def rename_file_def remove_file_def Let_def phase_def
      split: if_splits)

lemma write_snapshot_phases:
  assumes "fs path = Some old" and "s \<in> set (fst (write_snapshot version faults fs path c p))"
  shows "phase old (container_for version (encode_contents version c)) path s"
proof -
  let ?new = "container_for version (encode_contents version c)"
  let ?w = "write_file faults fs (snapshot_temporary_path path) ?new"
  have before: "phase old ?new path s" if "s \<in> set (fst ?w)"
    using write_file_other [OF that, of path] assms(1) by (simp add: phase_def)
  have after: "phase old ?new path s"
    if "status_ok (snd ?w)" and "s \<in> set (fst (rotate_and_move faults (last (fst ?w)) path))"
    using that assms(1) by (intro rotate_and_move_phases) (simp_all add: write_file_done)
  show ?thesis
    using assms before after by (auto simp: write_snapshot_def Let_def phase_def split: if_splits)
qed

lemma write_snapshot_done:
  assumes "status_ok (swr_status (snd (write_snapshot version faults fs path c p)))"
  defines "s \<equiv> last (fst (write_snapshot version faults fs path c p))"
  shows "s path = Some (container_for version (encode_contents version c))"
    and "\<not> wf_probe faults \<Longrightarrow> fs path \<noteq> None \<Longrightarrow> s (snapshot_backup_path path) = fs path"
    and "length (encode_contents version c) \<le> unat (max_snapshot_bytes (pol_limits p))"
proof -
  let ?new = "container_for version (encode_contents version c)"
  let ?w = "write_file faults fs (snapshot_temporary_path path) ?new"
  have ok: "status_ok (snd ?w)" and size: "\<not> unat (max_snapshot_bytes (pol_limits p)) < length (encode_contents version c)"
    and moved: "status_ok (snd (rotate_and_move faults (last (fst ?w)) path))"
    using assms(1) by (auto simp: write_snapshot_def write_failed_def Let_def split: if_splits)
  have ne: "fst (rotate_and_move faults f path) \<noteq> []" for f
    by (simp add: rotate_and_move_def move_into_place_def Let_def)
  have s: "s = last (fst (rotate_and_move faults (fs(snapshot_temporary_path path \<mapsto> ?new)) path))"
    using ok size ne by (simp add: s_def write_snapshot_def Let_def write_file_done)
  show "s path = Some ?new"
    and "\<not> wf_probe faults \<Longrightarrow> fs path \<noteq> None \<Longrightarrow> s (snapshot_backup_path path) = fs path"
    and "length (encode_contents version c) \<le> unat (max_snapshot_bytes (pol_limits p))"
    using moved size unfolding s write_file_done [OF ok]
    by (auto simp: rotate_and_move_def move_into_place_def rename_file_def remove_file_def file_exists_def Let_def
        split: if_splits)
qed

section \<open>What an accepted file is\<close>

lemma load_header_keeps:
  assumes "load_header version (c, bs) = Inr (c', rest)" and "in_i64 (sn_saved_at c)"
  shows "in_i64 (sn_saved_at c')" and "sn_links c' = sn_links c" and "sn_sources c' = sn_sources c"
    and "sn_slots c' = sn_slots c" and "sn_streams c' = sn_streams c" and "sn_transitions c' = sn_transitions c"
  using assms
  by (auto simp: load_header_def load_then_Inr_iff load_field_Inr_iff decode_time_def dest: i64_codec.dec_valid)

lemma load_totals_keeps:
  assumes "load_totals (c, bs) = Inr (c', rest)"
  shows "sn_saved_at c' = sn_saved_at c" and "sn_format_version c' = sn_format_version c"
    and "sn_links c' = sn_links c" and "sn_sources c' = sn_sources c"
    and "sn_slots c' = sn_slots c" and "sn_streams c' = sn_streams c" and "sn_transitions c' = sn_transitions c"
  using assms by (auto simp: load_totals_def load_then_Inr_iff load_field_Inr_iff)

lemma load_body_codable:
  assumes "load_body n l (c, bs) = Inr (c', rest)" and "n \<le> unat (max_links l)" and "in_i64 (sn_saved_at c)"
    and "sn_links c = []" and "sn_sources c = []" and "sn_slots c = []" and "sn_streams c = []"
    and "sn_transitions c = []"
  shows "contents_codable l c' \<and> sn_format_version c' = sn_format_version c"
proof -
  from assms(1) obtain c1 b1 c2 b2 c3 b3 c4 b4 c5 b5 where
    l1: "load_records n decode_persisted_link push_link
      (\<lambda>_. status_of SC_CorruptData ''snapshot link record is invalid'') (c, bs) = Inr (c1, b1)"
    and l2: "load_counted (max_sources l) decode_source push_source ''snapshot source record is invalid'' (c1, b1) = Inr (c2, b2)"
    and l3: "load_counted (decode_slot_bound l) decode_slot push_slot ''snapshot evidence slot is invalid'' (c2, b2) = Inr (c3, b3)"
    and l4: "load_counted (max_sources l) decode_stream_entry push_stream ''snapshot stream record is invalid'' (c3, b3) = Inr (c4, b4)"
    and l5: "load_counted (max_total_transitions l) decode_event push_transition ''snapshot transition record is invalid'' (c4, b4) = Inr (c5, b5)"
    and l6: "load_totals (c5, b5) = Inr (c', rest)"
    by (auto simp: load_body_def load_then_Inr_iff)
  obtain ls where ls: "length ls = n" "list_all persisted_link_codable ls" "c1 = c\<lparr>sn_links := sn_links c @ ls\<rparr>"
    using persisted_link_codec.load_records_valid [OF l1] by (auto simp: fold_pushes)
  obtain ss where ss: "length ss \<le> unat (max_sources l)" "list_all source_codable ss" "c2 = c1\<lparr>sn_sources := sn_sources c1 @ ss\<rparr>"
    using source_codec.load_counted_valid [OF l2] by (auto simp: fold_pushes)
  obtain ts where ts: "length ts \<le> unat (decode_slot_bound l)" "list_all slot_codable ts" "c3 = c2\<lparr>sn_slots := sn_slots c2 @ ts\<rparr>"
    using slot_codec.load_counted_valid [OF l3] by (auto simp: fold_pushes)
  obtain ms where ms: "length ms \<le> unat (max_sources l)" "list_all stream_entry_codable ms" "c4 = c3\<lparr>sn_streams := sn_streams c3 @ ms\<rparr>"
    using stream_entry_codec.load_counted_valid [OF l4] by (auto simp: fold_pushes)
  obtain es where es: "length es \<le> unat (max_total_transitions l)" "list_all event_codable es" "c5 = c4\<lparr>sn_transitions := sn_transitions c4 @ es\<rparr>"
    using event_codec.load_counted_valid [OF l5] by (auto simp: fold_pushes)
  show ?thesis
    using assms(2-) ls ss ts ms es load_totals_keeps [OF l6] by (simp add: contents_codable_def)
qed

lemma load_payload_accepts:
  assumes "slr_ok (load_payload version l payload r)" and "\<not> slr_ok r" and "slr_contents r = empty_contents"
  shows "contents_codable l (slr_contents (load_payload version l payload r))
    \<and> sn_format_version (slr_contents (load_payload version l payload r)) = version
    \<and> slr_integrity_verified (load_payload version l payload r) = slr_integrity_verified r
    \<and> slr_status (load_payload version l payload r) = status_success"
proof -
  from assms obtain c1 b1 n b2 c where
    head: "load_header version (empty_contents, payload) = Inr (c1, b1)"
    and count: "get_count (unat (max_links l)) b1 = Inr (n, b2)"
    and body: "load_body n l (c1\<lparr>sn_format_version := version\<rparr>, b2) = Inr (c, [])"
    and eq: "load_payload version l payload r = r\<lparr>slr_ok := True, slr_status := status_success, slr_contents := c\<rparr>"
    by (auto simp: load_payload_def header_failed_def load_failed_def split: sum.splits if_splits)
  have "in_i64 (sn_saved_at empty_contents)" by (simp add: empty_contents_def in_i64_def)
  note kept = load_header_keeps [OF head this]
  have "contents_codable l c \<and> sn_format_version c = version"
    using load_body_codable [OF body get_count_bound [OF count]] kept by (simp add: empty_contents_def)
  then show ?thesis by (simp add: eq)
qed

text \<open>The parts of a file: the header fields, their digest, the payload.\<close>

definition intact :: "u32 \<Rightarrow> policy \<Rightarrow> bytes \<Rightarrow> bool" where
  "intact version p raw \<longleftrightarrow>
     (\<exists>h payload. raw = encode_header h @ payload \<and> length (hd_payload_digest h) = 32
       \<and> hd_format_version h = version \<and> hd_minimum_reader h \<le> version
       \<and> hd_payload_size h = of_nat (length payload) \<and> hd_payload_digest h = sha256_of payload
       \<and> length payload \<le> unat (max_snapshot_bytes (pol_limits p)))"

lemma read_header_split:
  assumes "read_header bs = Inr (h, stored)" and "take 8 bs = kMagic" and "length bs = 88"
  shows "bs = encode_header_fields h @ stored" and "length (hd_payload_digest h) = 32"
proof -
  from assms(1) obtain r1 r2 r3 where r1: "get_raw 8 bs = Inr (take 8 bs, r1)"
    and r2: "decode_header_fields r1 = Inr (h, r2)" and r3: "get_raw 32 r2 = Inr (stored, r3)"
    by (auto simp: read_header_def get_raw_def reader_fail_def split: sum.splits if_splits)
  from r2 obtain b1 b2 b3 where "get_u32 r1 = Inr (hd_format_version h, b1)"
    and "get_u32 b1 = Inr (hd_minimum_reader h, b2)" and "get_u64 b2 = Inr (hd_payload_size h, b3)"
    and digest: "get_raw 32 b3 = Inr (hd_payload_digest h, r2)"
    by (auto simp: decode_header_fields_def dec_bind_Inr_iff)
  from this(1-3) have "r1 = put_u32 (hd_format_version h) @ put_u32 (hd_minimum_reader h) @ put_u64 (hd_payload_size h) @ b3"
    by (auto dest!: get_u32_split get_u64_split)
  with get_raw_split [OF r1] get_raw_split [OF digest] get_raw_split [OF r3]
  have bs: "bs = encode_header_fields h @ stored @ r3" and len: "length (hd_payload_digest h) = 32" "length stored = 32"
    using assms(2) by (simp_all add: encode_header_fields_def put_raw_def)
  show "length (hd_payload_digest h) = 32" by (rule len)
  from bs len assms(3) have "r3 = []" by simp
  with bs show "bs = encode_header_fields h @ stored" by simp
qed

lemma verify_container_intact:
  assumes "verify_container version p raw = Inr payload" and "length raw < 2 ^ 64"
  shows "intact version p raw"
proof -
  from assms obtain h stored where raw: "88 \<le> length raw" "take 8 raw = kMagic"
    and head: "read_header (take 88 raw) = Inr (h, stored)"
    and stored: "sha256_of (take 56 raw) = stored" and ver: "hd_format_version h = version"
    and reader: "hd_minimum_reader h \<le> version"
    and bound: "hd_payload_size h \<le> max_snapshot_bytes (pol_limits p)"
    and size: "hd_payload_size h = of_nat (length raw - 88)"
    and digest: "sha256_of payload = hd_payload_digest h"
    and payload: "payload = take (unat (hd_payload_size h)) (drop 88 raw)"
    by (auto simp: verify_container_def res_bind_Inr_iff Let_def not_less split: if_splits)
  have "take 8 (take 88 raw) = kMagic" and "length (take 88 raw) = 88" using raw by simp_all
  note split = read_header_split(1) [OF head this] and len = read_header_split(2) [OF head this]
  have "take 56 (take 88 raw) = encode_header_fields h" unfolding split using len by simp
  then have "take 56 raw = encode_header_fields h" unfolding take_take by simp
  then have "take 88 raw = encode_header h"
    using split stored by (simp add: encode_header_def put_raw_def Let_def)
  moreover have n: "unat (hd_payload_size h) = length raw - 88"
    using size assms(2) by (simp add: unat_of_nat)
  then have "payload = drop 88 raw" using payload by simp
  ultimately have "raw = encode_header h @ payload" by (metis append_take_drop_id)
  moreover have "hd_payload_size h = of_nat (length payload)" and "length payload \<le> unat (max_snapshot_bytes (pol_limits p))"
    using size bound n \<open>payload = drop 88 raw\<close> by (simp_all add: word_le_nat_alt)
  ultimately show ?thesis using len ver reader digest unfolding intact_def by metis
qed

section \<open>A history the decoder refuses\<close>

lemma get_count_refused:
  assumes "m < n" and "n < 2 ^ 64"
  shows "get_count m (put_count n @ rest) = failure SC_CorruptData ''collection exceeds its bound''"
proof -
  have "unat (of_nat n :: u64) = n" using assms(2) by (simp add: unat_of_nat)
  then show ?thesis
    using assms(1) by (simp add: get_count_def put_count_def u64_codec.bind_enc reader_fail_def)
qed

lemma decode_slot_refused:
  assumes "kMaxEvidencePerSlotBound < length (ps_history v)" and "length (ps_history v) < 2 ^ 64"
  shows "decode_slot (encode_slot v @ rest) = failure SC_CorruptData ''collection exceeds its bound''"
  using get_count_refused [OF assms]
  by (simp add: decode_slot_def encode_slot_def slot_key_codec.bind_enc dec_bind_def failure_def
      slot_key_codec.dec_enc)

text \<open>The payload of a snapshot, cut after the link count.\<close>

lemma load_payload_slot_refused:
  assumes "contents_codable l (c\<lparr>sn_slots := pre\<rparr>)" and "sn_slots c = pre @ v # post"
    and "kMaxEvidencePerSlotBound < length (ps_history v)" and "length (ps_history v) < 2 ^ 64"
    and "length (sn_slots c) \<le> unat (decode_slot_bound l)" and "slr_contents r = empty_contents" and "\<not> slr_ok r"
  shows "\<not> slr_ok (load_payload version l (encode_contents version c) r)
    \<and> slr_status (load_payload version l (encode_contents version c) r)
      = status_of SC_CorruptData ''snapshot evidence slot is invalid''"
proof -
  let ?tail = "put_count (length (sn_streams c)) @ concat (map encode_stream_entry (sn_streams c))
        @ put_count (length (sn_transitions c)) @ concat (map encode_event (sn_transitions c)) @ encode_totals c"
  let ?refusal = "status_of SC_CorruptData ''snapshot evidence slot is invalid''"
  have "in_i64 (sn_saved_at c)" and links: "length (sn_links c) \<le> unat (max_links l)"
    "list_all persisted_link_codable (sn_links c)"
    and srcs: "length (sn_sources c) \<le> unat (max_sources l)" "list_all source_codable (sn_sources c)"
    and pre: "list_all slot_codable pre"
    using assms(1) by (simp_all add: contents_codable_def)
  have "\<exists>c'. load_counted (decode_slot_bound l) decode_slot push_slot ''snapshot evidence slot is invalid''
      (c0, put_count (length (sn_slots c)) @ concat (map encode_slot (sn_slots c)) @ ?tail) = Inl (c', ?refusal)" for c0
    using assms(5) slot_codec.load_records_refused [OF pre, of v post ?tail _ push_slot "\<lambda>_. ?refusal" c0]
    by (simp add: load_counted_def get_count_enc assms(2) decode_slot_refused [OF assms(3,4)] failure_def)
  then have "\<exists>c'. load_body (length (sn_links c)) l (c0, encode_body c) = Inl (c', ?refusal)" for c0
    using links srcs
    by (simp add: load_body_def encode_body_def load_then_def persisted_link_codec.load_records_enc
        source_codec.load_counted_enc fold_pushes) (metis (no_types, lifting) sum.simps(5))
  then obtain left where "\<And>c0. load_body (length (sn_links c)) l (c0, encode_body c) = Inl (left c0, ?refusal)"
    by metis
  with \<open>in_i64 (sn_saved_at c)\<close> links(1) assms(6,7) show ?thesis
    by (simp add: load_payload_def load_header_enc get_count_enc load_failed_def)
qed

section \<open>Example contents\<close>

definition example_contents :: snapshot_contents where
  "example_contents =
     empty_contents\<lparr>sn_saved_at := 7,
       sn_sources := [\<lparr>src_id = StrongId (Hash128 1 2), src_name = ''collector'', src_authority = SA_Primary,
                       src_provenance = PC_Real, src_registered = True, src_retired = False\<rparr>]\<rparr>"

lemma example_fits: "fits 1 make_default_policy example_contents"
  by (simp add: fits_def room_for_header_def make_default_policy_def default_limits_def contents_codable_def
      example_contents_def empty_contents_def in_i64_def source_codable_def text_codable_def kMaxStringField_def
      encode_contents_def encode_id_def encode_hash_def encode_time_def put_i64_def put_count_def
      encode_source_def put_bytes_def put_enum_def put_u8_def put_bool_def bytes_of_def)

definition example_file :: bytes where
  "example_file = container_for 1 (encode_contents 1 example_contents)"

lemma example_loads:
  assumes "fs path = Some example_file"
  shows "slr_ok (load_once 1 no_read_faults fs path make_default_policy)"
  using load_once_container [where env = no_read_faults and path = path and fs = fs, OF example_fits] assms
  by (simp add: example_file_def no_read_faults_def)

lemma example_size:
  "length (encode_contents 1 example_contents) \<le> unat (max_snapshot_bytes (pol_limits make_default_policy))"
  using example_fits by (simp add: fits_def)

lemma example_written:
  "status_ok (swr_status (snd (write_snapshot 1 no_write_faults (\<lambda>q. None) ''s'' example_contents make_default_policy)))"
  using example_size
  by (simp add: write_snapshot_def Let_def write_file_def no_write_faults_def rotate_and_move_def file_exists_def
      move_into_place_def rename_file_def snapshot_temporary_path_def)

section \<open>Main results\<close>



text \<open>
  C19: only intact files within the bounds are accepted. When loading accepts a file, the file is
  a header of this format version followed by its payload, both digests match, the payload is
  within the size bound, and the contents respect every bound of the policy and of the codec.
\<close>

theorem accepted_snapshot_is_intact:
  assumes "slr_ok (load_once version env fs path p)"
  shows "\<exists>raw. fs path = Some raw \<and> intact version p raw
    \<and> slr_integrity_verified (load_once version env fs path p)
    \<and> contents_codable (pol_limits p) (slr_contents (load_once version env fs path p))
    \<and> sn_format_version (slr_contents (load_once version env fs path p)) = version"
proof -
  from assms obtain raw payload where fs: "fs path = Some raw"
    and len: "length raw \<le> unat (max_snapshot_bytes (pol_limits p) + 128)"
    and ok: "verify_container version p raw = Inr payload"
    and eq: "load_once version env fs path p = load_payload version (pol_limits p) payload
      (empty_load_result\<lparr>slr_bytes_read := length raw, slr_integrity_verified := True\<rparr>)"
    by (auto simp: load_once_def read_file_def load_failed_def empty_load_result_def failure_def Let_def
        split: option.splits sum.splits if_splits)
  from len unat_u64_below have "length raw < 18446744073709551616" by (rule le_less_trans)
  then have "length raw < 2 ^ 64" by simp
  with ok have "intact version p raw" by (rule verify_container_intact)
  with load_payload_accepts [OF assms [unfolded eq]] show ?thesis
    unfolding eq using fs by (simp add: empty_load_result_def)
qed

theorem accepted_snapshot_is_intact_witness:
  "\<exists>raw. [''s'' \<mapsto> example_file] ''s'' = Some raw \<and> intact 1 make_default_policy raw"
  using accepted_snapshot_is_intact [OF example_loads [of "[''s'' \<mapsto> example_file]" "''s''"]] by auto



text \<open>
  The last good snapshot can be lost. When the primary file is unreadable and the backup is
  the only good copy, the writer removes the backup and puts the unreadable file in its place
  before the new file is moved in: there is a state in which nothing can be read any more.
\<close>

lemma rotation_replaces_the_good_backup:
  assumes "slr_ok (read_snapshot version env fs path p)" and "\<not> slr_ok (load_once version env fs path p)"
    and "fs path \<noteq> None" and "\<And>q. env q = no_read_faults q"
    and "length (encode_contents version c) \<le> unat (max_snapshot_bytes (pol_limits p))"
  shows "\<exists>s \<in> set (fst (write_snapshot version no_write_faults fs path c p)).
    \<not> slr_ok (read_snapshot version env s path p)"
proof -
  let ?backup = "snapshot_backup_path path"
  let ?new = "container_for version (encode_contents version c)"
  let ?fs = "fs(snapshot_temporary_path path \<mapsto> ?new)"
  let ?s = "(?fs(?backup := None))(?backup := fs path, path := None)"
  have eqs: "load_once version env ?s ?backup p = load_once version env fs path p"
    by (rule load_once_cong) (simp_all add: assms(4) no_read_faults_def)
  have "\<not> slr_ok (read_snapshot version env ?s path p)"
    using assms(2) eqs load_once_missing [of ?s path] by (simp add: read_snapshot_def Let_def)
  moreover have "?s \<in> set (fst (write_snapshot version no_write_faults fs path c p))"
  proof -
    have "status_ok (snd (write_file no_write_faults fs (snapshot_temporary_path path) ?new))"
      by (simp add: write_file_def no_write_faults_def Let_def)
    moreover from this have "last (fst (write_file no_write_faults fs (snapshot_temporary_path path) ?new)) = ?fs"
      by (rule write_file_done)
    moreover have "?s \<in> set (fst (rotate_and_move no_write_faults ?fs path))"
      using assms(3)
      by (auto simp: rotate_and_move_def no_write_faults_def rename_file_def remove_file_def file_exists_def Let_def
          fun_upd_idem_iff)
    ultimately show ?thesis
      using assms(5) by (simp add: write_snapshot_def Let_def)
  qed
  ultimately show ?thesis by blast
qed

lemma rotation_replaces_the_good_backup_instance:
  "\<exists>s \<in> set (fst (write_snapshot 1 no_write_faults [''s'' \<mapsto> [], ''s.prev'' \<mapsto> example_file] ''s''
      example_contents make_default_policy)).
    \<not> slr_ok (read_snapshot 1 no_read_faults s ''s'' make_default_policy)"
proof -
  let ?fs = "[''s'' \<mapsto> [], ''s.prev'' \<mapsto> example_file]"
  have bad: "\<not> slr_ok (load_once 1 no_read_faults ?fs ''s'' make_default_policy)"
    by (simp add: load_once_def read_file_def no_read_faults_def verify_container_def failure_def load_failed_def
        empty_load_result_def)
  have "slr_ok (load_once 1 no_read_faults ?fs ''s.prev'' make_default_policy)" by (rule example_loads) simp
  with bad have "slr_ok (read_snapshot 1 no_read_faults ?fs ''s'' make_default_policy)"
    by (simp add: read_snapshot_def snapshot_backup_path_def file_exists_def no_read_faults_def Let_def)
  from rotation_replaces_the_good_backup [OF this bad _ refl example_size] show ?thesis by simp
qed

text \<open>
  A snapshot that is written without complaint and can never be read. The decoder bounds the
  history of a slot by a constant of its own, while neither the writer nor the validation of a
  policy bounds \<^verbatim>\<open>max_evidence_per_key\<close> by it: with one longer history the file is written, and
  refused when it is read.
\<close>

lemma long_history_is_written_but_not_read:
  assumes "contents_codable (pol_limits p) (c\<lparr>sn_slots := pre\<rparr>)" and "sn_slots c = pre @ v # post"
    and "kMaxEvidencePerSlotBound < length (ps_history v)"
    and "length (sn_slots c) \<le> unat (decode_slot_bound (pol_limits p))"
    and "length (encode_contents version c) \<le> unat (max_snapshot_bytes (pol_limits p))"
    and "1 \<le> version" and "room_for_header p" and "length (ps_history v) < 2 ^ 64"
    and "fs path = None" and "env path = no_read_faults path"
    and "write_snapshot version no_write_faults fs path c p = (states, result)"
  shows "status_ok (swr_status result)
    \<and> \<not> slr_ok (load_once version env (last states) path p)
    \<and> slr_status (load_once version env (last states) path p)
      = status_of SC_CorruptData ''snapshot evidence slot is invalid''"
proof -
  let ?payload = "encode_contents version c"
  have "fst (write_snapshot version no_write_faults fs path c p) = states"
    and "status_ok (swr_status (snd (write_snapshot version no_write_faults fs path c p)))"
    using assms(5,9,11)
    by (auto simp: write_snapshot_def Let_def write_file_def no_write_faults_def rotate_and_move_def file_exists_def
        move_into_place_def rename_file_def)
  moreover from this(2) have "last (fst (write_snapshot version no_write_faults fs path c p)) path
      = Some (container_for version ?payload)" by (rule write_snapshot_done)
  ultimately have stored: "last states path = Some (container_for version ?payload)" by simp
  have "load_once version env (last states) path p =
      load_payload version (pol_limits p) ?payload
        (empty_load_result\<lparr>slr_bytes_read := 88 + length ?payload, slr_integrity_verified := True\<rparr>)"
    using read_file_container [where env = env and fs = "last states" and path = path, OF stored] verify_container_for [OF assms(5,6)] assms(5,7,10)
    by (simp add: load_once_def container_length)
  moreover have "status_ok (swr_status result)"
    using \<open>status_ok (swr_status (snd (write_snapshot version no_write_faults fs path c p)))\<close> assms(11) by simp
  ultimately show ?thesis
    using load_payload_slot_refused [OF assms(1-3,8,4)] by (simp add: empty_load_result_def)
qed

text \<open>One slot with 1025 readings of the same state.\<close>

definition long_slot :: persisted_slot where
  "long_slot =
     \<lparr>ps_slot = SlotKey (StrongId (Hash128 0 5)) kOperKey, ps_history = replicate 1025 example_evidence,
      ps_continuity = [], ps_accepted = 1025, ps_fenced = 0, ps_last_gap_at = 0, ps_has_gap = False,
      ps_reset_count = 0, ps_wrap_count = 0\<rparr>"

lemma long_slot_history: "kMaxEvidencePerSlotBound < length (ps_history long_slot)" "length (ps_history long_slot) < 2 ^ 64"
  by (simp_all add: long_slot_def kMaxEvidencePerSlotBound_def)

lemma long_slot_size: "length (encode_slot long_slot) < 1000000"
  by (simp add: long_slot_def encode_slot_def encode_slot_key_def encode_id_def encode_hash_def encode_key_def
      put_enum_def put_u8_def put_count_def length_concat sum_list_replicate encode_time_def put_i64_def put_bool_def
      encode_evidence_def example_evidence_def encode_observation_def encode_provenance_def encode_sequence_def)

lemma long_history_is_written_but_not_read_instance:
  "\<not> slr_ok (load_once 1 no_read_faults
      (last (fst (write_snapshot 1 no_write_faults (\<lambda>q. None) ''s'' (empty_contents\<lparr>sn_slots := [long_slot]\<rparr>)
         make_default_policy))) ''s'' make_default_policy)"
proof -
  have "length (encode_contents 1 (empty_contents\<lparr>sn_slots := [long_slot]\<rparr>))
      \<le> unat (max_snapshot_bytes (pol_limits make_default_policy))"
    using long_slot_size
    by (simp add: encode_contents_def empty_contents_def make_default_policy_def default_limits_def encode_id_def
        encode_hash_def encode_time_def put_i64_def put_count_def)
  moreover have "contents_codable (pol_limits make_default_policy) (empty_contents\<lparr>sn_slots := []\<rparr>)"
    by (simp add: contents_codable_def empty_contents_def in_i64_def)
  moreover have "1 \<le> unat (decode_slot_bound (pol_limits make_default_policy))" and "room_for_header make_default_policy"
    by (simp_all add: make_default_policy_def default_limits_def decode_slot_bound_def kMetricFamilyCount_def kDirectionCount_def
        kErrorClassCount_def room_for_header_def)
  ultimately show ?thesis
    using long_history_is_written_but_not_read
      [where c = "empty_contents\<lparr>sn_slots := [long_slot]\<rparr>" and p = make_default_policy and pre = "[]" and v = long_slot
         and post = "[]" and version = 1 and fs = "\<lambda>q. None" and path = "''s''" and env = no_read_faults,
       OF _ _ long_slot_history(1) _ _ _ _ long_slot_history(2) refl refl surjective_pairing]
    by simp
qed

end
