(* ===== verification/Persistence.thy ===== *)
theory Persistence
  imports Snapshot_File
begin

text \<open>
  Saving and reloading through the snapshot file (\<^verbatim>\<open>Observatory::persist\<close> and
  \<^verbatim>\<open>Observatory::reload\<close> of \<^verbatim>\<open>src/runtime/observatory.cpp\<close> with the file operations of
  \<open>Snapshot_File\<close>). Instants are integers in this development and 64-bit signed in the code: the
  first part shows that everything the observatory stores stays in range when its inputs are. The
  second part shows that whatever a reachable observatory saves, the file format can hold.
\<close>

section \<open>Operations\<close>

definition persist ::
  "u32 \<Rightarrow> write_faults \<Rightarrow> file_system \<Rightarrow> observatory \<Rightarrow> time_point
     \<Rightarrow> file_system list \<times> observatory \<times> snapshot_write_result" where
  "persist version faults fs ob now =
     (if cfg_snapshot_path (ob_config ob) = []
      then ([fs], ob, write_failed (status_of SC_InvalidArgument ''no snapshot path is configured''))
      else
        let r = write_snapshot version faults fs (cfg_snapshot_path (ob_config ob))
                  (collect_snapshot version ob now) (cfg_policy (ob_config ob));
            ob1 = (if status_ok (swr_status (snd r))
                   then ob\<lparr>ob_stats := (ob_stats ob)\<lparr>rs_snapshot_writes := rs_snapshot_writes (ob_stats ob) + 1\<rparr>\<rparr>
                   else ob)
        in (fst r, ob1, snd r))"

definition reload_file ::
  "u32 \<Rightarrow> (string \<Rightarrow> read_faults) \<Rightarrow> file_system \<Rightarrow> observatory \<Rightarrow> observatory \<times> status" where
  "reload_file version env fs ob =
     reload (read_snapshot version env fs (cfg_snapshot_path (ob_config ob)) (cfg_policy (ob_config ob))) ob"

section \<open>Instants stay in range\<close>

definition om_all :: "('v \<Rightarrow> bool) \<Rightarrow> ('k, 'v) omap \<Rightarrow> bool" where
  "om_all P m \<longleftrightarrow> (\<forall>e \<in> set m. P (snd e))"

lemma om_all_Nil [simp]: "om_all P []"
  by (simp add: om_all_def)

lemma om_all_put: "om_all P m \<Longrightarrow> P v \<Longrightarrow> om_all P (om_put k v m)"
  using om_set_put [of k v m] by (fastforce simp: om_all_def)

lemma om_all_get: "om_all P m \<Longrightarrow> om_get m k = Some v \<Longrightarrow> P v"
  by (force simp: om_all_def dest: om_get_SomeD)

definition entry_typed :: "link_entry \<Rightarrow> bool" where
  "entry_typed e \<longleftrightarrow> in_i64 (le_registered_at e) \<and> in_i64 (le_last_evidence_at e) \<and> in_i64 (le_last_accepted_at e)"

definition registry_typed :: "link_registry \<Rightarrow> bool" where
  "registry_typed reg \<longleftrightarrow> om_all (\<lambda>st. entry_typed (ls_entry st)) (reg_links reg)"

definition slot_typed :: "slot \<Rightarrow> bool" where
  "slot_typed s \<longleftrightarrow>
     list_all evidence_codable (sl_history s) \<and> om_all continuity_codable (sl_continuity s)
     \<and> in_i64 (sl_last_gap_at s)"

definition store_typed :: "evidence_store \<Rightarrow> bool" where
  "store_typed store \<longleftrightarrow> om_all slot_typed (es_slots store)"

definition log_typed :: "transition_log \<Rightarrow> bool" where
  "log_typed log \<longleftrightarrow> (\<forall>e \<in> set (tl_global log). in_i64 (te_at e))"

definition observatory_typed :: "observatory \<Rightarrow> bool" where
  "observatory_typed ob \<longleftrightarrow>
     registry_typed (ob_registry ob) \<and> store_typed (ob_store ob) \<and> log_typed (ob_log ob)"

definition record_typed :: "parsed_record \<Rightarrow> bool" where
  "record_typed r \<longleftrightarrow>
     (case r of
        ObservationRecord d \<Rightarrow>
          in_i64 (od_observed_at d) \<and> in_i64 (od_received_at d) \<and> payload_codable (od_payload d)
      | _ \<Rightarrow> True)"

lemma in_i64_0 [simp]: "in_i64 0"
  by (simp add: in_i64_def)

subsection \<open>The registry\<close>

lemma registry_typed_update:
  assumes "registry_typed reg" and "\<And>e. entry_typed e \<Longrightarrow> entry_typed (f e)"
  shows "registry_typed (update_link reg i f)"
  using assms
  by (auto simp: registry_typed_def update_link_def intro!: om_all_put dest: om_all_get split: option.splits)

lemma registry_typed_generation: "registry_typed reg \<Longrightarrow> registry_typed (fst (observe_generation reg i g))"
  by (auto simp: registry_typed_def observe_generation_def Let_def intro!: om_all_put dest: om_all_get
      split: option.splits)

lemma registry_typed_source [simp]:
  "registry_typed (fst (register_source reg rec)) = registry_typed reg"
  "registry_typed (fst (retire_source reg i)) = registry_typed reg"
  by (simp_all add: registry_typed_def register_source_def retire_source_def split: option.splits)

lemma registry_typed_register:
  assumes "registry_typed reg" and "in_i64 now"
  shows "registry_typed (fst (register_link reg facts now))"
proof -
  have "registry_typed (update_link r (lf_id facts) (le_facts_update (\<lambda>_. m)))" if "registry_typed r" for r m
    using that by (rule registry_typed_update) (simp add: entry_typed_def)
  moreover have "registry_typed (reg\<lparr>reg_links := om_put (lf_id facts)
      \<lparr>ls_entry = empty_link_entry\<lparr>le_facts := facts, le_registered_at := now\<rparr>, ls_generations = gens\<rparr> (reg_links reg)\<rparr>)" for gens
    using assms by (auto simp: registry_typed_def entry_typed_def empty_link_entry_def intro!: om_all_put)
  ultimately show ?thesis
    using assms(1) by (auto simp: register_link_def Let_def registry_typed_generation split: option.splits)
qed

lemma registry_typed_implicit:
  assumes "registry_typed reg" and "in_i64 now"
  shows "registry_typed (fst (ensure_implicit_link reg i name now))"
  using assms
  by (auto simp: ensure_implicit_link_def Let_def entry_typed_def split: option.splits
      intro!: registry_typed_update registry_typed_register)

lemma registry_typed_notes:
  "registry_typed reg \<Longrightarrow> in_i64 t \<Longrightarrow> in_i64 u \<Longrightarrow> registry_typed (note_accepted reg i t u)"
  "registry_typed reg \<Longrightarrow> registry_typed (note_fenced reg i)"
  by (auto simp: note_accepted_def note_fenced_def entry_typed_def intro!: registry_typed_update)

subsection \<open>The evidence store\<close>

lemma slot_typed_for: "store_typed store \<Longrightarrow> slot_typed (slot_for store link key)"
  by (auto simp: slot_for_def store_typed_def slot_typed_def dest: om_all_get split: option.splits)

lemma continuity_typed_observe:
  "continuity_codable c \<Longrightarrow> sample_codable s \<Longrightarrow> continuity_codable (fst (observe_counter c s))"
  by (simp add: observe_counter_def continuity_codable_def Let_def)

lemma empty_continuity_codable: "continuity_codable empty_continuity"
  by (simp add: continuity_codable_def empty_continuity_def sample_codable_def empty_sample_def)

lemma slot_typed_gap: "slot_typed s \<Longrightarrow> in_i64 now \<Longrightarrow> slot_typed (mark_gap now s)"
  by (simp add: slot_typed_def mark_gap_def)

lemma slot_typed_track:
  assumes "slot_typed s" and "observation_codable o1" and "in_i64 now"
  shows "slot_typed (fst (track_counter s store outcome o1 stream now))"
    and "es_slots (fst (snd (track_counter s store outcome o1 stream now))) = es_slots store"
proof -
  have sample: "sample_codable (sample_of o1 reading stream)" for reading
    using assms(2) by (simp add: sample_of_def sample_codable_def observation_codable_def)
  have cont: "continuity_codable (case om_get (sl_continuity s) i of Some c \<Rightarrow> c | None \<Rightarrow> empty_continuity)" for i
    using assms(1)
    by (auto simp: slot_typed_def empty_continuity_codable dest: om_all_get split: option.splits)
  have put: "slot_typed (s\<lparr>sl_continuity := om_put i (fst (observe_counter
      (case om_get (sl_continuity s) i of Some c \<Rightarrow> c | None \<Rightarrow> empty_continuity) (sample_of o1 reading stream))) (sl_continuity s)\<rparr>)" for i reading
    using assms(1) continuity_typed_observe [OF cont sample] by (simp add: slot_typed_def om_all_put)
  have counts: "slot_typed t \<Longrightarrow> slot_typed (t\<lparr>sl_reset_count := n\<rparr>)" "slot_typed t \<Longrightarrow> slot_typed (t\<lparr>sl_wrap_count := n\<rparr>)" for t n
    by (simp_all add: slot_typed_def)
  show "slot_typed (fst (track_counter s store outcome o1 stream now))"
    using assms(1,3) put counts
    by (auto simp: track_counter_def Let_def slot_typed_gap simp del: fun_upd_apply split: metric_payload.splits)
  show "es_slots (fst (snd (track_counter s store outcome o1 stream now))) = es_slots store"
    by (auto simp: track_counter_def Let_def split: metric_payload.splits)
qed

lemma store_typed_record:
  assumes "store_typed store" and "observation_codable o1" and "in_i64 now"
  shows "store_typed (fst (record_evidence store o1 source stream outcome now))"
proof -
  let ?t = "track_counter (slot_for store (obs_link o1) (obs_key o1)) store outcome o1 stream now"
  have typed: "slot_typed (fst ?t)" and slots: "es_slots (fst (snd ?t)) = es_slots store"
    using slot_typed_track [OF slot_typed_for [OF assms(1)] assms(2,3)] by auto
  let ?e = "\<lparr>ev_observation = o1, ev_accepted_at = now, ev_authority = src_authority source,
    ev_provenance = src_provenance source\<rparr>"
  have "slot_typed (s\<lparr>sl_history := trim_front n (sl_history s @ [?e]), sl_accepted := k\<rparr>)" if "slot_typed s" for s n k
    using that assms(2,3) set_trim_front [of n "sl_history s @ [?e]"]
    by (auto simp: slot_typed_def list_all_iff evidence_codable_def)
  then show ?thesis
    using assms(1,3) typed slots slot_typed_gap
    by (auto simp: record_evidence_def Let_def store_typed_def put_stream_def case_prod_beta intro!: om_all_put)
qed

lemma store_typed_accept:
  assumes "store_typed store" and "observation_codable o1" and "in_i64 now"
  shows "store_typed (fst (accept store o1 ctx now))"
proof (cases rule: accept_cases [of store o1 ctx now])
  case (recorded source stream1 changed gap)
  have "store_typed (gap_store gap store)" using assms(1) by (simp add: gap_store_def store_typed_def)
  then show ?thesis using recorded(6) store_typed_record assms(2,3) by simp
qed (use assms(1) in \<open>simp_all add: store_typed_def count_fence_def put_stream_def gap_store_def\<close>)

subsection \<open>The log and the observatory\<close>

lemma log_typed_record: "log_typed log \<Longrightarrow> in_i64 (te_at e) \<Longrightarrow> log_typed (record_event log e)"
  by (auto simp: log_typed_def record_event_def Let_def evict_eq normalize_event_def
      dest!: subsetD [OF set_trim_front])

lemma observatory_typed_parts:
  "observatory_typed ob \<Longrightarrow> registry_typed (ob_registry ob)"
  "observatory_typed ob \<Longrightarrow> store_typed (ob_store ob)"
  "observatory_typed ob \<Longrightarrow> log_typed (ob_log ob)"
  by (simp_all add: observatory_typed_def)

lemma observatory_typed_updates [simp]:
  "observatory_typed (ob\<lparr>ob_stats := s\<rparr>) = observatory_typed ob"
  "observatory_typed (ob\<lparr>ob_observed_states := m\<rparr>) = observatory_typed ob"
  "observatory_typed (ob\<lparr>ob_last_oper_text := t\<rparr>) = observatory_typed ob"
  "observatory_typed (ob\<lparr>ob_last_admin_text := t\<rparr>) = observatory_typed ob"
  "observatory_typed (ob\<lparr>ob_own_fence_counts := f\<rparr>) = observatory_typed ob"
  "observatory_typed (count_fenced_record ob) = observatory_typed ob"
  "observatory_typed (own_fence ob reason) = observatory_typed ob"
  by (simp_all add: observatory_typed_def count_fenced_record_def own_fence_def)

lemma observatory_typed_transition [simp]:
  "observatory_typed ob \<Longrightarrow> in_i64 (te_at e) \<Longrightarrow> observatory_typed (record_transition ob e)"
  by (simp add: observatory_typed_def record_transition_def log_typed_record)

lemma observatory_typed_registry:
  "observatory_typed ob \<Longrightarrow> registry_typed reg \<Longrightarrow> observatory_typed (ob\<lparr>ob_registry := reg\<rparr>)"
  by (simp add: observatory_typed_def)

lemma observatory_typed_store:
  "observatory_typed ob \<Longrightarrow> store_typed st \<Longrightarrow> observatory_typed (ob\<lparr>ob_store := st\<rparr>)"
  by (simp add: observatory_typed_def)

lemma observatory_typed_refresh:
  assumes "observatory_typed ob" and "in_i64 now"
  shows "observatory_typed (refresh_classification ob link now)"
proof -
  have state: "observatory_typed o1 \<Longrightarrow> observatory_typed (note_state o1 link current now)" for o1 current
    using assms(2) by (auto simp: note_state_def Let_def empty_event_def split: option.splits)
  have oper: "observatory_typed o1 \<Longrightarrow> observatory_typed (track_oper o1 link current now)" for o1 current
    using assms(2) by (auto simp: track_oper_def track_event_def Let_def empty_event_def split: option.splits)
  have admin: "observatory_typed o1 \<Longrightarrow> observatory_typed (track_admin o1 link current now)" for o1 current
    using assms(2) by (auto simp: track_admin_def track_event_def Let_def empty_event_def split: option.splits)
  show ?thesis
    unfolding refresh_classification_def Let_def using assms(1) by (intro admin oper state) simp
qed

lemma observatory_typed_after_accept:
  assumes "observatory_typed ob" and "observation_codable o1" and "in_i64 now"
  shows "observatory_typed (after_accept ob o1 outcome now)"
proof -
  have "observatory_typed (ob\<lparr>ob_stats := s, ob_registry := note_accepted (ob_registry ob) (obs_link o1) (obs_observed_at o1) now\<rparr>)" for s
    using assms observatory_typed_parts(1) [OF assms(1)]
    by (simp add: observatory_typed_def registry_typed_notes observation_codable_def)
  then show ?thesis
    using assms(3)
    by (auto simp: after_accept_def Let_def observation_event_def empty_event_def intro!: observatory_typed_refresh)
qed

lemma observatory_typed_known:
  assumes "observatory_typed ob" and "observation_codable o1" and "in_i64 now"
  shows "observatory_typed (apply_known ob o1 source now)"
proof -
  let ?g = "observe_generation (ob_registry ob) (obs_link o1) (prov_generation (obs_provenance o1))"
  let ?ob1 = "ob\<lparr>ob_registry := fst ?g\<rparr>"
  let ?ob2 = "if go_changed (snd ?g)
      then record_transition ?ob1 ((observation_event o1 TK_GenerationChanged now)
             \<lparr>te_from := id_to_string ''generation'' (go_previous (snd ?g)),
              te_to := id_to_string ''generation'' (prov_generation (obs_provenance o1))\<rparr>)
      else ?ob1"
  have ob1: "observatory_typed ?ob1"
    using assms(1) by (intro observatory_typed_registry registry_typed_generation) (simp_all add: observatory_typed_def)
  then have ob2: "observatory_typed ?ob2"
    using assms(3) by (simp add: observation_event_def empty_event_def)
  have fenced: "observatory_typed (o2\<lparr>ob_registry := note_fenced (ob_registry o2) l\<rparr>)" if "observatory_typed o2" for o2 l
    using that by (intro observatory_typed_registry registry_typed_notes) (simp_all add: observatory_typed_def)
  have accepted: "observatory_typed (?ob2\<lparr>ob_store := fst (accept (ob_store ?ob2) o1 ctx now)\<rparr>)" for ctx
    using observatory_typed_parts(2) [OF ob2] assms(2,3)
    by (intro observatory_typed_store [OF ob2] store_typed_accept)
  show ?thesis
    unfolding apply_known_def Let_def
    by (simp only: fenced ob1 accepted observatory_typed_after_accept [OF accepted assms(2,3)] observatory_typed_updates
        if_split simp_thms)
qed

lemma make_observation_codable:
  "record_typed (ObservationRecord d) \<Longrightarrow> observation_codable (make_observation d)"
  by (simp add: record_typed_def make_observation_def with_identity_def observation_codable_def)

lemma observatory_typed_observation:
  assumes "observatory_typed ob" and "record_typed (ObservationRecord d)" and "in_i64 now"
  shows "observatory_typed (apply_observation ob d now)"
proof -
  note o1 = make_observation_codable [OF assms(2)]
  have fenced: "observatory_typed (submit_fenced o2 (make_observation d) ctx now)" if "observatory_typed o2" for o2 ctx
    using observatory_typed_store [OF that store_typed_accept [OF observatory_typed_parts(2) [OF that] o1 assms(3)]]
    by (simp add: submit_fenced_def Let_def)
  have implicit: "observatory_typed (o2\<lparr>ob_registry := fst (ensure_implicit_link (ob_registry o2) l nm now)\<rparr>)"
    if "observatory_typed o2" for o2 l nm
    using that assms(3) by (intro observatory_typed_registry registry_typed_implicit) (simp_all add: observatory_typed_def)
  have "observatory_typed (ob\<lparr>ob_stats := s\<rparr>)" for s using assms(1) by simp
  then show ?thesis
    unfolding apply_observation_def Let_def
    by (auto simp only: observatory_typed_updates split: option.splits if_splits
        intro!: fenced observatory_typed_known [OF _ o1 assms(3)] implicit)
qed

lemma observatory_typed_record:
  assumes "observatory_typed ob" and "record_typed r" and "in_i64 now"
  shows "observatory_typed (fst (apply_record ob r now))"
proof (cases r)
  case (SourceRecord d)
  then show ?thesis
    using assms(1) by (auto simp: apply_record_def apply_source_record_def Let_def observatory_typed_def)
next
  case (LinkRecord d)
  let ?r = "register_link (ob_registry ob) (make_link_facts d) now"
  have reg: "registry_typed (fst ?r)" and gen: "registry_typed (fst (observe_generation (fst ?r) i g))" for i g
    using assms by (auto simp: observatory_typed_def intro!: registry_typed_generation registry_typed_register)
  have ob: "observatory_typed (ob\<lparr>ob_registry := reg', ob_stats := s\<rparr>)" if "registry_typed reg'" for reg' s
    using assms(1) that by (simp add: observatory_typed_def)
  show ?thesis
    using assms(3) LinkRecord ob [OF reg] ob [OF gen]
    by (simp add: apply_record_def apply_link_record_def Let_def empty_event_def)
next
  case (ObservationRecord d)
  with assms show ?thesis by (simp add: apply_record_def observatory_typed_observation)
qed (use assms in \<open>simp add: apply_record_def\<close>)

text \<open>
  The states an observatory reaches when every instant it is given, by the clock or in a record,
  is a 64-bit value, as the type of the code guarantees.
\<close>

definition input_typed :: "parsed_record \<times> time_point \<Rightarrow> bool" where
  "input_typed e \<longleftrightarrow> record_typed (fst e) \<and> in_i64 (snd e)"

inductive typed_run :: "runtime_config \<Rightarrow> observatory \<Rightarrow> bool" for c where
  start: "typed_run c (new_observatory c)"
| batch: "typed_run c ob \<Longrightarrow> list_all input_typed rs \<Longrightarrow> typed_run c (apply_batch ob rs)"
| source: "typed_run c ob \<Longrightarrow> in_i64 now \<Longrightarrow> typed_run c (fst (apply_source ob d now))"
| link: "typed_run c ob \<Longrightarrow> in_i64 now \<Longrightarrow> typed_run c (fst (apply_link ob ld now))"

lemma typed_run_reachable: "typed_run c ob \<Longrightarrow> reachable c ob"
  by (induction rule: typed_run.induct) (auto intro: reachable.intros)

lemma observatory_typed_batch:
  assumes "observatory_typed ob" and "list_all input_typed rs"
  shows "observatory_typed (apply_batch ob rs)"
proof -
  have "observatory_typed o1 \<Longrightarrow> observatory_typed (fold (\<lambda>(r, now) ob. fst (apply_record ob r now)) rs o1)" for o1
    using assms(2)
    by (induction rs arbitrary: o1) (auto simp: input_typed_def observatory_typed_record)
  then show ?thesis using assms(1) by (simp add: apply_batch_def)
qed

lemma typed_run_typed: "typed_run c ob \<Longrightarrow> observatory_typed ob"
proof (induction rule: typed_run.induct)
  case start
  show ?case
    by (simp add: observatory_typed_def registry_typed_def store_typed_def log_typed_def new_observatory_def
        empty_registry_def empty_store_def empty_log_def)
qed (auto simp: observatory_typed_batch apply_source_def apply_link_def record_typed_def intro!: observatory_typed_record)

section \<open>What is saved fits\<close>

lemma om_all_iff: "om_wf m \<Longrightarrow> (\<forall>k v. om_get m k = Some v \<longrightarrow> P v) \<Longrightarrow> om_all P m"
  by (force simp: om_all_def om_get_iff)

lemma typed_registry_codable:
  assumes "registry_wf reg" and "registry_typed reg"
  shows "list_all persisted_link_codable (persisted_links reg)" and "list_all source_codable (sources reg)"
proof -
  have "persisted_link_codable \<lparr>pl_facts = le_facts (ls_entry st), pl_entry = ls_entry st, pl_generations = ls_generations st\<rparr>"
    if "(i, st) \<in> set (reg_links reg)" for i st
  proof -
    have "link_ok (reg_policy reg) i st" using assms(1) that by (auto simp: registry_wf_def om_get_iff)
    moreover have "entry_typed (ls_entry st)" using assms(2) that by (force simp: registry_typed_def om_all_def)
    ultimately show ?thesis
      by (auto simp: persisted_link_codable_def link_ok_def facts_codable_def text_codable_def kMaxStringField_def
          link_entry_codable_def entry_typed_def generations_codable_def generations_ok_def sane_def
          kMaxRetiredGenerations_def kMaxRetiredScopesBound_def validate_link_facts_def split: if_splits)
  qed
  then show "list_all persisted_link_codable (persisted_links reg)"
    by (auto simp: persisted_links_def list_all_iff)
  show "list_all source_codable (sources reg)"
    using assms(1)
    by (fastforce simp: sources_def list_all_iff registry_wf_def om_get_iff source_ok_def source_codable_def
        text_codable_def kMaxStringField_def)
qed

lemma continuity_length:
  assumes "store_wf store" and "om_get (es_slots store) k = Some s"
  shows "length (sl_continuity s) \<le> length (es_streams store)"
  using assms by (intro om_keys_length) (auto simp: store_wf_def slot_ok_def slot_sources_in_def)

lemma typed_store_codable:
  assumes "store_wf store" and "store_typed store"
    and "unat (max_evidence_per_key (pol_limits (es_policy store))) \<le> kMaxEvidencePerSlotBound"
    and "length (es_streams store) \<le> kMaxSourcesBound"
  shows "list_all slot_codable (persisted_slots store)" and "list_all stream_entry_codable (persisted_streams store)"
proof -
  have "slot_codable (persist_slot (k, s))" if "(k, s) \<in> set (es_slots store)" for k s
  proof -
    have get: "om_get (es_slots store) k = Some s" using assms(1) that by (simp add: store_wf_def om_get_iff)
    then have "slot_ok (es_policy store) k s" using assms(1) by (simp add: store_wf_def)
    moreover have "slot_typed s" using assms(2) that by (force simp: store_typed_def om_all_def)
    ultimately show ?thesis
      using continuity_length [OF assms(1) get] assms(3,4)
      by (auto simp: slot_codable_def persist_slot_def slot_ok_def slot_typed_def om_all_def entry_codable_def list_all_iff)
  qed
  then show "list_all slot_codable (persisted_slots store)"
    by (auto simp: persisted_slots_def list_all_iff)
  show "list_all stream_entry_codable (persisted_streams store)"
    using assms(1)
    by (fastforce simp: persisted_streams_def list_all_iff store_wf_def om_get_iff stream_entry_codable_def
        stream_codable_def stream_ok_def sane_def kMaxRetiredScopes_def kMaxRetiredScopesBound_def)
qed

lemma normalized_texts:
  assumes "normalize_event e = e"
  shows "length (te_from e) \<le> 64" and "length (te_to e) \<le> 64"
proof -
  have "length (te_from (normalize_event e)) \<le> 64" and "length (te_to (normalize_event e)) \<le> 64"
    by (simp_all add: normalize_event_def Let_def)
  with assms show "length (te_from e) \<le> 64" and "length (te_to e) \<le> 64" by simp_all
qed

lemma typed_log_codable:
  assumes "log_wf log" and "log_typed log"
  shows "list_all event_codable (recent log limit)" and "length (recent log limit) \<le> unat limit"
proof -
  have "event_codable e" if "e \<in> set (tl_global log)" for e
    using assms that normalized_texts [of e]
    by (auto simp: log_wf_def log_typed_def event_codable_def text_codable_def kMaxStringField_def)
  then show "list_all event_codable (recent log limit)"
    by (auto simp: recent_newest newest_def list_all_iff dest: in_set_dropD)
  show "length (recent log limit) \<le> unat limit"
    using result_bound_le(2) [of log limit] by (simp add: recent_newest newest_def)
qed

text \<open>The limits under which the codec's own constants are never exceeded.\<close>

definition codec_limits :: "limits \<Rightarrow> bool" where
  "codec_limits l \<longleftrightarrow>
     unat (max_evidence_per_key l) \<le> kMaxEvidencePerSlotBound \<and> unat (max_sources l) \<le> kMaxSourcesBound"

lemma decode_slot_bound_eq: "unat (decode_slot_bound (pol_limits p)) = slot_bound p"
  by (simp add: decode_slot_bound_def slot_bound_def kMaxKeysPerLink_def mult.assoc)

lemma saved_contents_codable:
  assumes "observatory_wf ob" and "observatory_typed ob" and "in_i64 now"
    and "codec_limits (pol_limits (cfg_policy (ob_config ob)))"
  shows "contents_codable (pol_limits (cfg_policy (ob_config ob))) (collect_snapshot version ob now)"
proof -
  let ?p = "cfg_policy (ob_config ob)"
  have reg: "registry_wf (ob_registry ob)" "reg_policy (ob_registry ob) = ?p"
    and st: "store_wf (ob_store ob)" "es_policy (ob_store ob) = ?p" and log: "log_wf (ob_log ob)"
    using assms(1) by (simp_all add: observatory_wf_def)
  note typed = observatory_typed_parts [OF assms(2)]
  note streams = streams_bounded [OF assms(1)]
  have sources: "length (es_streams (ob_store ob)) \<le> kMaxSourcesBound"
    using streams assms(4) by (simp add: codec_limits_def)
  have slots: "length (es_slots (ob_store ob)) \<le> unat (decode_slot_bound (pol_limits ?p))"
    using st by (simp add: store_wf_def decode_slot_bound_eq)
  show ?thesis
    using reg st assms(3,4) streams slots typed_registry_codable [OF reg(1) typed(1)]
      typed_store_codable [OF st(1) typed(2) _ sources] typed_log_codable [OF log typed(3)]
    by (simp add: contents_codable_def collect_snapshot_def codec_limits_def registry_wf_def persisted_links_def
        sources_def persisted_slots_def persisted_streams_def)
qed

lemma reload_contents:
  assumes "observatory_wf ob" and "cfg_policy (ob_config ob0) = cfg_policy (ob_config ob)"
    and "cfg_snapshot_path (ob_config ob0) \<noteq> []" and "slr_ok loaded"
    and "slr_contents loaded = (collect_snapshot version ob now)\<lparr>sn_format_version := v\<rparr>"
  shows "snd (reload loaded ob0) = status_success \<and> ob_restored (fst (reload loaded ob0))
    \<and> ob_registry (fst (reload loaded ob0)) = ob_registry ob
    \<and> ob_store (fst (reload loaded ob0)) = (ob_store ob)\<lparr>es_fence_counts := []\<rparr>"
proof -
  have "slr_contents loaded = collect_snapshot v ob now" using assms(5) by (simp add: collect_snapshot_def)
  with restore_round_trip_eq [OF assms(1,2) refl, of v now] assms(2-4) show ?thesis
    by (simp add: reload_def Let_def)
qed

section \<open>Main results\<close>


text \<open>A configuration that saves to a file, and an observation at two instants.\<close>

definition saving_config :: runtime_config where
  "saving_config =
     \<lparr>cfg_snapshot_path = ''s'', cfg_restore_on_start = False, cfg_persist_on_stop = False, cfg_workers = 1,
      cfg_queue_depth = 16, cfg_runtime_name = ''runtime'', cfg_incarnation_name = ''boot'',
      cfg_families = 255, cfg_policy = make_default_policy\<rparr>"

definition timed_batch :: "(parsed_record \<times> time_point) list" where
  "timed_batch =
     [(ObservationRecord
         \<lparr>od_link = ''core'', od_source = ''collector'', od_incarnation = ''i'', od_epoch = ''e'', od_generation = ''g'',
          od_revision = 1, od_observed_at = 5, od_received_at = 6,
          od_key = MetricKey MF_OperState Dir_Unknown EC_None, od_payload = OperStateReading Oper_Up\<rparr>, 11)]"


text \<open>
  What is saved can be loaded. Whenever \<^verbatim>\<open>persist\<close> of a well-formed observatory reports success,
  whatever the operating system refused before, the primary file is accepted with exactly the saved
  contents. The policy must not ask for more evidence per key, or more sources, than the decoder
  accepts.
\<close>

lemma saved_file_loads:
  assumes "observatory_wf ob" and "observatory_typed ob" and "in_i64 now" and "1 \<le> version"
    and "cfg_snapshot_path (ob_config ob) \<noteq> []"
    and "codec_limits (pol_limits (cfg_policy (ob_config ob)))" and "room_for_header (cfg_policy (ob_config ob))"
    and "persist version faults fs ob now = (states, ob', result)" and "status_ok (swr_status result)"
    and "env (cfg_snapshot_path (ob_config ob)) = no_read_faults (cfg_snapshot_path (ob_config ob))"
  defines "loaded \<equiv> read_snapshot version env (last states) (cfg_snapshot_path (ob_config ob)) (cfg_policy (ob_config ob))"
  shows "slr_ok loaded" and "\<not> slr_recovered_from_backup loaded"
    and "slr_contents loaded = (collect_snapshot version ob now)\<lparr>sn_format_version := version\<rparr>"
proof -
  let ?p = "cfg_policy (ob_config ob)"
  let ?path = "cfg_snapshot_path (ob_config ob)"
  let ?w = "write_snapshot version faults fs ?path (collect_snapshot version ob now) ?p"
  have states: "states = fst ?w" and ok: "status_ok (swr_status (snd ?w))"
    using assms(5,8,9) by (auto simp: persist_def Let_def)
  have "fits version ?p (collect_snapshot version ob now)"
    using saved_contents_codable [OF assms(1-3,6)] assms(4,7) write_snapshot_done(3) [OF ok]
    by (simp add: fits_def)
  from load_once_container [where env = env and path = ?path and fs = "last states", OF this assms(10)]
  show "slr_ok loaded" and "\<not> slr_recovered_from_backup loaded"
    and "slr_contents loaded = (collect_snapshot version ob now)\<lparr>sn_format_version := version\<rparr>"
    using write_snapshot_done(1) [OF ok] by (simp_all add: loaded_def states read_snapshot_def empty_load_result_def)
qed

text \<open>And \<^verbatim>\<open>reload\<close> in another process with the same policy gives it back.\<close>

lemma saved_state_reloads:
  assumes "observatory_wf ob" and "cfg_policy (ob_config ob0) = cfg_policy (ob_config ob)"
    and "cfg_snapshot_path (ob_config ob0) \<noteq> []" and "slr_ok loaded" and "\<not> slr_recovered_from_backup loaded"
    and "slr_contents loaded = (collect_snapshot version ob now)\<lparr>sn_format_version := v\<rparr>"
  shows "snd (reload loaded ob0) = status_success \<and> ob_restored (fst (reload loaded ob0))
    \<and> \<not> ob_loaded_from_backup (fst (reload loaded ob0))"
  using reload_contents [OF assms(1-4,6)] assms(2-5) by (auto simp: reload_def Let_def split: if_splits)

end
