(* ===== verification/Restart.thy ===== *)
theory Restart
  imports Persistence
begin

text \<open>
  What a restart means for the evidence. Applying records reads and changes the registry and the
  evidence store without looking at the statistics, the log or the fence counters per reason, which a
  snapshot does not carry over completely. So a process that saves, ends and is started again on the
  saved file goes on exactly where an uninterrupted one would be.
\<close>

section \<open>The store without its fence counters\<close>

definition sans_fences :: "evidence_store \<Rightarrow> evidence_store" where
  "sans_fences store = store\<lparr>es_fence_counts := []\<rparr>"

lemma sans_fences_split: "sans_fences st = sans_fences st' \<longleftrightarrow> (\<exists>m. st' = st\<lparr>es_fence_counts := m\<rparr>)"
  by (cases st; cases st') (auto simp: sans_fences_def)

lemma store_helpers_ignore_counts [simp]:
  "accept_guard (st\<lparr>es_fence_counts := m\<rparr>) o1 ctx = accept_guard st o1 ctx"
  "stream_for (st\<lparr>es_fence_counts := m\<rparr>) i = stream_for st i"
  "slot_for (st\<lparr>es_fence_counts := m\<rparr>) l k = slot_for st l k"
  "sans_fences (st\<lparr>es_fence_counts := m\<rparr>) = sans_fences st"
  by (simp_all add: accept_guard_def Let_def stream_for_def slot_for_def sans_fences_def split: option.split)

lemma sans_fences_steps:
  "sans_fences (put_stream st i s) = put_stream (sans_fences st) i s"
  "sans_fences (count_fence st r) = (sans_fences st)\<lparr>es_total_fenced := es_total_fenced st + 1\<rparr>"
  by (simp_all add: sans_fences_def put_stream_def count_fence_def)

lemma track_counter_ignores:
  "track_counter s (st\<lparr>es_fence_counts := m\<rparr>) oc o1 stream now =
     (case track_counter s st oc o1 stream now of (s', st', oc') \<Rightarrow> (s', st'\<lparr>es_fence_counts := m\<rparr>, oc'))"
  by (simp add: track_counter_def Let_def split: metric_payload.splits)

lemma record_evidence_ignores:
  "record_evidence (st\<lparr>es_fence_counts := m\<rparr>) o1 source stream oc now =
     (case record_evidence st o1 source stream oc now of (st', oc') \<Rightarrow> (st'\<lparr>es_fence_counts := m\<rparr>, oc'))"
  by (simp add: record_evidence_def Let_def track_counter_ignores put_stream_def split: prod.splits)

lemma accept_ignores_counts:
  "snd (accept (st\<lparr>es_fence_counts := m\<rparr>) o1 ctx now) = snd (accept st o1 ctx now)"
  "sans_fences (fst (accept (st\<lparr>es_fence_counts := m\<rparr>) o1 ctx now)) = sans_fences (fst (accept st o1 ctx now))"
proof -
  have gap: "(st\<lparr>es_fence_counts := m\<rparr>)\<lparr>es_revision_gaps := n\<rparr> = (st\<lparr>es_revision_gaps := n\<rparr>)\<lparr>es_fence_counts := m\<rparr>" for n
    by (cases st) simp
  show "snd (accept (st\<lparr>es_fence_counts := m\<rparr>) o1 ctx now) = snd (accept st o1 ctx now)"
    by (simp add: accept_def Let_def gap record_evidence_ignores split: sum.splits prod.splits if_splits)
  show "sans_fences (fst (accept (st\<lparr>es_fence_counts := m\<rparr>) o1 ctx now)) = sans_fences (fst (accept st o1 ctx now))"
    by (simp add: accept_def Let_def gap record_evidence_ignores split: sum.splits prod.splits if_splits)
      (simp add: sans_fences_def put_stream_def count_fence_def)
qed

lemma accept_sim:
  assumes "sans_fences st = sans_fences st'"
  shows "snd (accept st o1 ctx now) = snd (accept st' o1 ctx now)"
    and "sans_fences (fst (accept st o1 ctx now)) = sans_fences (fst (accept st' o1 ctx now))"
proof -
  obtain m where m: "st' = st\<lparr>es_fence_counts := m\<rparr>" using assms by (auto simp only: sans_fences_split)
  show "snd (accept st o1 ctx now) = snd (accept st' o1 ctx now)"
    and "sans_fences (fst (accept st o1 ctx now)) = sans_fences (fst (accept st' o1 ctx now))"
    by (simp_all only: m accept_ignores_counts)
qed

section \<open>Applying records\<close>

lemma refresh_leaves [simp]:
  "ob_registry (refresh_classification ob l now) = ob_registry ob"
  "ob_store (refresh_classification ob l now) = ob_store ob"
  using same_core_refresh [of ob l now] by (simp_all add: same_core_def)

lemma refresh_config [simp]: "ob_config (refresh_classification ob l now) = ob_config ob"
  using same_core_refresh [of ob l now] by (simp add: same_core_def)

lemma small_updates_config [simp]:
  "ob_config (own_fence ob why) = ob_config ob" "ob_config (count_fenced_record ob) = ob_config ob"
  "ob_config (submit_fenced ob o1 ctx now) = ob_config ob" "ob_config (after_accept ob o1 out now) = ob_config ob"
  by (simp_all add: own_fence_def count_fenced_record_def submit_fenced_def after_accept_def Let_def)

lemma apply_known_config [simp]: "ob_config (apply_known ob o1 src now) = ob_config ob"
  by (simp add: apply_known_def Let_def)

lemma apply_record_config: "ob_config (fst (apply_record ob r now)) = ob_config ob"
  by (cases r) (auto simp: apply_record_def apply_source_record_def apply_link_record_def apply_observation_def Let_def
      split: option.splits)

lemma apply_batch_config [simp]: "ob_config (apply_batch ob rs) = ob_config ob"
proof -
  have "ob_config (fold (\<lambda>(r, now) ob. fst (apply_record ob r now)) rs o1) = ob_config o1" for o1
    by (induction rs arbitrary: o1) (auto simp: apply_record_config)
  then show ?thesis by (simp add: apply_batch_def)
qed

text \<open>Of the configuration only the policy and the accepted families matter to the evidence.\<close>

definition same_setup :: "runtime_config \<Rightarrow> runtime_config \<Rightarrow> bool" where
  "same_setup c c' \<longleftrightarrow> cfg_policy c = cfg_policy c' \<and> cfg_families c = cfg_families c'"

definition same_evidence :: "observatory \<Rightarrow> observatory \<Rightarrow> bool" where
  "same_evidence ob ob' \<longleftrightarrow>
     same_setup (ob_config ob) (ob_config ob') \<and> ob_registry ob = ob_registry ob'
     \<and> sans_fences (ob_store ob) = sans_fences (ob_store ob')"

lemma same_evidence_trans: "same_evidence a b \<Longrightarrow> same_evidence b c \<Longrightarrow> same_evidence a c"
  by (simp add: same_evidence_def same_setup_def)

lemma same_evidence_small [simp]:
  "ob_registry (own_fence ob why) = ob_registry ob" "ob_store (own_fence ob why) = ob_store ob"
  "ob_registry (count_fenced_record ob) = ob_registry ob" "ob_store (count_fenced_record ob) = ob_store ob"
  "ob_registry (submit_fenced ob o1 ctx now) = ob_registry ob"
  "ob_store (submit_fenced ob o1 ctx now) = fst (accept (ob_store ob) o1 ctx now)"
  "ob_registry (after_accept ob o1 oc now) = note_accepted (ob_registry ob) (obs_link o1) (obs_observed_at o1) now"
  "ob_store (after_accept ob o1 oc now) = ob_store ob"
  by (simp_all add: own_fence_def count_fenced_record_def submit_fenced_def after_accept_def Let_def)

lemma same_evidence_known:
  assumes "same_evidence ob ob'"
  shows "same_evidence (apply_known ob o1 src now) (apply_known ob' o1 src now)"
proof -
  have reg: "ob_registry ob' = ob_registry ob" and st: "sans_fences (ob_store ob) = sans_fences (ob_store ob')"
    using assms by (simp_all add: same_evidence_def)
  show ?thesis
    using assms accept_sim [OF st]
    by (simp add: same_evidence_def apply_known_def Let_def reg)
qed

lemma same_evidence_observation:
  assumes "same_evidence ob ob'"
  shows "same_evidence (apply_observation ob d now) (apply_observation ob' d now)"
proof -
  have reg: "ob_registry ob' = ob_registry ob" and cfg: "same_setup (ob_config ob) (ob_config ob')"
    and families: "cfg_families (ob_config ob') = cfg_families (ob_config ob)"
    and st: "sans_fences (ob_store ob) = sans_fences (ob_store ob')"
    using assms by (simp_all add: same_evidence_def same_setup_def)
  have known: "same_evidence (apply_known (ob\<lparr>ob_stats := a, ob_registry := r\<rparr>) o1 src now)
      (apply_known (ob'\<lparr>ob_stats := b, ob_registry := r\<rparr>) o1 src now)"
    "same_evidence (apply_known (ob\<lparr>ob_stats := a\<rparr>) o1 src now) (apply_known (ob'\<lparr>ob_stats := b\<rparr>) o1 src now)" for a b r o1 src
    by (rule same_evidence_known; use assms in \<open>simp add: same_evidence_def\<close>)+
  have fenced: "same_evidence (submit_fenced (ob\<lparr>ob_stats := a\<rparr>) o1 ctx now) (submit_fenced (ob'\<lparr>ob_stats := b\<rparr>) o1 ctx now)" for a b o1 ctx
    using cfg reg accept_sim [OF st] by (simp add: same_evidence_def)
  have own: "same_evidence (own_fence (ob\<lparr>ob_stats := a, ob_registry := r\<rparr>) why) (own_fence (ob'\<lparr>ob_stats := b, ob_registry := r\<rparr>) why)" for a b r why
    using cfg st by (simp add: same_evidence_def)
  show ?thesis
    unfolding apply_observation_def Let_def
    by (simp add: reg families known fenced own split: option.split)
qed

lemma same_evidence_record:
  assumes "same_evidence ob ob'"
  shows "same_evidence (fst (apply_record ob r now)) (fst (apply_record ob' r now))"
proof -
  have reg: "ob_registry ob' = ob_registry ob" using assms by (simp add: same_evidence_def)
  show ?thesis
  proof (cases r)
    case (SourceRecord d)
    then show ?thesis using assms by (simp add: apply_record_def apply_source_record_def Let_def same_evidence_def)
  next
    case (LinkRecord d)
    then show ?thesis using assms by (simp add: apply_record_def apply_link_record_def Let_def same_evidence_def reg)
  qed (use assms in \<open>simp_all add: apply_record_def same_evidence_observation\<close>)
qed

lemma same_evidence_batch:
  assumes "same_evidence ob ob'"
  shows "same_evidence (apply_batch ob rs) (apply_batch ob' rs)"
proof -
  have "same_evidence a b \<Longrightarrow> same_evidence (fold (\<lambda>(r, now) ob. fst (apply_record ob r now)) rs a)
      (fold (\<lambda>(r, now) ob. fst (apply_record ob r now)) rs b)" for a b
    by (induction rs arbitrary: a b) (auto simp: same_evidence_record)
  moreover have "same_evidence (ob\<lparr>ob_stats := x\<rparr>) (ob'\<lparr>ob_stats := y\<rparr>)" for x y
    using assms by (simp add: same_evidence_def)
  ultimately show ?thesis by (simp add: apply_batch_def)
qed

section \<open>The parts of a state that a restart does not give back\<close>

text \<open>The log and the fence counters stay well formed on their own.\<close>

definition extras_ok :: "observatory \<Rightarrow> bool" where
  "extras_ok ob \<longleftrightarrow>
     log_wf (ob_log ob) \<and> tl_limits (ob_log ob) = pol_limits (cfg_policy (ob_config ob))
     \<and> om_wf (es_fence_counts (ob_store ob))"

lemma extras_core: "same_core ob ob' \<Longrightarrow> extras_ok ob \<Longrightarrow> extras_ok ob'"
  by (simp add: same_core_def extras_ok_def)

lemma extras_transition [simp]: "extras_ok ob \<Longrightarrow> extras_ok (record_transition ob e)"
  by (rule extras_core [OF same_core_transition])

lemma extras_updates [simp]:
  "extras_ok (ob\<lparr>ob_registry := r\<rparr>) = extras_ok ob" "extras_ok (ob\<lparr>ob_stats := s\<rparr>) = extras_ok ob"
  "extras_ok (own_fence ob why) = extras_ok ob" "extras_ok (count_fenced_record ob) = extras_ok ob"
  by (simp_all add: extras_ok_def own_fence_def count_fenced_record_def)

lemma extras_refresh: "extras_ok ob \<Longrightarrow> extras_ok (refresh_classification ob l now)"
  by (rule extras_core [OF same_core_refresh])

lemma accept_counts_wf:
  "om_wf (es_fence_counts st) \<Longrightarrow> om_wf (es_fence_counts (fst (accept st o1 ctx now)))"
  by (simp add: accept_def Let_def record_evidence_def track_counter_def put_stream_def count_fence_def
      split: sum.split prod.split metric_payload.split)

lemma extras_accept [simp]: "extras_ok ob \<Longrightarrow> extras_ok (ob\<lparr>ob_store := fst (accept (ob_store ob) o1 ctx now)\<rparr>)"
  by (simp add: extras_ok_def accept_counts_wf)

lemma extras_after: "extras_ok ob \<Longrightarrow> extras_ok (after_accept ob o1 oc now)"
  by (auto simp: after_accept_def Let_def intro!: extras_refresh)

lemma extras_known: "extras_ok ob \<Longrightarrow> extras_ok (apply_known ob o1 src now)"
  unfolding apply_known_def Let_def
  by (auto simp only: extras_updates split: if_splits intro!: extras_after extras_accept extras_transition)

lemma extras_observation: "extras_ok ob \<Longrightarrow> extras_ok (apply_observation ob d now)"
  unfolding apply_observation_def Let_def submit_fenced_def
  by (auto simp only: extras_updates split: option.splits if_splits intro!: extras_known extras_accept)

lemma extras_record: "extras_ok ob \<Longrightarrow> extras_ok (fst (apply_record ob r now))"
  by (cases r) (auto simp: apply_record_def apply_source_record_def apply_link_record_def Let_def extras_observation)

lemma extras_batch:
  assumes "extras_ok ob"
  shows "extras_ok (apply_batch ob rs)"
proof -
  have "extras_ok a \<Longrightarrow> extras_ok (fold (\<lambda>(r, now) ob. fst (apply_record ob r now)) rs a)" for a
    by (induction rs arbitrary: a) (auto simp: extras_record)
  with assms show ?thesis by (simp add: apply_batch_def)
qed

lemma same_evidence_wf:
  assumes "same_evidence ob ob'" and "observatory_wf ob'" and "extras_ok ob"
  shows "observatory_wf ob"
proof -
  have st: "es_slots (ob_store ob) = es_slots (ob_store ob')" "es_streams (ob_store ob) = es_streams (ob_store ob')"
    "es_policy (ob_store ob) = es_policy (ob_store ob')"
    using assms(1) by (auto simp: same_evidence_def sans_fences_split)
  have "store_wf (ob_store ob')" and "om_wf (es_fence_counts (ob_store ob))"
    using assms(2,3) by (simp_all add: observatory_wf_def extras_ok_def)
  then have "store_wf (ob_store ob)" by (simp add: store_wf_def st)
  with assms show ?thesis by (simp add: observatory_wf_def extras_ok_def same_evidence_def same_setup_def st)
qed

section \<open>Restarts\<close>

lemma record_all_log:
  "log_wf log \<Longrightarrow> log_wf (record_all log es)"
  "log_typed log \<Longrightarrow> (\<forall>e \<in> set es. in_i64 (te_at e)) \<Longrightarrow> log_typed (record_all log es)"
  by (induction es rule: rev_induct)
    (simp_all add: record_all_snoc log_wf_record log_typed_record, simp_all add: record_all_def)

lemma recent_typed: "log_typed log \<Longrightarrow> e \<in> set (recent log n) \<Longrightarrow> in_i64 (te_at e)"
  by (auto simp: log_typed_def recent_def Let_def dest: in_set_dropD)

lemma reload_rest:
  assumes "observatory_wf ob" and "observatory_typed ob" and "cfg_policy (ob_config ob0) = cfg_policy (ob_config ob)"
    and "tl_limits (ob_log ob0) = pol_limits (cfg_policy (ob_config ob))"
    and "cfg_snapshot_path (ob_config ob0) \<noteq> []" and "slr_ok loaded"
    and "slr_contents loaded = (collect_snapshot version ob now)\<lparr>sn_format_version := v\<rparr>"
  shows "ob_config (fst (reload loaded ob0)) = ob_config ob0" and "extras_ok (fst (reload loaded ob0))"
    and "log_typed (ob_log (fst (reload loaded ob0)))"
proof -
  let ?ob1 = "fst (reload loaded ob0)" and ?c = "collect_snapshot v ob now"
  have c: "slr_contents loaded = ?c" using assms(7) by (simp add: collect_snapshot_def)
  note r = restore_round_trip_eq [OF assms(1,3) refl, of v now]
  have parts: "ob_config ?ob1 = ob_config ob0" "ob_store ?ob1 = (ob_store ob)\<lparr>es_fence_counts := []\<rparr>"
    "ob_log ?ob1 = record_all (empty_log (tl_limits (ob_log ob0))) (sn_transitions ?c)"
    using r assms(3,5,6) by (simp_all add: reload_def Let_def c)
  show "ob_config ?ob1 = ob_config ob0" by (rule parts)
  show "extras_ok ?ob1" using assms(3,4) by (simp add: extras_ok_def parts record_all_log)
  have "\<forall>e \<in> set (sn_transitions ?c). in_i64 (te_at e)"
    using recent_typed [OF observatory_typed_parts(3) [OF assms(2)]] by (simp add: collect_snapshot_def)
  then show "log_typed (ob_log ?ob1)" unfolding parts by (rule record_all_log(2) [rotated]) (simp add: log_typed_def empty_log_def)
qed

text \<open>One save and reload, by a process that may be configured differently otherwise.\<close>

definition restartable :: "u32 \<Rightarrow> runtime_config \<Rightarrow> bool" where
  "restartable version c \<longleftrightarrow>
     1 \<le> version \<and> cfg_snapshot_path c \<noteq> [] \<and> codec_limits (pol_limits (cfg_policy c)) \<and> room_for_header (cfg_policy c)"

definition successor :: "runtime_config \<Rightarrow> runtime_config \<Rightarrow> bool" where
  "successor c c' \<longleftrightarrow> same_setup c c' \<and> cfg_snapshot_path c = cfg_snapshot_path c'"

lemma new_observatory_config [simp]: "ob_config (new_observatory c) = c" "tl_limits (ob_log (new_observatory c)) = pol_limits (cfg_policy c)"
  by (simp_all add: new_observatory_def empty_log_def)

lemma same_evidence_typed:
  assumes "same_evidence ob ob'" and "observatory_typed ob'" and "log_typed (ob_log ob)"
  shows "observatory_typed ob"
proof -
  have "es_slots (ob_store ob) = es_slots (ob_store ob')" using assms(1) by (auto simp: same_evidence_def sans_fences_split)
  then show ?thesis using assms by (simp add: observatory_typed_def store_typed_def same_evidence_def)
qed

lemma reload_after_save:
  assumes wf: "observatory_wf ob" and typed: "observatory_typed ob" and "in_i64 now" and "restartable version (ob_config ob)"
    and "persist version faults fs ob now = (states, ob', result)" and "status_ok (swr_status result)"
    and "successor (ob_config ob) c'" and "env (cfg_snapshot_path c') = no_read_faults (cfg_snapshot_path c')"
  defines "ob1 \<equiv> fst (reload_file version env (last states) (new_observatory c'))"
  shows "snd (reload_file version env (last states) (new_observatory c')) = status_success"
    and "same_evidence ob1 ob" and "ob_config ob1 = c'" and "extras_ok ob1" and "observatory_typed ob1"
proof -
  let ?c = "ob_config ob"
  note r = assms(4) [unfolded restartable_def]
  have path: "cfg_snapshot_path c' = cfg_snapshot_path ?c" and pol: "cfg_policy c' = cfg_policy ?c"
    and agrees: "same_setup c' ?c"
    using assms(7) by (auto simp: successor_def same_setup_def)
  let ?loaded = "read_snapshot version env (last states) (cfg_snapshot_path ?c) (cfg_policy ?c)"
  have ok: "slr_ok ?loaded" "slr_contents ?loaded = (collect_snapshot version ob now)\<lparr>sn_format_version := version\<rparr>"
    using saved_file_loads [OF wf typed assms(3) _ _ _ _ assms(5,6), of env] r assms(8) path by simp_all
  have ob1: "reload_file version env (last states) (new_observatory c') = reload ?loaded (new_observatory c')"
    by (simp add: reload_file_def path pol)
  have c': "cfg_policy (ob_config (new_observatory c')) = cfg_policy ?c" "cfg_snapshot_path (ob_config (new_observatory c')) \<noteq> []"
    "tl_limits (ob_log (new_observatory c')) = pol_limits (cfg_policy ?c)"
    using r by (simp_all add: path pol)
  have saved: "snd (reload ?loaded (new_observatory c')) = status_success" "ob_registry ob1 = ob_registry ob"
    "ob_store ob1 = (ob_store ob)\<lparr>es_fence_counts := []\<rparr>"
    using reload_contents [OF wf c'(1,2) ok] by (simp_all add: ob1_def ob1)
  have rest: "ob_config ob1 = c'" "extras_ok ob1" "log_typed (ob_log ob1)"
    using reload_rest [OF wf typed c'(1,3,2) ok] by (simp_all add: ob1_def ob1)
  have same: "same_evidence ob1 ob" using saved rest(1) agrees by (simp add: same_evidence_def sans_fences_def)
  show "snd (reload_file version env (last states) (new_observatory c')) = status_success" using saved(1) by (simp add: ob1)
  show "same_evidence ob1 ob" and "ob_config ob1 = c'" and "extras_ok ob1" by (fact same rest)+
  show "observatory_typed ob1" by (rule same_evidence_typed [OF same typed rest(3)])
qed

text \<open>
  A database over several runs of the program: batches are applied, and now and then the process
  saves, ends, and a new one with the same policy, families and path is built and reloads. The last argument
  is an observatory that is given the same batches and never restarted.
\<close>

inductive lifetime ::
  "u32 \<Rightarrow> runtime_config \<Rightarrow> file_system \<Rightarrow> observatory \<Rightarrow> observatory \<Rightarrow> bool" for version c where
  first_run: "lifetime version c fs (new_observatory c) (new_observatory c)"
| batch: "lifetime version c fs ob unbroken \<Longrightarrow> list_all input_typed rs
    \<Longrightarrow> lifetime version c fs (apply_batch ob rs) (apply_batch unbroken rs)"
| restart: "lifetime version c fs ob unbroken \<Longrightarrow> in_i64 now
    \<Longrightarrow> persist version faults fs ob now = (states, ob', result) \<Longrightarrow> status_ok (swr_status result)
    \<Longrightarrow> successor c c' \<Longrightarrow> env (cfg_snapshot_path c') = no_read_faults (cfg_snapshot_path c')
    \<Longrightarrow> lifetime version c (last states) (fst (reload_file version env (last states) (new_observatory c'))) unbroken"

text \<open>What ties a process to the observatory that was never restarted.\<close>

definition continues :: "runtime_config \<Rightarrow> observatory \<Rightarrow> observatory \<Rightarrow> bool" where
  "continues c ob unbroken \<longleftrightarrow>
     same_evidence ob unbroken \<and> typed_run c unbroken \<and> successor c (ob_config ob) \<and> extras_ok ob \<and> observatory_typed ob"

lemma extras_new: "extras_ok (new_observatory c)"
  using observatory_wf_new [of c] by (simp add: extras_ok_def observatory_wf_def store_wf_def)

lemma continues_new: "successor c c' \<Longrightarrow> continues c (new_observatory c') (new_observatory c)"
  using typed_run_typed [OF typed_run.start, of c'] typed_run.start [of c] extras_new [of c']
  by (simp add: continues_def same_evidence_def successor_def same_setup_def) (simp add: new_observatory_def)

lemma continues_batch:
  "continues c ob unbroken \<Longrightarrow> list_all input_typed rs \<Longrightarrow> continues c (apply_batch ob rs) (apply_batch unbroken rs)"
  by (simp add: continues_def same_evidence_batch typed_run.batch extras_batch observatory_typed_batch)

lemma continues_wf:
  assumes "continues c ob unbroken"
  shows "observatory_wf ob"
proof -
  have "observatory_wf unbroken"
    using reachable_sound [OF typed_run_reachable] assms by (auto simp: continues_def sound_def)
  with assms show ?thesis by (auto simp: continues_def intro: same_evidence_wf)
qed

lemma continues_restart:
  assumes "continues c ob unbroken" and "restartable version c" and "in_i64 now"
    and "persist version faults fs ob now = (states, ob', result)" and "status_ok (swr_status result)"
    and "successor c c'" and "env (cfg_snapshot_path c') = no_read_faults (cfg_snapshot_path c')"
  shows "snd (reload_file version env (last states) (new_observatory c')) = status_success"
    and "continues c (fst (reload_file version env (last states) (new_observatory c'))) unbroken"
proof -
  note k = assms(1) [unfolded continues_def]
  have "restartable version (ob_config ob)" and "successor (ob_config ob) c'"
    using k assms(2,6) by (auto simp: successor_def same_setup_def restartable_def)
  note r = reload_after_save [where env = env, OF continues_wf [OF assms(1)] _ assms(3) this(1) assms(4,5) this(2) assms(7)]
  show "snd (reload_file version env (last states) (new_observatory c')) = status_success"
    and "continues c (fst (reload_file version env (last states) (new_observatory c'))) unbroken"
    using r k assms(6) by (auto simp: continues_def intro: same_evidence_trans)
qed

lemma lifetime_continues:
  assumes "lifetime version c fs ob unbroken" and "restartable version c"
  shows "continues c ob unbroken"
  using assms(1)
proof induction
  case (first_run fs)
  show ?case by (rule continues_new) (simp add: successor_def same_setup_def)
next
  case (batch fs ob unbroken rs)
  then show ?case by (simp add: continues_batch)
next
  case (restart fs ob unbroken now faults states ob' result c' env)
  then show ?case using continues_restart(2) [OF _ assms(2)] by blast
qed

lemma continues_answers:
  assumes "continues c ob unbroken"
  shows "ob_registry ob = ob_registry unbroken" and "evidence_for ob link key now = evidence_for unbroken link key now"
    and "slot_views ob link now = slot_views unbroken link now"
    and "link_evidence ob link limit now = link_evidence unbroken link limit now"
proof -
  from assms obtain m where "ob_store unbroken = (ob_store ob)\<lparr>es_fence_counts := m\<rparr>"
    and "ob_registry unbroken = ob_registry ob" and "cfg_policy (ob_config unbroken) = cfg_policy (ob_config ob)"
    by (auto simp: continues_def same_evidence_def same_setup_def sans_fences_split)
  then show "ob_registry ob = ob_registry unbroken" and "evidence_for ob link key now = evidence_for unbroken link key now"
    and "slot_views ob link now = slot_views unbroken link now"
    and "link_evidence ob link limit now = link_evidence unbroken link limit now"
    by (simp_all add: evidence_for_def slot_views_def link_evidence_def link_context_def)
qed

section \<open>Main result\<close>


text \<open>An empty observatory is saved, reloaded and goes on with a batch.\<close>

lemma empty_save_succeeds:
  assumes "ob_registry ob = empty_registry p" and "ob_store ob = empty_store p" and "ob_log ob = empty_log l"
    and "cfg_snapshot_path (ob_config ob) = ''s''" and "cfg_policy (ob_config ob) = make_default_policy"
  shows "status_ok (swr_status (snd (snd (persist 1 no_write_faults (\<lambda>q. None) ob now))))"
proof -
  have "length (encode_contents 1 (collect_snapshot 1 ob now)) \<le> 67108864"
    using assms
    by (simp add: encode_contents_def collect_snapshot_def persisted_links_def sources_def
        persisted_slots_def persisted_streams_def empty_registry_def empty_store_def recent_def empty_log_def
        encode_id_def encode_hash_def encode_time_def put_i64_def put_count_def Let_def)
  then show ?thesis
    using assms(4,5)
    by (simp add: persist_def write_snapshot_def Let_def write_file_def no_write_faults_def rotate_and_move_def
        file_exists_def move_into_place_def rename_file_def snapshot_temporary_path_def)
      (simp add: make_default_policy_def default_limits_def)
qed

lemma new_save_succeeds:
  "status_ok (swr_status (snd (snd (persist 1 no_write_faults (\<lambda>q. None) (new_observatory saving_config) 20))))"
  by (rule empty_save_succeeds) (simp_all add: new_observatory_def saving_config_def)


end
