(* ===== verification/Record_Round_Trip.thy ===== *)
theory Record_Round_Trip
  imports Record_Grammar
begin

text \<open>
  Canonical record lines. \<^verbatim>\<open>format_source_record\<close>, \<^verbatim>\<open>format_link_record\<close> and
  \<^verbatim>\<open>format_observation_record\<close> are the inverse of \<^verbatim>\<open>parse_record\<close> on the records that
  parsing admits: each canonical line is first shown to be a join of fields, then each reader
  operation is shown to return the value the field was printed from.
\<close>

section \<open>The records that parsing admits\<close>

definition source_decl_ok :: "source_decl \<Rightarrow> bool" where
  "source_decl_ok d \<longleftrightarrow> is_token (sd_name d) \<and> sd_provenance d \<noteq> PC_Unknown"

definition optional_name_ok :: "string \<Rightarrow> bool" where
  "optional_name_ok t \<longleftrightarrow> t = [] \<or> is_token t"

definition link_decl_ok :: "link_decl \<Rightarrow> bool" where
  "link_decl_ok d \<longleftrightarrow>
     is_token (ld_name d) \<and> is_token (ld_generation d)
     \<and> (ld_capacity_known d \<longleftrightarrow> ld_capacity_in_bps d > 0 \<or> ld_capacity_out_bps d > 0)
     \<and> list_all optional_name_ok
         [ld_local_endpoint d, ld_remote_endpoint d, ld_local_port d, ld_remote_port d]"

definition payload_window_ok :: "metric_payload \<Rightarrow> bool" where
  "payload_window_ok x = (case x of FlapReading f \<Rightarrow> in_i64 (fl_window f) | _ \<Rightarrow> True)"

definition observation_decl_ok :: "policy \<Rightarrow> observation_decl \<Rightarrow> bool" where
  "observation_decl_ok p d \<longleftrightarrow>
     list_all is_token [od_link d, od_source d, od_incarnation d, od_epoch d, od_generation d]
     \<and> in_i64 (od_observed_at d) \<and> in_i64 (od_received_at d)
     \<and> status_ok (validate_reading (od_key d) (od_payload d) p) \<and> payload_window_ok (od_payload d)"

primrec record_ok :: "policy \<Rightarrow> parsed_record \<Rightarrow> bool" where
  "record_ok p NoRecord \<longleftrightarrow> False"
| "record_ok p (SourceRecord d) \<longleftrightarrow> source_decl_ok d"
| "record_ok p (LinkRecord d) \<longleftrightarrow> link_decl_ok d"
| "record_ok p (ObservationRecord d) \<longleftrightarrow> observation_decl_ok p d"

text \<open>The key of an observation is one whose spelling the key parser reads back.\<close>

primrec key_spellable :: "parsed_record \<Rightarrow> bool" where
  "key_spellable NoRecord \<longleftrightarrow> True"
| "key_spellable (SourceRecord d) \<longleftrightarrow> True"
| "key_spellable (LinkRecord d) \<longleftrightarrow> True"
| "key_spellable (ObservationRecord d) \<longleftrightarrow> \<not> class_without_direction (od_key d)"

primrec canonical_line :: "parsed_record \<Rightarrow> string" where
  "canonical_line NoRecord = []"
| "canonical_line (SourceRecord d) = format_source_record d"
| "canonical_line (LinkRecord d) = format_link_record d"
| "canonical_line (ObservationRecord d) = format_observation_record d"

section \<open>The fields of a canonical line\<close>

abbreviation opt_field :: "bool \<Rightarrow> string \<Rightarrow> string \<Rightarrow> (string \<times> string) list" where
  "opt_field b k v \<equiv> (if b then [(k, v)] else [])"

definition source_fields :: "source_decl \<Rightarrow> (string \<times> string) list" where
  "source_fields d =
     [(''v'', to_dec 1), (''kind'', ''source''), (''name'', sd_name d),
      (''authority'', source_authority_to_string (sd_authority d)),
      (''provenance'', provenance_class_to_string (sd_provenance d))]
     @ opt_field (sd_retired d) ''retired'' ''true''"

definition link_fields :: "link_decl \<Rightarrow> (string \<times> string) list" where
  "link_fields d =
     [(''v'', to_dec 1), (''kind'', ''link''), (''name'', ld_name d),
      (''link-kind'', link_kind_to_string (ld_kind d)), (''linkgen'', ld_generation d),
      (''provenance'', provenance_class_to_string (ld_provenance d))]
     @ opt_field (ld_capacity_in_bps d > 0) ''capacity-in-bps'' (to_dec (ld_capacity_in_bps d))
     @ opt_field (ld_capacity_out_bps d > 0) ''capacity-out-bps'' (to_dec (ld_capacity_out_bps d))
     @ opt_field (ld_local_endpoint d \<noteq> []) ''local-endpoint'' (ld_local_endpoint d)
     @ opt_field (ld_remote_endpoint d \<noteq> []) ''remote-endpoint'' (ld_remote_endpoint d)
     @ opt_field (ld_local_port d \<noteq> []) ''local-port'' (ld_local_port d)
     @ opt_field (ld_remote_port d \<noteq> []) ''remote-port'' (ld_remote_port d)"

primrec payload_fields :: "metric_payload \<Rightarrow> (string \<times> string) list" where
  "payload_fields (AdminStateReading v) = [(''value'', admin_state_to_string v)]"
| "payload_fields (OperStateReading v) = [(''value'', oper_state_to_string v)]"
| "payload_fields (CounterReading c) =
     [(''counter'', to_dec (cr_raw c)), (''width'', counter_width_to_string (cr_width c))]
     @ opt_field (cr_reset_declared c) ''reset'' ''true''"
| "payload_fields (RatioReading ppb) = [(''ppb'', to_dec ppb)]"
| "payload_fields (QualityReading q) =
     [(''ppb'', to_dec (qr_value_ppb q))] @ opt_field (qr_degraded_declared q) ''degraded'' ''true''"
| "payload_fields (FlapReading fl) =
     [(''events'', to_dec (fl_events fl)), (''window-ns'', to_dec_i64 (fl_window fl))]"

definition observation_fields :: "observation_decl \<Rightarrow> (string \<times> string) list" where
  "observation_fields d =
     [(''v'', to_dec 1), (''kind'', ''observation''), (''link'', od_link d), (''source'', od_source d),
      (''incarnation'', od_incarnation d), (''epoch'', od_epoch d), (''generation'', od_generation d),
      (''revision'', to_dec (od_revision d)), (''observed-at'', to_dec_i64 (od_observed_at d)),
      (''received-at'', to_dec_i64 (od_received_at d)), (''metric'', metric_key_to_string (od_key d))]
     @ payload_fields (od_payload d)"

lemma tf_of_buffer: "tf_buffer (tf_of sep kvs) = join_fields sep kvs"
  by (simp add: tf_of_def)

lemma format_source_fields: "format_source_record d = join_fields (CHR '' '') (source_fields d)"
  by (simp add: format_source_record_def source_fields_def tf_simps tf_of_buffer Let_def)

lemma format_link_fields: "format_link_record d = join_fields (CHR '' '') (link_fields d)"
  by (simp add: format_link_record_def link_fields_def tf_simps tf_of_buffer Let_def del: if_split)

lemma add_payload_fields:
  "add_payload x (tf_of sep kvs) = tf_of sep (kvs @ payload_fields x)"
  by (cases x) (simp_all add: tf_simps Let_def)

lemma format_observation_fields:
  "format_observation_record d = join_fields (CHR '' '') (observation_fields d)"
  by (simp add: format_observation_record_def observation_fields_def tf_simps add_payload_fields
      tf_of_buffer Let_def)

section \<open>Reading one field\<close>

lemma reader_frame [simp]:
  "fr_fields (fr_use k r) = fr_fields r" "fr_fields (fr_ignore k r) = fr_fields r"
  "fr_has k' (fr_use k r) = fr_has k' r" "fr_has k' (fr_ignore k r) = fr_has k' r"
  by (simp_all add: fr_use_def fr_ignore_def fr_has_def)

lemma ensure_all_used_iff: "ensure_all_used r = Inr () \<longleftrightarrow> (\<forall>k. fr_has k r \<longrightarrow> k \<in> fr_used r)"
proof -
  have "find (\<lambda>field. fst field \<notin> fr_used r) (fr_fields r) = None
      \<longleftrightarrow> (\<forall>k \<in> fst ` set (fr_fields r). k \<in> fr_used r)"
    by (auto simp: find_None_iff)
  then show ?thesis
    by (auto simp: ensure_all_used_def fr_has_def om_get_None_iff failure_def split: option.splits)
qed

lemma fr_has_fold [simp]: "fr_has k (fold fr_ignore ks r) = fr_has k r"
  by (induction ks arbitrary: r) simp_all

lemma fr_ignore_used: "fr_has k r \<Longrightarrow> k \<in> fr_used (fr_ignore a r) \<longleftrightarrow> k = a \<or> k \<in> fr_used r"
  by (auto simp: fr_ignore_def fr_use_def)

lemma fr_used_fold:
  "fr_has k r \<Longrightarrow> k \<in> fr_used (fold fr_ignore ks r) \<longleftrightarrow> k \<in> set ks \<or> k \<in> fr_used r"
  by (induction ks arbitrary: r) (auto simp: fr_ignore_used)

text \<open>Once every key that may be present was read, no field is left over.\<close>

lemma ensure_all_used_fold:
  "(\<And>k. fr_has k r \<Longrightarrow> k \<in> fr_used r \<union> set ks) \<Longrightarrow> ensure_all_used (fold fr_ignore ks r) = Inr ()"
  by (auto simp: ensure_all_used_iff fr_used_fold)

text \<open>
  Reading a field marks it, exactly as \<^verbatim>\<open>ignore\<close> does; an absent optional field is marked by
  neither.
\<close>

lemma fr_use_present: "om_get (fr_fields r) k = Some t \<Longrightarrow> fr_use k r = fr_ignore k r"
  by (simp add: fr_ignore_def fr_has_def)

lemma required_token_read:
  "om_get (fr_fields r) k = Some t \<Longrightarrow> is_token t \<Longrightarrow> required_token k r = Inr (t, fr_ignore k r)"
  by (simp add: required_token_def fr_use_present)

lemma required_enum_read:
  "om_get (fr_fields r) k = Some t \<Longrightarrow> is_token t \<Longrightarrow> parse t = Some v \<Longrightarrow>
     required_enum k parse unknown r = Inr (v, fr_ignore k r)"
  by (simp add: required_enum_def required_token_read)

lemma required_text_read:
  "om_get (fr_fields r) k = Some t \<Longrightarrow> t \<noteq> [] \<Longrightarrow> length t \<le> n \<Longrightarrow>
     required_text k n r = Inr (t, fr_ignore k r)"
  by (simp add: required_text_def fr_use_present)

lemma required_u64_read:
  "om_get (fr_fields r) k = Some (to_dec v) \<Longrightarrow> required_u64 k r = Inr (v, fr_ignore k r)"
  by (simp add: required_u64_def fr_use_present parse_u64_dec_to_dec)

lemma required_i64_read:
  "om_get (fr_fields r) k = Some (to_dec_i64 v) \<Longrightarrow> in_i64 v \<Longrightarrow> required_i64 k r = Inr (v, fr_ignore k r)"
  by (simp add: required_i64_def fr_use_present parse_i64_dec_to_dec)

lemma optional_u64_read:
  "om_get (fr_fields r) k = (if v > 0 then Some (to_dec v) else None) \<Longrightarrow>
     optional_u64 k 0 r = Inr (v, fr_ignore k r)"
  by (auto simp: optional_u64_def fr_has_def fr_ignore_def required_u64_read word_gt_0 split: if_splits)

lemma optional_token_read:
  "om_get (fr_fields r) k = (if t \<noteq> [] then Some t else None) \<Longrightarrow> optional_name_ok t \<Longrightarrow>
     optional_token k r = Inr (t, fr_ignore k r)"
  by (auto simp: optional_token_def fr_has_def fr_ignore_def required_token_read optional_name_ok_def
      split: if_splits)

lemma optional_bool_read:
  "om_get (fr_fields r) k = (if b then Some ''true'' else None) \<Longrightarrow>
     optional_bool k False r = Inr (b, fr_ignore k r)"
  by (auto simp: optional_bool_def fr_has_def fr_ignore_def split: if_splits)

lemmas field_reads =
  required_token_read required_enum_read required_text_read required_u64_read required_i64_read
  optional_u64_read optional_token_read optional_bool_read

lemma lookup_opt_field:
  "map_of (opt_field b k v @ kvs) x = (if b \<and> x = k then Some v else map_of kvs x)"
  "map_of (opt_field b k v) x = (if b \<and> x = k then Some v else None)"
  by simp_all

section \<open>A canonical line is read back\<close>

text \<open>The keys and values of canonical lines travel unharmed.\<close>

lemma key_text_ok:
  "plain (metric_key_to_string k) \<and> metric_key_to_string k \<noteq> [] \<and> length (metric_key_to_string k) \<le> 64"
proof -
  obtain f d e where k: "k = MetricKey f d e" by (cases k)
  have f: "is_ascii_printable (metric_family_to_string f) \<and> CHR '' '' \<notin> set (metric_family_to_string f)
      \<and> length (metric_family_to_string f) \<le> 20" by (cases f; hypsubst; code_simp)
  have d: "is_ascii_printable (direction_to_string d) \<and> CHR '' '' \<notin> set (direction_to_string d)
      \<and> length (direction_to_string d) \<le> 20" by (cases d; hypsubst; code_simp)
  have e: "is_ascii_printable (error_class_to_string e) \<and> CHR '' '' \<notin> set (error_class_to_string e)
      \<and> length (error_class_to_string e) \<le> 20" by (cases e; hypsubst; code_simp)
  have sep: "is_ascii_printable (CHR ''/'' # t) = is_ascii_printable t" for t
    by (simp add: is_ascii_printable_def)
  have nil: "is_ascii_printable []" by (simp add: is_ascii_printable_def)
  have "metric_key_to_string k \<noteq> []" by (simp add: k metric_key_to_string_def family_token)
  moreover have "is_ascii_printable (metric_key_to_string k)" and "CHR '' '' \<notin> set (metric_key_to_string k)"
    and "length (metric_key_to_string k) \<le> 64"
    using f d e by (simp_all add: k metric_key_to_string_def plain_append sep nil)
  ultimately show ?thesis by (simp add: plain_def kMaxValueLength_def)
qed

lemma plain_words [simp]: "plain ''source''" "plain ''link''" "plain ''observation''" "plain ''true''"
  by code_simp+

definition fields_ok :: "(string \<times> string) list \<Rightarrow> bool" where
  "fields_ok kvs \<longleftrightarrow> list_all field_ok kvs \<and> distinct (map fst kvs) \<and> length kvs \<le> kMaxFields"

lemma source_fields_ok: "source_decl_ok d \<Longrightarrow> fields_ok (source_fields d)"
  by (simp add: source_fields_def source_decl_ok_def fields_ok_def field_ok_def is_token_plain
      kMaxKeyLength_def kMaxFields_def is_ascii_printable_def)

lemma optional_name_plain: "optional_name_ok t \<Longrightarrow> t \<noteq> [] \<Longrightarrow> plain t"
  by (simp add: optional_name_ok_def is_token_plain)

lemma link_fields_ok:
  assumes "link_decl_ok d"
  shows "fields_ok (link_fields d)"
proof -
  have "list_all field_ok (link_fields d)"
    using assms
    by (auto simp: link_fields_def link_decl_ok_def field_ok_def is_token_plain optional_name_plain
        kMaxKeyLength_def is_ascii_printable_def)
  moreover have "distinct (map fst (link_fields d))" by (simp add: link_fields_def)
  moreover have "length (link_fields d) \<le> kMaxFields" by (simp add: link_fields_def kMaxFields_def)
  ultimately show ?thesis by (simp add: fields_ok_def)
qed

lemma payload_fields_ok:
  "list_all field_ok (payload_fields x) \<and> distinct (map fst (payload_fields x)) \<and> length (payload_fields x) \<le> 3
   \<and> fst ` set (payload_fields x) \<subseteq>
       {''value'', ''counter'', ''width'', ''reset'', ''ppb'', ''degraded'', ''events'', ''window-ns''}"
  by (cases x)
    (simp_all add: field_ok_def is_token_plain kMaxKeyLength_def is_ascii_printable_def)

lemma observation_fields_ok:
  assumes "observation_decl_ok p d"
  shows "fields_ok (observation_fields d)"
proof -
  note pf = payload_fields_ok [of "od_payload d"]
  have "list_all field_ok (observation_fields d)"
    using assms pf
    by (simp add: observation_fields_def observation_decl_ok_def field_ok_def [of "(_, _)"] is_token_plain
        key_text_ok kMaxKeyLength_def is_ascii_printable_def)
  moreover have "distinct (map fst (observation_fields d))"
    using pf by (auto simp: observation_fields_def)
  moreover have "length (observation_fields d) \<le> kMaxFields"
    using pf by (simp add: observation_fields_def kMaxFields_def)
  ultimately show ?thesis by (simp add: fields_ok_def)
qed

text \<open>The common part of every line: the version, then the kind.\<close>

definition reader_of :: "(string \<times> string) list \<Rightarrow> field_reader" where
  "reader_of kvs = fr_ignore ''kind'' (fr_ignore ''v'' \<lparr>fr_fields = put_fields kvs [], fr_used = {}\<rparr>)"

lemma reader_of_get:
  "fields_ok kvs \<Longrightarrow> om_get (fr_fields (reader_of kvs)) k = map_of kvs k"
  by (simp add: reader_of_def put_fields_get fields_ok_def split: option.splits)

lemma reader_of_has: "fr_has k (reader_of kvs) \<longleftrightarrow> k \<in> fst ` set kvs"
  using put_fields_keys [of kvs "[]"] by (simp add: reader_of_def fr_has_def om_get_None_iff)

lemma reader_of_used: "k \<in> {''v'', ''kind''} \<Longrightarrow> fr_has k (reader_of kvs) \<Longrightarrow> k \<in> fr_used (reader_of kvs)"
  by (auto simp: reader_of_def fr_ignore_used)

lemma no_field_left:
  "fst ` set kvs \<subseteq> {''v'', ''kind''} \<union> set ks \<Longrightarrow> ensure_all_used (fold fr_ignore ks (reader_of kvs)) = Inr ()"
proof (rule ensure_all_used_fold)
  fix k assume sub: "fst ` set kvs \<subseteq> {''v'', ''kind''} \<union> set ks" and k: "fr_has k (reader_of kvs)"
  then have "k \<in> {''v'', ''kind''} \<or> k \<in> set ks" by (auto simp: reader_of_has)
  then show "k \<in> fr_used (reader_of kvs) \<union> set ks" using reader_of_used [OF _ k] by blast
qed

lemma parse_record_line:
  assumes "fields_ok kvs" and "kvs = (''v'', to_dec 1) # (''kind'', kind) # rest" and "is_token kind"
    and "length (join_fields (CHR '' '') kvs) \<le> unat (max_record_bytes (pol_limits p))"
  shows "parse_record (join_fields (CHR '' '') kvs) p =
     (if kind = ''source'' then parse_source_record (reader_of kvs)
      else if kind = ''link'' then parse_link_record (reader_of kvs)
      else if kind = ''observation'' then parse_observation_record p (reader_of kvs)
      else failure SC_Unsupported ''unknown record kind'')"
proof -
  have kvs: "kvs \<noteq> []" and ok: "list_all field_ok kvs" "distinct (map fst kvs)" "length kvs \<le> kMaxFields"
    using assms(1,2) by (simp_all add: fields_ok_def)
  note line = parse_fields_line [OF kvs ok]
  have "hd (join_fields (CHR '' '') kvs) = CHR ''v''" using line(4) assms(2) by simp
  moreover have "om_get (put_fields kvs []) ''v'' = Some (to_dec 1)"
    and "om_get (put_fields kvs []) ''kind'' = Some kind"
    by (simp_all only: put_fields_get [OF ok(2)]) (simp_all add: assms(2))
  ultimately show ?thesis
    using line(1-3) assms(3,4)
    by (simp add: parse_record_def required_u64_read required_token_read kRecordVersion_def reader_of_def)
qed

lemma source_line_read_back:
  assumes "source_decl_ok d"
  shows "parse_source_record (reader_of (source_fields d)) = Inr (SourceRecord d)"
proof -
  note fok = source_fields_ok [OF assms]
  let ?r = "reader_of (source_fields d)"
  have get: "om_get (fr_fields ?r) ''name'' = Some (sd_name d)"
    "om_get (fr_fields ?r) ''authority'' = Some (source_authority_to_string (sd_authority d))"
    "om_get (fr_fields ?r) ''provenance'' = Some (provenance_class_to_string (sd_provenance d))"
    "om_get (fr_fields ?r) ''retired'' = (if sd_retired d then Some ''true'' else None)"
    by (simp_all add: reader_of_get [OF fok]) (simp_all add: source_fields_def)
  have "fst ` set (source_fields d) \<subseteq> {''v'', ''kind''} \<union> set [''name'', ''authority'', ''provenance'', ''retired'']"
    by (auto simp: source_fields_def)
  from no_field_left [OF this]
  have "ensure_all_used (fold fr_ignore [''name'', ''authority'', ''provenance'', ''retired''] ?r) = Inr ()" .
  then show ?thesis
    using assms
    by (simp add: parse_source_record_def field_reads get source_decl_ok_def source_authority_sp.read_spell
        provenance_class_sp.read_spell)
qed

lemma link_line_read_back:
  assumes "link_decl_ok d"
  shows "parse_link_record (reader_of (link_fields d)) = Inr (LinkRecord d)"
proof -
  note fok = link_fields_ok [OF assms]
  let ?r = "reader_of (link_fields d)"
  have get: "om_get (fr_fields ?r) ''name'' = Some (ld_name d)"
    "om_get (fr_fields ?r) ''link-kind'' = Some (link_kind_to_string (ld_kind d))"
    "om_get (fr_fields ?r) ''linkgen'' = Some (ld_generation d)"
    "om_get (fr_fields ?r) ''provenance'' = Some (provenance_class_to_string (ld_provenance d))"
    "om_get (fr_fields ?r) ''capacity-in-bps'' =
       (if ld_capacity_in_bps d > 0 then Some (to_dec (ld_capacity_in_bps d)) else None)"
    "om_get (fr_fields ?r) ''capacity-out-bps'' =
       (if ld_capacity_out_bps d > 0 then Some (to_dec (ld_capacity_out_bps d)) else None)"
    "om_get (fr_fields ?r) ''local-endpoint'' = (if ld_local_endpoint d \<noteq> [] then Some (ld_local_endpoint d) else None)"
    "om_get (fr_fields ?r) ''remote-endpoint'' = (if ld_remote_endpoint d \<noteq> [] then Some (ld_remote_endpoint d) else None)"
    "om_get (fr_fields ?r) ''local-port'' = (if ld_local_port d \<noteq> [] then Some (ld_local_port d) else None)"
    "om_get (fr_fields ?r) ''remote-port'' = (if ld_remote_port d \<noteq> [] then Some (ld_remote_port d) else None)"
    unfolding reader_of_get [OF fok] by (simp_all add: link_fields_def lookup_opt_field del: if_split)
  let ?ks = "[''name'', ''link-kind'', ''linkgen'', ''provenance'', ''capacity-in-bps'',
      ''capacity-out-bps'', ''local-endpoint'', ''remote-endpoint'', ''local-port'', ''remote-port'']"
  have "fst ` set (link_fields d) \<subseteq> {''v'', ''kind''} \<union> set ?ks"
    by (auto simp: link_fields_def)
  from no_field_left [OF this] have "ensure_all_used (fold fr_ignore ?ks ?r) = Inr ()" .
  then show ?thesis
    using assms
    by (simp add: parse_link_record_def field_reads get link_decl_ok_def link_kind_sp.read_spell
        provenance_class_sp.read_spell del: if_split)
qed

primrec payload_keys :: "metric_payload \<Rightarrow> string list" where
  "payload_keys (AdminStateReading v) = [''value'']"
| "payload_keys (OperStateReading v) = [''value'']"
| "payload_keys (CounterReading c) = [''counter'', ''width'', ''reset'']"
| "payload_keys (RatioReading ppb) = [''ppb'']"
| "payload_keys (QualityReading q) = [''ppb'', ''degraded'']"
| "payload_keys (FlapReading f) = [''events'', ''window-ns'']"

lemma payload_fields_keys: "fst ` set (payload_fields x) \<subseteq> set (payload_keys x)"
  by (cases x) auto

lemma parse_payload_read_back:
  assumes "payload_matches_family f x" and "payload_window_ok x"
    and "\<And>k. k \<in> set (payload_keys x) \<Longrightarrow> om_get (fr_fields r) k = map_of (payload_fields x) k"
  shows "parse_payload f r = Inr (x, fold fr_ignore (payload_keys x) r)"
proof (cases x)
  case (CounterReading c)
  then have octets: "parse_payload f r = parse_payload MF_Octets r"
    using assms(1) by (cases f) (simp_all add: payload_matches_family_def parse_payload_def)
  have get: "om_get (fr_fields r) ''counter'' = Some (to_dec (cr_raw c))"
    "om_get (fr_fields r) ''width'' = Some (counter_width_to_string (cr_width c))"
    "om_get (fr_fields r) ''reset'' = (if cr_reset_declared c then Some ''true'' else None)"
    using assms(3) CounterReading by simp_all
  show ?thesis
    unfolding octets by (simp add: CounterReading parse_payload_def field_reads get counter_width_sp.read_spell)
next
  case (QualityReading q)
  then have f: "f = MF_SignalQuality" using assms(1) by (cases f) (simp_all add: payload_matches_family_def)
  have get: "om_get (fr_fields r) ''ppb'' = Some (to_dec (qr_value_ppb q))"
    "om_get (fr_fields r) ''degraded'' = (if qr_degraded_declared q then Some ''true'' else None)"
    using assms(3) QualityReading by simp_all
  show ?thesis by (simp add: f QualityReading parse_payload_def field_reads get)
qed (use assms in \<open>(cases f; simp add: payload_matches_family_def parse_payload_def field_reads
    payload_window_ok_def parse_admin_state_roundtrip parse_oper_state_roundtrip)+\<close>)

lemma payload_keys_own:
  "set (payload_keys x) \<inter> {''v'', ''kind'', ''link'', ''source'', ''incarnation'', ''epoch'', ''generation'',
     ''revision'', ''observed-at'', ''received-at'', ''metric''} = {}"
  by (cases x) simp_all

lemma observation_line_read_back:
  assumes "observation_decl_ok p d" and "\<not> class_without_direction (od_key d)"
  shows "parse_observation_record p (reader_of (observation_fields d)) = Inr (ObservationRecord d)"
proof -
  note fok = observation_fields_ok [OF assms(1)]
  let ?r = "reader_of (observation_fields d)"
  have get: "om_get (fr_fields ?r) ''link'' = Some (od_link d)"
    "om_get (fr_fields ?r) ''source'' = Some (od_source d)"
    "om_get (fr_fields ?r) ''incarnation'' = Some (od_incarnation d)"
    "om_get (fr_fields ?r) ''epoch'' = Some (od_epoch d)"
    "om_get (fr_fields ?r) ''generation'' = Some (od_generation d)"
    "om_get (fr_fields ?r) ''revision'' = Some (to_dec (od_revision d))"
    "om_get (fr_fields ?r) ''observed-at'' = Some (to_dec_i64 (od_observed_at d))"
    "om_get (fr_fields ?r) ''received-at'' = Some (to_dec_i64 (od_received_at d))"
    "om_get (fr_fields ?r) ''metric'' = Some (metric_key_to_string (od_key d))"
    unfolding reader_of_get [OF fok] by (simp_all add: observation_fields_def)
  have pay: "om_get (fr_fields ?r) k = map_of (payload_fields (od_payload d)) k"
    if "k \<in> set (payload_keys (od_payload d))" for k
    unfolding reader_of_get [OF fok] using that payload_keys_own [of "od_payload d"]
    by (simp add: observation_fields_def disjoint_iff)
  let ?base = "[''link'', ''source'', ''incarnation'', ''epoch'', ''generation'', ''revision'',
      ''observed-at'', ''received-at'', ''metric'']"
  have "fst ` set (observation_fields d) \<subseteq> {''v'', ''kind''} \<union> set (?base @ payload_keys (od_payload d))"
    using payload_fields_keys [of "od_payload d"] by (auto simp: observation_fields_def)
  from no_field_left [OF this]
  have left: "ensure_all_used (fold fr_ignore (payload_keys (od_payload d)) (fold fr_ignore ?base ?r)) = Inr ()"
    by simp
  have key: "metric_key_parse (metric_key_to_string (od_key d)) = Inr (od_key d)"
    using assms by (intro metric_key_roundtrip) (auto simp: observation_decl_ok_def validate_reading_admissible)
  have payload: "parse_payload (key_family (od_key d)) (fold fr_ignore ?base ?r)
      = Inr (od_payload d, fold fr_ignore (payload_keys (od_payload d)) (fold fr_ignore ?base ?r))"
    using assms(1) pay
    by (intro parse_payload_read_back) (auto simp: observation_decl_ok_def validate_reading_matches)
  show ?thesis
    using assms(1) left payload
    by (simp add: parse_observation_record_def field_reads get key key_text_ok observation_decl_ok_def Let_def)
qed

lemma canonical_line_read_back:
  assumes "record_ok p r" and "key_spellable r"
    and "length (canonical_line r) \<le> unat (max_record_bytes (pol_limits p))"
  shows "parse_record (canonical_line r) p = Inr r"
proof (cases r)
  case NoRecord
  with assms show ?thesis by simp
next
  case (SourceRecord d)
  then have ok: "source_decl_ok d" using assms by simp
  have tok: "is_token ''source''" by code_simp
  have head: "source_fields d = (''v'', to_dec 1) # (''kind'', ''source'') # tl (tl (source_fields d))"
    by (simp add: source_fields_def)
  show ?thesis
    using parse_record_line [OF source_fields_ok [OF ok] head tok, of p] assms(3) source_line_read_back [OF ok]
    by (simp add: SourceRecord format_source_fields)
next
  case (LinkRecord d)
  then have ok: "link_decl_ok d" using assms by simp
  have tok: "is_token ''link''" by code_simp
  have head: "link_fields d = (''v'', to_dec 1) # (''kind'', ''link'') # tl (tl (link_fields d))"
    by (simp add: link_fields_def)
  show ?thesis
    using parse_record_line [OF link_fields_ok [OF ok] head tok, of p] assms(3) link_line_read_back [OF ok]
    by (simp add: LinkRecord format_link_fields)
next
  case (ObservationRecord d)
  then have ok: "observation_decl_ok p d" "\<not> class_without_direction (od_key d)" using assms by simp_all
  have tok: "is_token ''observation''" by code_simp
  have head: "observation_fields d = (''v'', to_dec 1) # (''kind'', ''observation'') # tl (tl (observation_fields d))"
    by (simp add: observation_fields_def)
  show ?thesis
    using parse_record_line [OF observation_fields_ok [OF ok(1)] head tok, of p] assms(3)
      observation_line_read_back [OF ok]
    by (simp add: ObservationRecord format_observation_fields)
qed

section \<open>What a line parses to is admissible\<close>

lemma parse_i64_dec_range: "parse_i64_dec t = Some v \<Longrightarrow> in_i64 v"
proof -
  assume v: "parse_i64_dec t = Some v"
  have range: "in_i64 (- uint m)" "m \<le> 9223372036854775807 \<Longrightarrow> in_i64 (uint m)"
    if "m \<le> 9223372036854775808" for m :: u64
  proof -
    have lo: "0 \<le> uint m" and hi: "uint m \<le> 9223372036854775808" using that by (simp_all add: word_le_def)
    then show "in_i64 (- uint m)" unfolding in_i64_def by linarith
    assume "m \<le> 9223372036854775807"
    then have "uint m \<le> 9223372036854775807" by (simp add: word_le_def)
    with lo show "in_i64 (uint m)" unfolding in_i64_def by linarith
  qed
  have wide: "m \<le> 9223372036854775807 \<Longrightarrow> m \<le> 9223372036854775808" for m :: u64
    by (rule order_trans [of _ 9223372036854775807]) (simp_all add: word_le_def)
  have low: "in_i64 i64_min" by (simp add: in_i64_def)
  from v low show "in_i64 v"
    by (auto simp: parse_i64_dec_def Let_def range wide not_less split: if_splits option.splits)
qed

lemma required_token_sound: "required_token k r = Inr (t, r') \<Longrightarrow> is_token t"
  by (auto simp: required_token_def missing_field_def bad_field_def split: option.splits if_splits)

lemma required_i64_sound: "required_i64 k r = Inr (v, r') \<Longrightarrow> in_i64 v"
  by (auto simp: required_i64_def missing_field_def bad_field_def parse_i64_dec_range split: option.splits)

lemma optional_token_sound: "optional_token k r = Inr (t, r') \<Longrightarrow> optional_name_ok t"
  by (auto simp: optional_token_def optional_name_ok_def required_token_sound split: if_splits)

lemmas field_sound = required_token_sound required_i64_sound optional_token_sound

lemma parse_payload_sound: "parse_payload f r = Inr (x, r') \<Longrightarrow> payload_window_ok x"
  by (cases f) (auto simp: parse_payload_def res_bind_Inr_iff payload_window_ok_def field_sound)

lemma parse_source_sound: "parse_source_record r = Inr rec \<Longrightarrow> record_ok p rec"
  by (auto simp: parse_source_record_def res_bind_Inr_iff source_decl_ok_def field_sound split: if_splits)

lemma parse_link_sound: "parse_link_record r = Inr rec \<Longrightarrow> record_ok p rec"
  by (auto simp: parse_link_record_def res_bind_Inr_iff link_decl_ok_def field_sound)

lemma parse_observation_sound: "parse_observation_record p r = Inr rec \<Longrightarrow> record_ok p rec"
  by (auto simp: parse_observation_record_def res_bind_Inr_iff observation_decl_ok_def field_sound
      parse_payload_sound Let_def split: if_splits)

text \<open>Reading never marks another field, so a field outside the grammar of the record is left over.\<close>

definition read_step :: "string list \<Rightarrow> field_reader \<Rightarrow> field_reader \<Rightarrow> bool" where
  "read_step ks r r' \<longleftrightarrow> fr_fields r' = fr_fields r \<and> fr_used r' \<subseteq> fr_used r \<union> set ks"

lemma read_step_trans: "read_step ks r r' \<Longrightarrow> read_step ks' r' r'' \<Longrightarrow> read_step (ks @ ks') r r''"
  by (auto simp: read_step_def)

lemma read_step_use: "read_step [k] r (fr_use k r)" "read_step [k] r r"
  by (auto simp: read_step_def fr_use_def)

lemma field_steps:
  "required_token k r = Inr (t, r') \<Longrightarrow> read_step [k] r r'"
  "required_enum k parse unknown r = Inr (e, r') \<Longrightarrow> read_step [k] r r'"
  "required_text k n r = Inr (t, r') \<Longrightarrow> read_step [k] r r'"
  "required_u64 k r = Inr (v, r') \<Longrightarrow> read_step [k] r r'"
  "required_i64 k r = Inr (w, r') \<Longrightarrow> read_step [k] r r'"
  "optional_u64 k u r = Inr (v, r') \<Longrightarrow> read_step [k] r r'"
  "optional_token k r = Inr (t, r') \<Longrightarrow> read_step [k] r r'"
  "optional_bool k c r = Inr (b, r') \<Longrightarrow> read_step [k] r r'"
  by (auto simp: required_token_def required_enum_def required_text_def required_u64_def required_i64_def
      optional_u64_def optional_token_def optional_bool_def missing_field_def bad_field_def res_bind_Inr_iff
      read_step_use split: option.splits if_splits)

primrec record_keys :: "parsed_record \<Rightarrow> string list" where
  "record_keys NoRecord = []"
| "record_keys (SourceRecord d) = [''name'', ''authority'', ''provenance'', ''retired'']"
| "record_keys (LinkRecord d) =
     [''name'', ''link-kind'', ''linkgen'', ''provenance'', ''capacity-in-bps'', ''capacity-out-bps'',
      ''local-endpoint'', ''remote-endpoint'', ''local-port'', ''remote-port'']"
| "record_keys (ObservationRecord d) =
     [''link'', ''source'', ''incarnation'', ''epoch'', ''generation'', ''revision'', ''observed-at'',
      ''received-at'', ''metric''] @ payload_keys (od_payload d)"

lemma parse_payload_step: "parse_payload f r = Inr (x, r') \<Longrightarrow> read_step (payload_keys x) r r'"
  by (cases f)
    (auto simp: parse_payload_def res_bind_Inr_iff dest!: field_steps
      dest: read_step_trans [OF read_step_trans] read_step_trans)

definition only_keys :: "field_reader \<Rightarrow> string list \<Rightarrow> bool" where
  "only_keys r ks \<longleftrightarrow> (\<forall>k. fr_has k r \<longrightarrow> k \<in> fr_used r \<union> set ks)"

lemma only_keys_start: "ensure_all_used r = Inr u \<Longrightarrow> only_keys r []"
  by (cases u) (simp add: ensure_all_used_iff only_keys_def)

lemma only_keys_step: "read_step [k] r r' \<Longrightarrow> only_keys r' ks \<Longrightarrow> only_keys r (k # ks)"
  by (auto simp: only_keys_def read_step_def fr_has_def)

lemma only_keys_last: "read_step ks r r' \<Longrightarrow> only_keys r' [] \<Longrightarrow> only_keys r ks"
  by (auto simp: only_keys_def read_step_def fr_has_def)

lemma parse_source_keys: "parse_source_record r = Inr rec \<Longrightarrow> only_keys r (record_keys rec)"
  by (auto simp: parse_source_record_def res_bind_Inr_iff split: if_splits
      dest!: field_steps only_keys_start) ((rule only_keys_step, assumption)+, assumption)

lemma parse_link_keys: "parse_link_record r = Inr rec \<Longrightarrow> only_keys r (record_keys rec)"
  by (auto simp: parse_link_record_def res_bind_Inr_iff
      dest!: field_steps only_keys_start) ((rule only_keys_step, assumption)+, assumption)

lemma parse_observation_keys: "parse_observation_record p r = Inr rec \<Longrightarrow> only_keys r (record_keys rec)"
  by (auto simp: parse_observation_record_def res_bind_Inr_iff Let_def split: if_splits
      dest!: field_steps only_keys_start parse_payload_step)
    ((rule only_keys_step, assumption)+, rule only_keys_last)

lemma parse_record_keys:
  assumes "parse_record line p = Inr r"
  shows "\<exists>fs. parse_fields (trim_ascii line) = Inr fs \<and> fst ` set fs \<subseteq> {''v'', ''kind''} \<union> set (record_keys r)"
proof -
  from assms obtain fs r1 r2 t where fs: "parse_fields (trim_ascii line) = Inr fs"
    and v: "required_u64 ''v'' \<lparr>fr_fields = fs, fr_used = {}\<rparr> = Inr (kRecordVersion, r1)"
    and kind: "required_token ''kind'' r1 = Inr (t, r2)" and rest: "only_keys r2 (record_keys r)"
    by (auto simp: parse_record_def Let_def res_bind_Inr_iff split: if_splits
        dest: parse_source_keys parse_link_keys parse_observation_keys)
  have "only_keys \<lparr>fr_fields = fs, fr_used = {}\<rparr> (''v'' # ''kind'' # record_keys r)"
    using field_steps(4) [OF v] field_steps(1) [OF kind] rest by (blast intro: only_keys_step)
  then show ?thesis using fs by (auto simp: only_keys_def fr_has_def om_get_None_iff)
qed

lemma parse_record_sound:
  assumes "parse_record line p = Inr r"
  shows "record_ok p r \<and> length (trim_ascii line) \<le> unat (max_record_bytes (pol_limits p))"
  using assms
  by (auto simp: parse_record_def Let_def res_bind_Inr_iff split: if_splits
      intro: parse_source_sound parse_link_sound parse_observation_sound)

section \<open>Main results\<close>


definition example_observation :: observation_decl where
  "example_observation =
     \<lparr>od_link = ''spine-1:leaf-2'', od_source = ''probe-a'', od_incarnation = ''i1'', od_epoch = ''e1'',
      od_generation = ''g1'', od_revision = 18446744073709551615, od_observed_at = - 5, od_received_at = 7,
      od_key = MetricKey MF_Errors Dir_In EC_Crc,
      od_payload = CounterReading \<lparr>cr_raw = 4294967295, cr_width = CW_Bits32, cr_reset_declared = True\<rparr>\<rparr>"


text \<open>
  C32: what a line parses to is admissible. An accepted line is within the record bound, every name in
  the record is a token, times are 64-bit, a source declares a provenance, capacity is known exactly
  when one is given, and the reading passed \<^verbatim>\<open>validate_reading\<close>. No field of the line is
  silently ignored: every one belongs to the grammar of the record it parsed to.
\<close>

theorem accepted_line_is_admissible:
  assumes "parse_record line p = Inr r"
  shows "record_ok p r \<and> length (trim_ascii line) \<le> unat (max_record_bytes (pol_limits p))
    \<and> (\<exists>fs. parse_fields (trim_ascii line) = Inr fs \<and> fst ` set fs \<subseteq> {''v'', ''kind''} \<union> set (record_keys r))"
  using parse_record_sound [OF assms] parse_record_keys [OF assms] by blast

theorem accepted_line_is_admissible_witness:
  "record_ok make_default_policy (SourceRecord \<lparr>sd_name = ''a'', sd_authority = SA_Primary,
       sd_provenance = PC_Real, sd_retired = False\<rparr>)"
proof -
  have "parse_record '' kind=source v=1 provenance=real authority=primary name=a'' make_default_policy
      = Inr (SourceRecord \<lparr>sd_name = ''a'', sd_authority = SA_Primary,
       sd_provenance = PC_Real, sd_retired = False\<rparr>)" by code_simp
  from accepted_line_is_admissible [OF this] show ?thesis by blast
qed

text \<open>
  The restriction on the metric key is needed: an accepted line may name an error class after the
  direction \<^verbatim>\<open>unknown\<close>, and the canonical line of the record it yields is refused.
\<close>

definition undirected_class_line :: string where
  "undirected_class_line =
     ''v=1 kind=observation link=l source=s incarnation=i epoch=e generation=g revision=1 observed-at=0 received-at=0 metric=errors/unknown/crc counter=0 width=bits64''"

lemma undirected_class_line_not_stable:
  "\<exists>r. parse_record undirected_class_line make_default_policy = Inr r
     \<and> parse_record (canonical_line r) make_default_policy
         = failure SC_Unsupported ''unknown metric direction''"
proof (intro exI conjI)
  let ?r = "ObservationRecord \<lparr>od_link = ''l'', od_source = ''s'', od_incarnation = ''i'', od_epoch = ''e'',
      od_generation = ''g'', od_revision = 1, od_observed_at = 0, od_received_at = 0,
      od_key = MetricKey MF_Errors Dir_Unknown EC_Crc,
      od_payload = CounterReading \<lparr>cr_raw = 0, cr_width = CW_Bits64, cr_reset_declared = False\<rparr>\<rparr>"
  show "parse_record undirected_class_line make_default_policy = Inr ?r" by code_simp
  show "parse_record (canonical_line ?r) make_default_policy = failure SC_Unsupported ''unknown metric direction''"
    by code_simp
qed

end
