(* ===== verification/Batch_Codec.thy ===== *)
theory Batch_Codec
  imports Record_Round_Trip
begin

text \<open>
  Batches of record lines (\<^verbatim>\<open>include/linkobs/ingest/codec.hpp\<close>, \<^verbatim>\<open>src/ingest/codec.cpp\<close>): the
  text is cut at newlines, every line that is neither blank nor a comment is parsed, a refused line
  is counted and described, and the number of records is bounded. The main results say that no line
  is lost or counted twice, and that a batch of canonical lines is read back.
\<close>

section \<open>Batches\<close>

text \<open>
  The completion callback of a batch is named by a number; \<open>None\<close> is the empty
  \<^verbatim>\<open>std::function\<close>. Counts of lines never exceed the length of the text, so they are kept as
  natural numbers.
\<close>

record batch =
  bt_records :: "parsed_record list"
  bt_lines_scanned :: nat
  bt_on_applied :: "nat option"

definition empty_batch :: batch where
  "empty_batch = \<lparr>bt_records = [], bt_lines_scanned = 0, bt_on_applied = None\<rparr>"

record parse_outcome =
  po_status :: status
  po_batch :: batch
  po_errors :: "string list"
  po_rejected :: nat
  po_ignored_lines :: nat

definition empty_parse_outcome :: parse_outcome where
  "empty_parse_outcome = \<lparr>po_status = status_success, po_batch = empty_batch, po_errors = [], po_rejected = 0,
     po_ignored_lines = 0\<rparr>"

definition kMaxReportedErrors :: nat where "kMaxReportedErrors = 32"

section \<open>Parsing\<close>

lemma tl_dropWhile_shorter [simp]: "t \<noteq> [] \<Longrightarrow> length (tl (dropWhile P t)) < length t"
proof -
  assume "t \<noteq> []"
  then have "0 < length t" by simp
  with length_dropWhile_le [of P t] show ?thesis unfolding length_tl by linarith
qed

definition reject_line :: "nat \<Rightarrow> status \<Rightarrow> parse_outcome \<Rightarrow> parse_outcome" where
  "reject_line line_number s outcome =
     outcome\<lparr>po_rejected := po_rejected outcome + 1,
             po_errors :=
               (if length (po_errors outcome) < kMaxReportedErrors
                then po_errors outcome @ [''line '' @ to_dec (of_nat line_number) @ '': '' @ status_to_string s]
                else po_errors outcome)\<rparr>"

definition scan_line :: "policy \<Rightarrow> nat \<Rightarrow> string \<Rightarrow> parse_outcome \<Rightarrow> parse_outcome" where
  "scan_line p line_number line outcome =
     (let b = po_batch outcome; b1 = b\<lparr>bt_lines_scanned := bt_lines_scanned b + 1\<rparr> in
      case parse_record line p of
        Inl s \<Rightarrow> reject_line line_number s (outcome\<lparr>po_batch := b1\<rparr>)
      | Inr r \<Rightarrow> outcome\<lparr>po_batch := b1\<lparr>bt_records := bt_records b1 @ [r]\<rparr>\<rparr>)"

function parse_batch_loop :: "policy \<Rightarrow> string \<Rightarrow> nat \<Rightarrow> parse_outcome \<Rightarrow> parse_outcome" where
  "parse_batch_loop p text line_number outcome =
     (if text = [] then outcome\<lparr>po_status := status_success\<rparr>
      else
        let raw = takeWhile (\<lambda>c. c \<noteq> CHR 0x0A) text;
            after = tl (dropWhile (\<lambda>c. c \<noteq> CHR 0x0A) text);
            n = line_number + 1;
            line = trim_ascii raw
        in if line = [] \<or> hd line = CHR ''#''
           then parse_batch_loop p after n (outcome\<lparr>po_ignored_lines := po_ignored_lines outcome + 1\<rparr>)
           else if length (bt_records (po_batch outcome)) \<ge> unat (max_records_per_batch (pol_limits p))
           then outcome\<lparr>po_status := status_of SC_CapacityExceeded
                  ''input exceeds the configured records-per-batch bound''\<rparr>
           else parse_batch_loop p after n (scan_line p n line outcome))"
  by pat_completeness auto
termination
  by (relation "measure (\<lambda>(p, text, n, outcome). length text)") (auto simp del: length_tl)

definition parse_batch :: "string \<Rightarrow> policy \<Rightarrow> parse_outcome" where
  "parse_batch text p = parse_batch_loop p text 0 empty_parse_outcome"

text \<open>The export of one accepted observation.\<close>

definition export_observation :: "string \<Rightarrow> string \<Rightarrow> observation \<Rightarrow> string" where
  "export_observation link_name source_name obs =
     format_observation_record
       \<lparr>od_link = link_name, od_source = source_name,
        od_incarnation = id_to_string ''incarnation'' (prov_incarnation (obs_provenance obs)),
        od_epoch = id_to_string ''epoch'' (prov_epoch (obs_provenance obs)),
        od_generation = id_to_string ''generation'' (prov_generation (obs_provenance obs)),
        od_revision = prov_sequence (obs_provenance obs),
        od_observed_at = obs_observed_at obs, od_received_at = obs_received_at obs,
        od_key = obs_key obs, od_payload = obs_payload obs\<rparr>"

declare parse_batch_loop.simps [simp del]

section \<open>The lines of a text\<close>

function text_lines :: "string \<Rightarrow> string list" where
  "text_lines t =
     (if t = [] then []
      else takeWhile (\<lambda>c. c \<noteq> CHR 0x0A) t # text_lines (tl (dropWhile (\<lambda>c. c \<noteq> CHR 0x0A) t)))"
  by pat_completeness auto
termination
  by (relation "measure length") (auto simp del: length_tl)

declare text_lines.simps [simp del]

lemma text_lines_Nil [simp]: "text_lines [] = []"
  by (simp add: text_lines.simps)

lemma text_lines_line:
  "CHR 0x0A \<notin> set l \<Longrightarrow> text_lines (l @ CHR 0x0A # t) = l # text_lines t"
proof -
  assume "CHR 0x0A \<notin> set l"
  then have "takeWhile (\<lambda>c. c \<noteq> CHR 0x0A) (l @ CHR 0x0A # t) = l"
    and "dropWhile (\<lambda>c. c \<noteq> CHR 0x0A) (l @ CHR 0x0A # t) = CHR 0x0A # t"
    by (auto simp: takeWhile_append dropWhile_append)
  then show ?thesis by (subst text_lines.simps) simp
qed

definition carries_record :: "string \<Rightarrow> bool" where
  "carries_record raw \<longleftrightarrow> trim_ascii raw \<noteq> [] \<and> hd (trim_ascii raw) \<noteq> CHR ''#''"

definition line_result :: "policy \<Rightarrow> string \<Rightarrow> parsed_record result" where
  "line_result p raw = parse_record (trim_ascii raw) p"

section \<open>A loop over lines\<close>

fun scan_lines :: "policy \<Rightarrow> string list \<Rightarrow> nat \<Rightarrow> parse_outcome \<Rightarrow> parse_outcome" where
  "scan_lines p [] n outcome = outcome\<lparr>po_status := status_success\<rparr>"
| "scan_lines p (raw # ls) n outcome =
     (if \<not> carries_record raw
      then scan_lines p ls (n + 1) (outcome\<lparr>po_ignored_lines := po_ignored_lines outcome + 1\<rparr>)
      else if length (bt_records (po_batch outcome)) \<ge> unat (max_records_per_batch (pol_limits p))
      then outcome\<lparr>po_status := status_of SC_CapacityExceeded
             ''input exceeds the configured records-per-batch bound''\<rparr>
      else scan_lines p ls (n + 1) (scan_line p (n + 1) (trim_ascii raw) outcome))"

lemma parse_batch_loop_lines: "parse_batch_loop p t n outcome = scan_lines p (text_lines t) n outcome"
proof (induction p t n outcome rule: parse_batch_loop.induct)
  case (1 p t n outcome)
  show ?case
  proof (cases "t = []")
    case True
    then show ?thesis by (simp add: parse_batch_loop.simps)
  next
    case False
    then show ?thesis
      using 1 by (subst parse_batch_loop.simps, subst text_lines.simps)
        (simp add: carries_record_def Let_def)
  qed
qed

text \<open>What the first lines of a text contribute.\<close>

definition accepted_records :: "policy \<Rightarrow> string list \<Rightarrow> parsed_record list" where
  "accepted_records p ls =
     List.map_filter (\<lambda>raw. case line_result p raw of Inl e \<Rightarrow> None | Inr r \<Rightarrow> Some r) (filter carries_record ls)"

definition refused_lines :: "policy \<Rightarrow> string list \<Rightarrow> string list" where
  "refused_lines p ls = filter (\<lambda>raw. carries_record raw \<and> (\<exists>e. line_result p raw = Inl e)) ls"

lemma accepted_records_simps [simp]:
  "accepted_records p [] = []"
  "accepted_records p (raw # ls) =
     (if carries_record raw then (case line_result p raw of Inl e \<Rightarrow> [] | Inr r \<Rightarrow> [r]) else [])
     @ accepted_records p ls"
  by (simp_all add: accepted_records_def map_filter_simps split: sum.splits)

lemma refused_lines_simps [simp]:
  "refused_lines p [] = []"
  "refused_lines p (raw # ls) =
     (if carries_record raw then (case line_result p raw of Inl e \<Rightarrow> [raw] | Inr r \<Rightarrow> []) else [])
     @ refused_lines p ls"
  by (auto simp: refused_lines_def split: sum.splits)

lemma length_accepted_refused:
  "length (accepted_records p ls) + length (refused_lines p ls) = length (filter carries_record ls)"
  by (induction ls) (simp_all split: sum.splits)

definition batch_upto :: "policy \<Rightarrow> string list \<Rightarrow> nat \<Rightarrow> parse_outcome \<Rightarrow> parse_outcome \<Rightarrow> bool" where
  "batch_upto p ls k before after \<longleftrightarrow>
     (let seen = take k ls in
      k \<le> length ls
      \<and> bt_records (po_batch after) = bt_records (po_batch before) @ accepted_records p seen
      \<and> bt_lines_scanned (po_batch after) = bt_lines_scanned (po_batch before) + length (filter carries_record seen)
      \<and> po_rejected after = po_rejected before + length (refused_lines p seen)
      \<and> po_ignored_lines after = po_ignored_lines before + length (filter (\<lambda>raw. \<not> carries_record raw) seen)
      \<and> (if k = length ls then po_status after = status_success
         else carries_record (ls ! k) \<and> status_code (po_status after) = SC_CapacityExceeded
           \<and> unat (max_records_per_batch (pol_limits p)) \<le> length (bt_records (po_batch after))))"

lemma batch_upto_Cons:
  "batch_upto p ls k mid after \<Longrightarrow>
   bt_records (po_batch mid) = bt_records (po_batch before) @ accepted_records p [raw] \<Longrightarrow>
   bt_lines_scanned (po_batch mid) = bt_lines_scanned (po_batch before) + length (filter carries_record [raw]) \<Longrightarrow>
   po_rejected mid = po_rejected before + length (refused_lines p [raw]) \<Longrightarrow>
   po_ignored_lines mid = po_ignored_lines before + length (filter (\<lambda>raw. \<not> carries_record raw) [raw]) \<Longrightarrow>
   batch_upto p (raw # ls) (Suc k) before after"
  by (simp add: batch_upto_def Let_def split: if_splits)

lemma scan_line_effect:
  "carries_record raw \<Longrightarrow>
   bt_records (po_batch (scan_line p n (trim_ascii raw) o0)) = bt_records (po_batch o0) @ accepted_records p [raw]
   \<and> bt_lines_scanned (po_batch (scan_line p n (trim_ascii raw) o0)) = bt_lines_scanned (po_batch o0) + 1
   \<and> po_rejected (scan_line p n (trim_ascii raw) o0) = po_rejected o0 + length (refused_lines p [raw])
   \<and> po_ignored_lines (scan_line p n (trim_ascii raw) o0) = po_ignored_lines o0"
  by (auto simp: scan_line_def reject_line_def line_result_def Let_def split: sum.splits)

lemma scan_lines_upto: "\<exists>k. batch_upto p ls k o0 (scan_lines p ls n o0)"
proof (induction ls arbitrary: n o0)
  case Nil
  then show ?case by (simp add: batch_upto_def)
next
  case (Cons raw ls)
  show ?case
  proof (cases "carries_record raw \<and> length (bt_records (po_batch o0)) \<ge> unat (max_records_per_batch (pol_limits p))")
    case True
    then have "batch_upto p (raw # ls) 0 o0 (scan_lines p (raw # ls) n o0)" by (simp add: batch_upto_def)
    then show ?thesis ..
  next
    case False
    let ?mid = "if carries_record raw then scan_line p (n + 1) (trim_ascii raw) o0
      else o0\<lparr>po_ignored_lines := po_ignored_lines o0 + 1\<rparr>"
    obtain k where "batch_upto p ls k ?mid (scan_lines p ls (n + 1) ?mid)" using Cons.IH by blast
    then have "batch_upto p (raw # ls) (Suc k) o0 (scan_lines p ls (n + 1) ?mid)"
      by (rule batch_upto_Cons) (use scan_line_effect [of raw p "n + 1" o0] in \<open>auto split: if_splits\<close>)
    moreover have "scan_lines p (raw # ls) n o0 = scan_lines p ls (n + 1) ?mid" using False by auto
    ultimately show ?thesis by auto
  qed
qed

text \<open>The bounds of an outcome: records, and at most 32 described errors.\<close>

definition outcome_bounded :: "policy \<Rightarrow> parse_outcome \<Rightarrow> bool" where
  "outcome_bounded p out \<longleftrightarrow>
     length (bt_records (po_batch out)) \<le> unat (max_records_per_batch (pol_limits p))
     \<and> length (po_errors out) = min kMaxReportedErrors (po_rejected out)"

lemma scan_lines_bounded: "outcome_bounded p o0 \<Longrightarrow> outcome_bounded p (scan_lines p ls n o0)"
proof (induction ls arbitrary: n o0)
  case (Cons raw ls)
  have "outcome_bounded p (scan_line p n' l o0)"
    if "length (bt_records (po_batch o0)) < unat (max_records_per_batch (pol_limits p))" for n' l
    using Cons.prems that
    by (auto simp: outcome_bounded_def scan_line_def reject_line_def Let_def split: sum.splits)
  with Cons show ?case by (simp add: outcome_bounded_def)
qed (simp add: outcome_bounded_def)

text \<open>The line counter of the record grammar counts the lines a batch would parse.\<close>

lemma count_record_lines_loop_lines:
  "count_record_lines_loop t n = n + length (filter carries_record (text_lines t))"
proof (induction t n rule: count_record_lines_loop.induct)
  case (1 t n)
  let ?raw = "takeWhile (\<lambda>c. c \<noteq> CHR 0x0A) t" and ?after = "tl (dropWhile (\<lambda>c. c \<noteq> CHR 0x0A) t)"
  have nil: "\<not> carries_record []" by (simp add: carries_record_def trim_ascii_def)
  define m where "m = (if carries_record ?raw then Suc n else n)"
  have step: "count_record_lines_loop t n =
      (if CHR 0x0A \<notin> set t then m else count_record_lines_loop ?after m)"
    by (subst count_record_lines_loop.simps) (simp add: m_def carries_record_def Let_def)
  show ?case
  proof (cases "CHR 0x0A \<in> set t")
    case True
    then have "text_lines t = ?raw # text_lines ?after" by (subst text_lines.simps) auto
    moreover have "count_record_lines_loop ?after m = m + length (filter carries_record (text_lines ?after))"
      using 1 [OF refl refl refl] True by (simp add: m_def carries_record_def [of ?raw])
    ultimately show ?thesis using step True by (simp add: m_def)
  next
    case False
    then have drop: "dropWhile (\<lambda>c. c \<noteq> CHR 0x0A) t = []" and "?raw = t"
      by (auto simp: takeWhile_eq_all_conv dropWhile_eq_Nil_conv)
    from this(2) have "text_lines t = (if t = [] then [] else [t])"
      by (subst text_lines.simps) (simp only: drop list.sel text_lines_Nil)
    then show ?thesis using step False nil \<open>?raw = t\<close> by (simp add: m_def)
  qed
qed

lemma count_record_lines_exact: "count_record_lines t = length (filter carries_record (text_lines t))"
  by (simp add: count_record_lines_def count_record_lines_loop_lines)

section \<open>Batches of canonical lines\<close>

definition batch_text :: "parsed_record list \<Rightarrow> string" where
  "batch_text rs = concat (map (\<lambda>r. canonical_line r @ [CHR 0x0A]) rs)"

lemma plain_no_newline: "field_ok kv \<Longrightarrow> CHR 0x0A \<notin> set (field_text kv)"
  by (auto simp: field_ok_def field_text_def plain_def is_ascii_printable_def list_all_iff)

lemma join_fields_no_newline: "list_all field_ok kvs \<Longrightarrow> CHR 0x0A \<notin> set (join_fields (CHR '' '') kvs)"
  by (induction "CHR '' ''" kvs rule: join_fields.induct) (simp_all add: plain_no_newline)

definition record_fields :: "parsed_record \<Rightarrow> (string \<times> string) list" where
  "record_fields r =
     (case r of NoRecord \<Rightarrow> [] | SourceRecord d \<Rightarrow> source_fields d | LinkRecord d \<Rightarrow> link_fields d
      | ObservationRecord d \<Rightarrow> observation_fields d)"

lemma canonical_line_fields:
  assumes "record_ok p r"
  shows "canonical_line r = join_fields (CHR '' '') (record_fields r) \<and> fields_ok (record_fields r)
    \<and> record_fields r \<noteq> [] \<and> fst (hd (record_fields r)) = ''v''"
proof (cases r)
  case (SourceRecord d)
  then show ?thesis
    using assms source_fields_ok by (auto simp: record_fields_def format_source_fields) (auto simp: source_fields_def)
next
  case (LinkRecord d)
  then show ?thesis
    using assms link_fields_ok by (auto simp: record_fields_def format_link_fields) (auto simp: link_fields_def)
next
  case (ObservationRecord d)
  then show ?thesis
    using assms observation_fields_ok by (auto simp: record_fields_def format_observation_fields)
      (auto simp: observation_fields_def)
qed (use assms in simp)

lemma canonical_line_shape:
  assumes "record_ok p r"
  shows "CHR 0x0A \<notin> set (canonical_line r) \<and> trim_ascii (canonical_line r) = canonical_line r
    \<and> carries_record (canonical_line r)"
proof -
  note cf = canonical_line_fields [OF assms]
  then have ok: "record_fields r \<noteq> []" "list_all field_ok (record_fields r)" by (simp_all add: fields_ok_def)
  note ends = join_fields_ends [OF ok, of "CHR '' ''"]
  then have "trim_ascii (join_fields (CHR '' '') (record_fields r)) = join_fields (CHR '' '') (record_fields r)"
    by (intro trim_ascii_id) metis
  then show ?thesis using cf ends join_fields_no_newline [OF ok(2)] by (simp add: carries_record_def)
qed

lemma text_lines_batch:
  "list_all (record_ok p) rs \<Longrightarrow> text_lines (batch_text rs) = map canonical_line rs"
  by (induction rs) (auto simp: batch_text_def text_lines_line dest: canonical_line_shape)

definition batch_ok :: "policy \<Rightarrow> parsed_record list \<Rightarrow> bool" where
  "batch_ok p rs \<longleftrightarrow>
     length rs \<le> unat (max_records_per_batch (pol_limits p))
     \<and> list_all (\<lambda>r. record_ok p r \<and> key_spellable r
          \<and> length (canonical_line r) \<le> unat (max_record_bytes (pol_limits p))) rs"

lemma scan_lines_canonical:
  assumes "list_all (\<lambda>r. record_ok p r \<and> key_spellable r
        \<and> length (canonical_line r) \<le> unat (max_record_bytes (pol_limits p))) rs"
    and "length (bt_records (po_batch o0)) + length rs \<le> unat (max_records_per_batch (pol_limits p))"
  shows "let out = scan_lines p (map canonical_line rs) n o0 in
    bt_records (po_batch out) = bt_records (po_batch o0) @ rs \<and> po_rejected out = po_rejected o0
    \<and> po_ignored_lines out = po_ignored_lines o0 \<and> po_status out = status_success
    \<and> bt_lines_scanned (po_batch out) = bt_lines_scanned (po_batch o0) + length rs"
  using assms
proof (induction rs arbitrary: n o0)
  case (Cons r rs)
  then have shape: "trim_ascii (canonical_line r) = canonical_line r" "carries_record (canonical_line r)"
    using canonical_line_shape [of p r] by auto
  have "parse_record (canonical_line r) p = Inr r"
    using Cons.prems by (intro canonical_line_read_back) auto
  then have "scan_line p (n + 1) (canonical_line r) o0
      = o0\<lparr>po_batch := (po_batch o0)\<lparr>bt_lines_scanned := bt_lines_scanned (po_batch o0) + 1,
          bt_records := bt_records (po_batch o0) @ [r]\<rparr>\<rparr>"
    by (simp add: scan_line_def Let_def)
  with Cons.prems shape Cons.IH [of "scan_line p (n + 1) (canonical_line r) o0" "n + 1"] show ?case
    by (simp add: Let_def)
qed simp

section \<open>Main results\<close>


text \<open>
  A batch of canonical lines is read back. The records of a batch that fits its bounds are
  recovered in order, with no line rejected or ignored.
\<close>

lemma canonical_batch_round_trip:
  assumes "batch_ok p rs"
  shows "bt_records (po_batch (parse_batch (batch_text rs) p)) = rs
    \<and> po_rejected (parse_batch (batch_text rs) p) = 0
    \<and> po_ignored_lines (parse_batch (batch_text rs) p) = 0
    \<and> po_status (parse_batch (batch_text rs) p) = status_success"
proof -
  have "text_lines (batch_text rs) = map canonical_line rs"
    using assms by (intro text_lines_batch) (auto simp: batch_ok_def list_all_iff)
  then show ?thesis
    using assms scan_lines_canonical [of p rs empty_parse_outcome 0]
    by (simp add: parse_batch_def parse_batch_loop_lines batch_ok_def empty_parse_outcome_def empty_batch_def Let_def)
qed

end
