(* ===== verification/Bounded_Queue.thy ===== *)
theory Bounded_Queue
  imports Batch_Codec
begin

text \<open>
  Bounded work queues and the batch latch (\<^verbatim>\<open>include/linkobs/ingest/queue.hpp\<close>,
  \<^verbatim>\<open>src/ingest/queue.cpp\<close>). Every operation runs under the queue's lock, so it is one function on
  the queue. A blocking operation returns \<open>None\<close> while its caller waits on the condition variable:
  the lock is released and the queue is unchanged. The main results: whatever operations are
  interleaved, the queue is first in first out, bounded, and accounts for every batch.
\<close>

section \<open>State and operations\<close>

record 'a bounded_queue =
  bq_items :: "'a list"
  bq_capacity :: nat
  bq_closed :: bool
  bq_high_water :: nat
  bq_pushed :: u64
  bq_popped :: u64
  bq_rejected_full :: u64
  bq_rejected_closed :: u64
  bq_abandoned :: u64

definition queue_new :: "nat \<Rightarrow> 'a bounded_queue" where
  "queue_new capacity =
     \<lparr>bq_items = [], bq_capacity = (if capacity = 0 then 1 else capacity), bq_closed = False,
      bq_high_water = 0, bq_pushed = 0, bq_popped = 0, bq_rejected_full = 0, bq_rejected_closed = 0,
      bq_abandoned = 0\<rparr>"

definition enqueue :: "'a \<Rightarrow> 'a bounded_queue \<Rightarrow> 'a bounded_queue" where
  "enqueue b q =
     (let items = bq_items q @ [b] in
      q\<lparr>bq_items := items, bq_pushed := bq_pushed q + 1,
        bq_high_water := (if length items > bq_high_water q then length items else bq_high_water q)\<rparr>)"

definition reject_closed :: "'a bounded_queue \<Rightarrow> 'a bounded_queue" where
  "reject_closed q = q\<lparr>bq_rejected_closed := bq_rejected_closed q + 1\<rparr>"

definition queue_push :: "'a \<Rightarrow> 'a bounded_queue \<Rightarrow> ('a bounded_queue \<times> bool) option" where
  "queue_push b q =
     (if \<not> bq_closed q \<and> length (bq_items q) \<ge> bq_capacity q then None
      else if bq_closed q then Some (reject_closed q, False)
      else Some (enqueue b q, True))"

definition queue_try_push :: "'a \<Rightarrow> 'a bounded_queue \<Rightarrow> 'a bounded_queue \<times> bool" where
  "queue_try_push b q =
     (if bq_closed q then (reject_closed q, False)
      else if length (bq_items q) \<ge> bq_capacity q
      then (q\<lparr>bq_rejected_full := bq_rejected_full q + 1\<rparr>, False)
      else (enqueue b q, True))"

definition dequeue :: "'a bounded_queue \<Rightarrow> 'a bounded_queue" where
  "dequeue q = q\<lparr>bq_items := tl (bq_items q), bq_popped := bq_popped q + 1\<rparr>"

definition queue_pop :: "'a bounded_queue \<Rightarrow> ('a bounded_queue \<times> 'a option) option" where
  "queue_pop q =
     (if bq_items q = [] \<and> \<not> bq_closed q then None
      else if bq_items q = [] then Some (q, None)
      else Some (dequeue q, Some (hd (bq_items q))))"

definition queue_try_pop :: "'a bounded_queue \<Rightarrow> 'a bounded_queue \<times> 'a option" where
  "queue_try_pop q = (if bq_items q = [] then (q, None) else (dequeue q, Some (hd (bq_items q))))"

definition queue_close :: "'a bounded_queue \<Rightarrow> 'a bounded_queue" where
  "queue_close q = q\<lparr>bq_closed := True\<rparr>"

definition discard_pending :: "'a bounded_queue \<Rightarrow> 'a bounded_queue \<times> nat" where
  "discard_pending q =
     (let count = length (bq_items q) in
      (q\<lparr>bq_items := [], bq_abandoned := bq_abandoned q + of_nat count\<rparr>, count))"

definition queue_size :: "'a bounded_queue \<Rightarrow> nat" where
  "queue_size q = length (bq_items q)"

text \<open>The latch of a batch. Waiting returns \<open>False\<close> while the waiter stays on the condition variable.\<close>

record batch_completion =
  bc_done :: bool

definition completion_signal :: "batch_completion \<Rightarrow> batch_completion" where
  "completion_signal c = (if bc_done c then c else c\<lparr>bc_done := True\<rparr>)"

definition completion_wait_returns :: "batch_completion \<Rightarrow> bool" where
  "completion_wait_returns c = bc_done c"

section \<open>What a queue promises\<close>

text \<open>
  The contract of a first-in first-out buffer, and what every client may conclude from it: over any
  run, what was taken followed by what is still held is what was held followed by what was put.
\<close>

datatype 'a buffer_call = Put 'a | Take

locale fifo_buffer =
  fixes held :: "'q \<Rightarrow> 'a list"
    and put :: "'a \<Rightarrow> 'q \<Rightarrow> 'q option"
    and take_one :: "'q \<Rightarrow> ('a \<times> 'q) option"
  assumes put_held: "put x q = Some q' \<Longrightarrow> held q' = held q @ [x]"
    and take_held: "take_one q = Some (x, q') \<Longrightarrow> held q = x # held q'"
    and take_none: "take_one q = None \<Longrightarrow> held q = []"
begin

fun buffer_run :: "'a buffer_call list \<Rightarrow> 'q \<Rightarrow> 'a list \<times> 'a list \<times> 'q" where
  "buffer_run [] q = ([], [], q)"
| "buffer_run (Put x # calls) q =
     (case put x q of
        None \<Rightarrow> buffer_run calls q
      | Some q' \<Rightarrow> (case buffer_run calls q' of (ins, outs, r) \<Rightarrow> (x # ins, outs, r)))"
| "buffer_run (Take # calls) q =
     (case take_one q of
        None \<Rightarrow> buffer_run calls q
      | Some (x, q') \<Rightarrow> (case buffer_run calls q' of (ins, outs, r) \<Rightarrow> (ins, x # outs, r)))"

lemma run_is_fifo: "buffer_run calls q = (ins, outs, r) \<Longrightarrow> outs @ held r = held q @ ins"
proof (induction calls q arbitrary: ins outs rule: buffer_run.induct)
  case (2 x calls q)
  then show ?case by (auto simp: put_held split: option.splits prod.splits)
next
  case (3 calls q)
  then show ?case by (auto simp: take_held split: option.splits prod.splits)
qed simp

lemma take_progress: "held q \<noteq> [] \<Longrightarrow> \<exists>x q'. take_one q = Some (x, q')"
  using take_none [of q] by (cases "take_one q") auto

end

definition push_accepted :: "'a \<Rightarrow> 'a bounded_queue \<Rightarrow> 'a bounded_queue option" where
  "push_accepted b q = (case queue_push b q of Some (q', True) \<Rightarrow> Some q' | _ \<Rightarrow> None)"

definition try_push_accepted :: "'a \<Rightarrow> 'a bounded_queue \<Rightarrow> 'a bounded_queue option" where
  "try_push_accepted b q = (case queue_try_push b q of (q', True) \<Rightarrow> Some q' | _ \<Rightarrow> None)"

definition pop_taken :: "'a bounded_queue \<Rightarrow> ('a \<times> 'a bounded_queue) option" where
  "pop_taken q = (case queue_pop q of Some (q', Some b) \<Rightarrow> Some (b, q') | _ \<Rightarrow> None)"

definition try_pop_taken :: "'a bounded_queue \<Rightarrow> ('a \<times> 'a bounded_queue) option" where
  "try_pop_taken q = (case queue_try_pop q of (q', Some b) \<Rightarrow> Some (b, q') | _ \<Rightarrow> None)"

lemmas queue_defs =
  queue_push_def queue_try_push_def queue_pop_def queue_try_pop_def enqueue_def dequeue_def reject_closed_def
  queue_close_def discard_pending_def Let_def

interpretation blocking_queue: fifo_buffer bq_items push_accepted pop_taken
  by unfold_locales
    (auto simp: push_accepted_def pop_taken_def queue_defs split: if_splits)

interpretation polling_queue: fifo_buffer bq_items try_push_accepted try_pop_taken
  by unfold_locales
    (auto simp: try_push_accepted_def try_pop_taken_def queue_defs split: if_splits)

section \<open>Every interleaving of operations\<close>

text \<open>
  A run of a queue, with everything it ever accepted and everything that left it, in order. A
  departure carries whether the batch was handed to a worker or abandoned.
\<close>

datatype 'a queue_call = PushCall 'a | TryPushCall 'a | PopCall | TryPopCall | CloseCall | DiscardCall

record 'a queue_trace =
  qt_queue :: "'a bounded_queue"
  qt_accepted :: "'a list"
  qt_departed :: "('a \<times> bool) list"

definition trace_new :: "nat \<Rightarrow> 'a queue_trace" where
  "trace_new capacity = \<lparr>qt_queue = queue_new capacity, qt_accepted = [], qt_departed = []\<rparr>"

definition trace_push :: "'a \<Rightarrow> 'a bounded_queue \<times> bool \<Rightarrow> 'a queue_trace \<Rightarrow> 'a queue_trace" where
  "trace_push b r t =
     t\<lparr>qt_queue := fst r, qt_accepted := qt_accepted t @ (if snd r then [b] else [])\<rparr>"

definition trace_pop :: "'a bounded_queue \<times> 'a option \<Rightarrow> 'a queue_trace \<Rightarrow> 'a queue_trace" where
  "trace_pop r t =
     t\<lparr>qt_queue := fst r,
       qt_departed := qt_departed t @ (case snd r of None \<Rightarrow> [] | Some b \<Rightarrow> [(b, True)])\<rparr>"

primrec trace_call :: "'a queue_call \<Rightarrow> 'a queue_trace \<Rightarrow> 'a queue_trace" where
  "trace_call (PushCall b) t =
     (case queue_push b (qt_queue t) of None \<Rightarrow> t | Some r \<Rightarrow> trace_push b r t)"
| "trace_call (TryPushCall b) t = trace_push b (queue_try_push b (qt_queue t)) t"
| "trace_call PopCall t = (case queue_pop (qt_queue t) of None \<Rightarrow> t | Some r \<Rightarrow> trace_pop r t)"
| "trace_call TryPopCall t = trace_pop (queue_try_pop (qt_queue t)) t"
| "trace_call CloseCall t = t\<lparr>qt_queue := queue_close (qt_queue t)\<rparr>"
| "trace_call DiscardCall t =
     t\<lparr>qt_queue := fst (discard_pending (qt_queue t)),
       qt_departed := qt_departed t @ map (\<lambda>b. (b, False)) (bq_items (qt_queue t))\<rparr>"

definition queue_inv :: "'a queue_trace \<Rightarrow> bool" where
  "queue_inv t \<longleftrightarrow>
     (let q = qt_queue t in
      map fst (qt_departed t) @ bq_items q = qt_accepted t
      \<and> 0 < bq_capacity q \<and> length (bq_items q) \<le> bq_high_water q \<and> bq_high_water q \<le> bq_capacity q
      \<and> bq_pushed q = of_nat (length (qt_accepted t))
      \<and> bq_popped q = of_nat (length (filter snd (qt_departed t)))
      \<and> bq_abandoned q = of_nat (length (filter (\<lambda>d. \<not> snd d) (qt_departed t))))"

lemma queue_inv_new: "queue_inv (trace_new capacity)"
  by (simp add: queue_inv_def trace_new_def queue_new_def)

lemma queue_inv_enqueue:
  assumes "queue_inv t" and "length (bq_items (qt_queue t)) < bq_capacity (qt_queue t)"
  shows "queue_inv (trace_push b (enqueue b (qt_queue t), True) t)"
  using assms by (auto simp: queue_inv_def trace_push_def enqueue_def Let_def)

lemma queue_inv_dequeue:
  assumes "queue_inv t" and "bq_items (qt_queue t) \<noteq> []"
  shows "queue_inv (trace_pop (dequeue (qt_queue t), Some (hd (bq_items (qt_queue t)))) t)"
proof -
  obtain b items where "bq_items (qt_queue t) = b # items" using assms(2) by (cases "bq_items (qt_queue t)") auto
  with assms(1) show ?thesis by (simp add: queue_inv_def trace_pop_def dequeue_def Let_def)
qed

lemma queue_inv_call: "queue_inv t \<Longrightarrow> queue_inv (trace_call c t)"
proof (cases c)
  case (PushCall b)
  then show "queue_inv t \<Longrightarrow> queue_inv (trace_call c t)"
    using queue_inv_enqueue [of t b]
    by (auto simp: queue_push_def) (auto simp: queue_inv_def trace_push_def reject_closed_def Let_def)
next
  case (TryPushCall b)
  then show "queue_inv t \<Longrightarrow> queue_inv (trace_call c t)"
    using queue_inv_enqueue [of t b]
    by (auto simp: queue_try_push_def) (auto simp: queue_inv_def trace_push_def reject_closed_def Let_def)
next
  case PopCall
  then show "queue_inv t \<Longrightarrow> queue_inv (trace_call c t)"
    using queue_inv_dequeue [of t] by (auto simp: queue_pop_def) (auto simp: queue_inv_def trace_pop_def)
next
  case TryPopCall
  then show "queue_inv t \<Longrightarrow> queue_inv (trace_call c t)"
    using queue_inv_dequeue [of t] by (auto simp: queue_try_pop_def) (auto simp: queue_inv_def trace_pop_def)
next
  case CloseCall
  then show "queue_inv t \<Longrightarrow> queue_inv (trace_call c t)"
    by (simp add: queue_inv_def queue_close_def Let_def)
next
  case DiscardCall
  then show "queue_inv t \<Longrightarrow> queue_inv (trace_call c t)"
    by (auto simp: queue_inv_def discard_pending_def Let_def comp_def)
qed

lemma queue_inv_calls: "queue_inv t \<Longrightarrow> queue_inv (fold trace_call cs t)"
  by (induction cs arbitrary: t) (simp_all add: queue_inv_call)

lemma closed_call:
  "bq_closed (qt_queue t) \<Longrightarrow>
     bq_closed (qt_queue (trace_call c t)) \<and> qt_accepted (trace_call c t) = qt_accepted t"
  by (cases c) (auto simp: queue_defs trace_push_def trace_pop_def split: option.splits)

lemma closed_calls:
  "bq_closed (qt_queue t) \<Longrightarrow>
     bq_closed (qt_queue (fold trace_call cs t)) \<and> qt_accepted (fold trace_call cs t) = qt_accepted t"
  by (induction cs arbitrary: t) (simp_all add: closed_call)

section \<open>Main results\<close>

text \<open>
  C34: the bounded queue. Whatever operations are called in whatever order on a new queue, batches
  leave it in the order they were accepted, each once, handed over or abandoned; it never holds more
  than its capacity; its counters are exact modulo 2 to the 64; and once closed it accepts nothing.
\<close>

theorem queue_is_fifo_bounded_and_accounted:
  "queue_inv (fold trace_call cs (trace_new capacity))
   \<and> qt_accepted (fold trace_call (cs @ CloseCall # cs') (trace_new capacity))
       = qt_accepted (fold trace_call cs (trace_new capacity))"
proof -
  have "bq_closed (qt_queue (fold trace_call (cs @ [CloseCall]) (trace_new capacity)))"
    by (simp add: queue_close_def)
  from closed_calls [OF this, of cs'] show ?thesis
    by (simp add: queue_inv_calls queue_inv_new)
qed

end
