(* ===== verification/Worker_Pool.thy ===== *)
theory Worker_Pool
  imports Bounded_Queue
begin

text \<open>
  The worker pool (\<^verbatim>\<open>include/linkobs/runtime/worker.hpp\<close>, \<^verbatim>\<open>src/runtime/worker.cpp\<close>) as a machine
  whose actions are the atomic sections of its threads: a caller of \<^verbatim>\<open>submit\<close> checks the running
  flag under the lifecycle lock and pushes under the queue lock; a worker pops, runs the handler,
  runs the completion; \<^verbatim>\<open>stop\<close> and \<^verbatim>\<open>cancel\<close> hold the lifecycle lock while they close, discard
  and join one worker at a time. An action that has to wait is not enabled. Any sequence of enabled
  actions is an interleaving the program can show. The main results: each worker handles what was
  accepted for it in order, exactly once, whatever the interleaving; stopping terminates with all
  accepted work done; and a stopped pool never accepts work again.
\<close>

section \<open>State\<close>

datatype worker_phase =
    Unstarted
  | Waiting
  | Handling batch
  | Applied "nat option"
  | Exited

datatype lifecycle =
    Idle
  | Running
  | Closing nat
  | Cancelling nat
  | Discarding nat
  | Joining nat

text \<open>
  \<open>wp_submitting\<close> holds the callers that passed the running check and have not returned from the
  queue yet, each with whether it blocks. The logs record, in order and with the worker's index,
  what was accepted, handled, completed and discarded; the code keeps no such logs.
\<close>

record pool =
  wp_queues :: "batch bounded_queue list"
  wp_phases :: "worker_phase list"
  wp_lifecycle :: lifecycle
  wp_cancelled :: bool
  wp_processed :: u64
  wp_submitting :: "(nat \<times> batch \<times> bool) list"
  wp_accepted :: "(nat \<times> batch) list"
  wp_handled :: "(nat \<times> batch) list"
  wp_completed :: "(nat \<times> nat option) list"
  wp_discarded :: "(nat \<times> batch) list"

section \<open>Operations\<close>

definition route_hash :: "string \<Rightarrow> u64" where
  "route_hash name =
     fold (\<lambda>c hash. (hash XOR of_nat (of_char c)) * 0x100000001b3) name 0xcbf29ce484222325"

definition pool_new :: "nat \<Rightarrow> nat \<Rightarrow> pool" where
  "pool_new worker_count queue_capacity =
     (let count = (if worker_count = 0 then 1 else worker_count) in
      \<lparr>wp_queues = replicate count (queue_new queue_capacity), wp_phases = replicate count Unstarted,
       wp_lifecycle = Idle, wp_cancelled = False, wp_processed = 0, wp_submitting = [], wp_accepted = [],
       wp_handled = [], wp_completed = [], wp_discarded = []\<rparr>)"

definition worker_count :: "pool \<Rightarrow> nat" where
  "worker_count p = length (wp_queues p)"

definition route_of :: "pool \<Rightarrow> string \<Rightarrow> nat" where
  "route_of p source_name =
     (if wp_queues p = [] then 0 else unat (route_hash source_name) mod length (wp_queues p))"

definition pool_start :: "pool \<Rightarrow> (pool \<times> status) option" where
  "pool_start p =
     (if wp_lifecycle p = Running
      then Some (p, status_of SC_AlreadyExists ''worker pool is already running'')
      else if wp_lifecycle p = Idle
      then Some (p\<lparr>wp_cancelled := False, wp_lifecycle := Running,
                   wp_phases := replicate (length (wp_queues p)) Waiting\<rparr>, status_success)
      else None)"

text \<open>
  The first half of \<^verbatim>\<open>submit\<close> and \<^verbatim>\<open>try_submit\<close>: the status is \<open>Inl\<close> when the call returns at
  once. It waits while another thread holds the lifecycle lock.
\<close>

definition pool_admit :: "nat \<Rightarrow> batch \<Rightarrow> bool \<Rightarrow> pool \<Rightarrow> (pool \<times> (status + unit)) option" where
  "pool_admit route b blocking p =
     (if wp_queues p = [] then Some (p, Inl (status_of SC_Internal ''worker pool has no workers''))
      else if wp_lifecycle p = Idle
      then Some (p, Inl (status_of SC_Cancelled ''worker pool is not running''))
      else if wp_lifecycle p = Running
      then Some (p\<lparr>wp_submitting := wp_submitting p @ [(route mod length (wp_queues p), b, blocking)]\<rparr>, Inr ())
      else None)"

definition drop_at :: "nat \<Rightarrow> 'a list \<Rightarrow> 'a list" where
  "drop_at k xs = take k xs @ drop (Suc k) xs"

text \<open>The second half: the push of the \<open>k\<close>-th caller.\<close>

definition pool_push :: "nat \<Rightarrow> pool \<Rightarrow> (pool \<times> status) option" where
  "pool_push k p =
     (if k < length (wp_submitting p) then
        (case wp_submitting p ! k of (i, b, blocking) \<Rightarrow>
           (case (if blocking then queue_push b (wp_queues p ! i) else Some (queue_try_push b (wp_queues p ! i))) of
              None \<Rightarrow> None
            | Some (q, ok) \<Rightarrow>
                Some (p\<lparr>wp_queues := (wp_queues p)[i := q], wp_submitting := drop_at k (wp_submitting p),
                        wp_accepted := wp_accepted p @ (if ok then [(i, b)] else [])\<rparr>,
                      if ok then status_success
                      else if blocking then status_of SC_Cancelled ''worker pool queue is closed''
                      else status_of SC_CapacityExceeded ''worker pool queue is full or closed'')))
      else None)"

text \<open>The loop of a worker: \<^verbatim>\<open>pop\<close>, the handler, the completion.\<close>

definition worker_pop :: "nat \<Rightarrow> pool \<Rightarrow> pool option" where
  "worker_pop i p =
     (if i < length (wp_queues p) \<and> wp_phases p ! i = Waiting then
        (case queue_pop (wp_queues p ! i) of
           None \<Rightarrow> None
         | Some (q, None) \<Rightarrow> Some (p\<lparr>wp_queues := (wp_queues p)[i := q], wp_phases := (wp_phases p)[i := Exited]\<rparr>)
         | Some (q, Some b) \<Rightarrow>
             Some (p\<lparr>wp_queues := (wp_queues p)[i := q], wp_phases := (wp_phases p)[i := Handling b]\<rparr>))
      else None)"

definition worker_handle :: "nat \<Rightarrow> pool \<Rightarrow> pool option" where
  "worker_handle i p =
     (if i < length (wp_queues p) then
        (case wp_phases p ! i of
           Handling b \<Rightarrow>
             Some (p\<lparr>wp_phases := (wp_phases p)[i := Applied (bt_on_applied b)],
                     wp_handled := wp_handled p @ [(i, b)]\<rparr>)
         | _ \<Rightarrow> None)
      else None)"

definition worker_complete :: "nat \<Rightarrow> pool \<Rightarrow> pool option" where
  "worker_complete i p =
     (if i < length (wp_queues p) then
        (case wp_phases p ! i of
           Applied c \<Rightarrow>
             Some (p\<lparr>wp_phases := (wp_phases p)[i := Waiting], wp_completed := wp_completed p @ [(i, c)],
                     wp_processed := wp_processed p + 1\<rparr>)
         | _ \<Rightarrow> None)
      else None)"

text \<open>
  \<^verbatim>\<open>stop\<close> and \<^verbatim>\<open>cancel\<close>. Entering them takes the lifecycle lock; the loops that follow are
  stepped by \<open>pool_advance\<close>. In \<open>Cancelling k\<close> the queue of worker \<open>k\<close> is closed next, in
  \<open>Discarding k\<close> its pending batches are discarded next, in \<open>Joining k\<close> worker \<open>k\<close> is joined next.
\<close>

definition pool_stop :: "pool \<Rightarrow> pool option" where
  "pool_stop p =
     (if wp_lifecycle p = Idle then Some p
      else if wp_lifecycle p = Running then Some (p\<lparr>wp_lifecycle := Closing 0\<rparr>)
      else None)"

definition pool_cancel :: "pool \<Rightarrow> pool option" where
  "pool_cancel p =
     (if wp_lifecycle p = Idle then Some p
      else if wp_lifecycle p = Running then Some (p\<lparr>wp_cancelled := True, wp_lifecycle := Cancelling 0\<rparr>)
      else None)"

definition pool_advance :: "pool \<Rightarrow> pool option" where
  "pool_advance p =
     (let n = length (wp_queues p) in
      case wp_lifecycle p of
        Closing k \<Rightarrow>
          if k < n then Some (p\<lparr>wp_queues := (wp_queues p)[k := queue_close (wp_queues p ! k)], wp_lifecycle := Closing (Suc k)\<rparr>)
          else Some (p\<lparr>wp_lifecycle := Joining 0\<rparr>)
      | Cancelling k \<Rightarrow>
          if k < n then Some (p\<lparr>wp_queues := (wp_queues p)[k := queue_close (wp_queues p ! k)], wp_lifecycle := Discarding k\<rparr>)
          else Some (p\<lparr>wp_lifecycle := Joining 0\<rparr>)
      | Discarding k \<Rightarrow>
          Some (p\<lparr>wp_queues := (wp_queues p)[k := fst (discard_pending (wp_queues p ! k))],
                  wp_discarded := wp_discarded p @ map (Pair k) (bq_items (wp_queues p ! k)),
                  wp_lifecycle := Cancelling (Suc k)\<rparr>)
      | Joining k \<Rightarrow>
          if k < n then (if wp_phases p ! k = Exited then Some (p\<lparr>wp_lifecycle := Joining (Suc k)\<rparr>) else None)
          else Some (p\<lparr>wp_lifecycle := Idle\<rparr>)
      | _ \<Rightarrow> None)"

definition pool_abandoned :: "pool \<Rightarrow> u64" where
  "pool_abandoned p = fold (\<lambda>q total. total + bq_abandoned q) (wp_queues p) 0"

definition queue_high_water :: "pool \<Rightarrow> nat list" where
  "queue_high_water p = map bq_high_water (wp_queues p)"

definition pool_rejected_full :: "pool \<Rightarrow> u64" where
  "pool_rejected_full p = fold (\<lambda>q total. total + bq_rejected_full q) (wp_queues p) 0"

section \<open>Interleavings\<close>

datatype internal_action = PushAct nat | PopAct nat | HandleAct nat | CompleteAct nat | AdvanceAct

datatype pool_action =
    StartAct
  | AdmitAct nat batch bool
  | StopAct
  | CancelAct
  | InternalAct internal_action

primrec internal_step :: "internal_action \<Rightarrow> pool \<Rightarrow> pool option" where
  "internal_step (PushAct k) p = map_option fst (pool_push k p)"
| "internal_step (PopAct i) p = worker_pop i p"
| "internal_step (HandleAct i) p = worker_handle i p"
| "internal_step (CompleteAct i) p = worker_complete i p"
| "internal_step AdvanceAct p = pool_advance p"

primrec pool_step :: "pool_action \<Rightarrow> pool \<Rightarrow> pool option" where
  "pool_step StartAct p = map_option fst (pool_start p)"
| "pool_step (AdmitAct route b blocking) p = map_option fst (pool_admit route b blocking p)"
| "pool_step StopAct p = pool_stop p"
| "pool_step CancelAct p = pool_cancel p"
| "pool_step (InternalAct a) p = internal_step a p"

inductive pool_reachable :: "nat \<Rightarrow> nat \<Rightarrow> pool \<Rightarrow> bool" for workers capacity where
  initial: "pool_reachable workers capacity (pool_new workers capacity)"
| action: "pool_reachable workers capacity p \<Longrightarrow> pool_step a p = Some p' \<Longrightarrow> pool_reachable workers capacity p'"

primrec pool_run :: "internal_action list \<Rightarrow> pool \<Rightarrow> pool option" where
  "pool_run [] p = Some p"
| "pool_run (a # as) p = Option.bind (internal_step a p) (pool_run as)"

primrec pool_actions :: "pool_action list \<Rightarrow> pool \<Rightarrow> pool option" where
  "pool_actions [] p = Some p"
| "pool_actions (a # as) p = Option.bind (pool_step a p) (pool_actions as)"

section \<open>The invariant\<close>

definition of_worker :: "nat \<Rightarrow> (nat \<times> 'a) list \<Rightarrow> 'a list" where
  "of_worker i log = map snd (filter (\<lambda>e. fst e = i) log)"

primrec in_hand :: "worker_phase \<Rightarrow> batch list" where
  "in_hand Unstarted = []"
| "in_hand Waiting = []"
| "in_hand (Handling b) = [b]"
| "in_hand (Applied c) = []"
| "in_hand Exited = []"

primrec completion_due :: "worker_phase \<Rightarrow> nat option list" where
  "completion_due Unstarted = []"
| "completion_due Waiting = []"
| "completion_due (Handling b) = []"
| "completion_due (Applied c) = [c]"
| "completion_due Exited = []"

definition worker_inv :: "pool \<Rightarrow> nat \<Rightarrow> bool" where
  "worker_inv p i \<longleftrightarrow>
     of_worker i (wp_accepted p) =
       of_worker i (wp_handled p) @ in_hand (wp_phases p ! i) @ of_worker i (wp_discarded p)
       @ bq_items (wp_queues p ! i)
     \<and> (of_worker i (wp_discarded p) \<noteq> [] \<longrightarrow> bq_closed (wp_queues p ! i) \<and> bq_items (wp_queues p ! i) = [])
     \<and> (wp_phases p ! i = Exited \<longrightarrow> bq_closed (wp_queues p ! i) \<and> bq_items (wp_queues p ! i) = [])
     \<and> of_worker i (wp_completed p) @ completion_due (wp_phases p ! i) = map bt_on_applied (of_worker i (wp_handled p))"

definition closed_below :: "nat \<Rightarrow> pool \<Rightarrow> bool" where
  "closed_below k p \<longleftrightarrow> (\<forall>i < k. bq_closed (wp_queues p ! i))"

definition lifecycle_inv :: "pool \<Rightarrow> bool" where
  "lifecycle_inv p \<longleftrightarrow>
     (let n = length (wp_queues p); started = (\<forall>i < n. wp_phases p ! i \<noteq> Unstarted) in
      case wp_lifecycle p of
        Idle \<Rightarrow> (\<forall>i < n. wp_phases p ! i = Unstarted \<or> wp_phases p ! i = Exited)
                 \<and> (wp_submitting p = [] \<or> closed_below n p)
      | Running \<Rightarrow> started
      | Closing k \<Rightarrow> started \<and> k \<le> n \<and> closed_below k p
      | Cancelling k \<Rightarrow> started \<and> k \<le> n \<and> closed_below k p
      | Discarding k \<Rightarrow> started \<and> k < n \<and> closed_below (Suc k) p
      | Joining k \<Rightarrow> started \<and> k \<le> n \<and> closed_below n p \<and> (\<forall>i < k. wp_phases p ! i = Exited))"

definition pool_shape :: "pool \<Rightarrow> bool" where
  "pool_shape p \<longleftrightarrow>
     wp_queues p \<noteq> [] \<and> length (wp_phases p) = length (wp_queues p)
     \<and> list_all (\<lambda>e. fst e < length (wp_queues p)) (wp_submitting p)
     \<and> list_all (\<lambda>e. fst e < length (wp_queues p)) (wp_accepted p)
     \<and> list_all (\<lambda>e. fst e < length (wp_queues p)) (wp_handled p)
     \<and> list_all (\<lambda>e. fst e < length (wp_queues p)) (wp_completed p)
     \<and> wp_processed p = of_nat (length (wp_completed p))"

definition pool_inv :: "pool \<Rightarrow> bool" where
  "pool_inv p \<longleftrightarrow> pool_shape p \<and> lifecycle_inv p \<and> (\<forall>i < length (wp_queues p). worker_inv p i)"

lemma of_worker_simps [simp]:
  "of_worker i [] = []" "of_worker i (log @ log') = of_worker i log @ of_worker i log'"
  "of_worker i [(j, x)] = (if j = i then [x] else [])"
  "of_worker i (map (Pair j) xs) = (if j = i then xs else [])"
  by (simp_all add: of_worker_def) (induction xs; simp)+

lemma pool_inv_new: "pool_inv (pool_new workers capacity)"
  by (simp add: pool_inv_def pool_shape_def lifecycle_inv_def worker_inv_def pool_new_def queue_new_def Let_def)

lemma pool_inv_start: "pool_inv p \<Longrightarrow> pool_start p = Some (p', s) \<Longrightarrow> pool_inv p'"
proof (cases "wp_lifecycle p = Idle")
  case True
  assume inv: "pool_inv p" and st: "pool_start p = Some (p', s)"
  have "worker_inv p' i" if "i < length (wp_queues p)" for i
  proof -
    have "wp_phases p ! i = Unstarted \<or> wp_phases p ! i = Exited" and "worker_inv p i"
      using inv True that by (auto simp: pool_inv_def lifecycle_inv_def Let_def)
    then show ?thesis using st True that by (auto simp: pool_start_def worker_inv_def)
  qed
  then show ?thesis using inv st True by (auto simp: pool_start_def pool_inv_def pool_shape_def lifecycle_inv_def Let_def)
qed (auto simp: pool_start_def split: if_splits)

lemma pool_inv_admit: "pool_inv p \<Longrightarrow> pool_admit route b blocking p = Some (p', s) \<Longrightarrow> pool_inv p'"
  by (auto simp: pool_admit_def pool_inv_def pool_shape_def lifecycle_inv_def worker_inv_def Let_def split: if_splits)

lemma pool_inv_stop: "pool_inv p \<Longrightarrow> pool_stop p = Some p' \<Longrightarrow> pool_inv p'"
  by (auto simp: pool_stop_def pool_inv_def pool_shape_def lifecycle_inv_def worker_inv_def closed_below_def Let_def
      split: if_splits)

lemma pool_inv_cancel: "pool_inv p \<Longrightarrow> pool_cancel p = Some p' \<Longrightarrow> pool_inv p'"
  by (auto simp: pool_cancel_def pool_inv_def pool_shape_def lifecycle_inv_def worker_inv_def closed_below_def Let_def
      split: if_splits)

text \<open>
  An action on one worker: the other workers keep their invariant, closed queues stay closed, no
  worker is started or leaves a loop it has left.
\<close>

definition local_change :: "nat \<Rightarrow> pool \<Rightarrow> pool \<Rightarrow> bool" where
  "local_change i p p' \<longleftrightarrow>
     i < length (wp_queues p) \<and> length (wp_queues p') = length (wp_queues p)
     \<and> length (wp_phases p') = length (wp_phases p) \<and> wp_lifecycle p' = wp_lifecycle p
     \<and> (\<forall>j. j \<noteq> i \<longrightarrow> wp_queues p' ! j = wp_queues p ! j \<and> wp_phases p' ! j = wp_phases p ! j
          \<and> of_worker j (wp_accepted p') = of_worker j (wp_accepted p)
          \<and> of_worker j (wp_handled p') = of_worker j (wp_handled p)
          \<and> of_worker j (wp_completed p') = of_worker j (wp_completed p))
     \<and> wp_discarded p' = wp_discarded p
     \<and> (bq_closed (wp_queues p ! i) \<longrightarrow> bq_closed (wp_queues p' ! i))
     \<and> (wp_phases p ! i = Unstarted \<longleftrightarrow> wp_phases p' ! i = Unstarted)
     \<and> (wp_phases p ! i = Exited \<longrightarrow> wp_phases p' ! i = Exited)"

lemma local_change_inv:
  assumes "pool_inv p" and "local_change i p p'" and "worker_inv p' i" and "pool_shape p'"
    and "wp_submitting p = [] \<Longrightarrow> wp_submitting p' = []"
  shows "pool_inv p'"
proof -
  have others: "worker_inv p' j" if "j < length (wp_queues p)" "j \<noteq> i" for j
    using assms(1,2) that by (auto simp: pool_inv_def local_change_def worker_inv_def)
  have closed: "closed_below k p \<Longrightarrow> closed_below k p'" for k
    using assms(2) unfolding closed_below_def local_change_def by metis
  have ph: "wp_phases p' ! j = Unstarted \<longleftrightarrow> wp_phases p ! j = Unstarted"
    "wp_phases p ! j = Exited \<Longrightarrow> wp_phases p' ! j = Exited" for j
    using assms(2) unfolding local_change_def by metis+
  have len: "length (wp_queues p') = length (wp_queues p)" "wp_lifecycle p' = wp_lifecycle p"
    using assms(2) by (simp_all add: local_change_def)
  have "lifecycle_inv p" using assms(1) by (simp add: pool_inv_def)
  then have "lifecycle_inv p'"
    unfolding lifecycle_inv_def Let_def len
    by (cases "wp_lifecycle p") (use ph closed assms(5) in auto)
  then show ?thesis using assms(3,4) others len by (auto simp: pool_inv_def)
qed

lemma pool_inv_pop: "pool_inv p \<Longrightarrow> worker_pop i p = Some p' \<Longrightarrow> pool_inv p'"
proof -
  assume inv: "pool_inv p" and st: "worker_pop i p = Some p'"
  then have i: "i < length (wp_queues p)" "wp_phases p ! i = Waiting" by (auto simp: worker_pop_def split: if_splits)
  have shape: "pool_shape p" and wi: "worker_inv p i" using inv i by (auto simp: pool_inv_def)
  from st obtain q r where pop: "queue_pop (wp_queues p ! i) = Some (q, r)"
    and p': "p' = p\<lparr>wp_queues := (wp_queues p)[i := q],
      wp_phases := (wp_phases p)[i := (case r of None \<Rightarrow> Exited | Some b \<Rightarrow> Handling b)]\<rparr>"
    using i by (auto simp: worker_pop_def split: option.splits)
  have len: "i < length (wp_phases p)" using shape i by (simp add: pool_shape_def)
  show ?thesis
  proof (rule local_change_inv [OF inv, of i])
    show "local_change i p p'"
      using i len pop by (auto simp: p' local_change_def queue_defs split: if_splits option.splits)
    show "worker_inv p' i"
      using wi i len pop by (auto simp: p' worker_inv_def queue_defs split: if_splits)
    show "pool_shape p'" using shape by (simp add: p' pool_shape_def)
  qed (simp add: p')
qed

lemma pool_inv_handle: "pool_inv p \<Longrightarrow> worker_handle i p = Some p' \<Longrightarrow> pool_inv p'"
proof -
  assume inv: "pool_inv p" and st: "worker_handle i p = Some p'"
  then obtain b where i: "i < length (wp_queues p)" and ph: "wp_phases p ! i = Handling b"
    and p': "p' = p\<lparr>wp_phases := (wp_phases p)[i := Applied (bt_on_applied b)], wp_handled := wp_handled p @ [(i, b)]\<rparr>"
    by (auto simp: worker_handle_def split: if_splits worker_phase.splits)
  have shape: "pool_shape p" and wi: "worker_inv p i" using inv i by (auto simp: pool_inv_def)
  have len: "i < length (wp_phases p)" using shape i by (simp add: pool_shape_def)
  show ?thesis
  proof (rule local_change_inv [OF inv, of i])
    show "local_change i p p'" using i len ph by (auto simp: p' local_change_def)
    show "worker_inv p' i" using wi len ph by (simp add: p' worker_inv_def)
    show "pool_shape p'" using shape i by (simp add: p' pool_shape_def)
  qed (simp add: p')
qed

lemma pool_inv_complete: "pool_inv p \<Longrightarrow> worker_complete i p = Some p' \<Longrightarrow> pool_inv p'"
proof -
  assume inv: "pool_inv p" and st: "worker_complete i p = Some p'"
  then obtain c where i: "i < length (wp_queues p)" and ph: "wp_phases p ! i = Applied c"
    and p': "p' = p\<lparr>wp_phases := (wp_phases p)[i := Waiting], wp_completed := wp_completed p @ [(i, c)],
                     wp_processed := wp_processed p + 1\<rparr>"
    by (auto simp: worker_complete_def split: if_splits worker_phase.splits)
  have shape: "pool_shape p" and wi: "worker_inv p i" using inv i by (auto simp: pool_inv_def)
  have len: "i < length (wp_phases p)" using shape i by (simp add: pool_shape_def)
  show ?thesis
  proof (rule local_change_inv [OF inv, of i])
    show "local_change i p p'" using i len ph by (auto simp: p' local_change_def)
    show "worker_inv p' i" using wi len ph by (simp add: p' worker_inv_def)
    show "pool_shape p'" using shape i by (simp add: p' pool_shape_def)
  qed (simp add: p')
qed

lemma drop_at_subset: "set (drop_at k xs) \<subseteq> set xs"
  by (auto simp: drop_at_def dest: in_set_takeD in_set_dropD)

lemma length_drop_at: "k < length xs \<Longrightarrow> length (drop_at k xs) = length xs - 1"
  by (simp add: drop_at_def)

lemma pool_push_cases:
  assumes "pool_push k p = Some (p', s)"
  obtains i b blocking q ok where "k < length (wp_submitting p)" and "wp_submitting p ! k = (i, b, blocking)"
    and "if ok then \<not> bq_closed (wp_queues p ! i) \<and> q = enqueue b (wp_queues p ! i)
         else bq_items q = bq_items (wp_queues p ! i) \<and> bq_closed q = bq_closed (wp_queues p ! i)"
    and "p' = p\<lparr>wp_queues := (wp_queues p)[i := q], wp_submitting := drop_at k (wp_submitting p),
                wp_accepted := wp_accepted p @ (if ok then [(i, b)] else [])\<rparr>"
proof -
  from assms have k: "k < length (wp_submitting p)" by (auto simp: pool_push_def split: if_splits)
  obtain i b blocking where e: "wp_submitting p ! k = (i, b, blocking)" by (cases "wp_submitting p ! k") auto
  from assms obtain q ok where
    r: "(if blocking then queue_push b (wp_queues p ! i) else Some (queue_try_push b (wp_queues p ! i))) = Some (q, ok)"
    and p': "p' = p\<lparr>wp_queues := (wp_queues p)[i := q], wp_submitting := drop_at k (wp_submitting p),
                wp_accepted := wp_accepted p @ (if ok then [(i, b)] else [])\<rparr>"
    by (auto simp: pool_push_def k e split: option.splits prod.splits)
  have "if ok then \<not> bq_closed (wp_queues p ! i) \<and> q = enqueue b (wp_queues p ! i)
        else bq_items q = bq_items (wp_queues p ! i) \<and> bq_closed q = bq_closed (wp_queues p ! i)"
    using r by (auto simp: queue_push_def queue_try_push_def reject_closed_def split: if_splits)
  then show thesis using that k e p' by blast
qed

lemma pool_inv_push: "pool_inv p \<Longrightarrow> pool_push k p = Some (p', s) \<Longrightarrow> pool_inv p'"
proof -
  assume inv: "pool_inv p" and st: "pool_push k p = Some (p', s)"
  from st obtain i b blocking q ok where k: "k < length (wp_submitting p)"
    and e: "wp_submitting p ! k = (i, b, blocking)"
    and q: "if ok then \<not> bq_closed (wp_queues p ! i) \<and> q = enqueue b (wp_queues p ! i)
         else bq_items q = bq_items (wp_queues p ! i) \<and> bq_closed q = bq_closed (wp_queues p ! i)"
    and p': "p' = p\<lparr>wp_queues := (wp_queues p)[i := q], wp_submitting := drop_at k (wp_submitting p),
                wp_accepted := wp_accepted p @ (if ok then [(i, b)] else [])\<rparr>"
    by (rule pool_push_cases)
  have shape: "pool_shape p" using inv by (simp add: pool_inv_def)
  have i: "i < length (wp_queues p)"
    using shape nth_mem [OF k] e by (auto simp: pool_shape_def list_all_iff)
  then have wi: "worker_inv p i" using inv by (simp add: pool_inv_def)
  show ?thesis
  proof (rule local_change_inv [OF inv, of i])
    show "local_change i p p'" using i q by (auto simp: p' local_change_def split: if_splits)
    show "worker_inv p' i"
      using wi i q by (auto simp: p' worker_inv_def enqueue_def Let_def split: if_splits)
    show "pool_shape p'"
      using shape i drop_at_subset [of k "wp_submitting p"] by (auto simp: p' pool_shape_def list_all_iff)
  qed (use k in \<open>auto simp: p' drop_at_def\<close>)
qed

lemma worker_inv_lifecycle [simp]: "worker_inv (p\<lparr>wp_lifecycle := l\<rparr>) i = worker_inv p i"
  by (simp add: worker_inv_def)

abbreviation close_at :: "nat \<Rightarrow> lifecycle \<Rightarrow> pool \<Rightarrow> pool" where
  "close_at k l p \<equiv> p\<lparr>wp_queues := (wp_queues p)[k := queue_close (wp_queues p ! k)], wp_lifecycle := l\<rparr>"

lemma worker_inv_close: "worker_inv p i \<Longrightarrow> k < length (wp_queues p) \<Longrightarrow> worker_inv (close_at k l p) i"
  by (cases "k = i") (auto simp: worker_inv_def queue_close_def)

lemma closed_below_close:
  "closed_below k p \<Longrightarrow> k < length (wp_queues p) \<Longrightarrow> closed_below (Suc k) (close_at k l p)"
  by (auto simp: closed_below_def queue_close_def nth_list_update less_Suc_eq)

abbreviation discard_at :: "nat \<Rightarrow> pool \<Rightarrow> pool" where
  "discard_at k p \<equiv>
     p\<lparr>wp_queues := (wp_queues p)[k := fst (discard_pending (wp_queues p ! k))],
       wp_discarded := wp_discarded p @ map (Pair k) (bq_items (wp_queues p ! k)),
       wp_lifecycle := Cancelling (Suc k)\<rparr>"

lemma worker_inv_discard:
  "worker_inv p i \<Longrightarrow> k < length (wp_queues p) \<Longrightarrow> bq_closed (wp_queues p ! k) \<Longrightarrow> worker_inv (discard_at k p) i"
  by (cases "k = i") (auto simp: worker_inv_def discard_pending_def Let_def)

lemma closed_below_discard:
  "closed_below m p \<Longrightarrow> k < length (wp_queues p) \<Longrightarrow> closed_below m (discard_at k p)"
  by (auto simp: closed_below_def discard_pending_def nth_list_update Let_def)

lemma pool_inv_advance: "pool_inv p \<Longrightarrow> pool_advance p = Some p' \<Longrightarrow> pool_inv p'"
proof -
  assume inv: "pool_inv p" and st: "pool_advance p = Some p'"
  then have shape: "pool_shape p" and lc: "lifecycle_inv p"
    and wi: "\<And>i. i < length (wp_queues p) \<Longrightarrow> worker_inv p i" by (auto simp: pool_inv_def)
  have join: "pool_inv (p\<lparr>wp_lifecycle := Joining 0\<rparr>)"
    if "\<forall>i < length (wp_queues p). wp_phases p ! i \<noteq> Unstarted" "closed_below (length (wp_queues p)) p"
    using that shape wi by (simp add: pool_inv_def pool_shape_def lifecycle_inv_def closed_below_def)
  show ?thesis
  proof (cases "wp_lifecycle p")
    case (Closing k)
    show ?thesis
    proof (cases "k < length (wp_queues p)")
      case True
      then have "p' = close_at k (Closing (Suc k)) p" using st Closing by (simp add: pool_advance_def)
      then show ?thesis
        using True Closing lc shape wi worker_inv_close closed_below_close [of k p "Closing (Suc k)"]
        by (simp add: pool_inv_def pool_shape_def lifecycle_inv_def)
    next
      case False
      then show ?thesis using st Closing lc join by (auto simp: pool_advance_def lifecycle_inv_def Let_def)
    qed
  next
    case (Cancelling k)
    show ?thesis
    proof (cases "k < length (wp_queues p)")
      case True
      then have "p' = close_at k (Discarding k) p" using st Cancelling by (simp add: pool_advance_def)
      then show ?thesis
        using True Cancelling lc shape wi worker_inv_close closed_below_close [of k p "Discarding k"]
        by (simp add: pool_inv_def pool_shape_def lifecycle_inv_def)
    next
      case False
      then show ?thesis using st Cancelling lc join by (auto simp: pool_advance_def lifecycle_inv_def Let_def)
    qed
  next
    case (Discarding k)
    then have k: "k < length (wp_queues p)" and cl: "closed_below (Suc k) p"
      using lc by (simp_all add: lifecycle_inv_def Let_def)
    then have "bq_closed (wp_queues p ! k)" by (simp add: closed_below_def)
    moreover have "p' = discard_at k p" using st Discarding by (simp add: pool_advance_def)
    ultimately show ?thesis
      using Discarding lc shape wi k cl worker_inv_discard closed_below_discard [OF cl k]
      by (simp add: pool_inv_def pool_shape_def lifecycle_inv_def)
  next
    case (Joining k)
    then show ?thesis using st shape lc wi
      by (auto simp: pool_advance_def pool_inv_def pool_shape_def lifecycle_inv_def Let_def
          less_Suc_eq closed_below_def split: if_splits)
  qed (use st in \<open>simp_all add: pool_advance_def Let_def\<close>)
qed

lemma pool_inv_internal: "pool_inv p \<Longrightarrow> internal_step a p = Some p' \<Longrightarrow> pool_inv p'"
proof (induction a)
  case (PushAct k)
  then obtain s where "pool_push k p = Some (p', s)" by auto
  with PushAct(1) show ?case by (rule pool_inv_push)
qed (simp only: internal_step.simps;
    erule (1) pool_inv_pop pool_inv_handle pool_inv_complete pool_inv_advance)+

lemma pool_inv_step: "pool_inv p \<Longrightarrow> pool_step a p = Some p' \<Longrightarrow> pool_inv p'"
proof (induction a)
  case StartAct
  then obtain s where "pool_start p = Some (p', s)" by auto
  with StartAct(1) show ?case by (rule pool_inv_start)
next
  case (AdmitAct route b blocking)
  then obtain s where "pool_admit route b blocking p = Some (p', s)" by auto
  with AdmitAct(1) show ?case by (rule pool_inv_admit)
qed (simp only: pool_step.simps; erule (1) pool_inv_stop pool_inv_cancel pool_inv_internal)+

lemma pool_reachable_inv: "pool_reachable workers capacity p \<Longrightarrow> pool_inv p"
  by (induction rule: pool_reachable.induct) (blast intro: pool_inv_new pool_inv_step)+

section \<open>Termination\<close>

text \<open>Every internal action lowers a weight, whatever the state of the pool.\<close>

primrec phase_weight :: "worker_phase \<Rightarrow> nat" where
  "phase_weight Unstarted = 0"
| "phase_weight Waiting = 1"
| "phase_weight (Handling b) = 3"
| "phase_weight (Applied c) = 2"
| "phase_weight Exited = 0"

definition queue_weight :: "batch bounded_queue \<Rightarrow> nat" where
  "queue_weight q = 3 * length (bq_items q)"

fun lifecycle_weight :: "nat \<Rightarrow> lifecycle \<Rightarrow> nat" where
  "lifecycle_weight n Idle = 0"
| "lifecycle_weight n Running = 0"
| "lifecycle_weight n (Closing k) = (n - k) + n + 3"
| "lifecycle_weight n (Cancelling k) = 2 * (n - k) + n + 3"
| "lifecycle_weight n (Discarding k) = 2 * (n - k) + n + 2"
| "lifecycle_weight n (Joining k) = (n - k) + 1"

definition pool_weight :: "pool \<Rightarrow> nat" where
  "pool_weight p =
     lifecycle_weight (length (wp_queues p)) (wp_lifecycle p) + sum_list (map queue_weight (wp_queues p))
     + sum_list (map phase_weight (wp_phases p)) + 4 * length (wp_submitting p)"

lemma sum_list_map_update:
  "k < length xs \<Longrightarrow> sum_list (map f (xs[k := y])) + f (xs ! k) = sum_list (map f xs) + (f y :: nat)"
proof (induction xs arbitrary: k)
  case (Cons x xs)
  then show ?case by (cases k) auto
qed simp

lemma pop_weight: "pool_inv p \<Longrightarrow> worker_pop i p = Some p' \<Longrightarrow> pool_weight p' < pool_weight p"
proof -
  assume inv: "pool_inv p" and st: "worker_pop i p = Some p'"
  then have i: "i < length (wp_queues p)" "i < length (wp_phases p)" "wp_phases p ! i = Waiting"
    by (auto simp: worker_pop_def pool_inv_def pool_shape_def split: if_splits)
  from st obtain q r where pop: "queue_pop (wp_queues p ! i) = Some (q, r)"
    and p': "p' = p\<lparr>wp_queues := (wp_queues p)[i := q],
      wp_phases := (wp_phases p)[i := (case r of None \<Rightarrow> Exited | Some b \<Rightarrow> Handling b)]\<rparr>"
    using i by (auto simp: worker_pop_def split: option.splits)
  let ?ph = "case r of None \<Rightarrow> Exited | Some b \<Rightarrow> Handling b"
  have "queue_weight q + phase_weight ?ph < queue_weight (wp_queues p ! i) + phase_weight (wp_phases p ! i)"
    using pop i by (cases "bq_items (wp_queues p ! i)") (auto simp: queue_defs queue_weight_def split: if_splits)
  then show ?thesis
    using sum_list_map_update [OF i(1), of queue_weight q] sum_list_map_update [OF i(2), of phase_weight ?ph]
    by (simp add: p' pool_weight_def)
qed

lemma phase_change_weight:
  "i < length (wp_phases p) \<Longrightarrow> phase_weight ph < phase_weight (wp_phases p ! i) \<Longrightarrow>
     sum_list (map phase_weight ((wp_phases p)[i := ph])) < sum_list (map phase_weight (wp_phases p))"
  using sum_list_map_update [of i "wp_phases p" phase_weight ph] by simp

lemma handle_weight: "pool_inv p \<Longrightarrow> worker_handle i p = Some p' \<Longrightarrow> pool_weight p' < pool_weight p"
  by (auto simp: worker_handle_def pool_inv_def pool_shape_def pool_weight_def
      split: if_splits worker_phase.splits intro!: phase_change_weight)

lemma complete_weight: "pool_inv p \<Longrightarrow> worker_complete i p = Some p' \<Longrightarrow> pool_weight p' < pool_weight p"
  by (auto simp: worker_complete_def pool_inv_def pool_shape_def pool_weight_def
      split: if_splits worker_phase.splits intro!: phase_change_weight)

lemma push_weight: "pool_inv p \<Longrightarrow> pool_push k p = Some (p', s) \<Longrightarrow> pool_weight p' < pool_weight p"
proof -
  assume inv: "pool_inv p" and st: "pool_push k p = Some (p', s)"
  from st obtain i b blocking q ok where k: "k < length (wp_submitting p)"
    and e: "wp_submitting p ! k = (i, b, blocking)"
    and q: "if ok then \<not> bq_closed (wp_queues p ! i) \<and> q = enqueue b (wp_queues p ! i)
         else bq_items q = bq_items (wp_queues p ! i) \<and> bq_closed q = bq_closed (wp_queues p ! i)"
    and p': "p' = p\<lparr>wp_queues := (wp_queues p)[i := q], wp_submitting := drop_at k (wp_submitting p),
                wp_accepted := wp_accepted p @ (if ok then [(i, b)] else [])\<rparr>"
    by (rule pool_push_cases)
  have i: "i < length (wp_queues p)"
    using inv nth_mem [OF k] e by (auto simp: pool_inv_def pool_shape_def list_all_iff)
  have "queue_weight q < queue_weight (wp_queues p ! i) + 4"
    using q by (auto simp: queue_weight_def enqueue_def Let_def split: if_splits)
  then show ?thesis
    using sum_list_map_update [OF i, of queue_weight q] k
    by (simp add: p' pool_weight_def length_drop_at)
qed

lemma advance_weight: "pool_inv p \<Longrightarrow> pool_advance p = Some p' \<Longrightarrow> pool_weight p' < pool_weight p"
proof -
  assume inv: "pool_inv p" and st: "pool_advance p = Some p'"
  have close: "sum_list (map queue_weight ((wp_queues p)[k := queue_close (wp_queues p ! k)]))
      = sum_list (map queue_weight (wp_queues p))" if "k < length (wp_queues p)" for k
    using sum_list_map_update [OF that, of queue_weight "queue_close (wp_queues p ! k)"]
    by (simp add: queue_weight_def queue_close_def)
  have discard: "sum_list (map queue_weight ((wp_queues p)[k := fst (discard_pending (wp_queues p ! k))]))
      \<le> sum_list (map queue_weight (wp_queues p))" if "k < length (wp_queues p)" for k
    using sum_list_map_update [OF that, of queue_weight "fst (discard_pending (wp_queues p ! k))"]
    by (simp add: queue_weight_def discard_pending_def Let_def)
  show ?thesis
  proof (cases "wp_lifecycle p")
    case (Discarding k)
    then have "k < length (wp_queues p)" using inv by (simp add: pool_inv_def lifecycle_inv_def Let_def)
    with Discarding st discard [of k] show ?thesis by (auto simp: pool_advance_def pool_weight_def Let_def)
  qed (use st inv close in \<open>auto simp: pool_advance_def pool_weight_def pool_inv_def lifecycle_inv_def Let_def
      split: if_splits\<close>)
qed

lemma internal_weight: "pool_inv p \<Longrightarrow> internal_step a p = Some p' \<Longrightarrow> pool_weight p' < pool_weight p"
proof (induction a)
  case (PushAct k)
  then obtain s where "pool_push k p = Some (p', s)" by auto
  with PushAct(1) show ?case by (rule push_weight)
qed (simp only: internal_step.simps; erule (1) pop_weight handle_weight complete_weight advance_weight)+

lemma pool_run_inv: "pool_inv p \<Longrightarrow> pool_run as p = Some p' \<Longrightarrow> pool_inv p' \<and> length as + pool_weight p' \<le> pool_weight p"
proof (induction as arbitrary: p)
  case (Cons a as)
  then obtain p1 where st: "internal_step a p = Some p1" and rest: "pool_run as p1 = Some p'"
    by (auto simp: bind_eq_Some_conv)
  from Cons.IH [OF pool_inv_internal [OF Cons.prems(1) st] rest] internal_weight [OF Cons.prems(1) st]
  show ?case by simp
qed simp

section \<open>Progress\<close>

lemma worker_enabled:
  assumes "i < length (wp_queues p)" and "bq_closed (wp_queues p ! i)"
    and "wp_phases p ! i \<noteq> Unstarted" and "wp_phases p ! i \<noteq> Exited"
  shows "\<exists>a p'. internal_step a p = Some p'"
proof (cases "wp_phases p ! i")
  case Waiting
  then have "\<exists>p'. worker_pop i p = Some p'" using assms by (auto simp: worker_pop_def queue_pop_def)
  then show ?thesis by (metis internal_step.simps(2))
next
  case (Handling b)
  then have "\<exists>p'. worker_handle i p = Some p'" using assms by (simp add: worker_handle_def)
  then show ?thesis by (metis internal_step.simps(3))
next
  case (Applied c)
  then have "\<exists>p'. worker_complete i p = Some p'" using assms by (simp add: worker_complete_def)
  then show ?thesis by (metis internal_step.simps(4))
qed (use assms in simp_all)

lemma advance_enabled:
  assumes "pool_inv p" and "wp_lifecycle p \<noteq> Idle" and "wp_lifecycle p \<noteq> Running"
  shows "\<exists>a p'. internal_step a p = Some p'"
proof (cases "pool_advance p")
  case (Some p')
  then show ?thesis by (metis internal_step.simps(5))
next
  case None
  then obtain k where k: "wp_lifecycle p = Joining k" "k < length (wp_queues p)" "wp_phases p ! k \<noteq> Exited"
    using assms(2,3) by (cases "wp_lifecycle p") (auto simp: pool_advance_def Let_def split: if_splits)
  then have "bq_closed (wp_queues p ! k)" and "wp_phases p ! k \<noteq> Unstarted"
    using assms(1) by (auto simp: pool_inv_def lifecycle_inv_def closed_below_def Let_def)
  with k show ?thesis by (intro worker_enabled)
qed

lemma caller_enabled:
  assumes "pool_inv p" and "wp_submitting p \<noteq> []" and "closed_below (length (wp_queues p)) p"
  shows "\<exists>a p'. internal_step a p = Some p'"
proof -
  obtain i b blocking where e: "wp_submitting p ! 0 = (i, b, blocking)" by (cases "wp_submitting p ! 0") auto
  then have "i < length (wp_queues p)"
    using assms(1,2) by (auto simp: pool_inv_def pool_shape_def list_all_length)
  then have "bq_closed (wp_queues p ! i)" using assms(3) by (simp add: closed_below_def)
  then have "\<exists>r. pool_push 0 p = Some r"
    using assms(2) e by (auto simp: pool_push_def queue_push_def queue_try_push_def)
  then show ?thesis by (metis internal_step.simps(1) option.simps(9))
qed

definition stuck :: "pool \<Rightarrow> bool" where
  "stuck p \<longleftrightarrow> (\<forall>a. internal_step a p = None)"

text \<open>A pool that is being stopped and can do nothing more is idle, with all accepted work done.\<close>

lemma stuck_is_done:
  assumes inv: "pool_inv p" and "stuck p" and "wp_lifecycle p \<noteq> Running"
  shows "wp_lifecycle p = Idle \<and> wp_submitting p = []
    \<and> (\<forall>i < length (wp_queues p).
         of_worker i (wp_accepted p) = of_worker i (wp_handled p) @ of_worker i (wp_discarded p) @ bq_items (wp_queues p ! i)
         \<and> (wp_phases p ! i = Exited \<longrightarrow> bq_items (wp_queues p ! i) = [])
         \<and> of_worker i (wp_completed p) = map bt_on_applied (of_worker i (wp_handled p)))"
proof -
  have no: "\<not> (\<exists>a p'. internal_step a p = Some p')" using assms(2) by (simp add: stuck_def)
  have idle: "wp_lifecycle p = Idle" using advance_enabled [OF inv] assms(3) no by blast
  then have quiet: "wp_phases p ! i = Unstarted \<or> wp_phases p ! i = Exited" if "i < length (wp_queues p)" for i
    using inv that by (simp add: pool_inv_def lifecycle_inv_def Let_def)
  have "wp_submitting p = [] \<or> closed_below (length (wp_queues p)) p"
    using inv idle by (simp add: pool_inv_def lifecycle_inv_def Let_def)
  then have "wp_submitting p = []" using caller_enabled [OF inv] no by blast
  moreover have "in_hand (wp_phases p ! i) = [] \<and> completion_due (wp_phases p ! i) = []"
    if "i < length (wp_queues p)" for i
    using quiet [OF that] by auto
  ultimately show ?thesis using inv idle by (auto simp: pool_inv_def worker_inv_def)
qed

lemma internal_keeps:
  assumes "internal_step a p = Some p'"
  shows "length (wp_queues p') = length (wp_queues p)"
    and "wp_lifecycle p \<noteq> Running \<Longrightarrow> wp_lifecycle p' \<noteq> Running"
    and "wp_lifecycle p \<notin> range Cancelling \<union> range Discarding \<Longrightarrow>
      wp_lifecycle p' \<notin> range Cancelling \<union> range Discarding \<and> wp_discarded p' = wp_discarded p"
  using assms
  by (cases a; auto simp: pool_push_def worker_pop_def worker_handle_def worker_complete_def pool_advance_def Let_def
      split: if_splits option.splits prod.splits worker_phase.splits lifecycle.splits)+

definition all_started :: "pool \<Rightarrow> bool" where
  "all_started p \<longleftrightarrow> (\<forall>i < length (wp_queues p). wp_phases p ! i \<noteq> Unstarted)"

lemma internal_started: "pool_inv p \<Longrightarrow> all_started p \<Longrightarrow> internal_step a p = Some p' \<Longrightarrow> all_started p'"
  by (cases a; auto simp: all_started_def pool_inv_def pool_shape_def pool_push_def worker_pop_def worker_handle_def
      worker_complete_def pool_advance_def Let_def nth_list_update
      split: if_splits option.splits prod.splits worker_phase.splits lifecycle.splits)

lemma pool_run_keeps:
  assumes "pool_run as p = Some p'" and "pool_inv p" and "all_started p" and "wp_lifecycle p \<noteq> Running"
    and "wp_lifecycle p \<notin> range Cancelling \<union> range Discarding"
  shows "wp_lifecycle p' \<noteq> Running \<and> all_started p' \<and> wp_discarded p' = wp_discarded p"
  using assms
proof (induction as arbitrary: p)
  case (Cons a as)
  then obtain p1 where st: "internal_step a p = Some p1" and rest: "pool_run as p1 = Some p'"
    by (auto simp: bind_eq_Some_conv)
  have "wp_lifecycle p1 \<noteq> Running" and "all_started p1" and "pool_inv p1"
    and "wp_lifecycle p1 \<notin> range Cancelling \<union> range Discarding \<and> wp_discarded p1 = wp_discarded p"
    using internal_keeps [OF st] internal_started [OF _ _ st] pool_inv_internal [OF _ st] Cons.prems by blast+
  with Cons.IH [OF rest] show ?case by simp
qed simp

lemma pool_reachable_actions:
  "pool_reachable w c p \<Longrightarrow> pool_actions as p = Some p' \<Longrightarrow> pool_reachable w c p'"
  by (induction as arbitrary: p) (auto simp: bind_eq_Some_conv intro: pool_reachable.action)

lemma nth_update_at: "j < length xs \<Longrightarrow> xs[k := y] ! j = (if k = j then y else xs ! j)"
  by (cases "k = j") simp_all

lemma closed_step:
  assumes "pool_inv p" and "closed_below (length (wp_queues p)) p" and "pool_step a p = Some p'"
  shows "closed_below (length (wp_queues p')) p' \<and> wp_accepted p' = wp_accepted p"
proof -
  have push: "pool_push k p = Some (p', s) \<Longrightarrow> closed_below (length (wp_queues p')) p' \<and> wp_accepted p' = wp_accepted p" for k s
  proof (erule pool_push_cases)
    fix i b blocking q ok
    assume k: "k < length (wp_submitting p)" and e: "wp_submitting p ! k = (i, b, blocking)"
      and q: "if ok then \<not> bq_closed (wp_queues p ! i) \<and> q = enqueue b (wp_queues p ! i)
         else bq_items q = bq_items (wp_queues p ! i) \<and> bq_closed q = bq_closed (wp_queues p ! i)"
      and p': "p' = p\<lparr>wp_queues := (wp_queues p)[i := q], wp_submitting := drop_at k (wp_submitting p),
                wp_accepted := wp_accepted p @ (if ok then [(i, b)] else [])\<rparr>"
    have "i < length (wp_queues p)"
      using assms(1) nth_mem [OF k] e by (auto simp: pool_inv_def pool_shape_def list_all_iff)
    then show ?thesis using q assms(2) by (auto simp: p' closed_below_def nth_list_update split: if_splits)
  qed
  show ?thesis
  proof (cases a)
    case (InternalAct b)
    show ?thesis
    proof (cases b)
      case (PushAct k)
      then show ?thesis using assms(3) push InternalAct by auto
    qed (use assms(2,3) InternalAct in \<open>auto simp: closed_below_def worker_pop_def worker_handle_def
        worker_complete_def pool_advance_def queue_defs nth_update_at
        split: if_splits option.splits worker_phase.splits lifecycle.splits\<close>)
  qed (use assms in \<open>auto simp: pool_start_def pool_admit_def pool_stop_def pool_cancel_def closed_below_def
      split: if_splits\<close>)
qed

lemma closed_actions:
  "pool_actions as p = Some p' \<Longrightarrow> pool_inv p \<Longrightarrow> closed_below (length (wp_queues p)) p \<Longrightarrow>
     wp_accepted p' = wp_accepted p"
proof (induction as arbitrary: p)
  case (Cons a as)
  then obtain p1 where st: "pool_step a p = Some p1" and rest: "pool_actions as p1 = Some p'"
    by (auto simp: bind_eq_Some_conv)
  from Cons.IH [OF rest pool_inv_step [OF Cons.prems(2) st]] closed_step [OF Cons.prems(2,3) st] show ?case by simp
qed simp

section \<open>Main results\<close>

text \<open>
  C22: per-source order and exactly-once handling. In every state any interleaving reaches, what a
  worker's queue accepted is, in order, what the worker handled, what it has in hand, what a
  cancellation discarded and what is still queued; every handled batch has completed once, the last
  one apart while its completion is due. All records of a source go to the same worker.
\<close>

theorem workers_handle_in_order:
  assumes "pool_reachable workers capacity p" and "i < worker_count p"
  shows "of_worker i (wp_accepted p) =
      of_worker i (wp_handled p) @ in_hand (wp_phases p ! i) @ of_worker i (wp_discarded p) @ bq_items (wp_queues p ! i)
    \<and> of_worker i (wp_completed p) @ completion_due (wp_phases p ! i) = map bt_on_applied (of_worker i (wp_handled p))
    \<and> route_of p source mod worker_count p = route_of p source"
  using pool_reachable_inv [OF assms(1)] assms(2)
  by (simp add: pool_inv_def worker_inv_def worker_count_def route_of_def)

definition numbered_batch :: "nat \<Rightarrow> batch" where
  "numbered_batch n = \<lparr>bt_records = [], bt_lines_scanned = n, bt_on_applied = Some n\<rparr>"

definition example_pool :: pool where
  "example_pool = the (pool_actions [StartAct, AdmitAct 3 (numbered_batch 7) True, AdmitAct 5 (numbered_batch 8) True,
     InternalAct (PushAct 0), InternalAct (PopAct 1), InternalAct (PushAct 0)] (pool_new 2 1))"

lemma example_pool_reachable: "pool_reachable 2 1 example_pool"
proof -
  have "pool_actions [StartAct, AdmitAct 3 (numbered_batch 7) True, AdmitAct 5 (numbered_batch 8) True,
     InternalAct (PushAct 0), InternalAct (PopAct 1), InternalAct (PushAct 0)] (pool_new 2 1) = Some example_pool"
    by code_simp
  then show ?thesis by (rule pool_reachable_actions [OF pool_reachable.initial])
qed

theorem workers_handle_in_order_witness:
  "of_worker 1 (wp_accepted example_pool) = [numbered_batch 7, numbered_batch 8]
   \<and> of_worker 1 (wp_accepted example_pool) =
      of_worker 1 (wp_handled example_pool) @ in_hand (wp_phases example_pool ! 1)
      @ of_worker 1 (wp_discarded example_pool) @ bq_items (wp_queues example_pool ! 1)"
proof
  show "of_worker 1 (wp_accepted example_pool) = [numbered_batch 7, numbered_batch 8]" by code_simp
  have "1 < worker_count example_pool" by code_simp
  from workers_handle_in_order [OF example_pool_reachable this]
  show "of_worker 1 (wp_accepted example_pool) =
      of_worker 1 (wp_handled example_pool) @ in_hand (wp_phases example_pool ! 1)
      @ of_worker 1 (wp_discarded example_pool) @ bq_items (wp_queues example_pool ! 1)" by blast
qed

text \<open>
  C23: stopping terminates and drains. From the moment \<^verbatim>\<open>stop\<close> holds the lifecycle lock, however
  the threads are scheduled, the number of further actions is bounded; and once no thread can act,
  \<^verbatim>\<open>stop\<close> has returned, no caller is left waiting, and every worker has handled and completed,
  in order, exactly the batches that were accepted for it.
\<close>

theorem stopping_drains:
  assumes "pool_reachable workers capacity p" and "wp_lifecycle p = Closing 0" and "wp_discarded p = []"
    and "pool_run as p = Some p'"
  shows "length as \<le> pool_weight p
    \<and> (stuck p' \<longrightarrow> wp_lifecycle p' = Idle \<and> wp_submitting p' = []
         \<and> (\<forall>i < worker_count p'. of_worker i (wp_handled p') = of_worker i (wp_accepted p')
              \<and> of_worker i (wp_completed p') = map bt_on_applied (of_worker i (wp_accepted p'))))"
proof -
  have inv: "pool_inv p" using assms(1) by (rule pool_reachable_inv)
  have started: "all_started p" using inv assms(2) by (simp add: pool_inv_def lifecycle_inv_def all_started_def Let_def)
  note run = pool_run_inv [OF inv assms(4)]
  have keeps: "wp_lifecycle p' \<noteq> Running" "all_started p'" "wp_discarded p' = []"
    using pool_run_keeps [OF assms(4) inv started] assms(2,3) by auto
  show ?thesis
  proof (intro conjI impI)
    show "length as \<le> pool_weight p" using run by simp
    assume "stuck p'"
    with run keeps(1) have fin: "wp_lifecycle p' = Idle \<and> wp_submitting p' = []
      \<and> (\<forall>i < length (wp_queues p').
         of_worker i (wp_accepted p') = of_worker i (wp_handled p') @ of_worker i (wp_discarded p') @ bq_items (wp_queues p' ! i)
         \<and> (wp_phases p' ! i = Exited \<longrightarrow> bq_items (wp_queues p' ! i) = [])
         \<and> of_worker i (wp_completed p') = map bt_on_applied (of_worker i (wp_handled p')))"
      by (intro stuck_is_done) simp_all
    then show "wp_lifecycle p' = Idle" and "wp_submitting p' = []" by simp_all
    have "wp_phases p' ! i = Exited" if "i < length (wp_queues p')" for i
      using run fin keeps(2) that by (auto simp: pool_inv_def lifecycle_inv_def all_started_def Let_def)
    with fin keeps(3) show "\<forall>i < worker_count p'. of_worker i (wp_handled p') = of_worker i (wp_accepted p')
              \<and> of_worker i (wp_completed p') = map bt_on_applied (of_worker i (wp_accepted p'))"
      by (simp add: worker_count_def)
  qed
qed

definition example_stopping :: pool where
  "example_stopping = the (pool_stop example_pool)"

definition example_drain :: "internal_action list" where
  "example_drain = [AdvanceAct, AdvanceAct, HandleAct 1, AdvanceAct, PopAct 0, CompleteAct 1, PopAct 1, HandleAct 1,
     CompleteAct 1, PopAct 1, AdvanceAct, AdvanceAct, AdvanceAct]"

definition example_drained :: pool where
  "example_drained = the (pool_run example_drain example_stopping)"

lemma example_drained_stuck: "stuck example_drained"
proof -
  have state: "wp_submitting example_drained = []" "wp_lifecycle example_drained = Idle"
    "wp_phases example_drained = [Exited, Exited]" "length (wp_queues example_drained) = 2"
    by code_simp+
  have "internal_step a example_drained = None" for a
    by (cases a) (auto simp: state pool_push_def worker_pop_def worker_handle_def worker_complete_def pool_advance_def
        nth_Cons less_2_cases_iff split: nat.splits)
  then show ?thesis by (simp add: stuck_def)
qed

theorem stopping_drains_witness:
  "length example_drain \<le> pool_weight example_stopping
   \<and> of_worker 1 (wp_handled example_drained) = [numbered_batch 7, numbered_batch 8]"
proof -
  have "pool_step StopAct example_pool = Some example_stopping" by code_simp
  with example_pool_reachable have "pool_reachable 2 1 example_stopping" by (rule pool_reachable.action)
  moreover have "wp_lifecycle example_stopping = Closing 0" and "wp_discarded example_stopping = []" by code_simp+
  moreover have "pool_run example_drain example_stopping = Some example_drained" by code_simp
  ultimately have "length example_drain \<le> pool_weight example_stopping"
    and "of_worker 1 (wp_handled example_drained) = of_worker 1 (wp_accepted example_drained)"
    if "1 < worker_count example_drained"
    using stopping_drains example_drained_stuck that by blast+
  moreover have "1 < worker_count example_drained"
    and "of_worker 1 (wp_accepted example_drained) = [numbered_batch 7, numbered_batch 8]" by code_simp+
  ultimately show ?thesis by simp
qed

text \<open>
  A stopped pool never works again. \<^verbatim>\<open>start\<close> reports success on a pool that was stopped or
  cancelled, but the queues stay closed: once all queues are closed, no sequence of calls, restarts
  included, makes the pool accept another batch.
\<close>

lemma closed_pool_accepts_nothing:
  assumes "pool_reachable workers capacity p" and "closed_below (worker_count p) p"
    and "pool_actions as p = Some p'"
  shows "wp_accepted p' = wp_accepted p"
  using closed_actions [OF assms(3) pool_reachable_inv [OF assms(1)]] assms(2) by (simp add: worker_count_def)

end
