(* ===== verification/Runtime.thy ===== *)
theory Runtime
  imports Restart Worker_Pool "HOL-Library.Multiset"
begin

text \<open>
  The observatory with its ingest workers (\<^verbatim>\<open>src/runtime/observatory.cpp\<close>: construction, \<^verbatim>\<open>start\<close>,
  \<^verbatim>\<open>stop\<close>, \<^verbatim>\<open>submit_batch\<close>, \<^verbatim>\<open>submit_observation\<close> and the plain queries) as a machine. Any number of
  callers submit batches while the workers of \<open>Worker_Pool\<close> apply parts of them; an action is a section
  of a thread that holds the state lock, a lock of the pool, or that touches only the call's own
  counter. This theory holds the machine, the laws of the routing, and the invariant of the calls
  in progress; \<open>Runtime_Results\<close> states what follows.
\<close>

section \<open>State\<close>

text \<open>
  A call of \<^verbatim>\<open>submit_batch\<close> that passed the check of \<^verbatim>\<open>started_\<close>: the batch it was given, the records
  it applies itself, the parts it hands to the pool, the shared counter \<^verbatim>\<open>remaining\<close>, and how far it
  is. The completion of a part is the number of its call.
\<close>

datatype call_phase =
    Applying
  | Arriving
  | Submitting "(nat \<times> batch) list"
  | Pushing "(nat \<times> batch) list"
  | Returned status

record call =
  ca_batch :: batch
  ca_direct :: "parsed_record list option"
  ca_parts :: "(nat \<times> batch) list"
  ca_remaining :: nat
  ca_phase :: call_phase

datatype stop_phase = NoStop | StoppingPool | CountedAbandoned | Saved status

text \<open>What was applied under the state lock, in order, with the instants the clock showed.\<close>

datatype applied =
    Direct nat "(parsed_record \<times> time_point) list"
  | ByWorker nat batch "(parsed_record \<times> time_point) list"

text \<open>\<open>rt_fired\<close> and \<open>rt_log\<close> record what happened; the code keeps no such logs.\<close>

record runtime =
  rt_ob :: observatory
  rt_pool :: "pool option"
  rt_files :: file_system
  rt_stop :: stop_phase
  rt_calls :: "call list"
  rt_fired :: "(nat \<times> nat) list"
  rt_log :: "applied list"

definition new_runtime :: "runtime_config \<Rightarrow> file_system \<Rightarrow> runtime" where
  "new_runtime c files =
     \<lparr>rt_ob = new_observatory c,
      rt_pool = (if cfg_workers c > 0 then Some (pool_new (unat (cfg_workers c)) (unat (cfg_queue_depth c))) else None),
      rt_files = files, rt_stop = NoStop, rt_calls = [], rt_fired = [], rt_log = []\<rparr>"

section \<open>Starting and stopping\<close>

text \<open>
  \<^verbatim>\<open>start\<close> as one action: one owner starts and stops the observatory, and nothing is submitted before
  it has returned. The environment says which reads of the snapshot file fail.
\<close>

definition runtime_start ::
  "u32 \<Rightarrow> (string \<Rightarrow> read_faults) \<Rightarrow> runtime \<Rightarrow> (runtime \<times> status) option" where
  "runtime_start version env r =
     (let c = ob_config (rt_ob r); valid = validate_config c in
      if \<not> status_ok valid then Some (r, valid)
      else if ob_started (rt_ob r)
      then Some (r, status_of SC_AlreadyExists ''observatory is already started'')
      else
        let loaded = (if cfg_restore_on_start c \<and> cfg_snapshot_path c \<noteq> []
                      then reload_file version env (rt_files r) (rt_ob r) else (rt_ob r, status_success));
            r1 = r\<lparr>rt_ob := fst loaded\<rparr>
        in if \<not> status_ok (snd loaded) \<and> status_code (snd loaded) \<noteq> SC_NotFound then Some (r1, snd loaded)
           else
             case rt_pool r of
               None \<Rightarrow> Some (r1\<lparr>rt_ob := (rt_ob r1)\<lparr>ob_started := True\<rparr>\<rparr>, status_success)
             | Some p \<Rightarrow>
                 (case pool_start p of
                    None \<Rightarrow> None
                  | Some (p', started) \<Rightarrow>
                      if \<not> status_ok started then Some (r1, started)
                      else Some (r1\<lparr>rt_pool := Some p', rt_ob := (rt_ob r1)\<lparr>ob_started := True\<rparr>\<rparr>, status_success)))"

text \<open>
  \<^verbatim>\<open>stop\<close>: the pool is stopped first, which lets the workers finish; then its abandoned batches are
  counted, the snapshot is saved, and the flag is cleared, each under the state lock.
\<close>

definition stop_begin :: "runtime \<Rightarrow> runtime option" where
  "stop_begin r =
     (if rt_stop r \<noteq> NoStop then None
      else case rt_pool r of
        None \<Rightarrow> Some (r\<lparr>rt_stop := CountedAbandoned\<rparr>)
      | Some p \<Rightarrow>
          (case pool_stop p of
             None \<Rightarrow> None
           | Some p' \<Rightarrow> Some (r\<lparr>rt_pool := Some p', rt_stop := StoppingPool\<rparr>)))"

definition stop_count :: "runtime \<Rightarrow> runtime option" where
  "stop_count r =
     (case rt_pool r of
        Some p \<Rightarrow>
          if rt_stop r = StoppingPool \<and> wp_lifecycle p = Idle
          then Some (r\<lparr>rt_stop := CountedAbandoned,
                       rt_ob := (rt_ob r)\<lparr>ob_stats := (ob_stats (rt_ob r))
                         \<lparr>rs_abandoned_batches := rs_abandoned_batches (ob_stats (rt_ob r)) + pool_abandoned p\<rparr>\<rparr>\<rparr>)
          else None
      | None \<Rightarrow> None)"

definition stop_save :: "u32 \<Rightarrow> write_faults \<Rightarrow> time_point \<Rightarrow> runtime \<Rightarrow> runtime option" where
  "stop_save version faults now r =
     (let c = ob_config (rt_ob r) in
      if rt_stop r \<noteq> CountedAbandoned then None
      else if cfg_persist_on_stop c \<and> cfg_snapshot_path c \<noteq> []
      then (case persist version faults (rt_files r) (rt_ob r) now of
              (trace, ob, result) \<Rightarrow>
                Some (r\<lparr>rt_files := last trace, rt_ob := ob, rt_stop := Saved (swr_status result)\<rparr>))
      else Some (r\<lparr>rt_stop := Saved status_success\<rparr>))"

definition stop_finish :: "runtime \<Rightarrow> (runtime \<times> status) option" where
  "stop_finish r =
     (case rt_stop r of
        Saved persisted \<Rightarrow> Some (r\<lparr>rt_ob := (rt_ob r)\<lparr>ob_started := False\<rparr>, rt_stop := NoStop\<rparr>, persisted)
      | _ \<Rightarrow> None)"

definition started :: "runtime \<Rightarrow> bool" where
  "started r = ob_started (rt_ob r)"

section \<open>Submitting\<close>

text \<open>The routing loop: observations by the worker of their source, in order; the rest in order.\<close>

definition is_observation :: "parsed_record \<Rightarrow> bool" where
  "is_observation r \<longleftrightarrow> (case r of ObservationRecord d \<Rightarrow> True | _ \<Rightarrow> False)"

definition route_record ::
  "pool \<Rightarrow> parsed_record \<Rightarrow> (nat, parsed_record list) omap \<times> parsed_record list
     \<Rightarrow> (nat, parsed_record list) omap \<times> parsed_record list" where
  "route_record p r acc =
     (case acc of (routed, declarations) \<Rightarrow>
        if is_observation r then
          let route = route_of p (source_name_of r);
              part = (case om_get routed route of Some part \<Rightarrow> part | None \<Rightarrow> [])
          in (om_put route (part @ [r]) routed, declarations)
        else (routed, declarations @ [r]))"

definition route_records :: "pool \<Rightarrow> parsed_record list \<Rightarrow> (nat, parsed_record list) omap \<times> parsed_record list" where
  "route_records p records = fold (route_record p) records ([], [])"

definition part_of :: "nat \<Rightarrow> parsed_record list \<Rightarrow> batch" where
  "part_of cid records = \<lparr>bt_records = records, bt_lines_scanned = 0, bt_on_applied = Some cid\<rparr>"

definition submit_next :: "(nat \<times> batch) list \<Rightarrow> call_phase" where
  "submit_next parts = (if parts = [] then Returned status_success else Submitting parts)"

text \<open>The caller's completion runs.\<close>

definition fire :: "nat \<Rightarrow> runtime \<Rightarrow> runtime" where
  "fire cid r =
     (case bt_on_applied (ca_batch (rt_calls r ! cid)) of
        None \<Rightarrow> r
      | Some completion \<Rightarrow> r\<lparr>rt_fired := rt_fired r @ [(cid, completion)]\<rparr>)"

text \<open>
  The call up to its first lock or queue operation. Without workers the whole batch is applied by the
  caller. A batch without records returns at once when there are workers.
\<close>

definition submit_begin :: "batch \<Rightarrow> runtime \<Rightarrow> runtime \<times> status option" where
  "submit_begin b r =
     (if \<not> ob_started (rt_ob r)
      then (r, Some (status_of SC_Cancelled ''observatory is not started''))
      else
        let cid = length (rt_calls r) in
        case rt_pool r of
          None \<Rightarrow>
            (r\<lparr>rt_calls := rt_calls r @ [\<lparr>ca_batch = b, ca_direct = Some (bt_records b), ca_parts = [], ca_remaining = 1,
                                         ca_phase = Applying\<rparr>]\<rparr>, None)
        | Some p \<Rightarrow>
            (case route_records p (bt_records b) of
               (routed, declarations) \<Rightarrow>
                 let parts = map (\<lambda>(route, records). (route, part_of cid records)) routed;
                     part_count = length routed + (if declarations = [] then 0 else 1);
                     c = \<lparr>ca_batch = b, ca_direct = (if declarations = [] then None else Some declarations),
                          ca_parts = parts, ca_remaining = part_count,
                          ca_phase = (if declarations = [] then submit_next parts else Applying)\<rparr>;
                     r1 = r\<lparr>rt_calls := rt_calls r @ [c]\<rparr>
                 in (if part_count = 0 then fire cid r1 else r1, None)))"

definition observation_batch :: "observation_decl \<Rightarrow> batch" where
  "observation_batch declaration = \<lparr>bt_records = [ObservationRecord declaration], bt_lines_scanned = 0, bt_on_applied = None\<rparr>"

definition submit_observation :: "observation_decl \<Rightarrow> runtime \<Rightarrow> runtime \<times> status option" where
  "submit_observation declaration r = submit_begin (observation_batch declaration) r"

definition set_call :: "nat \<Rightarrow> (call \<Rightarrow> call) \<Rightarrow> runtime \<Rightarrow> runtime" where
  "set_call cid f r = r\<lparr>rt_calls := (rt_calls r)[cid := f (rt_calls r ! cid)]\<rparr>"

text \<open>The counter shared by the parts: whoever takes the last one runs the completion.\<close>

definition arrive :: "nat \<Rightarrow> runtime \<Rightarrow> runtime" where
  "arrive cid r =
     (let r1 = set_call cid (\<lambda>c. c\<lparr>ca_remaining := ca_remaining c - 1\<rparr>) r in
      if ca_remaining (rt_calls r ! cid) = 1 then fire cid r1 else r1)"

definition apply_direct :: "nat \<Rightarrow> time_point list \<Rightarrow> runtime \<Rightarrow> runtime option" where
  "apply_direct cid instants r =
     (if cid < length (rt_calls r) \<and> ca_phase (rt_calls r ! cid) = Applying then
        (case ca_direct (rt_calls r ! cid) of
           Some records \<Rightarrow>
             if length instants = length records
             then Some ((set_call cid (\<lambda>c. c\<lparr>ca_phase := Arriving\<rparr>) r)
                    \<lparr>rt_ob := apply_batch (rt_ob r) (zip records instants),
                     rt_log := rt_log r @ [Direct cid (zip records instants)]\<rparr>)
             else None
         | None \<Rightarrow> None)
      else None)"

definition arrive_direct :: "nat \<Rightarrow> runtime \<Rightarrow> runtime option" where
  "arrive_direct cid r =
     (if cid < length (rt_calls r) \<and> ca_phase (rt_calls r ! cid) = Arriving
      then Some (arrive cid (set_call cid (\<lambda>c. c\<lparr>ca_phase := submit_next (ca_parts c)\<rparr>) r))
      else None)"

text \<open>\<^verbatim>\<open>workers_->submit\<close> for the next part: the check of the pool, then the push.\<close>

definition admit_part :: "nat \<Rightarrow> runtime \<Rightarrow> runtime option" where
  "admit_part cid r =
     (case rt_pool r of
        None \<Rightarrow> None
      | Some p \<Rightarrow>
          if cid < length (rt_calls r) then
            (case ca_phase (rt_calls r ! cid) of
               Submitting ((route, b) # rest) \<Rightarrow>
                 (case pool_admit route b True p of
                    None \<Rightarrow> None
                  | Some (p', Inl refused) \<Rightarrow>
                      Some ((set_call cid (\<lambda>c. c\<lparr>ca_phase := Returned refused\<rparr>) r)\<lparr>rt_pool := Some p'\<rparr>)
                  | Some (p', Inr _) \<Rightarrow>
                      Some ((set_call cid (\<lambda>c. c\<lparr>ca_phase := Pushing rest\<rparr>) r)\<lparr>rt_pool := Some p'\<rparr>))
             | _ \<Rightarrow> None)
          else None)"

definition after_push :: "status \<Rightarrow> call_phase \<Rightarrow> call_phase" where
  "after_push submitted stage =
     (case stage of
        Pushing rest \<Rightarrow> if status_ok submitted then submit_next rest else Returned submitted
      | _ \<Rightarrow> stage)"

definition push_part :: "nat \<Rightarrow> runtime \<Rightarrow> runtime option" where
  "push_part k r =
     (case rt_pool r of
        None \<Rightarrow> None
      | Some p \<Rightarrow>
          (case pool_push k p of
             None \<Rightarrow> None
           | Some (p', submitted) \<Rightarrow>
               (case wp_submitting p ! k of (i, b, blocking) \<Rightarrow>
                  (case bt_on_applied b of
                     Some cid \<Rightarrow>
                       Some ((set_call cid (\<lambda>c. c\<lparr>ca_phase := after_push submitted (ca_phase c)\<rparr>) r)\<lparr>rt_pool := Some p'\<rparr>)
                   | None \<Rightarrow> Some (r\<lparr>rt_pool := Some p'\<rparr>)))))"

section \<open>Workers\<close>

text \<open>The handler that \<^verbatim>\<open>start\<close> installs applies the batch under the state lock.\<close>

definition handle_part :: "nat \<Rightarrow> time_point list \<Rightarrow> runtime \<Rightarrow> runtime option" where
  "handle_part i instants r =
     (case rt_pool r of
        None \<Rightarrow> None
      | Some p \<Rightarrow>
          (case worker_handle i p of
             None \<Rightarrow> None
           | Some p' \<Rightarrow>
               (case wp_phases p ! i of
                  Handling b \<Rightarrow>
                    if length instants = length (bt_records b)
                    then Some (r\<lparr>rt_pool := Some p', rt_ob := apply_batch (rt_ob r) (zip (bt_records b) instants),
                                 rt_log := rt_log r @ [ByWorker i b (zip (bt_records b) instants)]\<rparr>)
                    else None
                | _ \<Rightarrow> None)))"

definition complete_part :: "nat \<Rightarrow> runtime \<Rightarrow> runtime option" where
  "complete_part i r =
     (case rt_pool r of
        None \<Rightarrow> None
      | Some p \<Rightarrow>
          (case worker_complete i p of
             None \<Rightarrow> None
           | Some p' \<Rightarrow>
               (case wp_phases p ! i of
                  Applied (Some cid) \<Rightarrow> Some (arrive cid (r\<lparr>rt_pool := Some p'\<rparr>))
                | _ \<Rightarrow> Some (r\<lparr>rt_pool := Some p'\<rparr>))))"

definition pool_only :: "(pool \<Rightarrow> pool option) \<Rightarrow> runtime \<Rightarrow> runtime option" where
  "pool_only f r =
     (case rt_pool r of
        None \<Rightarrow> None
      | Some p \<Rightarrow> (case f p of None \<Rightarrow> None | Some p' \<Rightarrow> Some (r\<lparr>rt_pool := Some p'\<rparr>)))"

section \<open>Queries\<close>

definition runtime_links :: "runtime \<Rightarrow> link_entry list" where
  "runtime_links r = links (ob_registry (rt_ob r))"

definition runtime_sources :: "runtime \<Rightarrow> source_record list" where
  "runtime_sources r = sources (ob_registry (rt_ob r))"

definition transitions :: "runtime \<Rightarrow> link_id \<Rightarrow> u64 \<Rightarrow> transition_event list" where
  "transitions r link limit = for_link (ob_log (rt_ob r)) link limit"

definition recent_transitions :: "runtime \<Rightarrow> u64 \<Rightarrow> transition_event list" where
  "recent_transitions r limit = recent (ob_log (rt_ob r)) limit"

definition metrics_for :: "runtime \<Rightarrow> link_id \<Rightarrow> metric_key list" where
  "metrics_for r link = keys_for (ob_store (rt_ob r)) link"

definition statistics :: "runtime \<Rightarrow> runtime_statistics" where
  "statistics r = ob_stats (rt_ob r)"

definition restored_from_snapshot :: "runtime \<Rightarrow> bool" where
  "restored_from_snapshot r = ob_restored (rt_ob r)"

definition loaded_from_backup :: "runtime \<Rightarrow> bool" where
  "loaded_from_backup r = ob_loaded_from_backup (rt_ob r)"

definition load_detail :: "runtime \<Rightarrow> string" where
  "load_detail r = ob_load_detail (rt_ob r)"

section \<open>Interleavings\<close>

datatype rt_action =
    Start u32 "string \<Rightarrow> read_faults"
  | StopBegin
  | StopCount
  | StopSave u32 write_faults time_point
  | StopFinish
  | SubmitBatch batch
  | ApplyDirect nat "time_point list"
  | ArriveDirect nat
  | AdmitPart nat
  | PushPart nat
  | PopPart nat
  | HandlePart nat "time_point list"
  | CompletePart nat
  | AdvanceStop

primrec rt_step :: "rt_action \<Rightarrow> runtime \<Rightarrow> runtime option" where
  "rt_step (Start version env) r = map_option fst (runtime_start version env r)"
| "rt_step StopBegin r = stop_begin r"
| "rt_step StopCount r = stop_count r"
| "rt_step (StopSave version faults now) r = stop_save version faults now r"
| "rt_step StopFinish r = map_option fst (stop_finish r)"
| "rt_step (SubmitBatch b) r = Some (fst (submit_begin b r))"
| "rt_step (ApplyDirect cid instants) r = apply_direct cid instants r"
| "rt_step (ArriveDirect cid) r = arrive_direct cid r"
| "rt_step (AdmitPart cid) r = admit_part cid r"
| "rt_step (PushPart k) r = push_part k r"
| "rt_step (PopPart i) r = pool_only (worker_pop i) r"
| "rt_step (HandlePart i instants) r = handle_part i instants r"
| "rt_step (CompletePart i) r = complete_part i r"
| "rt_step AdvanceStop r = pool_only pool_advance r"

inductive rt_reachable :: "runtime_config \<Rightarrow> runtime \<Rightarrow> bool" for c where
  built: "rt_reachable c (new_runtime c files)"
| step: "rt_reachable c r \<Longrightarrow> rt_step a r = Some r' \<Longrightarrow> rt_reachable c r'"

section \<open>Routing\<close>

definition worker_for :: "nat \<Rightarrow> string \<Rightarrow> nat" where
  "worker_for n source_name = (if n = 0 then 0 else unat (route_hash source_name) mod n)"

lemma route_of_worker: "route_of p s = worker_for (length (wp_queues p)) s"
  by (simp add: route_of_def worker_for_def)

definition routed_to :: "nat \<Rightarrow> nat \<Rightarrow> parsed_record \<Rightarrow> bool" where
  "routed_to n i r \<longleftrightarrow> is_observation r \<and> worker_for n (source_name_of r) = i"

lemma om_put_mset:
  fixes m :: "(nat, 'a list) omap"
  assumes "om_wf m"
  shows "mset (concat (map snd (om_put k v m))) + mset (case om_get m k of Some w \<Rightarrow> w | None \<Rightarrow> [])
    = mset (concat (map snd m)) + mset v"
  using assms
proof (induction m)
  case (Cons e m)
  then have wf: "om_wf m" and lo: "\<forall>x \<in> fst ` set m. fst e < x" by (simp_all add: om_wf_Cons)
  obtain j w where e: "e = (j, w)" by (cases e)
  consider "j < k" | "j = k" | "k < j" by (rule linorder_cases)
  then show ?case
  proof cases
    case 1
    then have "om_get (e # m) k = om_get m k" by (simp add: om_get_def e)
    then show ?thesis using Cons.IH [OF wf] 1 by (simp add: e)
  next
    case 3
    then have "k \<notin> fst ` set (e # m)" using lo e by auto
    then have "om_get (e # m) k = None" by (simp add: om_get_def map_of_eq_None_iff)
    then show ?thesis using 3 by (simp add: e)
  qed (simp add: om_get_def e)
qed simp

lemma route_records_snoc: "route_records p (rs @ [r]) = route_record p r (route_records p rs)"
  by (simp add: route_records_def)

lemma route_records_spec:
  assumes "route_records p rs = (routed, decls)"
  defines "n \<equiv> length (wp_queues p)"
  shows "om_wf routed" and "decls = filter (\<lambda>r. \<not> is_observation r) rs"
    and "om_get routed i = (if filter (routed_to n i) rs = [] then None else Some (filter (routed_to n i) rs))"
    and "mset (concat (map snd routed)) = mset (filter is_observation rs)"
  using assms(1) unfolding n_def
proof (induction rs arbitrary: routed decls i rule: rev_induct)
  case Nil
  { case 1 then show ?case by (simp add: route_records_def) }
  { case 2 then show ?case by (simp add: route_records_def) }
  { case 3 then show ?case by (simp add: route_records_def) }
  { case 4 then show ?case by (simp add: route_records_def) }
next
  case (snoc r rs)
  obtain m ds where prev: "route_records p rs = (m, ds)" by (cases "route_records p rs")
  note IH = snoc [OF prev]
  let ?n = "length (wp_queues p)" and ?i = "worker_for (length (wp_queues p)) (source_name_of r)"
  have old: "(case om_get m ?i of Some part \<Rightarrow> part | None \<Rightarrow> []) = filter (routed_to ?n ?i) rs"
    by (simp add: IH(3))
  have r_to: "routed_to ?n j r \<longleftrightarrow> is_observation r \<and> ?i = j" for j by (simp add: routed_to_def)
  have step: "route_records p (rs @ [r]) =
      (if is_observation r then (om_put ?i (filter (routed_to ?n ?i) rs @ [r]) m, ds) else (m, ds @ [r]))"
    using old by (simp add: route_records_snoc prev route_record_def route_of_worker Let_def)
  { case 1 then show ?case using IH(1) step by (auto split: if_splits) }
  { case 2 then show ?case using IH(2) step by (auto split: if_splits) }
  { case 3 then show ?case using IH(3) [of i] step by (auto simp: om_get_put r_to split: if_splits) }
  { case 4
    have "mset (concat (map snd (om_put ?i (filter (routed_to ?n ?i) rs @ [r]) m))) + mset (filter (routed_to ?n ?i) rs)
        = mset (concat (map snd m)) + mset (filter (routed_to ?n ?i) rs @ [r])"
      using om_put_mset [OF IH(1), of ?i "filter (routed_to ?n ?i) rs @ [r]"] by (simp only: old)
    then show ?case using 4 IH(4) step by (auto split: if_splits) }
qed

lemma route_records_part:
  assumes "route_records p rs = (routed, decls)" and "(i, part) \<in> set routed"
  shows "part = filter (routed_to (length (wp_queues p)) i) rs" and "part \<noteq> []"
proof -
  have "om_get routed i = Some part"
    using om_get_iff [OF route_records_spec(1) [OF assms(1)]] assms(2) by simp
  then show "part = filter (routed_to (length (wp_queues p)) i) rs" and "part \<noteq> []"
    using route_records_spec(3) [OF assms(1), of i] by (auto split: if_splits)
qed

section \<open>Counting in the pool\<close>

lemma count_of_worker: "count (mset log) (i, x) = count (mset (of_worker i log)) x"
  by (induction log) (auto simp: of_worker_def)

lemma of_worker_map: "of_worker i (map (\<lambda>e. (fst e, f (snd e))) log) = map f (of_worker i log)"
  by (induction log) (auto simp: of_worker_def)

lemma of_worker_out: "list_all (\<lambda>e. fst e < n) log \<Longrightarrow> \<not> i < n \<Longrightarrow> of_worker i log = []"
  by (induction log) (auto simp: of_worker_def)

definition tokens :: "(nat \<times> batch) list \<Rightarrow> (nat \<times> nat option) list" where
  "tokens log = map (\<lambda>e. (fst e, bt_on_applied (snd e))) log"

lemma handled_subset: "pool_inv p \<Longrightarrow> mset (wp_handled p) \<subseteq># mset (wp_accepted p)"
proof (rule mset_subset_eqI)
  fix e :: "nat \<times> batch"
  assume inv: "pool_inv p"
  obtain i b where e: "e = (i, b)" by (cases e)
  show "count (mset (wp_handled p)) e \<le> count (mset (wp_accepted p)) e"
  proof (cases "i < length (wp_queues p)")
    case True
    then have "worker_inv p i" using inv by (simp add: pool_inv_def)
    then show ?thesis unfolding e count_of_worker by (simp add: worker_inv_def)
  next
    case False
    then show ?thesis
      using inv of_worker_out [of "length (wp_queues p)" "wp_handled p" i]
      unfolding e count_of_worker by (simp add: pool_inv_def pool_shape_def)
  qed
qed

lemma completed_subset: "pool_inv p \<Longrightarrow> mset (wp_completed p) \<subseteq># mset (tokens (wp_handled p))"
proof (rule mset_subset_eqI)
  fix e :: "nat \<times> nat option"
  assume inv: "pool_inv p"
  obtain i c where e: "e = (i, c)" by (cases e)
  show "count (mset (wp_completed p)) e \<le> count (mset (tokens (wp_handled p))) e"
  proof (cases "i < length (wp_queues p)")
    case True
    then have "worker_inv p i" using inv by (simp add: pool_inv_def)
    then have "of_worker i (wp_completed p) @ completion_due (wp_phases p ! i) = map bt_on_applied (of_worker i (wp_handled p))"
      by (simp add: worker_inv_def)
    from arg_cong [OF this, of "\<lambda>xs. count (mset xs) c"] show ?thesis
      unfolding e count_of_worker tokens_def of_worker_map by simp
  next
    case False
    then show ?thesis
      using inv of_worker_out [of "length (wp_queues p)" "wp_completed p" i]
      unfolding e count_of_worker by (simp add: pool_inv_def pool_shape_def)
  qed
qed

definition accepted_for :: "nat \<Rightarrow> pool \<Rightarrow> (nat \<times> batch) list" where
  "accepted_for cid p = filter (\<lambda>e. bt_on_applied (snd e) = Some cid) (wp_accepted p)"

definition handled_for :: "nat \<Rightarrow> pool \<Rightarrow> (nat \<times> batch) list" where
  "handled_for cid p = filter (\<lambda>e. bt_on_applied (snd e) = Some cid) (wp_handled p)"

definition submitting_for :: "nat \<Rightarrow> pool \<Rightarrow> (nat \<times> batch) list" where
  "submitting_for cid p =
     map (\<lambda>e. (fst e, fst (snd e))) (filter (\<lambda>e. bt_on_applied (fst (snd e)) = Some cid) (wp_submitting p))"

definition completed_for :: "nat \<Rightarrow> pool \<Rightarrow> nat" where
  "completed_for cid p = length (filter (\<lambda>e. snd e = Some cid) (wp_completed p))"

lemma handled_for_subset: "pool_inv p \<Longrightarrow> mset (handled_for cid p) \<subseteq># mset (accepted_for cid p)"
  using handled_subset [of p] by (simp add: handled_for_def accepted_for_def multiset_filter_mono)

lemma completed_for_le: "pool_inv p \<Longrightarrow> completed_for cid p \<le> length (handled_for cid p)"
proof -
  assume "pool_inv p"
  then have "filter_mset (\<lambda>e. snd e = Some cid) (mset (wp_completed p))
      \<subseteq># filter_mset (\<lambda>e. snd e = Some cid) (mset (tokens (wp_handled p)))"
    by (intro multiset_filter_mono completed_subset)
  from size_mset_mono [OF this]
  have "completed_for cid p \<le> length (filter (\<lambda>e. snd e = Some cid) (tokens (wp_handled p)))"
    by (simp add: completed_for_def flip: mset_filter)
  also have "\<dots> = length (handled_for cid p)" by (simp add: tokens_def handled_for_def filter_map o_def)
  finally show ?thesis .
qed

lemma completed_le_accepted: "pool_inv p \<Longrightarrow> completed_for cid p \<le> length (accepted_for cid p)"
  using completed_for_le [of p cid] size_mset_mono [OF handled_for_subset [of p cid]] by simp

section \<open>The invariant of the calls\<close>

definition the_pool :: "runtime \<Rightarrow> pool" where
  "the_pool r = (case rt_pool r of Some p \<Rightarrow> p | None \<Rightarrow> pool_new 0 0)"

definition direct_records :: "call \<Rightarrow> parsed_record list" where
  "direct_records c = (case ca_direct c of Some records \<Rightarrow> records | None \<Rightarrow> [])"

text \<open>The observations of a source among some records, in order.\<close>

definition obs_of :: "string \<Rightarrow> parsed_record list \<Rightarrow> parsed_record list" where
  "obs_of source_name records = filter (\<lambda>r. is_observation r \<and> source_name_of r = source_name) records"

lemma obs_of_append [simp]: "obs_of s [] = []" "obs_of s (xs @ ys) = obs_of s xs @ obs_of s ys"
  by (simp_all add: obs_of_def)

definition records_of :: "(nat \<times> batch) list \<Rightarrow> parsed_record list" where
  "records_of parts = concat (map (\<lambda>e. bt_records (snd e)) parts)"

lemma records_of_simps [simp]: "records_of [] = []" "records_of (e # ps) = bt_records (snd e) @ records_of ps"
  "records_of (ps @ qs) = records_of ps @ records_of qs"
  by (simp_all add: records_of_def)

text \<open>What never changes about a call: its parts make up the batch, source by source in order, and are routed by source.\<close>

definition call_static :: "nat \<Rightarrow> nat \<Rightarrow> call \<Rightarrow> bool" where
  "call_static n cid c \<longleftrightarrow>
     mset (bt_records (ca_batch c)) = mset (direct_records c) + mset (records_of (ca_parts c))
     \<and> (\<forall>s. obs_of s (bt_records (ca_batch c)) = obs_of s (direct_records c @ records_of (ca_parts c)))
     \<and> list_all (\<lambda>e. bt_on_applied (snd e) = Some cid \<and> fst e < n \<and> list_all (routed_to n (fst e)) (bt_records (snd e)))
         (ca_parts c)"

text \<open>How far a call is, given what the pool has accepted from it and what it is pushing.\<close>

definition call_progress :: "call \<Rightarrow> (nat \<times> batch) list \<Rightarrow> (nat \<times> batch) list \<Rightarrow> bool" where
  "call_progress c accepted pushing \<longleftrightarrow>
     (case ca_phase c of
        Applying \<Rightarrow> ca_direct c \<noteq> None \<and> accepted = [] \<and> pushing = []
      | Arriving \<Rightarrow> ca_direct c \<noteq> None \<and> accepted = [] \<and> pushing = []
      | Submitting rest \<Rightarrow> rest \<noteq> [] \<and> pushing = [] \<and> accepted @ rest = ca_parts c
      | Pushing rest \<Rightarrow> \<exists>part. pushing = [part] \<and> accepted @ part # rest = ca_parts c
      | Returned s \<Rightarrow> pushing = [] \<and> (if status_ok s then accepted = ca_parts c else \<exists>part rest. accepted @ part # rest = ca_parts c))"

definition direct_applied :: "call \<Rightarrow> bool" where
  "direct_applied c \<longleftrightarrow> ca_direct c \<noteq> None \<and> ca_phase c \<noteq> Applying"

definition direct_arrived :: "call \<Rightarrow> bool" where
  "direct_arrived c \<longleftrightarrow> ca_direct c \<noteq> None \<and> ca_phase c \<noteq> Applying \<and> ca_phase c \<noteq> Arriving"

definition call_counts :: "call \<Rightarrow> nat \<Rightarrow> bool" where
  "call_counts c completed \<longleftrightarrow>
     ca_remaining c + completed + (if direct_arrived c then 1 else 0) = length (ca_parts c) + (if ca_direct c = None then 0 else 1)"

definition call_ok :: "nat \<Rightarrow> nat \<Rightarrow> call \<Rightarrow> (nat \<times> batch) list \<Rightarrow> (nat \<times> batch) list \<Rightarrow> nat \<Rightarrow> bool" where
  "call_ok n cid c accepted pushing completed \<longleftrightarrow>
     call_static n cid c \<and> call_progress c accepted pushing \<and> call_counts c completed"

definition call_inv :: "runtime \<Rightarrow> nat \<Rightarrow> bool" where
  "call_inv r cid \<longleftrightarrow>
     (let p = the_pool r in
      call_ok (length (wp_queues p)) cid (rt_calls r ! cid) (accepted_for cid p) (submitting_for cid p) (completed_for cid p))"

text \<open>Every batch in the pool is a part of a call.\<close>

definition known_calls :: "nat \<Rightarrow> pool \<Rightarrow> bool" where
  "known_calls n p \<longleftrightarrow>
     list_all (\<lambda>e. \<exists>cid < n. bt_on_applied (snd e) = Some cid) (wp_accepted p)
     \<and> list_all (\<lambda>e. \<exists>cid < n. bt_on_applied (fst (snd e)) = Some cid) (wp_submitting p)"

definition fired_ok :: "call list \<Rightarrow> (nat \<times> nat) list \<Rightarrow> bool" where
  "fired_ok calls fired \<longleftrightarrow>
     distinct (map fst fired)
     \<and> (\<forall>cid t. (cid, t) \<in> set fired \<longleftrightarrow>
          cid < length calls \<and> ca_remaining (calls ! cid) = 0 \<and> bt_on_applied (ca_batch (calls ! cid)) = Some t)"

definition calls_inv :: "runtime \<Rightarrow> bool" where
  "calls_inv r \<longleftrightarrow>
     pool_inv (the_pool r) \<and> known_calls (length (rt_calls r)) (the_pool r)
     \<and> (\<forall>cid < length (rt_calls r). call_inv r cid) \<and> fired_ok (rt_calls r) (rt_fired r)"

lemma the_pool_Some [simp]: "rt_pool r = Some p \<Longrightarrow> the_pool r = p"
  by (simp add: the_pool_def)

lemma the_pool_update [simp]: "the_pool (r\<lparr>rt_pool := Some p\<rparr>) = p" "the_pool (r\<lparr>rt_ob := ob\<rparr>) = the_pool r"
  "the_pool (r\<lparr>rt_calls := cs\<rparr>) = the_pool r" "the_pool (r\<lparr>rt_fired := fs\<rparr>) = the_pool r"
  "the_pool (r\<lparr>rt_log := l\<rparr>) = the_pool r" "the_pool (r\<lparr>rt_stop := sp\<rparr>) = the_pool r" "the_pool (r\<lparr>rt_files := f\<rparr>) = the_pool r"
  by (simp_all add: the_pool_def)

definition same_calls :: "pool \<Rightarrow> pool \<Rightarrow> bool" where
  "same_calls p p' \<longleftrightarrow>
     length (wp_queues p') = length (wp_queues p) \<and> wp_accepted p' = wp_accepted p \<and> wp_submitting p' = wp_submitting p
     \<and> wp_completed p' = wp_completed p"

lemma calls_inv_frame:
  assumes "calls_inv r" and "same_calls (the_pool r) (the_pool r')" and "pool_inv (the_pool r')"
    and "rt_calls r' = rt_calls r" and "rt_fired r' = rt_fired r"
  shows "calls_inv r'"
  using assms by (simp add: calls_inv_def same_calls_def known_calls_def call_inv_def accepted_for_def submitting_for_def
      completed_for_def Let_def)

lemma calls_inv_update:
  assumes inv: "calls_inv r" and cid: "cid < length (rt_calls r)" and pool: "pool_inv (the_pool r')"
    and known: "known_calls (length (rt_calls r)) (the_pool r')"
    and n: "length (wp_queues (the_pool r')) = length (wp_queues (the_pool r))"
    and calls: "rt_calls r' = (rt_calls r)[cid := c]"
    and others: "\<And>j. j \<noteq> cid \<Longrightarrow> accepted_for j (the_pool r') = accepted_for j (the_pool r)
      \<and> submitting_for j (the_pool r') = submitting_for j (the_pool r) \<and> completed_for j (the_pool r') = completed_for j (the_pool r)"
    and mine: "call_ok (length (wp_queues (the_pool r))) cid c (accepted_for cid (the_pool r')) (submitting_for cid (the_pool r'))
      (completed_for cid (the_pool r'))"
    and fired: "fired_ok (rt_calls r') (rt_fired r')"
  shows "calls_inv r'"
proof -
  have "call_inv r' j" if "j < length (rt_calls r')" for j
  proof (cases "j = cid")
    case True
    then show ?thesis using mine cid by (simp add: call_inv_def calls n)
  next
    case False
    then have "call_inv r j" using inv that by (simp add: calls_inv_def calls)
    then show ?thesis using others [OF False] False by (simp add: call_inv_def calls n Let_def)
  qed
  then show ?thesis using pool known fired by (simp add: calls_inv_def calls)
qed

lemma fired_ok_same:
  assumes "fired_ok calls fired" and "ca_remaining c = ca_remaining (calls ! cid)" and "ca_batch c = ca_batch (calls ! cid)"
  shows "fired_ok (calls[cid := c]) fired"
proof -
  have "ca_remaining (calls[cid := c] ! j) = ca_remaining (calls ! j) \<and> ca_batch (calls[cid := c] ! j) = ca_batch (calls ! j)"
    if "j < length calls" for j
    using assms(2,3) that by (cases "j = cid") simp_all
  then show ?thesis using assms(1) by (auto simp: fired_ok_def)
qed

definition completion_of :: "nat \<Rightarrow> call \<Rightarrow> (nat \<times> nat) list" where
  "completion_of cid c = (case bt_on_applied (ca_batch c) of Some t \<Rightarrow> [(cid, t)] | None \<Rightarrow> [])"

lemma arrive_eq:
  assumes "cid < length (rt_calls r)"
  shows "arrive cid r = r\<lparr>rt_calls := (rt_calls r)[cid := (rt_calls r ! cid)\<lparr>ca_remaining := ca_remaining (rt_calls r ! cid) - 1\<rparr>],
    rt_fired := rt_fired r @ (if ca_remaining (rt_calls r ! cid) = 1 then completion_of cid (rt_calls r ! cid) else [])\<rparr>"
  using assms by (simp add: arrive_def set_call_def fire_def completion_of_def Let_def split: option.splits)

lemma fired_ok_arrive:
  assumes ok: "fired_ok calls fired" and cid: "cid < length calls" and left: "ca_remaining (calls ! cid) > 0"
    and c: "ca_remaining c = ca_remaining (calls ! cid) - 1" "ca_batch c = ca_batch (calls ! cid)"
  shows "fired_ok (calls[cid := c]) (fired @ (if ca_remaining (calls ! cid) = 1 then completion_of cid (calls ! cid) else []))"
proof -
  have new: "cid \<notin> fst ` set fired" using ok left by (auto simp: fired_ok_def)
  have keep: "calls[cid := c] ! j = calls ! j" if "j \<noteq> cid" for j using that by simp
  have mem: "(j, t) \<in> set (fired @ (if ca_remaining (calls ! cid) = 1 then completion_of cid (calls ! cid) else [])) \<longleftrightarrow>
      j < length calls \<and> ca_remaining (calls[cid := c] ! j) = 0 \<and> bt_on_applied (ca_batch (calls[cid := c] ! j)) = Some t" for j t
  proof (cases "j = cid")
    case True
    have "(cid, t) \<notin> set fired" using new by (force simp: image_iff)
    then show ?thesis using True cid left c by (auto simp: completion_of_def split: option.splits)
  next
    case False
    then have "(j, t) \<notin> set (completion_of cid (calls ! cid))" by (auto simp: completion_of_def split: option.splits)
    then show ?thesis using ok False by (auto simp: fired_ok_def)
  qed
  moreover have "distinct (map fst (fired @ (if ca_remaining (calls ! cid) = 1 then completion_of cid (calls ! cid) else [])))"
    using ok new by (auto simp: fired_ok_def completion_of_def split: option.splits)
  ultimately show ?thesis by (simp add: fired_ok_def)
qed

lemma same_calls_refl [simp]: "same_calls p p"
  by (simp add: same_calls_def)

lemma same_calls_steps:
  "pool_start p = Some (p', st) \<Longrightarrow> same_calls p p'" "pool_stop p = Some p' \<Longrightarrow> same_calls p p'"
  "worker_pop i p = Some p' \<Longrightarrow> same_calls p p'" "pool_advance p = Some p' \<Longrightarrow> same_calls p p'"
  "worker_handle i p = Some p' \<Longrightarrow> same_calls p p'"
  by (auto simp: same_calls_def pool_start_def pool_stop_def worker_pop_def pool_advance_def worker_handle_def Let_def
      split: if_splits option.splits prod.splits lifecycle.splits worker_phase.splits)

lemma calls_inv_start:
  assumes "calls_inv r" and "runtime_start version env r = Some (r', s)"
  shows "calls_inv r'"
proof (rule calls_inv_frame [OF assms(1)])
  have inv: "pool_inv (the_pool r)" using assms(1) by (simp add: calls_inv_def)
  show "same_calls (the_pool r) (the_pool r')" and "pool_inv (the_pool r')"
    using assms(2) inv
    by (auto simp: runtime_start_def Let_def split: if_splits option.splits prod.splits
        dest: same_calls_steps(1) pool_inv_start)
  show "rt_calls r' = rt_calls r" and "rt_fired r' = rt_fired r"
    using assms(2) by (auto simp: runtime_start_def Let_def split: if_splits option.splits prod.splits)
qed

lemma calls_inv_stop:
  assumes "calls_inv r" and "stop_begin r = Some r' \<or> stop_count r = Some r' \<or> stop_save version faults now r = Some r'
    \<or> stop_finish r = Some (r', st)"
  shows "calls_inv r'"
proof (rule calls_inv_frame [OF assms(1)])
  have inv: "pool_inv (the_pool r)" using assms(1) by (simp add: calls_inv_def)
  show "same_calls (the_pool r) (the_pool r')" and "pool_inv (the_pool r')" and "rt_calls r' = rt_calls r" and "rt_fired r' = rt_fired r"
    using assms(2) inv
    by (auto simp: stop_begin_def stop_count_def stop_save_def stop_finish_def Let_def
        split: if_splits option.splits prod.splits stop_phase.splits dest: same_calls_steps(2) pool_inv_stop)
qed

lemma calls_inv_pool_only:
  assumes "calls_inv r" and "pool_only f r = Some r'"
    and "\<And>p p'. f p = Some p' \<Longrightarrow> same_calls p p'" and "\<And>p p'. pool_inv p \<Longrightarrow> f p = Some p' \<Longrightarrow> pool_inv p'"
  shows "calls_inv r'"
proof (rule calls_inv_frame [OF assms(1)])
  have inv: "pool_inv (the_pool r)" using assms(1) by (simp add: calls_inv_def)
  from assms(2) obtain p p' where p: "rt_pool r = Some p" "f p = Some p'" "r' = r\<lparr>rt_pool := Some p'\<rparr>"
    by (auto simp: pool_only_def split: option.splits)
  show "same_calls (the_pool r) (the_pool r')" and "pool_inv (the_pool r')" and "rt_calls r' = rt_calls r" and "rt_fired r' = rt_fired r"
    using p assms(3) [OF p(2)] assms(4) [OF _ p(2)] inv by simp_all
qed

lemma calls_inv_handle:
  assumes "calls_inv r" and "handle_part i instants r = Some r'"
  shows "calls_inv r'"
proof (rule calls_inv_frame [OF assms(1)])
  have inv: "pool_inv (the_pool r)" using assms(1) by (simp add: calls_inv_def)
  from assms(2) obtain p p' ob l where p: "rt_pool r = Some p" "worker_handle i p = Some p'"
      "r' = r\<lparr>rt_pool := Some p', rt_ob := ob, rt_log := l\<rparr>"
    by (auto simp: handle_part_def split: option.splits worker_phase.splits if_splits)
  show "same_calls (the_pool r) (the_pool r')" and "pool_inv (the_pool r')" and "rt_calls r' = rt_calls r" and "rt_fired r' = rt_fired r"
    using p same_calls_steps(5) [OF p(2)] pool_inv_handle [OF _ p(2)] inv by simp_all
qed

lemma calls_inv_call: "calls_inv r \<Longrightarrow> cid < length (rt_calls r) \<Longrightarrow>
  call_ok (length (wp_queues (the_pool r))) cid (rt_calls r ! cid) (accepted_for cid (the_pool r))
    (submitting_for cid (the_pool r)) (completed_for cid (the_pool r))"
  by (simp add: calls_inv_def call_inv_def Let_def)

text \<open>A step of one call that leaves the pool alone.\<close>

lemma calls_inv_own:
  assumes "calls_inv r" and "cid < length (rt_calls r)" and "the_pool r' = the_pool r"
    and "rt_calls r' = (rt_calls r)[cid := c]"
    and "call_ok (length (wp_queues (the_pool r))) cid c (accepted_for cid (the_pool r)) (submitting_for cid (the_pool r))
      (completed_for cid (the_pool r))"
    and "fired_ok (rt_calls r') (rt_fired r')"
  shows "calls_inv r'"
proof (rule calls_inv_update [OF assms(1,2)])
  show "pool_inv (the_pool r')" and "known_calls (length (rt_calls r)) (the_pool r')"
    using assms(1,3) by (simp_all add: calls_inv_def)
qed (use assms in simp_all)

lemma calls_inv_apply:
  assumes inv: "calls_inv r" and step: "apply_direct cid instants r = Some r'"
  shows "calls_inv r'"
proof -
  from step have cid: "cid < length (rt_calls r)" and ph: "ca_phase (rt_calls r ! cid) = Applying"
    and r': "rt_calls r' = (rt_calls r)[cid := (rt_calls r ! cid)\<lparr>ca_phase := Arriving\<rparr>]" "rt_fired r' = rt_fired r"
      "the_pool r' = the_pool r"
    by (auto simp: apply_direct_def set_call_def split: if_splits option.splits)
  show ?thesis
  proof (rule calls_inv_own [OF inv cid r'(3,1)])
    show "fired_ok (rt_calls r') (rt_fired r')"
      unfolding r' using inv by (intro fired_ok_same) (simp_all add: calls_inv_def)
  qed (use calls_inv_call [OF inv cid] ph in
      \<open>simp add: call_ok_def call_static_def call_progress_def call_counts_def direct_records_def direct_arrived_def\<close>)
qed

lemma submit_next_progress:
  "accepted @ rest = ca_parts c \<Longrightarrow> call_progress (c\<lparr>ca_phase := submit_next rest\<rparr>) accepted []"
  "direct_arrived (c\<lparr>ca_phase := submit_next rest\<rparr>) \<longleftrightarrow> ca_direct c \<noteq> None"
  by (auto simp: submit_next_def call_progress_def direct_arrived_def)

lemma calls_inv_arrive:
  assumes inv: "calls_inv r" and step: "arrive_direct cid r = Some r'"
  shows "calls_inv r'"
proof -
  let ?c = "rt_calls r ! cid"
  let ?c' = "?c\<lparr>ca_phase := submit_next (ca_parts ?c), ca_remaining := ca_remaining ?c - 1\<rparr>"
  from step have cid: "cid < length (rt_calls r)" and ph: "ca_phase ?c = Arriving"
    and r': "r' = arrive cid (set_call cid (\<lambda>c. c\<lparr>ca_phase := submit_next (ca_parts c)\<rparr>) r)"
    by (auto simp: arrive_direct_def split: if_splits)
  have calls: "rt_calls r' = (rt_calls r)[cid := ?c']"
    and fired: "rt_fired r' = rt_fired r @ (if ca_remaining ?c = 1 then completion_of cid ?c else [])"
    and pool: "the_pool r' = the_pool r"
    using cid by (simp_all add: r' arrive_eq set_call_def completion_of_def)
  have ok: "call_ok (length (wp_queues (the_pool r))) cid ?c (accepted_for cid (the_pool r)) (submitting_for cid (the_pool r))
      (completed_for cid (the_pool r))" by (rule calls_inv_call [OF inv cid])
  then have empty: "accepted_for cid (the_pool r) = []" "submitting_for cid (the_pool r) = []" "ca_direct ?c \<noteq> None"
    using ph by (simp_all add: call_ok_def call_progress_def)
  moreover have "completed_for cid (the_pool r) = 0"
    using completed_le_accepted [of "the_pool r" cid] inv empty by (simp add: calls_inv_def)
  ultimately have left: "ca_remaining ?c = Suc (length (ca_parts ?c))"
    using ok ph by (simp add: call_ok_def call_counts_def direct_arrived_def)
  show ?thesis
  proof (rule calls_inv_own [OF inv cid pool calls])
    have "call_progress (?c\<lparr>ca_phase := submit_next (ca_parts ?c)\<rparr>) [] []" by (rule submit_next_progress) simp
    then show "call_ok (length (wp_queues (the_pool r))) cid ?c' (accepted_for cid (the_pool r)) (submitting_for cid (the_pool r))
        (completed_for cid (the_pool r))"
      using ok empty left \<open>completed_for cid (the_pool r) = 0\<close>
      by (auto simp: call_ok_def call_static_def call_progress_def call_counts_def direct_records_def direct_arrived_def submit_next_def)
    show "fired_ok (rt_calls r') (rt_fired r')"
      unfolding calls fired using inv cid left by (intro fired_ok_arrive) (simp_all add: calls_inv_def)
  qed
qed

lemma accepted_le_parts: "call_progress c accepted pushing \<Longrightarrow> length accepted \<le> length (ca_parts c)"
  by (auto simp: call_progress_def split: call_phase.splits if_splits dest!: arg_cong [where f = length])

lemma calls_inv_admit:
  assumes inv: "calls_inv r" and step: "admit_part cid r = Some r'"
  shows "calls_inv r'"
proof -
  let ?c = "rt_calls r ! cid"
  from step obtain p route b rest where p: "rt_pool r = Some p" and cid: "cid < length (rt_calls r)"
    and ph: "ca_phase ?c = Submitting ((route, b) # rest)" and adm: "pool_admit route b True p \<noteq> None"
    by (auto simp: admit_part_def split: option.splits if_splits call_phase.splits list.splits)
  have ok: "call_ok (length (wp_queues p)) cid ?c (accepted_for cid p) (submitting_for cid p) (completed_for cid p)"
    using calls_inv_call [OF inv cid] p by simp
  then have sub: "submitting_for cid p = []" and acc: "accepted_for cid p @ (route, b) # rest = ca_parts ?c"
    using ph by (simp_all add: call_ok_def call_progress_def)
  have "(route, b) \<in> set (ca_parts ?c)" unfolding acc [symmetric] by simp
  then have part: "route < length (wp_queues p)" "bt_on_applied b = Some cid"
    using ok by (auto simp: call_ok_def call_static_def list_all_iff)
  have fired: "fired_ok ((rt_calls r)[cid := ?c\<lparr>ca_phase := q\<rparr>]) (rt_fired r)" for q
    using inv by (intro fired_ok_same) (simp_all add: calls_inv_def)
  from adm obtain p' res where adm: "pool_admit route b True p = Some (p', res)" by auto
  show ?thesis
  proof (cases res)
    case (Inl refused)
    have refused: "p' = p" "\<not> status_ok refused" using adm Inl by (auto simp: pool_admit_def split: if_splits)
    have r': "r' = (set_call cid (\<lambda>c. c\<lparr>ca_phase := Returned refused\<rparr>) r)\<lparr>rt_pool := Some p'\<rparr>"
      using step p cid ph adm Inl by (simp add: admit_part_def)
    show ?thesis
    proof (rule calls_inv_own [OF inv cid])
      show "rt_calls r' = (rt_calls r)[cid := ?c\<lparr>ca_phase := Returned refused\<rparr>]" and "the_pool r' = the_pool r"
        using p by (simp_all add: r' set_call_def refused)
      show "fired_ok (rt_calls r') (rt_fired r')" using fired by (simp add: r' set_call_def)
      have "call_progress (?c\<lparr>ca_phase := Returned refused\<rparr>) (accepted_for cid p) []"
        using acc refused(2) by (auto simp: call_progress_def)
      then show "call_ok (length (wp_queues (the_pool r))) cid (?c\<lparr>ca_phase := Returned refused\<rparr>) (accepted_for cid (the_pool r))
          (submitting_for cid (the_pool r)) (completed_for cid (the_pool r))"
        using ok sub p ph by (simp add: call_ok_def call_static_def call_counts_def direct_records_def direct_arrived_def)
    qed
  next
    case (Inr u)
    have p': "p' = p\<lparr>wp_submitting := wp_submitting p @ [(route, b, True)]\<rparr>"
      using adm Inr part(1) by (auto simp: pool_admit_def split: if_splits)
    have r': "r' = (set_call cid (\<lambda>c. c\<lparr>ca_phase := Pushing rest\<rparr>) r)\<lparr>rt_pool := Some p'\<rparr>"
      using step p cid ph adm Inr by (simp add: admit_part_def)
    have pool: "the_pool r' = p'" "the_pool r = p" using p by (simp_all add: r')
    show ?thesis
    proof (rule calls_inv_update [OF inv cid])
      show "pool_inv (the_pool r')" using pool_inv_admit [OF _ adm] inv by (simp add: pool calls_inv_def)
      show "known_calls (length (rt_calls r)) (the_pool r')"
        using inv cid part by (auto simp: pool p' calls_inv_def known_calls_def)
      show "length (wp_queues (the_pool r')) = length (wp_queues (the_pool r))" by (simp add: pool p')
      show "rt_calls r' = (rt_calls r)[cid := ?c\<lparr>ca_phase := Pushing rest\<rparr>]" by (simp add: r' set_call_def)
      show "fired_ok (rt_calls r') (rt_fired r')" using fired by (simp add: r' set_call_def)
      show "accepted_for j (the_pool r') = accepted_for j (the_pool r) \<and> submitting_for j (the_pool r') = submitting_for j (the_pool r)
          \<and> completed_for j (the_pool r') = completed_for j (the_pool r)" if "j \<noteq> cid" for j
        using that part by (simp add: pool p' accepted_for_def submitting_for_def completed_for_def)
      have "accepted_for cid p' = accepted_for cid p" "submitting_for cid p' = [(route, b)]" "completed_for cid p' = completed_for cid p"
        using sub part by (simp_all add: p' accepted_for_def submitting_for_def completed_for_def)
      then show "call_ok (length (wp_queues (the_pool r))) cid (?c\<lparr>ca_phase := Pushing rest\<rparr>) (accepted_for cid (the_pool r'))
          (submitting_for cid (the_pool r')) (completed_for cid (the_pool r'))"
        using ok acc ph by (simp add: pool call_ok_def call_static_def call_progress_def call_counts_def direct_records_def direct_arrived_def)
    qed
  qed
qed

lemma filter_drop_at:
  assumes "k < length xs"
  shows "filter P xs = filter P (take k xs) @ (if P (xs ! k) then [xs ! k] else []) @ filter P (drop (Suc k) xs)"
    and "filter P (drop_at k xs) = filter P (take k xs) @ filter P (drop (Suc k) xs)"
proof -
  have "filter P xs = filter P (take k xs @ xs ! k # drop (Suc k) xs)" using id_take_nth_drop [OF assms] by simp
  then show "filter P xs = filter P (take k xs) @ (if P (xs ! k) then [xs ! k] else []) @ filter P (drop (Suc k) xs)" by simp
qed (simp add: drop_at_def)

lemma pool_push_status:
  assumes "pool_push k p = Some (p', s)" and "wp_submitting p ! k = (i, b, blocking)"
  shows "k < length (wp_submitting p)" and "length (wp_queues p') = length (wp_queues p)"
    and "wp_submitting p' = drop_at k (wp_submitting p)" and "wp_completed p' = wp_completed p"
    and "wp_accepted p' = wp_accepted p @ (if status_ok s then [(i, b)] else [])"
  using assms by (auto simp: pool_push_def split: if_splits option.splits prod.splits)

lemma calls_inv_push:
  assumes inv: "calls_inv r" and step: "push_part k r = Some r'"
  shows "calls_inv r'"
proof -
  from step obtain p p' s i b blocking where p: "rt_pool r = Some p" and push: "pool_push k p = Some (p', s)"
    and e: "wp_submitting p ! k = (i, b, blocking)"
    by (auto simp: push_part_def split: option.splits prod.splits)
  note p' = pool_push_status [OF push e]
  obtain cid where cid: "cid < length (rt_calls r)" and tok: "bt_on_applied b = Some cid"
    using inv p nth_mem [OF p'(1)] e by (fastforce simp: calls_inv_def known_calls_def list_all_iff)
  let ?c = "rt_calls r ! cid"
  let ?c' = "?c\<lparr>ca_phase := after_push s (ca_phase ?c)\<rparr>"
  have r': "r' = (set_call cid (\<lambda>c. c\<lparr>ca_phase := after_push s (ca_phase c)\<rparr>) r)\<lparr>rt_pool := Some p'\<rparr>"
    using step p push e tok by (simp add: push_part_def)
  have pool: "the_pool r' = p'" "the_pool r = p" using p by (simp_all add: r')
  have ok: "call_ok (length (wp_queues p)) cid ?c (accepted_for cid p) (submitting_for cid p) (completed_for cid p)"
    using calls_inv_call [OF inv cid] p by simp
  note fd = filter_drop_at [OF p'(1), where P = "\<lambda>e. bt_on_applied (fst (snd e)) = Some j" for j]
  have sub_other: "submitting_for j p' = submitting_for j p" if "j \<noteq> cid" for j
    using fd [of j] that e tok by (simp add: submitting_for_def p'(3))
  have "(i, b) \<in> set (submitting_for cid p)"
    using fd(1) [of cid] e tok by (simp add: submitting_for_def)
  then obtain rest where ph: "ca_phase ?c = Pushing rest" and sub: "submitting_for cid p = [(i, b)]"
    and acc: "accepted_for cid p @ (i, b) # rest = ca_parts ?c"
    using ok by (auto simp: call_ok_def call_progress_def split: call_phase.splits)
  have sub': "submitting_for cid p' = []"
    using fd [of cid] e tok arg_cong [OF sub, of length] by (simp add: submitting_for_def p'(3))
  have acc': "accepted_for cid p' = accepted_for cid p @ (if status_ok s then [(i, b)] else [])"
    using tok by (simp add: accepted_for_def p'(5))
  show ?thesis
  proof (rule calls_inv_update [OF inv cid])
    show "pool_inv (the_pool r')" using pool_inv_push [OF _ push] inv by (simp add: pool calls_inv_def)
    show "known_calls (length (rt_calls r)) (the_pool r')"
      using inv cid tok drop_at_subset [of k "wp_submitting p"]
      by (auto simp: pool p' calls_inv_def known_calls_def list_all_iff)
    show "length (wp_queues (the_pool r')) = length (wp_queues (the_pool r))" by (simp add: pool p')
    show "rt_calls r' = (rt_calls r)[cid := ?c']" by (simp add: r' set_call_def)
    show "fired_ok (rt_calls r') (rt_fired r')"
      using inv by (simp add: r' set_call_def) (intro fired_ok_same, simp_all add: calls_inv_def)
    show "accepted_for j (the_pool r') = accepted_for j (the_pool r) \<and> submitting_for j (the_pool r') = submitting_for j (the_pool r)
        \<and> completed_for j (the_pool r') = completed_for j (the_pool r)" if "j \<noteq> cid" for j
      using that tok sub_other [OF that] by (simp add: pool p' accepted_for_def completed_for_def)
    have "call_progress ?c' (accepted_for cid p') []"
      using acc acc' ph by (auto simp: after_push_def call_progress_def submit_next_def)
    then show "call_ok (length (wp_queues (the_pool r))) cid ?c' (accepted_for cid (the_pool r')) (submitting_for cid (the_pool r'))
        (completed_for cid (the_pool r'))"
      using ok ph sub' by (auto simp: pool call_ok_def call_static_def call_counts_def direct_records_def direct_arrived_def
          completed_for_def p'(4) after_push_def submit_next_def)
  qed
qed

lemma worker_complete_status:
  assumes "worker_complete i p = Some p'"
  obtains c where "wp_phases p ! i = Applied c" and "length (wp_queues p') = length (wp_queues p)"
    and "wp_submitting p' = wp_submitting p" and "wp_accepted p' = wp_accepted p" and "wp_completed p' = wp_completed p @ [(i, c)]"
  using assms by (auto simp: worker_complete_def split: if_splits worker_phase.splits)

lemma calls_inv_complete:
  assumes inv: "calls_inv r" and step: "complete_part i r = Some r'"
  shows "calls_inv r'"
proof -
  from step obtain p p' where p: "rt_pool r = Some p" and wc: "worker_complete i p = Some p'"
    by (auto simp: complete_part_def split: option.splits)
  from wc obtain c where ph: "wp_phases p ! i = Applied c" and p': "length (wp_queues p') = length (wp_queues p)"
      "wp_submitting p' = wp_submitting p" "wp_accepted p' = wp_accepted p" "wp_completed p' = wp_completed p @ [(i, c)]"
    by (rule worker_complete_status)
  have pinv: "pool_inv p" and pinv': "pool_inv p'" using inv p pool_inv_complete [OF _ wc] by (simp_all add: calls_inv_def)
  have "(i, c) \<in># mset (tokens (wp_handled p'))"
    using mset_subset_eqD [OF completed_subset [OF pinv'], of "(i, c)"] p'(4) by simp
  then obtain b where "(i, b) \<in> set (wp_handled p')" and tok: "c = bt_on_applied b" by (auto simp: tokens_def)
  then have "(i, b) \<in> set (wp_accepted p)"
    using mset_subset_eqD [OF handled_subset [OF pinv'], of "(i, b)"] p'(3) by simp
  then obtain cid where cid: "cid < length (rt_calls r)" and c: "c = Some cid"
    using inv p tok by (fastforce simp: calls_inv_def known_calls_def list_all_iff)
  let ?c = "rt_calls r ! cid"
  let ?c' = "?c\<lparr>ca_remaining := ca_remaining ?c - 1\<rparr>"
  have r': "r' = arrive cid (r\<lparr>rt_pool := Some p'\<rparr>)" using step p wc ph c by (simp add: complete_part_def)
  have calls: "rt_calls r' = (rt_calls r)[cid := ?c']"
    and fired: "rt_fired r' = rt_fired r @ (if ca_remaining ?c = 1 then completion_of cid ?c else [])"
    and pool: "the_pool r' = p'" "the_pool r = p"
    using cid p by (simp_all add: r' arrive_eq)
  have ok: "call_ok (length (wp_queues p)) cid ?c (accepted_for cid p) (submitting_for cid p) (completed_for cid p)"
    using calls_inv_call [OF inv cid] p by simp
  have same: "accepted_for j p' = accepted_for j p" "submitting_for j p' = submitting_for j p"
      "completed_for j p' = (if j = cid then Suc (completed_for j p) else completed_for j p)" for j
    using p' by (simp_all add: accepted_for_def submitting_for_def completed_for_def c)
  have more: "Suc (completed_for cid p) \<le> length (accepted_for cid p)"
    using completed_le_accepted [OF pinv', of cid] same by simp
  moreover have "length (accepted_for cid p) \<le> length (ca_parts ?c)"
    using ok accepted_le_parts by (auto simp: call_ok_def)
  moreover have "direct_arrived ?c \<or> ca_direct ?c = None"
    using ok more by (auto simp: call_ok_def call_progress_def direct_arrived_def split: call_phase.splits)
  ultimately have left: "ca_remaining ?c > 0"
    using ok by (auto simp: call_ok_def call_counts_def direct_arrived_def split: if_splits)
  show ?thesis
  proof (rule calls_inv_update [OF inv cid])
    show "pool_inv (the_pool r')" by (simp add: pool pinv')
    show "known_calls (length (rt_calls r)) (the_pool r')" using inv p by (simp add: pool p' calls_inv_def known_calls_def)
    show "length (wp_queues (the_pool r')) = length (wp_queues (the_pool r))" by (simp add: pool p')
    show "rt_calls r' = (rt_calls r)[cid := ?c']" by (rule calls)
    show "accepted_for j (the_pool r') = accepted_for j (the_pool r) \<and> submitting_for j (the_pool r') = submitting_for j (the_pool r)
        \<and> completed_for j (the_pool r') = completed_for j (the_pool r)" if "j \<noteq> cid" for j
      using that by (simp add: pool same)
    show "call_ok (length (wp_queues (the_pool r))) cid ?c' (accepted_for cid (the_pool r')) (submitting_for cid (the_pool r'))
        (completed_for cid (the_pool r'))"
      using ok left by (auto simp: pool same call_ok_def call_static_def call_counts_def call_progress_def direct_records_def
          direct_arrived_def split: call_phase.splits)
    show "fired_ok (rt_calls r') (rt_fired r')"
      unfolding calls fired using inv cid left by (intro fired_ok_arrive) (simp_all add: calls_inv_def)
  qed
qed

text \<open>A new call: its number is unknown to the pool.\<close>

lemma fresh_call:
  assumes "calls_inv r" and "p = the_pool r" and "cid = length (rt_calls r)"
  shows "accepted_for cid p = []" "submitting_for cid p = []" "completed_for cid p = 0"
proof -
  show "accepted_for cid p = []" "submitting_for cid p = []"
    using assms by (auto simp: calls_inv_def known_calls_def list_all_iff accepted_for_def submitting_for_def filter_empty_conv)
  then show "completed_for cid p = 0"
    using completed_le_accepted [of p cid] assms by (simp add: calls_inv_def)
qed

lemma calls_inv_new:
  assumes inv: "calls_inv r" and r': "rt_calls r' = rt_calls r @ [c]" "the_pool r' = the_pool r"
    and fired: "rt_fired r' = rt_fired r @ (if ca_remaining c = 0 then completion_of (length (rt_calls r)) c else [])"
    and c: "call_ok (length (wp_queues (the_pool r))) (length (rt_calls r)) c [] [] 0"
  shows "calls_inv r'"
proof -
  let ?n = "length (rt_calls r)"
  have "call_inv r' j" if "j < length (rt_calls r')" for j
  proof (cases "j = ?n")
    case True
    then show ?thesis using c fresh_call [OF inv refl refl] by (simp add: call_inv_def r')
  next
    case False
    then have "j < ?n" using that by (simp add: r')
    then show ?thesis using inv by (simp add: calls_inv_def call_inv_def r' nth_append)
  qed
  moreover have "known_calls (length (rt_calls r')) (the_pool r')"
    using inv by (fastforce simp: r' calls_inv_def known_calls_def list_all_iff less_Suc_eq)
  moreover have "fired_ok (rt_calls r') (rt_fired r')"
  proof -
    have old: "fired_ok (rt_calls r) (rt_fired r)" using inv by (simp add: calls_inv_def)
    then have "?n \<notin> fst ` set (rt_fired r)" by (auto simp: fired_ok_def)
    then show ?thesis
      using old by (auto simp: fired_ok_def fired r' completion_of_def nth_append less_Suc_eq split: option.splits)
  qed
  ultimately show ?thesis using inv by (simp add: calls_inv_def r')
qed

lemma obs_of_routed:
  "distinct (map fst m) \<Longrightarrow> (\<And>j v. (j, v) \<in> set m \<Longrightarrow> j \<noteq> i \<Longrightarrow> obs_of s v = []) \<Longrightarrow>
   obs_of s (concat (map snd m)) = (case map_of m i of Some v \<Rightarrow> obs_of s v | None \<Rightarrow> [])"
proof (induction m)
  case (Cons e m)
  obtain j v where e: "e = (j, v)" by (cases e)
  have IH: "obs_of s (concat (map snd m)) = (case map_of m i of Some v \<Rightarrow> obs_of s v | None \<Rightarrow> [])"
    using Cons.prems by (intro Cons.IH) auto
  show ?case
  proof (cases "j = i")
    case True
    then have "map_of m i = None" using Cons.prems(1) e by (auto simp: map_of_eq_None_iff)
    then show ?thesis using IH True by (simp add: e)
  next
    case False
    then have "obs_of s v = []" using Cons.prems(2) [of j v] e by simp
    then show ?thesis using IH False by (simp add: e)
  qed
qed simp

lemma obs_of_parts:
  assumes "route_records p rs = (routed, decls)"
  shows "obs_of s (concat (map snd routed)) = obs_of s rs" and "obs_of s decls = []"
proof -
  let ?n = "length (wp_queues p)" and ?i = "worker_for (length (wp_queues p)) s"
  note spec = route_records_spec [OF assms]
  have "obs_of s v = []" if "(j, v) \<in> set routed" "j \<noteq> ?i" for j v
    using route_records_part(1) [OF assms that(1)] that(2) by (auto simp: obs_of_def routed_to_def filter_empty_conv)
  then have "obs_of s (concat (map snd routed)) = (case om_get routed ?i of Some v \<Rightarrow> obs_of s v | None \<Rightarrow> [])"
    using obs_of_routed [OF om_wf_distinct [OF spec(1)], of ?i s] by (simp add: om_get_def)
  also have "\<dots> = obs_of s (filter (routed_to ?n ?i) rs)" by (simp add: spec(3))
  also have "\<dots> = obs_of s rs" by (auto simp: obs_of_def routed_to_def intro: filter_cong)
  finally show "obs_of s (concat (map snd routed)) = obs_of s rs" .
  show "obs_of s decls = []" by (auto simp: spec(2) obs_of_def)
qed

lemma routed_parts_static:
  assumes "route_records p (bt_records b) = (routed, decls)" and "wp_queues p \<noteq> []"
  shows "call_static (length (wp_queues p)) cid
    \<lparr>ca_batch = b, ca_direct = (if decls = [] then None else Some decls),
     ca_parts = map (\<lambda>(route, records). (route, part_of cid records)) routed, ca_remaining = k, ca_phase = ph\<rparr>"
proof -
  note spec = route_records_spec [OF assms(1)]
  have "mset (bt_records b) = mset (filter (\<lambda>r. \<not> is_observation r) (bt_records b)) + mset (filter is_observation (bt_records b))"
    by (simp flip: multiset_partition add: add.commute [of "mset (filter (\<lambda>r. \<not> is_observation r) _)"])
  also have "\<dots> = mset decls + mset (concat (map snd routed))" by (simp add: spec(2,4))
  finally have total: "mset (bt_records b) = mset decls + mset (concat (map snd routed))" .
  let ?parts = "map (\<lambda>(route, records). (route, part_of cid records)) routed"
  have records: "records_of ?parts = concat (map snd routed)"
    by (simp add: records_of_def part_of_def case_prod_beta o_def)
  have "i < length (wp_queues p) \<and> list_all (routed_to (length (wp_queues p)) i) part" if "(i, part) \<in> set routed" for i part
  proof -
    from route_records_part [OF assms(1) that] obtain r where "part = filter (routed_to (length (wp_queues p)) i) (bt_records b)"
      and "routed_to (length (wp_queues p)) i r" by (auto simp: filter_empty_conv)
    then show ?thesis using assms(2) by (auto simp: list_all_iff routed_to_def worker_for_def)
  qed
  then have "list_all (\<lambda>e. bt_on_applied (snd e) = Some cid \<and> fst e < length (wp_queues p)
      \<and> list_all (routed_to (length (wp_queues p)) (fst e)) (bt_records (snd e))) ?parts"
    by (auto simp: list_all_iff part_of_def)
  with total show ?thesis using obs_of_parts [OF assms(1)] by (simp add: call_static_def direct_records_def records)
qed

lemma calls_inv_submit:
  assumes inv: "calls_inv r" and step: "submit_begin b r = (r', s)"
  shows "calls_inv r'"
proof (cases "ob_started (rt_ob r)")
  case False
  then show ?thesis using inv step by (simp add: submit_begin_def)
next
  case True
  let ?n = "length (rt_calls r)"
  show ?thesis
  proof (cases "rt_pool r")
    case None
    let ?c = "\<lparr>ca_batch = b, ca_direct = Some (bt_records b), ca_parts = [], ca_remaining = 1, ca_phase = Applying\<rparr>"
    have "r' = r\<lparr>rt_calls := rt_calls r @ [?c]\<rparr>" using step True None by (simp add: submit_begin_def)
    then show ?thesis
      by (intro calls_inv_new [OF inv, of _ ?c])
        (simp_all add: call_ok_def call_static_def call_progress_def call_counts_def direct_records_def direct_arrived_def)
  next
    case (Some p)
    obtain routed decls where rr: "route_records p (bt_records b) = (routed, decls)" by (cases "route_records p (bt_records b)")
    let ?parts = "map (\<lambda>(route, records). (route, part_of ?n records)) routed"
    let ?k = "length routed + (if decls = [] then 0 else 1)"
    let ?c = "\<lparr>ca_batch = b, ca_direct = (if decls = [] then None else Some decls), ca_parts = ?parts, ca_remaining = ?k,
      ca_phase = (if decls = [] then submit_next ?parts else Applying)\<rparr>"
    have r': "r' = (if ?k = 0 then fire ?n (r\<lparr>rt_calls := rt_calls r @ [?c]\<rparr>) else r\<lparr>rt_calls := rt_calls r @ [?c]\<rparr>)"
      using step True Some rr by (simp add: submit_begin_def Let_def)
    have "wp_queues p \<noteq> []" using inv Some by (simp add: calls_inv_def pool_inv_def pool_shape_def)
    then have static: "call_static (length (wp_queues p)) ?n ?c" by (rule routed_parts_static [OF rr])
    show ?thesis
    proof (rule calls_inv_new [OF inv])
      show "rt_calls r' = rt_calls r @ [?c]" and "the_pool r' = the_pool r"
        by (simp_all add: r' fire_def split: option.splits)
      show "rt_fired r' = rt_fired r @ (if ca_remaining ?c = 0 then completion_of ?n ?c else [])"
        by (simp add: r' fire_def completion_of_def split: option.splits)
      show "call_ok (length (wp_queues (the_pool r))) ?n ?c [] [] 0"
        using static Some by (auto simp: call_ok_def call_progress_def call_counts_def direct_arrived_def submit_next_def)
    qed
  qed
qed

lemma calls_inv_step: "calls_inv r \<Longrightarrow> rt_step a r = Some r' \<Longrightarrow> calls_inv r'"
proof (cases a)
  case (PopPart i)
  assume "calls_inv r" "rt_step a r = Some r'"
  with PopPart show ?thesis by (auto intro: calls_inv_pool_only same_calls_steps pool_inv_pop)
next
  case AdvanceStop
  assume "calls_inv r" "rt_step a r = Some r'"
  with AdvanceStop show ?thesis by (auto intro: calls_inv_pool_only same_calls_steps pool_inv_advance)
next
  case (SubmitBatch b)
  assume "calls_inv r" "rt_step a r = Some r'"
  with SubmitBatch show ?thesis by (cases "submit_begin b r") (auto intro: calls_inv_submit)
qed (auto intro: calls_inv_start calls_inv_stop calls_inv_apply calls_inv_arrive calls_inv_admit calls_inv_push calls_inv_handle
    calls_inv_complete)

lemma calls_inv_reachable: "rt_reachable c r \<Longrightarrow> calls_inv r"
proof (induction rule: rt_reachable.induct)
  case (built files)
  have "pool_inv (the_pool (new_runtime c files)) \<and> wp_accepted (the_pool (new_runtime c files)) = []
      \<and> wp_submitting (the_pool (new_runtime c files)) = []"
    by (auto simp: new_runtime_def the_pool_def pool_inv_new) (simp_all add: pool_new_def Let_def)
  then show ?case by (simp add: calls_inv_def known_calls_def fired_ok_def) (simp add: new_runtime_def)
qed (rule calls_inv_step)

end
