(* ===== verification/Runtime_Results.thy ===== *)
theory Runtime_Results
  imports Runtime "HOL-Library.Sublist"
begin

text \<open>
  What the machine of \<open>Runtime\<close> guarantees in every interleaving of callers and workers: the
  components stay sound, the observations of a source are applied in the order the pool accepted
  them, a completion fires at most once and only when every record of its batch has been applied
  exactly once, a refused submission never fires it, and once the workers are done every accepted
  one has.
\<close>

section \<open>What is applied\<close>

fun worker_entry :: "applied \<Rightarrow> (nat \<times> batch) list" where
  "worker_entry (Direct cid timed) = []"
| "worker_entry (ByWorker i b timed) = [(i, b)]"

fun direct_entry :: "nat \<Rightarrow> applied \<Rightarrow> parsed_record list list" where
  "direct_entry cid (Direct j timed) = (if j = cid then [map fst timed] else [])"
| "direct_entry cid (ByWorker i b timed) = []"

fun entry_records :: "applied \<Rightarrow> parsed_record list" where
  "entry_records (Direct cid timed) = map fst timed"
| "entry_records (ByWorker i b timed) = map fst timed"

fun entry_call :: "applied \<Rightarrow> nat option" where
  "entry_call (Direct cid timed) = Some cid"
| "entry_call (ByWorker i b timed) = bt_on_applied b"

fun entry_ok :: "nat \<Rightarrow> applied \<Rightarrow> bool" where
  "entry_ok n (Direct cid timed) \<longleftrightarrow> cid < n"
| "entry_ok n (ByWorker i b timed) \<longleftrightarrow> map fst timed = bt_records b"

definition worker_log :: "applied list \<Rightarrow> (nat \<times> batch) list" where
  "worker_log log = concat (map worker_entry log)"

definition direct_log :: "nat \<Rightarrow> applied list \<Rightarrow> parsed_record list list" where
  "direct_log cid log = concat (map (direct_entry cid) log)"

text \<open>The records applied for a call, and all records, in order.\<close>

definition applied_for :: "nat \<Rightarrow> runtime \<Rightarrow> parsed_record list" where
  "applied_for cid r = concat (map entry_records (filter (\<lambda>e. entry_call e = Some cid) (rt_log r)))"

definition applied_records :: "runtime \<Rightarrow> parsed_record list" where
  "applied_records r = concat (map entry_records (rt_log r))"

definition log_inv :: "runtime \<Rightarrow> bool" where
  "log_inv r \<longleftrightarrow>
     worker_log (rt_log r) = wp_handled (the_pool r)
     \<and> list_all (entry_ok (length (rt_calls r))) (rt_log r)
     \<and> (\<forall>cid < length (rt_calls r).
          direct_log cid (rt_log r) = (if direct_applied (rt_calls r ! cid) then [direct_records (rt_calls r ! cid)] else []))
     \<and> (rt_pool r \<noteq> None \<longrightarrow> (\<forall>c \<in> set (rt_calls r). list_all (\<lambda>x. \<not> is_observation x) (direct_records c)))"

text \<open>Steps that apply nothing: the calls keep what they apply themselves, the pool handles nothing.\<close>

definition quiet_step :: "runtime \<Rightarrow> runtime \<Rightarrow> bool" where
  "quiet_step r r' \<longleftrightarrow>
     rt_log r' = rt_log r \<and> wp_handled (the_pool r') = wp_handled (the_pool r) \<and> (rt_pool r' = None \<longleftrightarrow> rt_pool r = None)
     \<and> map ca_direct (rt_calls r') = map ca_direct (rt_calls r)
     \<and> map (\<lambda>c. ca_phase c = Applying) (rt_calls r') = map (\<lambda>c. ca_phase c = Applying) (rt_calls r)"

lemma log_inv_quiet:
  assumes inv: "log_inv r" and quiet: "quiet_step r r'"
  shows "log_inv r'"
proof -
  have len: "length (rt_calls r') = length (rt_calls r)"
    using quiet by (metis length_map quiet_step_def)
  have same: "direct_records (rt_calls r' ! cid) = direct_records (rt_calls r ! cid)
      \<and> direct_applied (rt_calls r' ! cid) = direct_applied (rt_calls r ! cid)" if "cid < length (rt_calls r)" for cid
  proof -
    have "map ca_direct (rt_calls r') ! cid = map ca_direct (rt_calls r) ! cid"
      and "map (\<lambda>c. ca_phase c = Applying) (rt_calls r') ! cid = map (\<lambda>c. ca_phase c = Applying) (rt_calls r) ! cid"
      using quiet by (simp_all add: quiet_step_def)
    then show ?thesis using len that by (simp add: direct_records_def direct_applied_def)
  qed
  then show ?thesis using inv quiet len by (simp add: log_inv_def quiet_step_def all_set_conv_all_nth)
qed

lemma handled_steps:
  "pool_start p = Some (p', st) \<Longrightarrow> wp_handled p' = wp_handled p" "pool_stop p = Some p' \<Longrightarrow> wp_handled p' = wp_handled p"
  "worker_pop i p = Some p' \<Longrightarrow> wp_handled p' = wp_handled p" "pool_advance p = Some p' \<Longrightarrow> wp_handled p' = wp_handled p"
  "pool_admit route b bl p = Some (p', x) \<Longrightarrow> wp_handled p' = wp_handled p"
  "pool_push k p = Some (p', st) \<Longrightarrow> wp_handled p' = wp_handled p"
  "worker_complete i p = Some p' \<Longrightarrow> wp_handled p' = wp_handled p"
  by (auto simp: pool_start_def pool_stop_def worker_pop_def pool_advance_def pool_admit_def pool_push_def worker_complete_def Let_def
      split: if_splits option.splits prod.splits lifecycle.splits worker_phase.splits)

lemma quiet_start: "runtime_start version env r = Some (r', s) \<Longrightarrow> quiet_step r r'"
  by (auto simp: quiet_step_def runtime_start_def Let_def split: if_splits option.splits prod.splits dest: handled_steps(1))

lemma quiet_stop:
  "stop_begin r = Some r' \<Longrightarrow> quiet_step r r'" "stop_count r = Some r' \<Longrightarrow> quiet_step r r'"
  "stop_save version faults now r = Some r' \<Longrightarrow> quiet_step r r'" "stop_finish r = Some (r', st) \<Longrightarrow> quiet_step r r'"
proof -
  show "stop_begin r = Some r' \<Longrightarrow> quiet_step r r'"
    by (auto simp: quiet_step_def stop_begin_def split: if_splits option.splits dest: handled_steps(2))
  show "stop_count r = Some r' \<Longrightarrow> quiet_step r r'"
    by (auto simp: quiet_step_def stop_count_def split: if_splits option.splits)
  show "stop_save version faults now r = Some r' \<Longrightarrow> quiet_step r r'"
    by (auto simp: quiet_step_def stop_save_def Let_def split: if_splits prod.splits)
  show "stop_finish r = Some (r', st) \<Longrightarrow> quiet_step r r'"
    by (auto simp: quiet_step_def stop_finish_def split: stop_phase.splits)
qed

lemma quiet_pool:
  "pool_only (worker_pop i) r = Some r' \<Longrightarrow> quiet_step r r'" "pool_only pool_advance r = Some r' \<Longrightarrow> quiet_step r r'"
  by (auto simp: quiet_step_def pool_only_def split: option.splits dest: handled_steps(3,4))

lemma submit_next_not_applying [simp]: "submit_next ps \<noteq> Applying" "after_push s ph = Applying \<longleftrightarrow> ph = Applying"
  by (auto simp: submit_next_def after_push_def split: call_phase.splits)

lemma arrive_sel [simp]: "rt_log (arrive cid r) = rt_log r" "rt_pool (arrive cid r) = rt_pool r" "the_pool (arrive cid r) = the_pool r"
  "rt_ob (arrive cid r) = rt_ob r"
  "rt_calls (arrive cid r) = (rt_calls r)[cid := (rt_calls r ! cid)\<lparr>ca_remaining := ca_remaining (rt_calls r ! cid) - 1\<rparr>]"
  by (simp_all add: arrive_def set_call_def fire_def Let_def the_pool_def split: option.splits)

lemma map_update_same: "f y = f (xs ! i) \<Longrightarrow> map f (xs[i := y]) = map f xs"
  by (cases "i < length xs") (simp_all add: map_update list_update_same_conv list_update_beyond)

lemma set_call_quiet:
  assumes "ca_direct (f (rt_calls r ! cid)) = ca_direct (rt_calls r ! cid)"
    and "ca_phase (f (rt_calls r ! cid)) = Applying \<longleftrightarrow> ca_phase (rt_calls r ! cid) = Applying"
  shows "quiet_step r (set_call cid f r)"
  using assms by (simp add: quiet_step_def set_call_def map_update_same)

lemma quiet_trans: "quiet_step a b \<Longrightarrow> quiet_step b c \<Longrightarrow> quiet_step a c"
  by (auto simp: quiet_step_def)

lemma quiet_set_pool: "rt_pool r = Some p \<Longrightarrow> wp_handled p' = wp_handled p \<Longrightarrow> quiet_step r (r\<lparr>rt_pool := Some p'\<rparr>)"
  by (simp add: quiet_step_def)

lemma quiet_arrive: "quiet_step r (arrive cid r)"
  by (simp add: quiet_step_def map_update_same)

lemma set_call_pool: "rt_pool (set_call cid f r) = rt_pool r"
  by (simp add: set_call_def)

lemma quiet_arrive_direct: "arrive_direct cid r = Some r' \<Longrightarrow> quiet_step r r'"
  by (auto simp: arrive_direct_def split: if_splits intro!: quiet_trans [OF _ quiet_arrive] set_call_quiet)

lemma quiet_admit: "admit_part cid r = Some r' \<Longrightarrow> quiet_step r r'"
  by (auto simp: admit_part_def split: if_splits option.splits sum.splits prod.splits call_phase.splits list.splits
      intro!: quiet_trans [OF set_call_quiet quiet_set_pool] dest: handled_steps(5) simp: set_call_pool)

lemma quiet_push: "push_part k r = Some r' \<Longrightarrow> quiet_step r r'"
  by (auto simp: push_part_def split: option.splits prod.splits
      intro!: quiet_trans [OF set_call_quiet quiet_set_pool] quiet_set_pool dest: handled_steps(6) simp: set_call_pool)

lemma quiet_complete: "complete_part i r = Some r' \<Longrightarrow> quiet_step r r'"
  by (auto simp: complete_part_def split: option.splits worker_phase.splits
      intro!: quiet_trans [OF quiet_set_pool quiet_arrive] quiet_set_pool dest: handled_steps(7))

lemma log_snoc [simp]:
  "worker_log (log @ [e]) = worker_log log @ worker_entry e" "direct_log cid (log @ [e]) = direct_log cid log @ direct_entry cid e"
  by (simp_all add: worker_log_def direct_log_def)

lemma log_inv_handle:
  assumes inv: "log_inv r" and step: "handle_part i instants r = Some r'"
  shows "log_inv r'"
proof -
  from step obtain p p' b where p: "rt_pool r = Some p" "worker_handle i p = Some p'" "wp_phases p ! i = Handling b"
    and len: "length instants = length (bt_records b)"
    and r': "r' = r\<lparr>rt_pool := Some p', rt_ob := apply_batch (rt_ob r) (zip (bt_records b) instants),
      rt_log := rt_log r @ [ByWorker i b (zip (bt_records b) instants)]\<rparr>"
    by (auto simp: handle_part_def split: option.splits worker_phase.splits if_splits)
  have "wp_handled p' = wp_handled p @ [(i, b)]"
    using p(2,3) by (auto simp: worker_handle_def split: if_splits)
  then show ?thesis using inv p(1) len by (simp add: log_inv_def r')
qed

lemma log_inv_apply:
  assumes inv: "log_inv r" and step: "apply_direct cid instants r = Some r'"
  shows "log_inv r'"
proof -
  let ?c = "rt_calls r ! cid"
  from step obtain records where cid: "cid < length (rt_calls r)" and ph: "ca_phase ?c = Applying"
    and d: "ca_direct ?c = Some records" and len: "length instants = length records"
    and r': "rt_calls r' = (rt_calls r)[cid := ?c\<lparr>ca_phase := Arriving\<rparr>]" "the_pool r' = the_pool r" "rt_pool r' = rt_pool r"
      "rt_log r' = rt_log r @ [Direct cid (zip records instants)]"
    by (auto simp: apply_direct_def set_call_def split: if_splits option.splits)
  have "direct_log j (rt_log r') = (if direct_applied (rt_calls r' ! j) then [direct_records (rt_calls r' ! j)] else [])"
    if "j < length (rt_calls r)" for j
  proof -
    have old: "direct_log j (rt_log r) = (if direct_applied (rt_calls r ! j) then [direct_records (rt_calls r ! j)] else [])"
      using inv that by (simp add: log_inv_def)
    show ?thesis
      using old cid ph d len by (cases "j = cid") (simp_all add: r' direct_applied_def direct_records_def)
  qed
  moreover have "list_all (\<lambda>x. \<not> is_observation x) (direct_records c)" if "rt_pool r \<noteq> None" "c \<in> set (rt_calls r')" for c
  proof -
    have all: "\<forall>c \<in> set (rt_calls r). list_all (\<lambda>x. \<not> is_observation x) (direct_records c)" using inv that(1) by (simp add: log_inv_def)
    have "c \<in> insert (?c\<lparr>ca_phase := Arriving\<rparr>) (set (rt_calls r))"
      using that(2) set_update_subset_insert [of "rt_calls r" cid] by (auto simp: r')
    then show ?thesis using all nth_mem [OF cid] by (auto simp: direct_records_def)
  qed
  ultimately show ?thesis using inv cid by (simp add: log_inv_def r')
qed

lemma direct_log_fresh: "list_all (entry_ok n) log \<Longrightarrow> direct_log n log = []"
proof (induction log)
  case (Cons e log)
  then show ?case by (cases e) (auto simp: direct_log_def)
qed (simp add: direct_log_def)

lemma entry_ok_mono: "list_all (entry_ok n) log \<Longrightarrow> list_all (entry_ok (Suc n)) log"
proof (induction log)
  case (Cons e log)
  then show ?case by (cases e) auto
qed simp

lemma log_inv_new:
  assumes inv: "log_inv r" and r': "rt_calls r' = rt_calls r @ [c]" "rt_pool r' = rt_pool r" "rt_log r' = rt_log r"
    and c: "\<not> direct_applied c" "rt_pool r \<noteq> None \<Longrightarrow> list_all (\<lambda>x. \<not> is_observation x) (direct_records c)"
  shows "log_inv r'"
proof -
  have "direct_log (length (rt_calls r)) (rt_log r) = []" using inv by (intro direct_log_fresh) (simp add: log_inv_def)
  then show ?thesis
    using inv c entry_ok_mono [of "length (rt_calls r)" "rt_log r"] by (auto simp: log_inv_def r' the_pool_def less_Suc_eq nth_append)
qed

lemma log_inv_submit: "log_inv r \<Longrightarrow> submit_begin b r = (r', s) \<Longrightarrow> log_inv r'"
proof (cases "ob_started (rt_ob r)")
  case True
  assume inv: "log_inv r" and step: "submit_begin b r = (r', s)"
  show ?thesis
  proof (cases "rt_pool r")
    case None
    then show ?thesis using inv step True by (auto simp: submit_begin_def direct_applied_def intro!: log_inv_new [OF inv])
  next
    case (Some p)
    obtain routed decls where rr: "route_records p (bt_records b) = (routed, decls)" by (cases "route_records p (bt_records b)")
    have "list_all (\<lambda>x. \<not> is_observation x) decls" using route_records_spec(2) [OF rr] by (simp add: list_all_iff)
    then show ?thesis
      using step True Some rr
      by (auto simp: submit_begin_def Let_def direct_applied_def direct_records_def fire_def split: if_splits option.splits
          intro!: log_inv_new [OF inv])
  qed
qed (simp add: submit_begin_def)

lemma log_inv_step: "log_inv r \<Longrightarrow> rt_step a r = Some r' \<Longrightarrow> log_inv r'"
proof (cases a)
  case (SubmitBatch b)
  assume "log_inv r" "rt_step a r = Some r'"
  with SubmitBatch show ?thesis by (cases "submit_begin b r") (auto intro: log_inv_submit)
qed (auto intro: log_inv_handle log_inv_apply log_inv_quiet quiet_start quiet_stop quiet_pool quiet_arrive_direct quiet_admit quiet_push
    quiet_complete)

lemma log_inv_reachable: "rt_reachable c r \<Longrightarrow> log_inv r"
proof (induction rule: rt_reachable.induct)
  case (built files)
  have "wp_handled (the_pool (new_runtime c files)) = []"
    by (auto simp: new_runtime_def the_pool_def) (simp_all add: pool_new_def Let_def)
  then show ?case by (simp add: log_inv_def) (simp add: new_runtime_def worker_log_def)
qed (rule log_inv_step)

lemma mset_records_of: "mset xs = mset ys \<Longrightarrow> mset (records_of xs) = mset (records_of ys)"
proof -
  have "mset (records_of zs) = \<Sum>\<^sub># (image_mset (\<lambda>e. mset (bt_records (snd e))) (mset zs))" for zs
    by (induction zs) simp_all
  then show "mset xs = mset ys \<Longrightarrow> mset (records_of xs) = mset (records_of ys)" by simp
qed

lemma mset_applied_for:
  "list_all (entry_ok n) log \<Longrightarrow>
   mset (concat (map entry_records (filter (\<lambda>e. entry_call e = Some cid) log))) =
     mset (concat (direct_log cid log)) + mset (records_of (filter (\<lambda>e. bt_on_applied (snd e) = Some cid) (worker_log log)))"
proof (induction log)
  case (Cons e log)
  then show ?case by (cases e) (auto simp: direct_log_def worker_log_def)
qed (simp add: direct_log_def worker_log_def)

lemma progress_prefix: "call_progress c accepted pushing \<Longrightarrow> prefix accepted (ca_parts c)"
  unfolding call_progress_def by (cases "ca_phase c") (auto split: if_splits intro: prefixI sym)

lemma progress_full:
  assumes "call_progress c accepted pushing" and "length accepted = length (ca_parts c)"
    and "ca_direct c = None \<or> direct_arrived c"
  shows "accepted = ca_parts c"
proof -
  have "accepted @ xs = ca_parts c \<Longrightarrow> accepted = ca_parts c" for xs
    using assms(2) by (metis append_eq_conv_conj take_all_iff order_refl)
  then show ?thesis
    using assms(1,3) by (auto simp: call_progress_def direct_arrived_def split: call_phase.splits if_splits)
qed

text \<open>When nothing of a call remains, everything it consists of has been applied.\<close>

lemma nothing_remains:
  assumes ok: "call_ok n cid c (accepted_for cid p) (submitting_for cid p) (completed_for cid p)" and "pool_inv p"
    and "ca_remaining c = 0"
  shows "(ca_direct c = None \<or> direct_arrived c) \<and> mset (handled_for cid p) = mset (ca_parts c)"
proof -
  let ?d = "if ca_direct c = None then 0 else 1 :: nat"
  have le: "completed_for cid p \<le> length (handled_for cid p)" "length (handled_for cid p) \<le> length (accepted_for cid p)"
      "length (accepted_for cid p) \<le> length (ca_parts c)"
    using completed_for_le [OF assms(2), of cid] size_mset_mono [OF handled_for_subset [OF assms(2), of cid]] ok accepted_le_parts
    by (auto simp: call_ok_def)
  have sum: "completed_for cid p + (if direct_arrived c then 1 else 0) = length (ca_parts c) + ?d"
    using ok assms(3) by (simp add: call_ok_def call_counts_def)
  have "direct_arrived c \<Longrightarrow> ca_direct c \<noteq> None" by (simp add: direct_arrived_def)
  with sum le have arrived: "ca_direct c = None \<or> direct_arrived c" and full: "completed_for cid p = length (ca_parts c)"
    by (auto split: if_splits)
  have "accepted_for cid p = ca_parts c"
    using ok arrived full le by (intro progress_full [of c]) (auto simp: call_ok_def)
  moreover have "mset (handled_for cid p) = mset (accepted_for cid p)"
    using handled_for_subset [OF assms(2), of cid] full le
    by (metis le_antisym mset_subset_size nat_less_le size_mset subset_mset.le_imp_less_or_eq order_trans)
  ultimately show ?thesis using arrived by simp
qed

text \<open>The observations of a source in what the workers handled or accepted, in order.\<close>

lemma obs_of_worker:
  assumes "list_all (\<lambda>e. list_all (routed_to n (fst e)) (bt_records (snd e))) log"
  shows "obs_of s (records_of log) = concat (map (\<lambda>b. obs_of s (bt_records b)) (of_worker (worker_for n s) log))"
  using assms
proof (induction log)
  case (Cons e log)
  have "obs_of s (bt_records (snd e)) = []" if "fst e \<noteq> worker_for n s"
    using Cons.prems that by (auto simp: obs_of_def filter_empty_conv list_all_iff routed_to_def)
  then show ?case using Cons by (auto simp: of_worker_def)
qed (simp add: of_worker_def)

lemma accepted_routed:
  assumes "calls_inv r" and "p = the_pool r"
  shows "list_all (\<lambda>e. list_all (routed_to (length (wp_queues p)) (fst e)) (bt_records (snd e))) (wp_accepted p)"
proof -
  have "list_all (routed_to (length (wp_queues p)) (fst e)) (bt_records (snd e))" if e: "e \<in> set (wp_accepted p)" for e
  proof -
    obtain cid where cid: "cid < length (rt_calls r)" "bt_on_applied (snd e) = Some cid"
      using assms e by (auto simp: calls_inv_def known_calls_def list_all_iff)
    have ok: "call_ok (length (wp_queues p)) cid (rt_calls r ! cid) (accepted_for cid p) (submitting_for cid p) (completed_for cid p)"
      using calls_inv_call [OF assms(1) cid(1)] assms(2) by simp
    have "e \<in> set (accepted_for cid p)" using e cid(2) by (simp add: accepted_for_def)
    moreover have "set (accepted_for cid p) \<subseteq> set (ca_parts (rt_calls r ! cid))"
      using ok by (auto simp: call_ok_def call_progress_def split: call_phase.splits if_splits dest!: arg_cong [where f = set])
    ultimately show ?thesis using ok by (auto simp: call_ok_def call_static_def list_all_iff)
  qed
  then show ?thesis by (simp add: list_all_iff)
qed

lemma applied_obs:
  assumes "list_all (entry_ok n) log" and "\<And>cid timed. Direct cid timed \<in> set log \<Longrightarrow> obs_of s (map fst timed) = []"
  shows "obs_of s (concat (map entry_records log)) = obs_of s (records_of (worker_log log))"
  using assms
proof (induction log)
  case (Cons e log)
  have IH: "obs_of s (concat (map entry_records log)) = obs_of s (records_of (worker_log log))"
    using Cons.prems by (intro Cons.IH) auto
  show ?case
  proof (cases e)
    case (Direct cid timed)
    then show ?thesis using IH Cons.prems(2) [of cid timed] by (simp add: worker_log_def)
  next
    case (ByWorker i b timed)
    then show ?thesis using IH Cons.prems(1) by (simp add: worker_log_def)
  qed
qed (simp add: worker_log_def)

lemma direct_entries_known:
  assumes "log_inv r" and "Direct cid timed \<in> set (rt_log r)"
  shows "cid < length (rt_calls r)" and "map fst timed = direct_records (rt_calls r ! cid)"
proof -
  show cid: "cid < length (rt_calls r)" using assms by (force simp: log_inv_def list_all_iff)
  have "map fst timed \<in> set (direct_log cid (rt_log r))"
    using assms(2) by (force simp: direct_log_def)
  then show "map fst timed = direct_records (rt_calls r ! cid)"
    using assms(1) cid by (auto simp: log_inv_def split: if_splits)
qed

section \<open>The observatory under the machine\<close>

text \<open>The flags and the counters of saving and abandoning play no part in soundness.\<close>

lemma sound_flags [simp]:
  "sound (ob\<lparr>ob_started := b\<rparr>) \<longleftrightarrow> sound ob"
  "sound (ob\<lparr>ob_stats := (ob_stats ob)\<lparr>rs_abandoned_batches := x\<rparr>\<rparr>) \<longleftrightarrow> sound ob"
  "sound (ob\<lparr>ob_stats := (ob_stats ob)\<lparr>rs_snapshot_writes := x\<rparr>\<rparr>) \<longleftrightarrow> sound ob"
  by (simp_all add: sound_def observatory_wf_def balanced_def own_fence_total_def)

definition restores :: "runtime_config \<Rightarrow> bool" where
  "restores c \<longleftrightarrow> cfg_restore_on_start c \<and> cfg_snapshot_path c \<noteq> []"

definition observatory_ok :: "runtime_config \<Rightarrow> observatory \<Rightarrow> bool" where
  "observatory_ok c ob \<longleftrightarrow> ob_config ob = c \<and> sound ob"

lemma observatory_ok_batch: "observatory_ok c ob \<Longrightarrow> observatory_ok c (apply_batch ob rs)"
  by (simp add: observatory_ok_def apply_batch_sound)

lemma ok_start:
  assumes "observatory_ok c (rt_ob r)" and "\<not> restores c" and "runtime_start version env r = Some (r', s)"
  shows "observatory_ok c (rt_ob r')"
proof -
  have "\<not> (cfg_restore_on_start (ob_config (rt_ob r)) \<and> cfg_snapshot_path (ob_config (rt_ob r)) \<noteq> [])"
    using assms(1,2) by (simp add: observatory_ok_def restores_def)
  with assms(1,3) show ?thesis
    by (auto simp: observatory_ok_def runtime_start_def Let_def split: if_splits option.splits prod.splits)
qed

lemma ok_stop:
  assumes "observatory_ok c (rt_ob r)"
  shows "stop_begin r = Some r' \<Longrightarrow> observatory_ok c (rt_ob r')" "stop_count r = Some r' \<Longrightarrow> observatory_ok c (rt_ob r')"
    "stop_save version faults now r = Some r' \<Longrightarrow> observatory_ok c (rt_ob r')" "stop_finish r = Some (r', st) \<Longrightarrow> observatory_ok c (rt_ob r')"
proof -
  show "stop_begin r = Some r' \<Longrightarrow> observatory_ok c (rt_ob r')"
    using assms by (auto simp: stop_begin_def split: if_splits option.splits)
  show "stop_count r = Some r' \<Longrightarrow> observatory_ok c (rt_ob r')"
    using assms by (auto simp: observatory_ok_def stop_count_def split: if_splits option.splits)
  show "stop_save version faults now r = Some r' \<Longrightarrow> observatory_ok c (rt_ob r')"
    using assms by (auto simp: observatory_ok_def stop_save_def persist_def Let_def split: if_splits prod.splits)
  show "stop_finish r = Some (r', st) \<Longrightarrow> observatory_ok c (rt_ob r')"
    using assms by (auto simp: observatory_ok_def stop_finish_def split: stop_phase.splits)
qed

lemma set_call_ob [simp]: "rt_ob (set_call cid f r) = rt_ob r"
  by (simp add: set_call_def)

lemma ob_kept:
  "arrive_direct cid r = Some r' \<Longrightarrow> rt_ob r' = rt_ob r" "admit_part cid r = Some r' \<Longrightarrow> rt_ob r' = rt_ob r"
  "push_part k r = Some r' \<Longrightarrow> rt_ob r' = rt_ob r" "complete_part i r = Some r' \<Longrightarrow> rt_ob r' = rt_ob r"
  "pool_only f r = Some r' \<Longrightarrow> rt_ob r' = rt_ob r" "submit_begin b r = (r', s) \<Longrightarrow> rt_ob r' = rt_ob r"
proof -
  show "arrive_direct cid r = Some r' \<Longrightarrow> rt_ob r' = rt_ob r" by (auto simp: arrive_direct_def split: if_splits)
  show "admit_part cid r = Some r' \<Longrightarrow> rt_ob r' = rt_ob r"
    by (auto simp: admit_part_def split: if_splits option.splits sum.splits prod.splits call_phase.splits list.splits)
  show "push_part k r = Some r' \<Longrightarrow> rt_ob r' = rt_ob r" by (auto simp: push_part_def split: option.splits prod.splits)
  show "complete_part i r = Some r' \<Longrightarrow> rt_ob r' = rt_ob r" by (auto simp: complete_part_def split: option.splits worker_phase.splits)
  show "pool_only f r = Some r' \<Longrightarrow> rt_ob r' = rt_ob r" by (auto simp: pool_only_def split: option.splits)
  show "submit_begin b r = (r', s) \<Longrightarrow> rt_ob r' = rt_ob r"
    by (auto simp: submit_begin_def fire_def Let_def split: if_splits option.splits prod.splits)
qed

lemma ok_apply: "observatory_ok c (rt_ob r) \<Longrightarrow> apply_direct cid instants r = Some r' \<Longrightarrow> observatory_ok c (rt_ob r')"
  "observatory_ok c (rt_ob r) \<Longrightarrow> handle_part i instants r = Some r' \<Longrightarrow> observatory_ok c (rt_ob r')"
  by (auto simp: apply_direct_def handle_part_def observatory_ok_batch split: if_splits option.splits worker_phase.splits)

lemma ok_step:
  assumes "observatory_ok c (rt_ob r)" and "\<not> restores c" and "rt_step a r = Some r'"
  shows "observatory_ok c (rt_ob r')"
proof (cases a)
  case (SubmitBatch b)
  with assms show ?thesis by (cases "submit_begin b r") (auto dest: ob_kept(6))
qed (use assms in \<open>auto intro: ok_start ok_stop ok_apply simp: ob_kept\<close>)

lemma ok_reachable: "rt_reachable c r \<Longrightarrow> \<not> restores c \<Longrightarrow> observatory_ok c (rt_ob r)"
proof (induction rule: rt_reachable.induct)
  case (built files)
  have "ob_config (new_observatory c) = c" by (simp add: new_observatory_def)
  then show ?case by (simp add: new_runtime_def observatory_ok_def new_observatory_sound)
qed (auto intro: ok_step)

section \<open>An example run\<close>

primrec rt_run :: "rt_action list \<Rightarrow> runtime \<Rightarrow> runtime option" where
  "rt_run [] r = Some r"
| "rt_run (a # as) r = Option.bind (rt_step a r) (rt_run as)"

lemma rt_run_reachable: "rt_reachable c r \<Longrightarrow> rt_run as r = Some r' \<Longrightarrow> rt_reachable c r'"
  by (induction as arbitrary: r) (auto simp: bind_eq_Some_conv intro: rt_reachable.step)

text \<open>One worker; a batch of one observation, with a completion, goes all the way through it.\<close>

definition worker_config :: runtime_config where
  "worker_config =
     \<lparr>cfg_snapshot_path = [], cfg_restore_on_start = False, cfg_persist_on_stop = False, cfg_workers = 1,
      cfg_queue_depth = 4, cfg_runtime_name = ''runtime'', cfg_incarnation_name = ''boot'',
      cfg_families = 255, cfg_policy = make_default_policy\<rparr>"

definition one_observation :: observation_decl where
  "one_observation =
     \<lparr>od_link = ''core'', od_source = ''collector'', od_incarnation = ''i'', od_epoch = ''e'', od_generation = ''g'',
      od_revision = 1, od_observed_at = 5, od_received_at = 6,
      od_key = MetricKey MF_OperState Dir_Unknown EC_None, od_payload = OperStateReading Oper_Up\<rparr>"

definition one_batch :: batch where
  "one_batch = \<lparr>bt_records = [ObservationRecord one_observation], bt_lines_scanned = 1, bt_on_applied = Some 7\<rparr>"

definition example_actions :: "rt_action list" where
  "example_actions = [Start 1 (\<lambda>_. no_read_faults []), SubmitBatch one_batch, AdmitPart 0, PushPart 0, PopPart 0,
     HandlePart 0 [10], CompletePart 0]"

lemma worker_config_valid: "validate_config worker_config = status_success"
  using default_policy_valid
  by (simp add: validate_config_def worker_config_def Let_def) (simp add: make_default_policy_def default_limits_def)

lemma example_run:
  "\<exists>r. rt_run example_actions (new_runtime worker_config (\<lambda>_. None)) = Some r
     \<and> rt_fired r = [(0, 7)] \<and> length (rt_calls r) = 1 \<and> ca_batch (rt_calls r ! 0) = one_batch
     \<and> ca_phase (rt_calls r ! 0) = Returned status_success \<and> wp_discarded (the_pool r) = []
     \<and> rt_pool r \<noteq> None \<and> length (wp_queues (the_pool r)) = 1 \<and> wp_phases (the_pool r) ! 0 = Waiting \<and> bq_items (wp_queues (the_pool r) ! 0) = []"
proof -
  have route: "route_of p s = 0" if "length (wp_queues p) = 1" for p s using that by (simp add: route_of_def)
  have workers: "cfg_workers worker_config = 1" "cfg_queue_depth worker_config = 4"
    "cfg_restore_on_start worker_config = False" by (simp_all add: worker_config_def)
  show ?thesis
    by (simp add: example_actions_def new_runtime_def runtime_start_def new_observatory_def worker_config_valid workers Let_def
        pool_new_def pool_start_def submit_begin_def one_batch_def route_records_def route_record_def is_observation_def
        route part_of_def submit_next_def admit_part_def pool_admit_def set_call_def push_part_def pool_push_def queue_push_def
        queue_new_def enqueue_def after_push_def pool_only_def worker_pop_def queue_pop_def dequeue_def handle_part_def worker_handle_def
        complete_part_def worker_complete_def arrive_def fire_def drop_at_def)
qed

section \<open>Properties\<close>



text \<open>
  C2: Workers keep the order of each source. In every interleaving the observations of a source
  are applied in exactly the order in which the pool accepted them, none skipped and none twice,
  and what the pool accepted from one call is a prefix of the source's observations in its batch, in
  the order of the batch.
\<close>

theorem source_order_is_kept:
  assumes "rt_reachable c r" and "rt_pool r = Some p"
  shows "prefix (obs_of s (applied_records r)) (obs_of s (records_of (wp_accepted p)))
    \<and> (\<forall>cid < length (rt_calls r).
         prefix (obs_of s (records_of (accepted_for cid p))) (obs_of s (bt_records (ca_batch (rt_calls r ! cid)))))"
proof -
  have inv: "calls_inv r" and log: "log_inv r" using calls_inv_reachable log_inv_reachable assms(1) by auto
  have p: "the_pool r = p" and pinv: "pool_inv p" using assms(2) inv by (auto simp: calls_inv_def)
  let ?n = "length (wp_queues p)" and ?i = "worker_for (length (wp_queues p)) s"
  have none: "obs_of s (direct_records (rt_calls r ! cid)) = []" if "cid < length (rt_calls r)" for cid
    using log assms(2) nth_mem [OF that] by (auto simp: log_inv_def obs_of_def list_all_iff filter_empty_conv)
  have routed: "list_all (\<lambda>e. list_all (routed_to ?n (fst e)) (bt_records (snd e))) (wp_accepted p)"
    by (rule accepted_routed [OF inv p [symmetric]])
  moreover have "set (wp_handled p) \<subseteq> set (wp_accepted p)" using set_mset_mono [OF handled_subset [OF pinv]] by simp
  ultimately have routed': "list_all (\<lambda>e. list_all (routed_to ?n (fst e)) (bt_records (snd e))) (wp_handled p)"
    by (auto simp: list_all_iff)
  have "obs_of s (applied_records r) = obs_of s (records_of (wp_handled p))"
    using log direct_entries_known [OF log] none
    by (subst applied_records_def, subst applied_obs) (auto simp: log_inv_def p)
  moreover have "?i < ?n" using pinv by (simp add: worker_for_def pool_inv_def pool_shape_def)
  then have "prefix (of_worker ?i (wp_handled p)) (of_worker ?i (wp_accepted p))"
    using pinv by (auto simp: pool_inv_def worker_inv_def)
  then have "prefix (obs_of s (records_of (wp_handled p))) (obs_of s (records_of (wp_accepted p)))"
    unfolding obs_of_worker [OF routed] obs_of_worker [OF routed'] by (auto elim!: prefixE)
  moreover have "prefix (obs_of s (records_of (accepted_for cid p))) (obs_of s (bt_records (ca_batch (rt_calls r ! cid))))"
    if "cid < length (rt_calls r)" for cid
  proof -
    have ok: "call_ok ?n cid (rt_calls r ! cid) (accepted_for cid p) (submitting_for cid p) (completed_for cid p)"
      using calls_inv_call [OF inv that] by (simp add: p)
    have "prefix (accepted_for cid p) (ca_parts (rt_calls r ! cid))"
      using ok by (auto simp: call_ok_def intro: progress_prefix)
    then show ?thesis
      using ok none [OF that] by (auto simp: call_ok_def call_static_def elim!: prefixE)
  qed
  ultimately show ?thesis by simp
qed

theorem source_order_is_kept_witness:
  "\<exists>r p. rt_run example_actions (new_runtime worker_config (\<lambda>_. None)) = Some r \<and> rt_pool r = Some p
     \<and> prefix (obs_of ''collector'' (applied_records r)) (obs_of ''collector'' (records_of (wp_accepted p)))"
proof -
  obtain r p where run: "rt_run example_actions (new_runtime worker_config (\<lambda>_. None)) = Some r" and p: "rt_pool r = Some p"
    using example_run by blast
  from source_order_is_kept [OF rt_run_reachable [OF rt_reachable.built run] p] run p show ?thesis by blast
qed

text \<open>
  C3: A completion is exact. It fires at most once; when it has fired, the records applied for the
  call are the records of its batch, each exactly once; and a call that returned an error never
  fires it.
\<close>

theorem completion_is_exact:
  assumes "rt_reachable c r"
  shows "distinct (map fst (rt_fired r))
    \<and> (\<forall>(cid, completion) \<in> set (rt_fired r).
         mset (applied_for cid r) = mset (bt_records (ca_batch (rt_calls r ! cid)))
         \<and> bt_on_applied (ca_batch (rt_calls r ! cid)) = Some completion
         \<and> (\<forall>s. ca_phase (rt_calls r ! cid) = Returned s \<longrightarrow> status_ok s))"
proof -
  have inv: "calls_inv r" and log: "log_inv r" using calls_inv_reachable log_inv_reachable assms by auto
  have fired: "fired_ok (rt_calls r) (rt_fired r)" and pinv: "pool_inv (the_pool r)" using inv by (simp_all add: calls_inv_def)
  have "mset (applied_for cid r) = mset (bt_records (ca_batch (rt_calls r ! cid)))
      \<and> bt_on_applied (ca_batch (rt_calls r ! cid)) = Some completion
      \<and> (\<forall>s. ca_phase (rt_calls r ! cid) = Returned s \<longrightarrow> status_ok s)" if f: "(cid, completion) \<in> set (rt_fired r)" for cid completion
  proof -
    let ?c = "rt_calls r ! cid" and ?p = "the_pool r"
    have cid: "cid < length (rt_calls r)" and zero: "ca_remaining ?c = 0" and tok: "bt_on_applied (ca_batch ?c) = Some completion"
      using fired f by (auto simp: fired_ok_def)
    note ok = calls_inv_call [OF inv cid]
    note full = nothing_remains [OF ok pinv zero]
    have "concat (direct_log cid (rt_log r)) = direct_records ?c"
      using log cid full by (auto simp: log_inv_def direct_applied_def direct_arrived_def direct_records_def)
    moreover have "handled_for cid ?p = filter (\<lambda>e. bt_on_applied (snd e) = Some cid) (worker_log (rt_log r))"
      using log by (simp add: log_inv_def handled_for_def)
    ultimately have "mset (applied_for cid r) = mset (direct_records ?c) + mset (records_of (handled_for cid ?p))"
      using log mset_applied_for [of "length (rt_calls r)" "rt_log r" cid] by (simp add: log_inv_def applied_for_def)
    also have "\<dots> = mset (bt_records (ca_batch ?c))"
      using ok mset_records_of [of "handled_for cid ?p" "ca_parts ?c"] full by (simp add: call_ok_def call_static_def)
    finally have applied: "mset (applied_for cid r) = mset (bt_records (ca_batch ?c))" .
    have "size (mset (handled_for cid ?p)) = length (ca_parts ?c)" using full by simp
    then have "length (ca_parts ?c) \<le> length (accepted_for cid ?p)"
      using size_mset_mono [OF handled_for_subset [OF pinv, of cid]] by simp
    then have "\<forall>s. ca_phase ?c = Returned s \<longrightarrow> status_ok s"
      using ok by (auto simp: call_ok_def call_progress_def split: if_splits dest!: arg_cong [where f = length])
    then show ?thesis using applied tok by simp
  qed
  then show ?thesis using fired by (auto simp: fired_ok_def)
qed

theorem completion_is_exact_witness:
  "\<exists>r. rt_run example_actions (new_runtime worker_config (\<lambda>_. None)) = Some r \<and> rt_fired r = [(0, 7)]
     \<and> mset (applied_for 0 r) = mset (bt_records one_batch)"
proof -
  obtain r where run: "rt_run example_actions (new_runtime worker_config (\<lambda>_. None)) = Some r"
    and r: "rt_fired r = [(0, 7)]" "ca_batch (rt_calls r ! 0) = one_batch"
    using example_run by blast
  from completion_is_exact [OF rt_run_reachable [OF rt_reachable.built run]] run r show ?thesis by simp
qed

text \<open>
  C4: No completion is lost. Once a call has returned successfully, the workers have nothing left
  in hand or in their queues and nothing was discarded, the completion of the call has fired: a
  caller that waits for it is released.
\<close>

theorem drained_pool_has_completed:
  assumes "rt_reachable c r" and "cid < length (rt_calls r)" and "ca_phase (rt_calls r ! cid) = Returned s" and "status_ok s"
    and "\<forall>i < length (wp_queues (the_pool r)). bq_items (wp_queues (the_pool r) ! i) = []
      \<and> wp_phases (the_pool r) ! i \<in> {Unstarted, Waiting, Exited}"
    and "wp_discarded (the_pool r) = []" and "bt_on_applied (ca_batch (rt_calls r ! cid)) = Some completion"
  shows "(cid, completion) \<in> set (rt_fired r)"
proof -
  let ?c = "rt_calls r ! cid" and ?p = "the_pool r"
  have inv: "calls_inv r" and pinv: "pool_inv ?p" using calls_inv_reachable [OF assms(1)] by (simp_all add: calls_inv_def)
  note ok = calls_inv_call [OF inv assms(2)]
  have workers: "of_worker i (wp_accepted ?p) = of_worker i (wp_handled ?p)
      \<and> of_worker i (wp_completed ?p) = map bt_on_applied (of_worker i (wp_handled ?p))" for i
  proof (cases "i < length (wp_queues ?p)")
    case True
    then have "worker_inv ?p i" using pinv by (simp add: pool_inv_def)
    then show ?thesis using assms(5,6) True by (auto simp: worker_inv_def)
  next
    case False
    have "of_worker i (wp_accepted ?p) = []" "of_worker i (wp_handled ?p) = []" "of_worker i (wp_completed ?p) = []"
      using pinv by (auto simp: pool_inv_def pool_shape_def intro: of_worker_out [OF _ False])
    then show ?thesis by simp
  qed
  have "mset (wp_completed ?p) = mset (tokens (wp_accepted ?p))"
  proof (rule multiset_eqI)
    fix e :: "nat \<times> nat option"
    show "count (mset (wp_completed ?p)) e = count (mset (tokens (wp_accepted ?p))) e"
      using workers [of "fst e"] by (cases e) (simp only: count_of_worker tokens_def of_worker_map fst_conv)
  qed
  then have "length (filter (\<lambda>e. snd e = Some cid) (wp_completed ?p)) = length (filter (\<lambda>e. snd e = Some cid) (tokens (wp_accepted ?p)))"
    by (metis mset_filter size_mset)
  also have "\<dots> = length (accepted_for cid ?p)" by (simp add: accepted_for_def tokens_def filter_map o_def)
  finally have "completed_for cid ?p = length (accepted_for cid ?p)" by (simp add: completed_for_def)
  moreover have "accepted_for cid ?p = ca_parts ?c" using ok assms(3,4) by (simp add: call_ok_def call_progress_def)
  ultimately have "ca_remaining ?c = 0"
    using ok assms(3) by (auto simp: call_ok_def call_counts_def direct_arrived_def split: if_splits)
  then show ?thesis using inv assms(2,7) by (simp add: calls_inv_def fired_ok_def)
qed

theorem drained_pool_has_completed_witness:
  "\<exists>r. rt_run example_actions (new_runtime worker_config (\<lambda>_. None)) = Some r \<and> (0, 7) \<in> set (rt_fired r)"
proof -
  obtain r where run: "rt_run example_actions (new_runtime worker_config (\<lambda>_. None)) = Some r"
    and r: "length (rt_calls r) = 1" "ca_batch (rt_calls r ! 0) = one_batch" "ca_phase (rt_calls r ! 0) = Returned status_success"
      "wp_discarded (the_pool r) = []" "length (wp_queues (the_pool r)) = 1" "wp_phases (the_pool r) ! 0 = Waiting"
      "bq_items (wp_queues (the_pool r) ! 0) = []"
    using example_run by blast
  have "(0, 7) \<in> set (rt_fired r)"
    by (rule drained_pool_has_completed [OF rt_run_reachable [OF rt_reachable.built run] _ r(3)])
      (use r in \<open>auto simp: one_batch_def\<close>)
  then show ?thesis using run by blast
qed

end
