(* ===== verification/Server.thy ===== *)
theory Server
  imports Socket Explain Runtime_Results
begin

text \<open>
  The transport server (\<^verbatim>\<open>include/linkobs/transport/server.hpp\<close>, \<^verbatim>\<open>src/transport/server.cpp\<close>): the answer to each
  frame, the loop over the read buffer of a connection, the connection over the results of \<^verbatim>\<open>recv\<close>,
  listening, and the accept loop. The observatory behind the server is an argument, a \<open>service\<close> with
  the two operations the server calls: submit a batch and wait for its completion, and report.
\<close>

section \<open>Options, statistics, state\<close>

record server_options =
  op_host :: string
  op_port :: "16 word"
  op_allow_non_loopback :: bool
  op_max_connections :: u64
  op_max_payload_bytes :: u64
  op_max_read_buffer_bytes :: u64
  op_listen_backlog :: u64
  op_port_file :: string
  op_connection_limit :: u64
  op_persist_on_close :: bool

definition default_server_options :: server_options where
  "default_server_options =
     \<lparr>op_host = ''127.0.0.1'', op_port = 0, op_allow_non_loopback = False, op_max_connections = 8,
      op_max_payload_bytes = 1024 * 1024, op_max_read_buffer_bytes = 4 * 1024 * 1024, op_listen_backlog = 8,
      op_port_file = [], op_connection_limit = 0, op_persist_on_close = True\<rparr>"

record server_statistics =
  st_connections_accepted :: u64
  st_connections_refused :: u64
  st_connections_closed :: u64
  st_frames_received :: u64
  st_frames_sent :: u64
  st_pushes :: u64
  st_queries :: u64
  st_pings :: u64
  st_shutdowns :: u64
  st_protocol_errors :: u64
  st_records_submitted :: u64
  st_records_rejected :: u64
  st_payload_bytes_received :: u64

definition empty_server_statistics :: server_statistics where
  "empty_server_statistics =
     \<lparr>st_connections_accepted = 0, st_connections_refused = 0, st_connections_closed = 0, st_frames_received = 0,
      st_frames_sent = 0, st_pushes = 0, st_queries = 0, st_pings = 0, st_shutdowns = 0, st_protocol_errors = 0,
      st_records_submitted = 0, st_records_rejected = 0, st_payload_bytes_received = 0\<rparr>"

record 's service =
  sv_policy :: policy
  sv_submit_and_wait :: "batch \<Rightarrow> 's \<Rightarrow> 's \<times> status"
  sv_report :: "string \<Rightarrow> 's \<Rightarrow> string"

record 's server =
  sr_stats :: server_statistics
  sr_stop_requested :: bool
  sr_service :: 's

definition update_stats :: "(server_statistics \<Rightarrow> server_statistics) \<Rightarrow> 's server \<Rightarrow> 's server" where
  "update_stats f sr = sr\<lparr>sr_stats := f (sr_stats sr)\<rparr>"

definition count_protocol_error :: "'s server \<Rightarrow> 's server" where
  "count_protocol_error = update_stats (\<lambda>st. st\<lparr>st_protocol_errors := st_protocol_errors st + 1\<rparr>)"

section \<open>Reports\<close>

definition error_payload :: "status \<Rightarrow> string" where
  "error_payload s = ''code='' @ status_code_to_string (status_code s) @ '' message='' @ status_message s"

definition state_report :: "observatory \<Rightarrow> time_point \<Rightarrow> string \<Rightarrow> string" where
  "state_report ob now link_name =
     (let stats = ob_stats ob in
      (if link_name = []
       then concat (map (\<lambda>c. summarize c @ [newline]) (classify_all ob now))
       else case classify_named ob link_name now of
         None \<Rightarrow> ''link='' @ link_name @ '' state=absent'' @ [newline]
       | Some c \<Rightarrow> ''name='' @ link_name @ '' '' @ summarize c @ [newline])
      @ ''runtime accepted='' @ to_dec (rs_records_accepted stats)
      @ '' fenced='' @ to_dec (rs_records_fenced stats)
      @ '' state-changes='' @ to_dec (rs_state_changes stats) @ [newline])"

section \<open>Answering a frame\<close>

definition reply :: "frame_type \<Rightarrow> string \<Rightarrow> frame" where
  "reply type payload = \<lparr>fr_type = type, fr_flags = 0, fr_payload = payload\<rparr>"

text \<open>
  The acknowledgement of a push. The number of records submitted is 1 when the batch was submitted,
  however many records it held.
\<close>

definition push_ack :: "nat \<Rightarrow> parse_outcome \<Rightarrow> string" where
  "push_ack submitted outcome =
     ''records='' @ to_dec (of_nat submitted) @ '' rejected='' @ to_dec (of_nat (po_rejected outcome))
     @ concat (map (\<lambda>e. newline # e) (po_errors outcome))"

definition answer_push :: "'s service \<Rightarrow> string \<Rightarrow> 's server \<Rightarrow> frame \<times> 's server" where
  "answer_push svc payload sr =
     (let outcome = parse_batch payload (sv_policy svc);
          acknowledge = (\<lambda>submitted sr.
            (reply FT_PushAck (push_ack submitted outcome),
             update_stats (\<lambda>st. st\<lparr>st_pushes := st_pushes st + 1,
                 st_records_submitted := st_records_submitted st + of_nat submitted,
                 st_records_rejected := st_records_rejected st + of_nat (po_rejected outcome)\<rparr>) sr))
      in if status_ok (po_status outcome) then
           (case sv_submit_and_wait svc (po_batch outcome) (sr_service sr) of
              (s, applied) \<Rightarrow>
                if \<not> status_ok applied then (reply FT_ErrorReport (error_payload applied), sr\<lparr>sr_service := s\<rparr>)
                else acknowledge 1 (sr\<lparr>sr_service := s\<rparr>))
         else acknowledge 0 sr)"

text \<open>The response, whether the connection finishes after it, and the server afterwards.\<close>

definition answer :: "'s service \<Rightarrow> frame \<Rightarrow> 's server \<Rightarrow> frame \<times> bool \<times> 's server" where
  "answer svc f sr =
     (case fr_type f of
        FT_Ping \<Rightarrow> (reply FT_Pong ''ok'', False, update_stats (\<lambda>st. st\<lparr>st_pings := st_pings st + 1\<rparr>) sr)
      | FT_PushRecords \<Rightarrow> (case answer_push svc (fr_payload f) sr of (response, sr') \<Rightarrow> (response, False, sr'))
      | FT_QueryState \<Rightarrow>
          (let sr1 = update_stats (\<lambda>st. st\<lparr>st_queries := st_queries st + 1\<rparr>) sr in
           (reply FT_StateReport (sv_report svc (trim_ascii (fr_payload f)) (sr_service sr1)), False, sr1))
      | FT_Shutdown \<Rightarrow>
          (reply FT_Pong ''shutdown'', True,
           (update_stats (\<lambda>st. st\<lparr>st_shutdowns := st_shutdowns st + 1\<rparr>) sr)\<lparr>sr_stop_requested := True\<rparr>)
      | _ \<Rightarrow>
          (reply FT_ErrorReport (error_payload (status_of SC_Unsupported ''client sent a frame type that only a server may send'')),
           False, count_protocol_error sr))"

section \<open>A connection\<close>

text \<open>
  How the loop over the buffer ends: it asks for more bytes, the connection is finished, or a
  response could not be encoded or sent, which leaves this loop but not the connection.
\<close>

datatype loop_end = NeedMore | Finished | Broken

record connection =
  cn_buffer :: bytes
  cn_socket :: socket
  cn_open :: bool

definition refuse_stream :: "u32 \<Rightarrow> server_options \<Rightarrow> kernel \<Rightarrow> status \<Rightarrow> socket \<Rightarrow> socket" where
  "refuse_stream version opts k s so =
     (case encode_frame version (reply FT_ErrorReport (error_payload s)) (op_max_payload_bytes opts) of
        Inl _ \<Rightarrow> so
      | Inr encoded \<Rightarrow> snd (send_all k encoded so))"

definition count_frame :: "frame \<Rightarrow> 's server \<Rightarrow> 's server" where
  "count_frame f =
     update_stats (\<lambda>st. st\<lparr>st_frames_received := st_frames_received st + 1,
       st_payload_bytes_received := st_payload_bytes_received st + of_nat (length (fr_payload f))\<rparr>)"

definition count_sent :: "'s server \<Rightarrow> 's server" where
  "count_sent = update_stats (\<lambda>st. st\<lparr>st_frames_sent := st_frames_sent st + 1\<rparr>)"

text \<open>One frame: the response is encoded and sent.\<close>

definition deliver ::
  "u32 \<Rightarrow> server_options \<Rightarrow> kernel \<Rightarrow> frame \<Rightarrow> bool \<Rightarrow> socket \<Rightarrow> 's server \<Rightarrow> loop_end \<times> socket \<times> 's server" where
  "deliver version opts k response finish so sr =
     (case encode_frame version response (op_max_payload_bytes opts) of
        Inl _ \<Rightarrow> (if finish then Finished else Broken, so, count_protocol_error sr)
      | Inr encoded \<Rightarrow>
          (case send_all k encoded so of
             (sent, so') \<Rightarrow>
               if \<not> status_ok sent then (if finish then Finished else Broken, so', sr)
               else (if finish then Finished else NeedMore, so', count_sent sr)))"

function process_frames ::
  "u32 \<Rightarrow> server_options \<Rightarrow> 's service \<Rightarrow> kernel \<Rightarrow> bytes \<Rightarrow> socket \<Rightarrow> 's server
     \<Rightarrow> loop_end \<times> bytes \<times> socket \<times> 's server" where
  "process_frames version opts svc k buffer so sr =
     (let decoded = decode_frame version buffer (op_max_payload_bytes opts) in
      if \<not> fd_ok decoded
      then (Finished, buffer, refuse_stream version opts k (fd_status decoded) so, count_protocol_error sr)
      else if \<not> fd_complete decoded then (NeedMore, buffer, so, sr)
      else
        let buffer' = drop (fd_consumed decoded) buffer in
        case answer svc (fd_frame decoded) (count_frame (fd_frame decoded) sr) of
          (response, finish, sr1) \<Rightarrow>
            (case deliver version opts k response finish so sr1 of
               (NeedMore, so', sr') \<Rightarrow> process_frames version opts svc k buffer' so' sr'
             | (ended, so', sr') \<Rightarrow> (ended, buffer', so', sr')))"
  by pat_completeness auto

text \<open>The loop ends because every frame takes at least its header from the buffer.\<close>

lemma consumed_progress:
  assumes "fd_complete (decode_frame version buffer max_payload)"
  shows "kFrameHeaderSize \<le> fd_consumed (decode_frame version buffer max_payload)"
    and "fd_consumed (decode_frame version buffer max_payload) \<le> length buffer"
proof -
  note c = decode_complete_canonical [OF assms]
  show "fd_consumed (decode_frame version buffer max_payload) \<le> length buffer" by (rule c(2))
  then show "kFrameHeaderSize \<le> fd_consumed (decode_frame version buffer max_payload)"
    using arg_cong [OF c(3), of length] by (simp add: frame_bytes_length)
qed

lemma frame_shortens:
  assumes "fd_complete (decode_frame version buffer max_payload)"
  shows "length buffer - fd_consumed (decode_frame version buffer max_payload) < length buffer"
  using consumed_progress [OF assms] by (simp add: kFrameHeaderSize_def)

termination process_frames
  by (relation "measure (\<lambda>(version, opts, svc, k, buffer, so, sr). length buffer)") (auto simp: frame_shortens)

declare process_frames.simps [simp del]

text \<open>One round of the outer loop, for what \<^verbatim>\<open>recv\<close> returned, and a connection over a sequence of them.\<close>

definition receive_step ::
  "u32 \<Rightarrow> server_options \<Rightarrow> 's service \<Rightarrow> kernel \<Rightarrow> recv_event \<Rightarrow> connection \<times> 's server \<Rightarrow> connection \<times> 's server" where
  "receive_step version opts svc k event state =
     (case state of (cn, sr) \<Rightarrow>
        if \<not> cn_open cn then state
        else
          case receive_once event (cn_buffer cn) of
            (received, buffer, closed) \<Rightarrow>
              if \<not> status_ok received then (cn\<lparr>cn_open := False\<rparr>, sr)
              else if length buffer > unat (op_max_read_buffer_bytes opts)
              then (cn\<lparr>cn_buffer := buffer, cn_open := False\<rparr>, count_protocol_error sr)
              else
                case process_frames version opts svc k buffer (cn_socket cn) sr of
                  (ended, buffer', so, sr') \<Rightarrow>
                    (\<lparr>cn_buffer = buffer', cn_socket = so, cn_open = (\<not> closed \<and> ended \<noteq> Finished)\<rparr>, sr'))"

definition new_connection :: connection where
  "new_connection = \<lparr>cn_buffer = [], cn_socket = new_socket, cn_open = True\<rparr>"

definition handle_connection ::
  "u32 \<Rightarrow> server_options \<Rightarrow> 's service \<Rightarrow> kernel \<Rightarrow> recv_event list \<Rightarrow> 's server \<Rightarrow> connection \<times> 's server" where
  "handle_connection version opts svc k events sr = fold (receive_step version opts svc k) events (new_connection, sr)"

section \<open>The loop reads a stream\<close>

lemma drop_consumed_append:
  "fd_complete (decode_frame version b m) \<Longrightarrow>
   drop (fd_consumed (decode_frame version b m)) (b @ x) = drop (fd_consumed (decode_frame version b m)) b @ x"
  using consumed_progress(2) [of version b m] by simp

text \<open>Bytes that arrive later continue where the loop stopped; a loop that left its stream ignores them.\<close>

lemma process_append:
  "process_frames version opts svc k (b @ x) so sr =
     (case process_frames version opts svc k b so sr of
        (NeedMore, b1, so1, sr1) \<Rightarrow> process_frames version opts svc k (b1 @ x) so1 sr1
      | (ended, b1, so1, sr1) \<Rightarrow> (ended, b1 @ x, so1, sr1))"
proof (induction version opts svc k b so sr rule: process_frames.induct)
  case (1 version opts svc k b so sr)
  let ?d = "decode_frame version b (op_max_payload_bytes opts)"
  show ?case
  proof (cases "undecided ?d")
    case True
    then have "process_frames version opts svc k b so sr = (NeedMore, b, so, sr)"
      by (simp add: process_frames.simps [of _ _ _ _ b] undecided_def)
    then show ?thesis by simp
  next
    case False
    have stable: "decode_frame version (b @ x) (op_max_payload_bytes opts) = ?d" by (rule decode_stable [OF False])
    show ?thesis
    proof (cases "fd_ok ?d")
      case bad: False
      then show ?thesis
        by (simp add: process_frames.simps [of _ _ _ _ b] process_frames.simps [of _ _ _ _ "b @ x"] stable)
    next
      case ok: True
      then have complete: "fd_complete ?d" using False by (simp add: undecided_def)
      obtain response finish sr1 where a: "answer svc (fd_frame ?d) (count_frame (fd_frame ?d) sr) = (response, finish, sr1)"
        by (metis prod_cases3)
      obtain ended so' sr' where d: "deliver version opts k response finish so sr1 = (ended, so', sr')" by (metis prod_cases3)
      have step: "process_frames version opts svc k b so sr =
          (if ended = NeedMore then process_frames version opts svc k (drop (fd_consumed ?d) b) so' sr'
           else (ended, drop (fd_consumed ?d) b, so', sr'))"
        using ok complete a d by (cases ended) (simp_all add: process_frames.simps [of _ _ _ _ b] Let_def)
      have step': "process_frames version opts svc k (b @ x) so sr =
          (if ended = NeedMore then process_frames version opts svc k (drop (fd_consumed ?d) b @ x) so' sr'
           else (ended, drop (fd_consumed ?d) b @ x, so', sr'))"
        using ok complete a d drop_consumed_append [OF complete, of x]
        by (cases ended) (simp_all add: process_frames.simps [of _ _ _ _ "b @ x"] Let_def stable)
      show ?thesis
      proof (cases "ended = NeedMore")
        case True
        then show ?thesis
          using step step' "1.IH" [OF refl _ _ refl a [symmetric] refl d [symmetric, unfolded True] refl] ok complete by simp
      next
        case other: False
        then show ?thesis using step step' by (cases ended) simp_all
      qed
    qed
  qed
qed

lemma process_needs_more:
  "process_frames version opts svc k b so sr = (NeedMore, b1, so1, sr1) \<Longrightarrow>
   undecided (decode_frame version b1 (op_max_payload_bytes opts))"
proof (induction version opts svc k b so sr rule: process_frames.induct)
  case (1 version opts svc k b so sr)
  let ?d = "decode_frame version b (op_max_payload_bytes opts)"
  obtain response finish sr2 where a: "answer svc (fd_frame ?d) (count_frame (fd_frame ?d) sr) = (response, finish, sr2)"
    by (metis prod_cases3)
  obtain ended so' sr' where d: "deliver version opts k response finish so sr2 = (ended, so', sr')" by (metis prod_cases3)
  consider "\<not> fd_ok ?d" | "undecided ?d" | "fd_ok ?d" "fd_complete ?d" by (auto simp: undecided_def)
  then show ?case
  proof cases
    case 3
    then show ?thesis
      using "1.prems" "1.IH" [OF refl _ _ refl a [symmetric] refl d [symmetric]] a d
      by (cases ended) (simp_all add: process_frames.simps [of _ _ _ _ b] Let_def)
  qed (use "1.prems" in \<open>auto simp: process_frames.simps [of _ _ _ _ b] undecided_def\<close>)
qed

lemma undecided_stops: "undecided (decode_frame version b (op_max_payload_bytes opts)) \<Longrightarrow>
  process_frames version opts svc k b so sr = (NeedMore, b, so, sr)"
  by (simp add: process_frames.simps undecided_def)

text \<open>Room in the read buffer for the longest undecided rest and one more chunk.\<close>

definition roomy :: "server_options \<Rightarrow> bool" where
  "roomy opts \<longleftrightarrow> kFrameHeaderSize + unat (op_max_payload_bytes opts) + kReceiveChunk \<le> unat (op_max_read_buffer_bytes opts)"

lemma connection_stream:
  assumes "roomy opts" and "list_all chunk_ok cs" and "undecided (decode_frame version b (op_max_payload_bytes opts))"
    and "process_frames version opts svc k (b @ concat cs) so sr = (ended, b', so', sr')" and "ended \<noteq> Broken"
  shows "\<exists>cn. fold (receive_step version opts svc k) (map Arrived cs) (\<lparr>cn_buffer = b, cn_socket = so, cn_open = True\<rparr>, sr) = (cn, sr')
    \<and> cn_socket cn = so' \<and> cn_open cn = (ended \<noteq> Finished) \<and> (ended = NeedMore \<longrightarrow> cn_buffer cn = b')"
  using assms(2-5)
proof (induction cs arbitrary: b so sr)
  case Nil
  then show ?case by (simp add: undecided_stops)
next
  case (Cons c cs)
  obtain e1 b1 so1 sr1 where p1: "process_frames version opts svc k (b @ c) so sr = (e1, b1, so1, sr1)" by (metis prod_cases4)
  have "length b < kFrameHeaderSize + unat (op_max_payload_bytes opts) \<or> length b < kFrameHeaderSize"
    using undecided_short [OF Cons.prems(2)] .
  then have fits: "length (b @ c) \<le> unat (op_max_read_buffer_bytes opts)"
    using assms(1) Cons.prems(1) by (auto simp: roomy_def chunk_ok_def)
  have step: "receive_step version opts svc k (Arrived c) (\<lparr>cn_buffer = b, cn_socket = so, cn_open = True\<rparr>, sr) =
      (\<lparr>cn_buffer = b1, cn_socket = so1, cn_open = (e1 \<noteq> Finished)\<rparr>, sr1)"
    using fits p1 by (simp add: receive_step_def receive_once_def)
  have whole: "(ended, b', so', sr') = (case (e1, b1, so1, sr1) of
        (NeedMore, b1, so1, sr1) \<Rightarrow> process_frames version opts svc k (b1 @ concat cs) so1 sr1
      | (ended, b1, so1, sr1) \<Rightarrow> (ended, b1 @ concat cs, so1, sr1))"
    using Cons.prems(3) process_append [of version opts svc k "b @ c" "concat cs" so sr] p1 by simp
  show ?case
  proof (cases e1)
    case NeedMore
    then have more: "process_frames version opts svc k (b1 @ concat cs) so1 sr1 = (ended, b', so', sr')" using whole by simp
    from Cons.IH [OF _ process_needs_more [OF p1 [unfolded NeedMore]] more Cons.prems(4)] Cons.prems(1) show ?thesis
      using step NeedMore by simp
  next
    case Finished
    have closed: "fold (receive_step version opts svc k) es (cn, sr) = (cn, sr)" if "\<not> cn_open cn" for es cn sr
      using that by (induction es) (simp_all add: receive_step_def)
    show ?thesis using whole step Finished closed by simp
  next
    case Broken
    then show ?thesis using whole Cons.prems(4) by simp
  qed
qed

section \<open>The loop answers the frames of its stream\<close>

text \<open>What a frame does to the service behind the server.\<close>

definition service_step :: "'s service \<Rightarrow> frame \<Rightarrow> 's \<Rightarrow> 's" where
  "service_step svc f s =
     (if fr_type f = FT_PushRecords \<and> status_ok (po_status (parse_batch (fr_payload f) (sv_policy svc)))
      then fst (sv_submit_and_wait svc (po_batch (parse_batch (fr_payload f) (sv_policy svc))) s)
      else s)"

lemma stats_keep_service [simp]:
  "sr_service (update_stats f sr) = sr_service sr" "sr_service (count_protocol_error sr) = sr_service sr"
  "sr_service (count_frame fr sr) = sr_service sr" "sr_service (count_sent sr) = sr_service sr"
  by (simp_all add: update_stats_def count_protocol_error_def count_frame_def count_sent_def)

lemma answer_service: "answer svc f sr = (response, finish, sr') \<Longrightarrow> sr_service sr' = service_step svc f (sr_service sr)"
  by (cases "fr_type f") (auto simp: answer_def answer_push_def service_step_def Let_def split: prod.splits if_splits)

lemma deliver_service: "deliver version opts k response finish so sr = (ended, so', sr') \<Longrightarrow> sr_service sr' = sr_service sr"
  by (auto simp: deliver_def split: sum.splits prod.splits if_splits)

lemma process_frames_spec:
  "process_frames version opts svc k b so sr = (ended, b1, so1, sr1) \<Longrightarrow>
   \<exists>fs. b = concat (map (frame_bytes version) fs) @ b1 \<and> list_all (frame_fits (op_max_payload_bytes opts)) fs
     \<and> sr_service sr1 = fold (service_step svc) fs (sr_service sr)"
proof (induction version opts svc k b so sr rule: process_frames.induct)
  case (1 version opts svc k b so sr)
  let ?d = "decode_frame version b (op_max_payload_bytes opts)"
  obtain response finish sr2 where a: "answer svc (fd_frame ?d) (count_frame (fd_frame ?d) sr) = (response, finish, sr2)"
    by (metis prod_cases3)
  obtain e so' sr' where d: "deliver version opts k response finish so sr2 = (e, so', sr')" by (metis prod_cases3)
  have service: "sr_service sr' = service_step svc (fd_frame ?d) (sr_service sr)"
    using answer_service [OF a] deliver_service [OF d] by simp
  consider "\<not> fd_ok ?d" | "undecided ?d" | "fd_ok ?d" "fd_complete ?d" by (auto simp: undecided_def)
  then show ?case
  proof cases
    case 3
    note c = decode_complete_canonical [OF 3(2)]
    have split: "b = frame_bytes version (fd_frame ?d) @ drop (fd_consumed ?d) b"
      using c(3) append_take_drop_id [of "fd_consumed ?d" b] by simp
    have "\<exists>fs. drop (fd_consumed ?d) b = concat (map (frame_bytes version) fs) @ b1
        \<and> list_all (frame_fits (op_max_payload_bytes opts)) fs \<and> sr_service sr1 = fold (service_step svc) fs (sr_service sr')"
    proof (cases "e = NeedMore")
      case True
      then show ?thesis
        using "1.prems" "1.IH" [OF refl _ _ refl a [symmetric] refl d [symmetric, unfolded True] refl] 3 a d
        by (simp add: process_frames.simps [of _ _ _ _ b] Let_def)
    next
      case False
      then have "b1 = drop (fd_consumed ?d) b" "sr1 = sr'"
        using "1.prems" 3 a d by (cases e; simp add: process_frames.simps [of _ _ _ _ b] Let_def)+
      then show ?thesis by (intro exI [of _ "[]"]) simp
    qed
    then obtain fs where fs: "drop (fd_consumed ?d) b = concat (map (frame_bytes version) fs) @ b1"
      "list_all (frame_fits (op_max_payload_bytes opts)) fs" "sr_service sr1 = fold (service_step svc) fs (sr_service sr')" by blast
    show ?thesis
      using split fs service c(1) by (intro exI [of _ "fd_frame ?d # fs"]) simp
  qed (use "1.prems" in \<open>auto simp: process_frames.simps [of _ _ _ _ b] undecided_def intro!: exI [of _ "[]"]\<close>)
qed

section \<open>The accept loop\<close>

text \<open>
  The loop of \<^verbatim>\<open>serve\<close> over what \<^verbatim>\<open>accept\<close> returns. \<open>ac_live\<close> is \<^verbatim>\<open>active_connections_\<close>, the
  connections whose thread has not ended; \<open>ac_threads\<close> is how many threads have not been joined. While it
  joins, the loop waits for every connection to end.
\<close>

datatype accept_phase = Accepting | JoiningThreads | Stopped

record acceptor =
  ac_phase :: accept_phase
  ac_stop :: bool
  ac_failures :: nat
  ac_total :: u64
  ac_live :: u64
  ac_threads :: nat
  ac_accepted :: u64
  ac_refused :: u64
  ac_closed :: u64

definition kMaxConsecutiveAcceptFailures :: nat where "kMaxConsecutiveAcceptFailures = 64"

definition new_acceptor :: acceptor where
  "new_acceptor = \<lparr>ac_phase = Accepting, ac_stop = False, ac_failures = 0, ac_total = 0, ac_live = 0, ac_threads = 0,
     ac_accepted = 0, ac_refused = 0, ac_closed = 0\<rparr>"

text \<open>The condition of the loop and the check of the connection limit, before \<^verbatim>\<open>accept\<close> is called.\<close>

definition keeps_accepting :: "server_options \<Rightarrow> acceptor \<Rightarrow> bool" where
  "keeps_accepting opts ac \<longleftrightarrow>
     \<not> ac_stop ac \<and> \<not> (op_connection_limit opts \<noteq> 0 \<and> ac_total ac \<ge> op_connection_limit opts)"

definition next_round :: "server_options \<Rightarrow> acceptor \<Rightarrow> acceptor" where
  "next_round opts ac = (if keeps_accepting opts ac then ac else ac\<lparr>ac_phase := Stopped\<rparr>)"

definition accept_failed :: "server_options \<Rightarrow> acceptor \<Rightarrow> acceptor" where
  "accept_failed opts ac =
     (if ac_stop ac then ac\<lparr>ac_phase := Stopped\<rparr>
      else
        let ac1 = ac\<lparr>ac_failures := ac_failures ac + 1\<rparr> in
        if ac_failures ac1 \<ge> kMaxConsecutiveAcceptFailures then ac1\<lparr>ac_phase := Stopped\<rparr> else next_round opts ac1)"

definition accept_connection :: "server_options \<Rightarrow> acceptor \<Rightarrow> acceptor" where
  "accept_connection opts ac =
     (let ac1 = ac\<lparr>ac_failures := 0\<rparr> in
      if ac_stop ac1 then ac1\<lparr>ac_phase := Stopped\<rparr>
      else
        let ac2 = ac1\<lparr>ac_total := ac_total ac1 + 1\<rparr> in
        if ac_live ac2 \<ge> op_max_connections opts then next_round opts (ac2\<lparr>ac_refused := ac_refused ac2 + 1\<rparr>)
        else
          let ac3 = ac2\<lparr>ac_live := ac_live ac2 + 1, ac_accepted := ac_accepted ac2 + 1, ac_threads := ac_threads ac2 + 1\<rparr>
          in if ac_threads ac3 \<ge> unat (op_max_connections opts * 4) then ac3\<lparr>ac_phase := JoiningThreads\<rparr>
             else next_round opts ac3)"

definition connection_ends :: "acceptor \<Rightarrow> acceptor" where
  "connection_ends ac = ac\<lparr>ac_live := ac_live ac - 1, ac_closed := ac_closed ac + 1\<rparr>"

definition request_stop :: "acceptor \<Rightarrow> acceptor" where
  "request_stop ac = ac\<lparr>ac_stop := True\<rparr>"

text \<open>Whether a stop request makes a connection that ends a blocked \<^verbatim>\<open>accept\<close>.\<close>

definition wake_accept_loop :: "server_options \<Rightarrow> bool \<Rightarrow> bool" where
  "wake_accept_loop opts listening \<longleftrightarrow> listening \<and> is_loopback_host (op_host opts)"

datatype accept_event = AcceptFails | AcceptReturns | ConnectionEnds | StopRequested | ThreadsJoined

definition accept_step :: "server_options \<Rightarrow> accept_event \<Rightarrow> acceptor \<Rightarrow> acceptor option" where
  "accept_step opts event ac =
     (case event of
        AcceptFails \<Rightarrow> if ac_phase ac = Accepting then Some (accept_failed opts ac) else None
      | AcceptReturns \<Rightarrow> if ac_phase ac = Accepting then Some (accept_connection opts ac) else None
      | ConnectionEnds \<Rightarrow> if ac_live ac > 0 then Some (connection_ends ac) else None
      | StopRequested \<Rightarrow> Some (request_stop ac)
      | ThreadsJoined \<Rightarrow>
          if ac_phase ac = JoiningThreads \<and> ac_live ac = 0
          then Some (next_round opts (ac\<lparr>ac_threads := 0, ac_phase := Accepting\<rparr>)) else None)"

primrec accept_run :: "server_options \<Rightarrow> accept_event list \<Rightarrow> acceptor \<Rightarrow> acceptor option" where
  "accept_run opts [] ac = Some ac"
| "accept_run opts (e # es) ac = Option.bind (accept_step opts e ac) (accept_run opts es)"

text \<open>What \<^verbatim>\<open>serve\<close> returns, once every thread is joined and the snapshot saved.\<close>

definition serve_begin :: "server_options \<Rightarrow> bool \<Rightarrow> acceptor \<Rightarrow> acceptor + status" where
  "serve_begin opts listening ac =
     (if \<not> listening then Inr (status_of SC_Internal ''server is not listening'') else Inl (next_round opts ac))"

definition serve_result :: "server_options \<Rightarrow> status \<Rightarrow> status" where
  "serve_result opts persisted =
     (if op_persist_on_close opts \<and> \<not> status_ok persisted \<and> status_code persisted \<noteq> SC_InvalidArgument
      then persisted else status_success)"

section \<open>Listening\<close>

text \<open>What the operating system answers while the server starts to listen.\<close>

record listen_environment =
  li_runtime_ok :: bool
  li_resolved :: "(bool \<times> bool) list option"
  li_bind_error :: int
  li_bound :: "(16 word) option"
  li_name_error :: int
  li_create_ok :: bool
  li_write_ok :: bool
  li_rename_ok :: bool

definition write_port_file :: "listen_environment \<Rightarrow> string \<Rightarrow> 16 word \<Rightarrow> file_system \<Rightarrow> file_system \<times> status" where
  "write_port_file env path port fs =
     (let temporary = path @ ''.tmp''; content = bytes_of (to_dec (ucast port) @ [newline]) in
      if \<not> li_create_ok env then (fs, status_of SC_IoError ''port file could not be created'')
      else if \<not> li_write_ok env then (fs(temporary \<mapsto> []), status_of SC_IoError ''port file could not be written'')
      else if \<not> li_rename_ok env
      then (fs(temporary \<mapsto> content), status_of SC_IoError ''port file could not be moved into place'')
      else (fs(path \<mapsto> content, temporary := None), status_success))"

text \<open>The candidates in order: whether \<^verbatim>\<open>socket\<close> succeeds, and whether \<^verbatim>\<open>bind\<close> and \<^verbatim>\<open>listen\<close> do.\<close>

fun first_candidate :: "(bool \<times> bool) list \<Rightarrow> bool" where
  "first_candidate [] = False"
| "first_candidate ((created, bound) # rest) = (if created \<and> bound then True else first_candidate rest)"

record listener =
  ln_listening :: bool
  ln_bound_port :: "16 word"

definition listen :: "listen_environment \<Rightarrow> server_options \<Rightarrow> file_system \<Rightarrow> listener \<times> file_system \<times> status" where
  "listen env opts fs =
     (let idle = \<lparr>ln_listening = False, ln_bound_port = 0\<rparr> in
      if \<not> li_runtime_ok env
      then (idle, fs, status_of SC_IoError ''socket runtime could not be initialised'')
      else if \<not> op_allow_non_loopback opts \<and> \<not> is_loopback_host (op_host opts)
      then (idle, fs, status_of SC_Rejected ''listening beyond loopback requires an explicit opt in'')
      else if op_max_connections opts = 0
      then (idle, fs, status_of SC_InvalidArgument ''max_connections must be positive'')
      else
        case li_resolved env of
          None \<Rightarrow> (idle, fs, status_of SC_InvalidArgument ''listen address could not be resolved'')
        | Some candidates \<Rightarrow>
            if \<not> first_candidate candidates then (idle, fs, last_socket_error ''bind/listen'' (li_bind_error env))
            else
              case li_bound env of
                None \<Rightarrow> (idle, fs, last_socket_error ''getsockname'' (li_name_error env))
              | Some port \<Rightarrow>
                  let ready = \<lparr>ln_listening = True, ln_bound_port = port\<rparr> in
                  if op_port_file opts \<noteq> [] then
                    (case write_port_file env (op_port_file opts) port fs of (fs', written) \<Rightarrow> (ready, fs', written))
                  else (ready, fs, status_success))"

definition bound_address :: "server_options \<Rightarrow> listener \<Rightarrow> string" where
  "bound_address opts ln = op_host opts @ '':'' @ to_dec (ucast (ln_bound_port ln))"

lemma listening_needs_permission:
  "ln_listening (fst (listen env opts fs)) \<Longrightarrow> op_allow_non_loopback opts \<or> is_loopback_host (op_host opts)"
  by (auto simp: listen_def Let_def split: if_splits option.splits prod.splits)

section \<open>Bounds of the accept loop\<close>

definition thread_bound :: "server_options \<Rightarrow> nat" where
  "thread_bound opts = max 1 (unat (op_max_connections opts * 4))"

definition acceptor_ok :: "server_options \<Rightarrow> acceptor \<Rightarrow> bool" where
  "acceptor_ok opts ac \<longleftrightarrow>
     ac_live ac \<le> op_max_connections opts
     \<and> (op_connection_limit opts \<noteq> 0 \<longrightarrow> ac_total ac \<le> op_connection_limit opts)
     \<and> (ac_phase ac = Accepting \<and> op_connection_limit opts \<noteq> 0 \<longrightarrow> ac_stop ac \<or> ac_total ac < op_connection_limit opts)
     \<and> ac_threads ac \<le> thread_bound opts \<and> (ac_phase ac = Accepting \<longrightarrow> ac_threads ac < thread_bound opts)
     \<and> ac_failures ac \<le> kMaxConsecutiveAcceptFailures
     \<and> (ac_phase ac \<noteq> Stopped \<longrightarrow> ac_failures ac < kMaxConsecutiveAcceptFailures)
     \<and> ac_accepted ac = ac_closed ac + ac_live ac \<and> ac_total ac = ac_accepted ac + ac_refused ac"

lemma word_succ_le: "(x :: u64) < y \<Longrightarrow> x + 1 \<le> y"
  by (rule inc_le)

lemma word_pred_le: "(x :: u64) > 0 \<Longrightarrow> x - 1 \<le> x"
  by (simp add: word_le_nat_alt unat_minus_one word_gt_0)

lemma acceptor_ok_round:
  assumes "acceptor_ok opts (ac\<lparr>ac_phase := Stopped\<rparr>)" and "ac_phase ac = Accepting" and "ac_threads ac < thread_bound opts"
    and "ac_failures ac < kMaxConsecutiveAcceptFailures"
  shows "acceptor_ok opts (next_round opts ac)"
  using assms by (auto simp: acceptor_ok_def next_round_def keeps_accepting_def not_le)

lemma acceptor_ok_failed:
  assumes "acceptor_ok opts ac" and "ac_phase ac = Accepting"
  shows "acceptor_ok opts (accept_failed opts ac)"
proof (cases "ac_stop ac \<or> ac_failures ac + 1 \<ge> kMaxConsecutiveAcceptFailures")
  case True
  then show ?thesis using assms by (auto simp: acceptor_ok_def accept_failed_def Let_def)
next
  case False
  have "acceptor_ok opts (next_round opts (ac\<lparr>ac_failures := ac_failures ac + 1\<rparr>))"
    using assms False by (intro acceptor_ok_round) (auto simp: acceptor_ok_def)
  then show ?thesis using False by (simp add: accept_failed_def Let_def)
qed

lemma acceptor_ok_connection:
  assumes ok: "acceptor_ok opts ac" and ph: "ac_phase ac = Accepting"
  shows "acceptor_ok opts (accept_connection opts ac)"
proof (cases "ac_stop ac")
  case True
  then show ?thesis using ok by (auto simp: acceptor_ok_def accept_connection_def kMaxConsecutiveAcceptFailures_def)
next
  case False
  let ?ac2 = "ac\<lparr>ac_failures := 0, ac_total := ac_total ac + 1\<rparr>"
  have total: "op_connection_limit opts \<noteq> 0 \<longrightarrow> ac_total ac + 1 \<le> op_connection_limit opts"
    using ok ph False word_succ_le by (auto simp: acceptor_ok_def)
  show ?thesis
  proof (cases "ac_live ac \<ge> op_max_connections opts")
    case True
    have "acceptor_ok opts (next_round opts (?ac2\<lparr>ac_refused := ac_refused ac + 1\<rparr>))"
      using ok ph total by (intro acceptor_ok_round) (auto simp: acceptor_ok_def kMaxConsecutiveAcceptFailures_def)
    then show ?thesis using False True by (simp add: accept_connection_def Let_def)
  next
    case room: False
    let ?ac3 = "?ac2\<lparr>ac_live := ac_live ac + 1, ac_accepted := ac_accepted ac + 1, ac_threads := ac_threads ac + 1\<rparr>"
    have live: "ac_live ac + 1 \<le> op_max_connections opts" using room word_succ_le by (simp add: not_le)
    have base: "acceptor_ok opts (?ac3\<lparr>ac_phase := Stopped\<rparr>)" "acceptor_ok opts (?ac3\<lparr>ac_phase := JoiningThreads\<rparr>)"
      using ok ph total live by (auto simp: acceptor_ok_def kMaxConsecutiveAcceptFailures_def)
    show ?thesis
    proof (cases "ac_threads ac + 1 \<ge> unat (op_max_connections opts * 4)")
      case True
      then show ?thesis using base(2) False room by (simp add: accept_connection_def Let_def)
    next
      case few: False
      have "acceptor_ok opts (next_round opts ?ac3)"
        using base(1) ph few by (intro acceptor_ok_round) (auto simp: thread_bound_def kMaxConsecutiveAcceptFailures_def)
      then show ?thesis using few False room by (simp add: accept_connection_def Let_def)
    qed
  qed
qed

lemma acceptor_ok_step: "acceptor_ok opts ac \<Longrightarrow> accept_step opts e ac = Some ac' \<Longrightarrow> acceptor_ok opts ac'"
proof (cases e)
  case ConnectionEnds
  assume "acceptor_ok opts ac" "accept_step opts e ac = Some ac'"
  with ConnectionEnds show ?thesis
    by (auto simp: accept_step_def connection_ends_def acceptor_ok_def split: if_splits intro: order_trans [OF word_pred_le])
next
  case StopRequested
  assume "acceptor_ok opts ac" "accept_step opts e ac = Some ac'"
  with StopRequested show ?thesis by (auto simp: accept_step_def request_stop_def acceptor_ok_def)
next
  case ThreadsJoined
  assume ok: "acceptor_ok opts ac" and step: "accept_step opts e ac = Some ac'"
  let ?ac = "ac\<lparr>ac_threads := 0, ac_phase := Accepting\<rparr>"
  have "acceptor_ok opts (next_round opts ?ac)" if "ac_phase ac = JoiningThreads"
    using ok that by (intro acceptor_ok_round) (auto simp: acceptor_ok_def thread_bound_def)
  then show ?thesis using step ThreadsJoined by (auto simp: accept_step_def split: if_splits)
qed (auto simp: accept_step_def split: if_splits intro: acceptor_ok_failed acceptor_ok_connection)

lemma acceptor_ok_run: "acceptor_ok opts ac \<Longrightarrow> accept_run opts es ac = Some ac' \<Longrightarrow> acceptor_ok opts ac'"
  by (induction es arbitrary: ac) (auto simp: bind_eq_Some_conv dest: acceptor_ok_step)

section \<open>A service without workers\<close>

text \<open>
  The service of an observatory that applies batches in the calling thread: the batch is applied
  before \<^verbatim>\<open>submit_batch\<close> returns, so the wait for its completion returns at once. The clock readings are
  arguments.
\<close>

definition inline_submit :: "time_point \<Rightarrow> batch \<Rightarrow> observatory \<Rightarrow> observatory \<times> status" where
  "inline_submit now b ob =
     (if \<not> ob_started ob then (ob, status_of SC_Cancelled ''observatory is not started'')
      else (apply_batch ob (map (\<lambda>r. (r, now)) (bt_records b)), status_success))"

definition observatory_service :: "time_point \<Rightarrow> policy \<Rightarrow> observatory service" where
  "observatory_service now p =
     \<lparr>sv_policy = p, sv_submit_and_wait = inline_submit now, sv_report = (\<lambda>name ob. state_report ob now name)\<rparr>"

text \<open>The runtime machine without workers does the same in three actions, and the completion has fired.\<close>

lemma inline_submit_runs:
  assumes "rt_pool r = None" and "ob_started (rt_ob r)"
  shows "\<exists>r'. Option.bind (rt_step (SubmitBatch b) r) (\<lambda>r1.
        Option.bind (rt_step (ApplyDirect (length (rt_calls r)) (replicate (length (bt_records b)) now)) r1)
          (rt_step (ArriveDirect (length (rt_calls r))))) = Some r'
      \<and> rt_ob r' = fst (inline_submit now b (rt_ob r))
      \<and> (\<forall>t. bt_on_applied b = Some t \<longrightarrow> (length (rt_calls r), t) \<in> set (rt_fired r'))"
proof -
  have "zip rs (replicate (length rs) now) = map (\<lambda>r. (r, now)) rs" for rs :: "parsed_record list"
    by (induction rs) simp_all
  then show ?thesis
    using assms by (auto simp: submit_begin_def apply_direct_def set_call_def arrive_direct_def arrive_def fire_def inline_submit_def
        Let_def split: option.splits)
qed

section \<open>Properties\<close>

text \<open>
  C24: The answers do not depend on how the network cuts the stream. If reading the whole stream at
  once meets no response that cannot be sent, then however the same bytes arrive, in chunks of any
  sizes, the connection sends the same bytes, stays open or closes alike, and leaves the service and
  the statistics the same. The read buffer bound never cuts a connection off when it leaves room for a
  frame and a chunk, as the default options do.
\<close>

theorem chunking_is_invisible:
  assumes "roomy opts" and "list_all chunk_ok cs" and "list_all chunk_ok ds" and "concat cs = concat ds"
    and "fst (process_frames version opts svc k (concat cs) new_socket sr) \<noteq> Broken"
  shows "snd (handle_connection version opts svc k (map Arrived cs) sr) = snd (handle_connection version opts svc k (map Arrived ds) sr)
    \<and> cn_socket (fst (handle_connection version opts svc k (map Arrived cs) sr))
        = cn_socket (fst (handle_connection version opts svc k (map Arrived ds) sr))
    \<and> cn_open (fst (handle_connection version opts svc k (map Arrived cs) sr))
        = cn_open (fst (handle_connection version opts svc k (map Arrived ds) sr))"
proof -
  obtain ended b' so' sr' where p: "process_frames version opts svc k ([] @ concat cs) new_socket sr = (ended, b', so', sr')"
    by (metis prod_cases4)
  have ended: "ended \<noteq> Broken" using assms(5) p by simp
  have none: "undecided (decode_frame version [] (op_max_payload_bytes opts))"
    by (simp add: undecided_iff decode_frame_def kFrameHeaderSize_def)
  note stream = connection_stream [OF assms(1) _ none _ ended]
  show ?thesis
    using stream [OF assms(2) p] stream [OF assms(3) p [unfolded assms(4)]]
    by (auto simp: handle_connection_def new_connection_def)
qed

definition idle_server :: "observatory server" where
  "idle_server = \<lparr>sr_stats = empty_server_statistics, sr_stop_requested = False, sr_service = new_observatory worker_config\<rparr>"

lemma default_options_roomy: "roomy default_server_options"
  by (simp add: roomy_def default_server_options_def kFrameHeaderSize_def kReceiveChunk_def)

theorem chunking_is_invisible_witness:
  "snd (handle_connection 1 default_server_options (observatory_service 5 make_default_policy) eager_kernel
      (map Arrived [[1, 2], [3]]) idle_server)
   = snd (handle_connection 1 default_server_options (observatory_service 5 make_default_policy) eager_kernel
      (map Arrived [[1], [2, 3]]) idle_server)"
proof -
  have ok: "list_all chunk_ok [[1, 2], [3]]" "list_all chunk_ok [[1], [2, 3]]" "concat [[1, 2], [3]] = concat [[1], [2, 3 :: u8]]"
    by (simp_all add: chunk_ok_def kReceiveChunk_def)
  have "undecided (decode_frame 1 (concat [[1, 2], [3]]) (op_max_payload_bytes default_server_options))"
    by (simp add: undecided_iff decode_frame_def kFrameHeaderSize_def)
  from undecided_stops [OF this, where svc = "observatory_service 5 make_default_policy" and sr = idle_server]
  have "fst (process_frames 1 default_server_options (observatory_service 5 make_default_policy) eager_kernel
      (concat [[1, 2], [3]]) new_socket idle_server) \<noteq> Broken" by simp
  from chunking_is_invisible [OF default_options_roomy ok this] show ?thesis by simp
qed

text \<open>
  C25: The buffer loop answers the stream. For any buffer the loop ends; what it took from the
  buffer is a sequence of well-formed frames, byte for byte, each at least a header long, and the
  service behind the server has gone through exactly these frames, in order, once each; when the loop
  asks for more, no frame can be taken from what is left.
\<close>

theorem stream_is_answered_in_order:
  "\<exists>frames ended rest so' sr'.
     process_frames version opts svc k buffer so sr = (ended, rest, so', sr')
     \<and> buffer = concat (map (frame_bytes version) frames) @ rest
     \<and> list_all (frame_fits (op_max_payload_bytes opts)) frames
     \<and> kFrameHeaderSize * length frames \<le> length buffer
     \<and> sr_service sr' = fold (service_step svc) frames (sr_service sr)
     \<and> (ended = NeedMore \<longrightarrow> decode_frame version rest (op_max_payload_bytes opts) = decode_more)"
proof -
  obtain ended rest so' sr' where p: "process_frames version opts svc k buffer so sr = (ended, rest, so', sr')" by (metis prod_cases4)
  from process_frames_spec [OF p] obtain fs where fs: "buffer = concat (map (frame_bytes version) fs) @ rest"
    "list_all (frame_fits (op_max_payload_bytes opts)) fs" "sr_service sr' = fold (service_step svc) fs (sr_service sr)" by blast
  have "kFrameHeaderSize * length gs \<le> length (concat (map (frame_bytes version) gs))" for gs
    by (induction gs) (simp_all add: frame_bytes_length)
  from this [of fs] have "kFrameHeaderSize * length fs \<le> length buffer" using fs(1) by simp
  moreover have "ended = NeedMore \<longrightarrow> decode_frame version rest (op_max_payload_bytes opts) = decode_more"
    using p process_needs_more by (auto simp: undecided_iff [symmetric])
  ultimately show ?thesis using p fs by blast
qed

theorem stream_is_answered_in_order_witness:
  "\<exists>frames ended rest so' sr'.
     process_frames 1 default_server_options (observatory_service 5 make_default_policy) eager_kernel
       (frame_bytes 1 (reply FT_Ping [])) new_socket idle_server = (ended, rest, so', sr')
     \<and> frame_bytes 1 (reply FT_Ping []) = concat (map (frame_bytes 1) frames) @ rest
     \<and> length frames \<le> 1"
proof -
  have "length (frame_bytes 1 (reply FT_Ping [])) = kFrameHeaderSize" by (simp add: frame_bytes_length reply_def)
  with stream_is_answered_in_order [of 1 default_server_options "observatory_service 5 make_default_policy" eager_kernel
      "frame_bytes 1 (reply FT_Ping [])" new_socket idle_server]
  show ?thesis by (fastforce simp: kFrameHeaderSize_def)
qed

text \<open>
  C31: The accept loop keeps its bounds. After any sequence of accepted and failed connections,
  ended connections, stop requests and joins, at most \<^verbatim>\<open>max_connections\<close> connections are live, no more
  than four times as many thread handles are kept, no more than \<^verbatim>\<open>connection_limit\<close> connections were
  taken when there is a limit, fewer than 64 failures in a row have been retried, and every
  connection was either accepted or refused, and every accepted one is closed or live.
\<close>

theorem accept_loop_keeps_bounds:
  assumes "accept_run opts events (next_round opts new_acceptor) = Some ac"
  shows "ac_live ac \<le> op_max_connections opts \<and> ac_threads ac \<le> thread_bound opts
    \<and> (op_connection_limit opts \<noteq> 0 \<longrightarrow> ac_total ac \<le> op_connection_limit opts)
    \<and> (ac_phase ac \<noteq> Stopped \<longrightarrow> ac_failures ac < kMaxConsecutiveAcceptFailures)
    \<and> ac_total ac = ac_accepted ac + ac_refused ac \<and> ac_accepted ac = ac_closed ac + ac_live ac"
proof -
  have "acceptor_ok opts (next_round opts new_acceptor)"
    by (rule acceptor_ok_round) (simp_all add: acceptor_ok_def new_acceptor_def thread_bound_def kMaxConsecutiveAcceptFailures_def)
  then have "acceptor_ok opts ac" using assms by (rule acceptor_ok_run)
  then show ?thesis by (auto simp: acceptor_ok_def)
qed

definition lone_options :: server_options where
  "lone_options = default_server_options\<lparr>op_max_connections := 1\<rparr>"

definition four_clients :: "accept_event list" where
  "four_clients = [AcceptReturns, ConnectionEnds, AcceptReturns, ConnectionEnds, AcceptReturns, ConnectionEnds, AcceptReturns]"

lemma four_clients_run:
  "\<exists>ac. accept_run lone_options four_clients (next_round lone_options new_acceptor) = Some ac
     \<and> ac_phase ac = JoiningThreads \<and> ac_live ac = 1"
  by (simp add: four_clients_def accept_step_def accept_connection_def connection_ends_def next_round_def keeps_accepting_def
      new_acceptor_def lone_options_def default_server_options_def Let_def)

theorem accept_loop_keeps_bounds_witness:
  "\<exists>ac. accept_run lone_options four_clients (next_round lone_options new_acceptor) = Some ac \<and> ac_live ac \<le> 1"
proof -
  obtain ac where run: "accept_run lone_options four_clients (next_round lone_options new_acceptor) = Some ac"
    using four_clients_run by blast
  from accept_loop_keeps_bounds [OF this] run show ?thesis by (simp add: lone_options_def)
qed

text \<open>
  The accept loop can stall behind one client. When the thread handles reach four times
  \<^verbatim>\<open>max_connections\<close> the loop joins all of them, those of live connections too: while one connection
  stays open, no other client is accepted or refused, and not even a stop request ends the loop.
\<close>

lemma joining_waits_for_live_connections:
  assumes "ac_phase ac = JoiningThreads" and "ac_live ac > 0"
  shows "accept_step opts AcceptReturns ac = None \<and> accept_step opts AcceptFails ac = None
    \<and> accept_step opts ThreadsJoined ac = None \<and> ac_phase (request_stop ac) = JoiningThreads"
  using assms by (simp add: accept_step_def request_stop_def)

lemma joining_waits_for_live_connections_instance:
  "\<exists>ac. accept_run lone_options four_clients (next_round lone_options new_acceptor) = Some ac
     \<and> accept_step lone_options AcceptReturns ac = None"
proof -
  obtain ac where run: "accept_run lone_options four_clients (next_round lone_options new_acceptor) = Some ac"
    and ac: "ac_phase ac = JoiningThreads" "ac_live ac = 1"
    using four_clients_run by blast
  have "ac_live ac > 0" using ac(2) by simp
  from joining_waits_for_live_connections [OF ac(1) this] run show ?thesis by blast
qed

text \<open>
  A response that exceeds the payload bound is never sent. The frame has been acted on, nothing
  goes out, and the loop is left with the frames behind it unread, so a client that waits for the
  answer, or that sent more frames in one piece, waits until it sends further bytes.
\<close>

lemma oversized_response_is_dropped:
  assumes "frame_fits (op_max_payload_bytes opts) f"
    and "answer svc f (count_frame f sr) = (response, False, sr1)"
    and "length (fr_payload response) > unat (op_max_payload_bytes opts)"
  shows "process_frames version opts svc k (frame_bytes version f @ rest) so sr = (Broken, rest, so, count_protocol_error sr1)"
proof -
  have "deliver version opts k response False so sr1 = (Broken, so, count_protocol_error sr1)"
    using assms(3) by (simp add: deliver_def encode_frame_def failure_def)
  then show ?thesis
    using assms(2) by (simp add: process_frames.simps [of _ _ _ _ "_ @ _"] decode_encoded [OF assms(1)] fd_ok_def)
qed

definition tiny_options :: server_options where
  "tiny_options = default_server_options\<lparr>op_max_payload_bytes := 1\<rparr>"

lemma oversized_response_is_dropped_instance:
  "fst (process_frames 1 tiny_options (observatory_service 5 make_default_policy) eager_kernel
      (frame_bytes 1 (reply FT_Ping []) @ frame_bytes 1 (reply FT_Ping [])) new_socket idle_server) = Broken"
proof -
  have fits: "frame_fits (op_max_payload_bytes tiny_options) (reply FT_Ping [])"
    by (simp add: frame_fits_def reply_def tiny_options_def)
  have a: "answer (observatory_service 5 make_default_policy) (reply FT_Ping []) (count_frame (reply FT_Ping []) idle_server) =
      (reply FT_Pong ''ok'', False, update_stats (\<lambda>st. st\<lparr>st_pings := st_pings st + 1\<rparr>) (count_frame (reply FT_Ping []) idle_server))"
    by (simp add: answer_def reply_def)
  have "length (fr_payload (reply FT_Pong ''ok'')) > unat (op_max_payload_bytes tiny_options)"
    by (simp add: reply_def tiny_options_def)
  from oversized_response_is_dropped [OF fits a this] show ?thesis by simp
qed

end
