(* ===== verification/Client.thy ===== *)
theory Client
  imports Server
begin

text \<open>
  The transport client (\<^verbatim>\<open>include/linkobs/transport/client.hpp\<close>, \<^verbatim>\<open>src/transport/client.cpp\<close>) and the exchange with the
  server. A call that would wait for bytes that never come has no result. The main result: what a
  client sends, the server answers, and the client returns that answer, however the two streams are
  cut.
\<close>

section \<open>Operations\<close>

record client_options =
  co_max_payload_bytes :: u64
  co_max_response_bytes :: u64

definition default_client_options :: client_options where
  "default_client_options = \<lparr>co_max_payload_bytes = 1024 * 1024, co_max_response_bytes = 4 * 1024 * 1024\<rparr>"

record client =
  ct_connected :: bool
  ct_socket :: socket
  ct_buffer :: bytes

definition new_client :: client where
  "new_client = \<lparr>ct_connected = False, ct_socket = new_socket, ct_buffer = []\<rparr>"

definition client_close :: "client \<Rightarrow> client" where
  "client_close ct = ct\<lparr>ct_connected := False, ct_buffer := []\<rparr>"

text \<open>
  The candidates of the resolved address in order: whether \<^verbatim>\<open>socket\<close> succeeds, whether \<^verbatim>\<open>connect\<close> does,
  and the error either leaves.
\<close>

fun try_connect :: "(bool \<times> bool \<times> int) list \<Rightarrow> status \<Rightarrow> status" where
  "try_connect [] last_error = last_error"
| "try_connect ((created, connected, code) # rest) last_error =
     (if \<not> created then try_connect rest (last_socket_error ''socket'' code)
      else if connected then status_success
      else try_connect rest (last_socket_error ''connect'' code))"

definition client_connect :: "bool \<Rightarrow> (bool \<times> bool \<times> int) list option \<Rightarrow> client \<Rightarrow> client \<times> status" where
  "client_connect runtime_ok resolved ct =
     (let ct1 = client_close ct in
      if \<not> runtime_ok then (ct1, status_of SC_IoError ''socket runtime could not be initialised'')
      else case resolved of
        None \<Rightarrow> (ct1, status_of SC_InvalidArgument ''connect address could not be resolved'')
      | Some candidates \<Rightarrow>
          let s = try_connect candidates (status_of SC_IoError ''no usable address'') in
          if \<not> status_ok s then (ct1, s)
          else (ct1\<lparr>ct_connected := True, ct_socket := new_socket, ct_buffer := []\<rparr>, status_success))"

text \<open>The receive loop over the results of \<^verbatim>\<open>recv\<close>: the frame or the failure, the buffer, and what was not read.\<close>

fun receive_frame :: "u32 \<Rightarrow> client_options \<Rightarrow> bytes \<Rightarrow> recv_event list \<Rightarrow> (frame result \<times> bytes \<times> recv_event list) option" where
  "receive_frame version opts buffer events =
     (let decoded = decode_frame version buffer (co_max_payload_bytes opts) in
      if \<not> fd_ok decoded then Some (Inl (fd_status decoded), buffer, events)
      else if fd_complete decoded then Some (Inr (fd_frame decoded), drop (fd_consumed decoded) buffer, events)
      else if length buffer > unat (co_max_response_bytes opts)
      then Some (failure SC_CapacityExceeded ''response exceeds the configured bound'', buffer, events)
      else
        case events of
          [] \<Rightarrow> None
        | event # later \<Rightarrow>
            (case receive_once event buffer of
               (received, buffer', closed) \<Rightarrow>
                 if \<not> status_ok received then Some (Inl received, buffer', later)
                 else if closed
                 then Some (failure SC_IoError ''peer closed the connection before replying'', buffer', later)
                 else receive_frame version opts buffer' later))"

declare receive_frame.simps [simp del]

definition exchange ::
  "u32 \<Rightarrow> client_options \<Rightarrow> kernel \<Rightarrow> frame \<Rightarrow> recv_event list \<Rightarrow> client \<Rightarrow> (frame result \<times> client \<times> recv_event list) option" where
  "exchange version opts k request events ct =
     (if \<not> ct_connected ct then Some (failure SC_Cancelled ''client is not connected'', ct, events)
      else
        case encode_frame version request (co_max_payload_bytes opts) of
          Inl s \<Rightarrow> Some (Inl s, ct, events)
        | Inr encoded \<Rightarrow>
            (case send_all k encoded (ct_socket ct) of
               (sent, so) \<Rightarrow>
                 let ct1 = ct\<lparr>ct_socket := so\<rparr> in
                 if \<not> status_ok sent then Some (Inl sent, ct1, events)
                 else case receive_frame version opts (ct_buffer ct1) events of
                   None \<Rightarrow> None
                 | Some (response, buffer, later) \<Rightarrow> Some (response, ct1\<lparr>ct_buffer := buffer\<rparr>, later)))"

text \<open>
  The four requests: how the reply is read. The response text is set even when a push is refused,
  and a shutdown accepts a reply of any type.
\<close>

definition request_frame :: "frame_type \<Rightarrow> string \<Rightarrow> frame" where
  "request_frame type payload = \<lparr>fr_type = type, fr_flags = 0, fr_payload = payload\<rparr>"

definition read_ping :: "frame result \<Rightarrow> status \<times> string option" where
  "read_ping r =
     (case r of
        Inl s \<Rightarrow> (s, None)
      | Inr response \<Rightarrow>
          if fr_type response \<noteq> FT_Pong then (status_of SC_Unsupported ''unexpected reply to ping'', None)
          else (status_success, Some (fr_payload response)))"

definition read_push :: "frame result \<Rightarrow> status \<times> string option" where
  "read_push r =
     (case r of
        Inl s \<Rightarrow> (s, None)
      | Inr response \<Rightarrow>
          if fr_type response = FT_ErrorReport then (status_of SC_Rejected (fr_payload response), Some (fr_payload response))
          else if fr_type response \<noteq> FT_PushAck then (status_of SC_Unsupported ''unexpected reply to push'', Some (fr_payload response))
          else (status_success, Some (fr_payload response)))"

definition read_query :: "frame result \<Rightarrow> status \<times> string option" where
  "read_query r =
     (case r of
        Inl s \<Rightarrow> (s, None)
      | Inr response \<Rightarrow>
          if fr_type response = FT_ErrorReport then (status_of SC_Rejected (fr_payload response), None)
          else if fr_type response \<noteq> FT_StateReport then (status_of SC_Unsupported ''unexpected reply to query'', None)
          else (status_success, Some (fr_payload response)))"

definition read_shutdown :: "frame result \<Rightarrow> status \<times> string option" where
  "read_shutdown r = (case r of Inl s \<Rightarrow> (s, None) | Inr response \<Rightarrow> (status_success, Some (fr_payload response)))"

definition request ::
  "(frame result \<Rightarrow> status \<times> string option) \<Rightarrow> u32 \<Rightarrow> client_options \<Rightarrow> kernel \<Rightarrow> frame \<Rightarrow> recv_event list \<Rightarrow> client
     \<Rightarrow> ((status \<times> string option) \<times> client) option" where
  "request read version opts k f events ct =
     map_option (\<lambda>(r, ct', later). (read r, ct')) (exchange version opts k f events ct)"

definition client_ping where
  "client_ping version opts k = request read_ping version opts k (request_frame FT_Ping [])"

definition client_push_records where
  "client_push_records version opts k records = request read_push version opts k (request_frame FT_PushRecords records)"

definition client_query_state where
  "client_query_state version opts k link_name = request read_query version opts k (request_frame FT_QueryState link_name)"

definition client_shutdown where
  "client_shutdown version opts k = request read_shutdown version opts k (request_frame FT_Shutdown [])"

section \<open>Receiving\<close>

lemma receive_complete:
  assumes "frame_fits (co_max_payload_bytes opts) f"
  shows "receive_frame version opts (frame_bytes version f @ rest) events = Some (Inr f, rest, events)"
  by (simp add: receive_frame.simps [of _ _ "_ @ _"] decode_encoded [OF assms] fd_ok_def)

lemma receive_chunks:
  assumes fits: "frame_fits (co_max_payload_bytes opts) f"
    and room: "kFrameHeaderSize + length (fr_payload f) \<le> unat (co_max_response_bytes opts)"
  shows "b @ concat cs = frame_bytes version f \<Longrightarrow> list_all chunk_ok cs \<Longrightarrow>
    receive_frame version opts b (map Arrived cs) = Some (Inr f, [], [])"
proof (induction cs arbitrary: b)
  case Nil
  then show ?case using receive_complete [OF fits, of version "[]" "[]"] by simp
next
  case (Cons c cs)
  have short: "length b < length (frame_bytes version f)"
    using Cons.prems(2) by (auto simp: Cons.prems(1) [symmetric] chunk_ok_def)
  have "b = take (length b) (frame_bytes version f)" using Cons.prems(1) by (metis append_eq_conv_conj)
  then have more: "decode_frame version b (co_max_payload_bytes opts) = decode_more"
    using prefix_undecided [OF fits short] by simp
  have "receive_frame version opts b (map Arrived (c # cs)) = receive_frame version opts (b @ c) (map Arrived cs)"
    using short room
    by (simp add: receive_frame.simps [of _ _ b] more receive_once_def frame_bytes_length)
      (simp add: decode_more_def fd_ok_def)
  then show ?case using Cons.IH [of "b @ c"] Cons.prems by simp
qed

lemma response_flags: "answer svc f sr = (response, finish, sr') \<Longrightarrow> fr_flags response = 0"
  by (cases "fr_type f") (auto simp: answer_def answer_push_def reply_def Let_def split: prod.splits if_splits)

section \<open>Properties\<close>

text \<open>
  C5: A request gets its answer. When both ends keep the socket writable and request and answer are
  within the bounds, then for every way to cut the client's bytes into reads at the server, the server
  sends the encoding of its answer and nothing else, and for every way to cut these bytes into reads
  at the client, the client's call returns that answer with nothing left over.
\<close>

theorem request_gets_its_answer:
  assumes "always_sends kc" and "always_sends ks" and "roomy sopts"
    and "frame_fits (co_max_payload_bytes copts) f" and "frame_fits (op_max_payload_bytes sopts) f"
    and "answer svc f (count_frame f sr) = (response, finish, sr1)"
    and "frame_fits (co_max_payload_bytes copts) response" and "frame_fits (op_max_payload_bytes sopts) response"
    and "kFrameHeaderSize + length (fr_payload response) \<le> unat (co_max_response_bytes copts)"
    and "ct_connected ct" and "ct_buffer ct = []"
    and "list_all chunk_ok cs" and "concat cs = frame_bytes version f"
    and "list_all chunk_ok ds" and "concat ds = frame_bytes version response"
  shows "so_out (cn_socket (fst (handle_connection version sopts svc ks (map Arrived cs) sr))) = frame_bytes version response
    \<and> sr_service (snd (handle_connection version sopts svc ks (map Arrived cs) sr)) = service_step svc f (sr_service sr)
    \<and> (\<exists>ct'. exchange version copts kc f (map Arrived ds) ct = Some (Inr response, ct', [])
         \<and> so_out (ct_socket ct') = so_out (ct_socket ct) @ frame_bytes version f \<and> ct_buffer ct' = [])"
proof -
  obtain st so' where sent: "send_all ks (frame_bytes version response) new_socket = (st, so')" by (metis surj_pair)
  have out: "status_ok st" "so_out so' = frame_bytes version response"
    using send_all_succeeds [OF assms(2), of "frame_bytes version response" new_socket] sent by (simp_all add: new_socket_def)
  have resp: "length (fr_payload response) \<le> unat (op_max_payload_bytes sopts)" using assms(8) by (simp add: frame_fits_def)
  have none: "undecided (decode_frame version [] (op_max_payload_bytes sopts))"
    by (simp add: undecided_iff decode_frame_def kFrameHeaderSize_def)
  have p: "process_frames version sopts svc ks ([] @ concat cs) new_socket sr =
      (if finish then Finished else NeedMore, [], so', count_sent sr1)"
    using decode_encoded [OF assms(5), of version "[]"] sent out(1) assms(6,13) undecided_stops [OF none, where svc = svc and sr = "count_sent sr1"]
    by (simp add: process_frames.simps [of _ _ _ _ "frame_bytes version f"] deliver_def encode_frame_bytes [OF resp] fd_ok_def)
  have "(if finish then Finished else NeedMore) \<noteq> Broken" by simp
  from connection_stream [OF assms(3) assms(12) none p this]
  obtain cn where cn: "handle_connection version sopts svc ks (map Arrived cs) sr = (cn, count_sent sr1)" "cn_socket cn = so'"
    by (auto simp: handle_connection_def new_connection_def)
  have client: "receive_frame version copts [] (map Arrived ds) = Some (Inr response, [], [])"
    using receive_chunks [OF assms(7,9), of "[]" ds] assms(14,15) by simp
  have req: "length (fr_payload f) \<le> unat (co_max_payload_bytes copts)" using assms(4) by (simp add: frame_fits_def)
  obtain st2 so2 where sent2: "send_all kc (frame_bytes version f) (ct_socket ct) = (st2, so2)" by (metis surj_pair)
  have out2: "status_ok st2" "so_out so2 = so_out (ct_socket ct) @ frame_bytes version f"
    using send_all_succeeds [OF assms(1), of "frame_bytes version f" "ct_socket ct"] sent2 by simp_all
  have "exchange version copts kc f (map Arrived ds) ct = Some (Inr response, ct\<lparr>ct_socket := so2, ct_buffer := []\<rparr>, [])"
    using assms(10,11) client sent2 out2(1) by (simp add: exchange_def encode_frame_bytes [OF req] Let_def)
  then show ?thesis using cn out out2 answer_service [OF assms(6)] by simp
qed

definition connected_client :: client where
  "connected_client = new_client\<lparr>ct_connected := True\<rparr>"

theorem request_gets_its_answer_witness:
  "so_out (cn_socket (fst (handle_connection 1 default_server_options (observatory_service 5 make_default_policy) eager_kernel
      (map Arrived [frame_bytes 1 (request_frame FT_Ping [])]) idle_server))) = frame_bytes 1 (reply FT_Pong ''ok'')
   \<and> (\<exists>ct'. exchange 1 default_client_options eager_kernel (request_frame FT_Ping [])
        (map Arrived [frame_bytes 1 (reply FT_Pong ''ok'')]) connected_client = Some (Inr (reply FT_Pong ''ok''), ct', []))"
proof -
  let ?f = "request_frame FT_Ping []" and ?r = "reply FT_Pong ''ok''" and ?svc = "observatory_service 5 make_default_policy"
  have fits: "frame_fits (co_max_payload_bytes default_client_options) ?f" "frame_fits (op_max_payload_bytes default_server_options) ?f"
    "frame_fits (co_max_payload_bytes default_client_options) ?r" "frame_fits (op_max_payload_bytes default_server_options) ?r"
    by (simp_all add: frame_fits_def request_frame_def reply_def default_client_options_def default_server_options_def)
  have a: "answer ?svc ?f (count_frame ?f idle_server) =
      (?r, False, update_stats (\<lambda>st. st\<lparr>st_pings := st_pings st + 1\<rparr>) (count_frame ?f idle_server))"
    by (simp add: answer_def request_frame_def)
  have "length (frame_bytes 1 ?f) = 20" "length (frame_bytes 1 ?r) = 22"
    by (simp_all add: frame_bytes_length request_frame_def reply_def kFrameHeaderSize_def)
  then have cs: "list_all chunk_ok [frame_bytes 1 ?f]" "list_all chunk_ok [frame_bytes 1 ?r]"
    by (auto simp: chunk_ok_def kReceiveChunk_def)
  have room: "kFrameHeaderSize + length (fr_payload ?r) \<le> unat (co_max_response_bytes default_client_options)"
    by (simp add: kFrameHeaderSize_def reply_def default_client_options_def)
  have ct: "ct_connected connected_client" "ct_buffer connected_client = []" by (simp_all add: connected_client_def new_client_def)
  from request_gets_its_answer [OF eager_kernel_sends eager_kernel_sends default_options_roomy fits(1,2) a fits(3,4) room ct cs(1) _ cs(2), of 1]
  show ?thesis by auto
qed

text \<open>
  A batch the server cannot take is reported as pushed. When the batch as a whole is refused,
  because it holds more records than the bound, the server stores nothing and still acknowledges, and
  the client reports success.
\<close>

lemma refused_batch_is_acknowledged:
  assumes "\<not> status_ok (po_status (parse_batch payload (sv_policy svc)))"
  shows "\<exists>response sr'. answer svc (request_frame FT_PushRecords payload) sr = (response, False, sr')
    \<and> sr_service sr' = sr_service sr \<and> status_ok (fst (read_push (Inr response)))"
  using assms by (simp add: answer_def answer_push_def request_frame_def read_push_def reply_def Let_def)

definition tight_policy :: policy where
  "tight_policy = make_default_policy\<lparr>pol_limits := default_limits\<lparr>max_records_per_batch := 0\<rparr>\<rparr>"

lemma refused_batch_is_acknowledged_instance:
  "\<exists>response sr'. answer (observatory_service 5 tight_policy) (request_frame FT_PushRecords ''x'') idle_server = (response, False, sr')
    \<and> status_ok (fst (read_push (Inr response)))"
proof -
  have "\<not> status_ok (po_status (parse_batch ''x'' (sv_policy (observatory_service 5 tight_policy))))"
    by (simp add: observatory_service_def tight_policy_def) code_simp
  from refused_batch_is_acknowledged [OF this, of idle_server] show ?thesis by blast
qed

end
