(* ===== verification/Command_Line.thy ===== *)
theory Command_Line
  imports Client
begin

text \<open>
  The command line (\<^verbatim>\<open>apps/linkobs/commands.hpp\<close>, \<^verbatim>\<open>apps/linkobs/common.hpp\<close>, the option parser of
  \<^verbatim>\<open>apps/linkobs/main.cpp\<close> and the address parser of \<^verbatim>\<open>apps/linkobs/cmd_transport.cpp\<close>): exit codes, options, the
  context of a command, the configuration it builds and the input it reads. \<open>Commands\<close> holds the commands.
\<close>

section \<open>Exit codes\<close>

datatype exit_code = Exit_Ok | Exit_Usage | Exit_Data | Exit_Io | Exit_Integrity | Exit_Unsupported | Exit_Internal

primrec exit_code_value :: "exit_code \<Rightarrow> int" where
  "exit_code_value Exit_Ok = 0"
| "exit_code_value Exit_Usage = 1"
| "exit_code_value Exit_Data = 2"
| "exit_code_value Exit_Io = 3"
| "exit_code_value Exit_Integrity = 4"
| "exit_code_value Exit_Unsupported = 5"
| "exit_code_value Exit_Internal = 6"

primrec exit_code_for :: "status_code \<Rightarrow> exit_code" where
  "exit_code_for SC_Ok = Exit_Ok"
| "exit_code_for SC_InvalidArgument = Exit_Usage"
| "exit_code_for SC_OutOfRange = Exit_Data"
| "exit_code_for SC_CapacityExceeded = Exit_Data"
| "exit_code_for SC_AlreadyExists = Exit_Data"
| "exit_code_for SC_Conflict = Exit_Data"
| "exit_code_for SC_Rejected = Exit_Data"
| "exit_code_for SC_NotFound = Exit_Io"
| "exit_code_for SC_IoError = Exit_Io"
| "exit_code_for SC_CorruptData = Exit_Integrity"
| "exit_code_for SC_VersionMismatch = Exit_Integrity"
| "exit_code_for SC_Unsupported = Exit_Unsupported"
| "exit_code_for SC_Cancelled = Exit_Internal"
| "exit_code_for SC_Internal = Exit_Internal"

section \<open>Options\<close>

record options =
  ol_values :: "string \<rightharpoonup> string"
  ol_flags :: "string list"
  ol_positional :: "string list"

definition no_options :: options where
  "no_options = \<lparr>ol_values = (\<lambda>_. None), ol_flags = [], ol_positional = []\<rparr>"

definition option_has :: "options \<Rightarrow> string \<Rightarrow> bool" where
  "option_has opts name \<longleftrightarrow> ol_values opts name \<noteq> None \<or> name \<in> set (ol_flags opts)"

definition option_get :: "options \<Rightarrow> string \<Rightarrow> string option" where
  "option_get opts name =
     (case ol_values opts name of
        Some v \<Rightarrow> Some v
      | None \<Rightarrow> if name \<in> set (ol_flags opts) then Some [] else None)"

definition option_get_or :: "options \<Rightarrow> string \<Rightarrow> string \<Rightarrow> string" where
  "option_get_or opts name fallback = (case ol_values opts name of None \<Rightarrow> fallback | Some v \<Rightarrow> v)"

definition option_get_u64 :: "options \<Rightarrow> string \<Rightarrow> u64 \<Rightarrow> u64" where
  "option_get_u64 opts name fallback =
     (case ol_values opts name of
        None \<Rightarrow> fallback
      | Some v \<Rightarrow> (case parse_u64_dec v of None \<Rightarrow> fallback | Some n \<Rightarrow> n))"

definition option_get_i64 :: "options \<Rightarrow> string \<Rightarrow> i64 \<Rightarrow> i64" where
  "option_get_i64 opts name fallback =
     (case ol_values opts name of
        None \<Rightarrow> fallback
      | Some v \<Rightarrow> (case parse_i64_dec v of None \<Rightarrow> fallback | Some n \<Rightarrow> n))"

text \<open>The loop over the arguments after the command.\<close>

definition is_flag :: "string \<Rightarrow> bool" where
  "is_flag token \<longleftrightarrow> length token > 2 \<and> take 2 token = ''--'' \<and> CHR ''='' \<notin> set token"

definition add_value :: "string \<Rightarrow> string \<Rightarrow> options \<Rightarrow> options" where
  "add_value name v opts = opts\<lparr>ol_values := (ol_values opts)(name \<mapsto> v)\<rparr>"

definition add_flag :: "string \<Rightarrow> options \<Rightarrow> options" where
  "add_flag name opts = opts\<lparr>ol_flags := ol_flags opts @ [name]\<rparr>"

definition add_positional :: "string \<Rightarrow> options \<Rightarrow> options" where
  "add_positional token opts = opts\<lparr>ol_positional := ol_positional opts @ [token]\<rparr>"

definition add_assignment :: "string \<Rightarrow> options \<Rightarrow> options" where
  "add_assignment token opts =
     (let equals = length (takeWhile (\<lambda>c. c \<noteq> CHR ''='') token) in
      if CHR ''='' \<notin> set token \<or> equals < 3 then add_flag (drop 2 token) opts
      else add_value (take (equals - 2) (drop 2 token)) (drop (equals + 1) token) opts)"

fun parse_arguments :: "string list \<Rightarrow> options \<Rightarrow> options" where
  "parse_arguments [] opts = opts"
| "parse_arguments (token # rest) opts =
     (if is_flag token then
        (case rest of
           [] \<Rightarrow> add_flag (drop 2 token) opts
         | argument # later \<Rightarrow>
             if argument = [] \<or> hd argument \<noteq> CHR ''-''
             then parse_arguments later (add_value (drop 2 token) argument opts)
             else parse_arguments rest (add_flag (drop 2 token) opts))
      else if take 2 token = ''--'' then parse_arguments rest (add_assignment token opts)
      else parse_arguments rest (add_positional token opts))"

record command_context =
  cx_program :: string
  cx_options :: options
  cx_now_ns :: "i64 option"

definition make_context :: "string \<Rightarrow> string list \<Rightarrow> command_context" where
  "make_context program arguments =
     (let opts = parse_arguments arguments no_options in
      \<lparr>cx_program = program, cx_options = opts,
       cx_now_ns = (if option_has opts ''now-ns'' then Some (option_get_i64 opts ''now-ns'' 0) else None)\<rparr>)"

section \<open>What a command works with\<close>

text \<open>
  The constants of \<^verbatim>\<open>version.hpp\<close>, which the build generates, and what the process finds: the file
  system, the standard input, the reads and writes that fail, and the instants the system clock shows.
\<close>

record build_constants =
  bc_version :: string
  bc_product :: string
  bc_vendor :: string
  bc_copyright :: string
  bc_snapshot_format :: u32
  bc_protocol :: u32
  bc_record_format :: u32

record process_env =
  pe_build :: build_constants
  pe_files :: file_system
  pe_stdin :: string
  pe_read :: "string \<Rightarrow> read_faults"
  pe_write :: write_faults
  pe_clock :: "nat \<Rightarrow> time_point"

definition make_clock :: "command_context \<Rightarrow> process_env \<Rightarrow> nat \<Rightarrow> time_point" where
  "make_clock cx env k = (case cx_now_ns cx of Some n \<Rightarrow> n | None \<Rightarrow> pe_clock env k)"

text \<open>A \<^verbatim>\<open>RuntimeConfig{}\<close> whose policy has been set.\<close>

definition default_config :: "policy \<Rightarrow> runtime_config" where
  "default_config p =
     \<lparr>cfg_snapshot_path = [], cfg_restore_on_start = True, cfg_persist_on_stop = True, cfg_workers = 1,
      cfg_queue_depth = 1024, cfg_runtime_name = ''link-observatory'', cfg_incarnation_name = ''incarnation-0'',
      cfg_families = 0xFFFFFFFF, cfg_policy = p\<rparr>"

definition make_config :: "command_context \<Rightarrow> string \<Rightarrow> bool \<Rightarrow> bool \<Rightarrow> runtime_config" where
  "make_config cx db_path restore persist_on_stop =
     (let opts = cx_options cx;
          c = (default_config make_default_policy)
                \<lparr>cfg_snapshot_path := db_path, cfg_restore_on_start := restore, cfg_persist_on_stop := persist_on_stop,
                 cfg_workers := option_get_u64 opts ''workers'' 0,
                 cfg_queue_depth := option_get_u64 opts ''queue-depth'' 1024,
                 cfg_runtime_name := option_get_or opts ''runtime-name'' ''link-observatory'',
                 cfg_incarnation_name := option_get_or opts ''incarnation'' ''incarnation-0''\<rparr>;
          link_bound = option_get_u64 opts ''max-links'' 0
      in if link_bound \<noteq> 0
         then c\<lparr>cfg_policy := (cfg_policy c)\<lparr>pol_limits := (pol_limits (cfg_policy c))\<lparr>max_links := link_bound\<rparr>\<rparr>\<rparr>
         else c)"

definition require_db :: "command_context \<Rightarrow> string option" where
  "require_db cx =
     (case option_get (cx_options cx) ''db'' of
        None \<Rightarrow> None
      | Some path \<Rightarrow> if path = [] then None else Some path)"

definition kMaxInputBytes :: nat where "kMaxInputBytes = 64 * 1024 * 1024"

text \<open>\<^verbatim>\<open>std::getline\<close> on the standard input: every line gets a newline, the last one too.\<close>

function read_lines :: "nat \<Rightarrow> string \<Rightarrow> string \<Rightarrow> string option" where
  "read_lines max_bytes input content =
     (if input = [] then Some content
      else
        let line = takeWhile (\<lambda>c. c \<noteq> newline) input; later = tl (dropWhile (\<lambda>c. c \<noteq> newline) input) in
        if length content + length line + 1 > max_bytes then None
        else read_lines max_bytes later (content @ line @ [newline]))"
  by pat_completeness auto
termination
  by (relation "measure (\<lambda>(m, input, content). length input)") (auto simp del: length_tl)

declare read_lines.simps [simp del]

text \<open>
  The text of a file. Whether reading the contents succeeded is not checked: bytes that could not be
  read are zero.
\<close>

definition read_text_input :: "process_env \<Rightarrow> string \<Rightarrow> nat \<Rightarrow> string option" where
  "read_text_input env path max_bytes =
     (if path = ''-'' then read_lines max_bytes (pe_stdin env) []
      else case pe_files env path of
        None \<Rightarrow> None
      | Some data \<Rightarrow>
          if rf_open (pe_read env path) \<or> rf_length (pe_read env path) \<or> length data > max_bytes then None
          else if rf_read (pe_read env path) then Some (replicate (length data) (CHR 0x00))
          else Some (string_of_bytes data))"

definition parse_endpoint :: "string \<Rightarrow> (string \<times> 16 word) option" where
  "parse_endpoint text =
     (let port_text = rev (takeWhile (\<lambda>c. c \<noteq> CHR '':'') (rev text));
          colon = length text - length port_text - 1
      in if CHR '':'' \<notin> set text \<or> colon = 0 \<or> colon + 1 \<ge> length text then None
         else case parse_u64_dec port_text of
           None \<Rightarrow> None
         | Some parsed \<Rightarrow> if parsed > 65535 then None else Some (take colon text, ucast parsed))"

section \<open>Reading options back\<close>

lemma add_assignment_written:
  assumes "name \<noteq> []" and "CHR ''='' \<notin> set name"
  shows "add_assignment (''--'' @ name @ ''='' @ v) opts = add_value name v opts"
proof -
  let ?P = "\<lambda>c. c \<noteq> CHR ''=''"
  have "takeWhile ?P ((''--'' @ name) @ CHR ''='' # v) = (''--'' @ name) @ takeWhile ?P (CHR ''='' # v)"
    by (rule takeWhile_append2) (use assms(2) in auto)
  then have "takeWhile ?P (''--'' @ name @ ''='' @ v) = ''--'' @ name" by simp
  then show ?thesis using assms(1) by (simp add: add_assignment_def Let_def)
qed

lemma parse_assignments:
  assumes "list_all (\<lambda>(name, v). name \<noteq> [] \<and> CHR ''='' \<notin> set name) kvs"
  shows "parse_arguments (map (\<lambda>(name, v). ''--'' @ name @ ''='' @ v) kvs) opts
    = opts\<lparr>ol_values := ol_values opts ++ map_of (rev kvs)\<rparr>"
  using assms
proof (induction kvs arbitrary: opts)
  case (Cons e kvs)
  obtain name v where e: "e = (name, v)" by (cases e)
  have "\<not> is_flag (''--'' @ name @ ''='' @ v)" by (simp add: is_flag_def)
  moreover have "take 2 (''--'' @ name @ ''='' @ v) = ''--''" by simp
  ultimately have "parse_arguments (map (\<lambda>(name, v). ''--'' @ name @ ''='' @ v) (e # kvs)) opts
      = parse_arguments (map (\<lambda>(name, v). ''--'' @ name @ ''='' @ v) kvs) (add_value name v opts)"
    using Cons.prems add_assignment_written [of name v opts] by (simp add: e)
  also have "\<dots> = (add_value name v opts)\<lparr>ol_values := ol_values (add_value name v opts) ++ map_of (rev kvs)\<rparr>"
    using Cons by simp
  also have "ol_values (add_value name v opts) ++ map_of (rev kvs) = ol_values opts ++ map_of (rev (e # kvs))"
    by (rule ext) (simp add: e add_value_def map_add_def split: option.split)
  finally show ?case by (simp add: add_value_def)
qed simp

text \<open>
  C35: options written as assignments are read back. Whatever assignments are given, in whatever order, an option
  has the value of its last assignment, and an option that was not assigned has its default and counts
  as absent.
\<close>

theorem assignments_read_back:
  assumes "list_all (\<lambda>(name, v). name \<noteq> [] \<and> CHR ''='' \<notin> set name) kvs"
    and "cx = make_context program (map (\<lambda>(name, v). ''--'' @ name @ ''='' @ v) kvs)"
  shows "option_get (cx_options cx) name = map_of (rev kvs) name
    \<and> option_get_or (cx_options cx) name fallback = (case map_of (rev kvs) name of None \<Rightarrow> fallback | Some v \<Rightarrow> v)
    \<and> (option_has (cx_options cx) name \<longleftrightarrow> name \<in> fst ` set kvs)
    \<and> ol_positional (cx_options cx) = []"
proof -
  have "cx_options cx = no_options\<lparr>ol_values := map_of (rev kvs)\<rparr>"
    using parse_assignments [OF assms(1), of no_options] by (simp add: assms(2) make_context_def Let_def no_options_def)
  moreover have "map_of (rev kvs) name = None \<longleftrightarrow> name \<notin> fst ` set kvs" by (simp add: map_of_eq_None_iff)
  ultimately show ?thesis
    by (cases "map_of (rev kvs) name") (simp_all add: option_get_def option_get_or_def option_has_def no_options_def)
qed

theorem assignments_read_back_witness:
  "option_get (cx_options (make_context ''linkobs'' [''--db=a=b'', ''--link=x'', ''--db=c''])) ''db'' = Some ''c''"
  using assignments_read_back [of "[(''db'', ''a=b''), (''link'', ''x''), (''db'', ''c'')]", OF _ refl, where program = "''linkobs''" and name = "''db''"] by simp

text \<open>An address that a server prints is one that \<^verbatim>\<open>send\<close> understands.\<close>

lemma endpoint_round_trip:
  assumes "op_host opts \<noteq> []"
  shows "parse_endpoint (bound_address opts ln) = Some (op_host opts, ln_bound_port ln)"
proof -
  let ?p = "to_dec (ucast (ln_bound_port ln))"
  have "CHR '':'' \<notin> set ?p" using to_dec_shape [of "ucast (ln_bound_port ln)"] by (auto simp: list_all_iff is_digit_def)
  then have "takeWhile (\<lambda>c. c \<noteq> CHR '':'') (rev ?p @ CHR '':'' # rev (op_host opts)) = rev ?p @ takeWhile (\<lambda>c. c \<noteq> CHR '':'') (CHR '':'' # rev (op_host opts))"
    by (intro takeWhile_append2) auto
  moreover have "?p \<noteq> []" using to_dec_shape by blast
  moreover have "ucast (ln_bound_port ln) \<le> (65535 :: u64)"
    using unsigned_less [of "ln_bound_port ln", where ?'a = nat]
    by (simp add: word_le_nat_alt unsigned_ucast_eq take_bit_nat_eq_self)
  moreover have "(ucast (ucast (ln_bound_port ln) :: u64) :: 16 word) = ln_bound_port ln"
    by (rule bit_word_eqI) (simp add: bit_ucast_iff)
  ultimately show ?thesis
    using assms by (simp add: parse_endpoint_def bound_address_def Let_def parse_u64_dec_to_dec)
qed

text \<open>
  A value that starts with a minus sign is not taken as the value of the option before it: a negative instant
  given this way is read as the epoch.
\<close>

lemma negative_instant_is_lost:
  assumes "take 1 digits \<noteq> ''-''"
  shows "cx_now_ns (make_context program [''--now-ns'', CHR ''-'' # digits]) = Some 0"
proof -
  have second: "take 2 (CHR ''-'' # digits) \<noteq> ''--''" using assms by (cases digits) auto
  then have "\<not> is_flag (CHR ''-'' # digits)" by (simp add: is_flag_def)
  moreover have "is_flag ''--now-ns''" by (simp add: is_flag_def)
  ultimately have "parse_arguments [''--now-ns'', CHR ''-'' # digits] no_options
      = add_positional (CHR ''-'' # digits) (add_flag ''now-ns'' no_options)"
    using second by simp
  then show ?thesis
    by (simp only: make_context_def Let_def)
      (simp add: option_has_def option_get_i64_def add_positional_def add_flag_def no_options_def)
qed

end
