(* ===== verification/Commands.thy ===== *)
theory Commands
  imports Command_Line
begin

text \<open>
  The commands of the program (\<^verbatim>\<open>apps/linkobs/cmd_ingest.cpp\<close>, \<^verbatim>\<open>apps/linkobs/cmd_report.cpp\<close>, \<^verbatim>\<open>apps/linkobs/cmd_tools.cpp\<close>,
  \<^verbatim>\<open>apps/linkobs/cmd_transport.cpp\<close> and the dispatch of \<^verbatim>\<open>apps/linkobs/main.cpp\<close>). A command is a function from
  what the process finds to what it leaves: its output, its exit code and the file system. What the
  threads of an observatory with workers do in which order is an argument, and a schedule that is
  not a complete run of the calls has no result. The destructor of an observatory stops it once more,
  which saves nothing in the commands that only report.
\<close>

section \<open>What a process leaves\<close>

record process_end =
  px_out :: string
  px_err :: string
  px_exit :: exit_code
  px_files :: file_system

definition failed :: "process_env \<Rightarrow> string \<Rightarrow> exit_code \<Rightarrow> process_end" where
  "failed env message code = \<lparr>px_out = [], px_err = message, px_exit = code, px_files = pe_files env\<rparr>"

definition printed :: "process_env \<Rightarrow> string \<Rightarrow> process_end" where
  "printed env text = \<lparr>px_out = text, px_err = [], px_exit = Exit_Ok, px_files = pe_files env\<rparr>"

definition error_line :: "string \<Rightarrow> string" where
  "error_line message = ''error: '' @ message @ [newline]"

definition no_db :: string where
  "no_db = error_line ''--db PATH is required''"

section \<open>Ingest\<close>

text \<open>The actions of a call of \<^verbatim>\<open>submit_batch\<close> and of the workers, and those of a call of \<^verbatim>\<open>stop\<close>.\<close>

fun submits :: "rt_action \<Rightarrow> bool" where
  "submits (ApplyDirect cid instants) = True"
| "submits (ArriveDirect cid) = True"
| "submits (AdmitPart cid) = True"
| "submits (PushPart k) = True"
| "submits (PopPart i) = True"
| "submits (HandlePart i instants) = True"
| "submits (CompletePart i) = True"
| "submits a = False"

fun stops :: "process_env \<Rightarrow> rt_action \<Rightarrow> bool" where
  "stops env StopCount = True"
| "stops env (StopSave version faults now) = (version = bc_snapshot_format (pe_build env) \<and> faults = pe_write env)"
| "stops env AdvanceStop = True"
| "stops env a = submits a"

record schedule =
  sc_submit :: "rt_action list"
  sc_stop :: "rt_action list"

definition submit_call :: "rt_action list \<Rightarrow> batch \<Rightarrow> runtime \<Rightarrow> (runtime \<times> status) option" where
  "submit_call actions b r =
     (case submit_begin b r of
        (r1, Some refused) \<Rightarrow> Some (r1, refused)
      | (r1, None) \<Rightarrow>
          if \<not> list_all submits actions then None
          else case rt_run actions r1 of
            None \<Rightarrow> None
          | Some r2 \<Rightarrow>
              (case ca_phase (rt_calls r2 ! length (rt_calls r)) of
                 Returned s \<Rightarrow> Some (r2, s)
               | _ \<Rightarrow> None))"

definition stop_call :: "process_env \<Rightarrow> rt_action list \<Rightarrow> runtime \<Rightarrow> (runtime \<times> status) option" where
  "stop_call env actions r =
     (if \<not> list_all (stops env) actions then None
      else case stop_begin r of
        None \<Rightarrow> None
      | Some r1 \<Rightarrow> (case rt_run actions r1 of None \<Rightarrow> None | Some r2 \<Rightarrow> stop_finish r2))"

definition ingest_config :: "command_context \<Rightarrow> string \<Rightarrow> runtime_config" where
  "ingest_config cx db =
     (make_config cx db True (\<not> option_has (cx_options cx) ''no-persist''))
       \<lparr>cfg_workers := (if option_has (cx_options cx) ''workers'' then option_get_u64 (cx_options cx) ''workers'' 1 else 0)\<rparr>"

definition ingest_summary :: "nat \<Rightarrow> nat \<Rightarrow> runtime_statistics \<Rightarrow> string" where
  "ingest_summary submitted rejected stats =
     ''records='' @ to_dec (of_nat submitted) @ '' rejected='' @ to_dec (of_nat rejected)
     @ '' accepted='' @ to_dec (rs_records_accepted stats) @ '' fenced='' @ to_dec (rs_records_fenced stats)
     @ '' declarations='' @ to_dec (rs_declarations_applied stats)
     @ '' state-changes='' @ to_dec (rs_state_changes stats) @ [newline]"

definition ingest_end :: "parse_outcome \<Rightarrow> status \<Rightarrow> status \<Rightarrow> runtime \<Rightarrow> process_end" where
  "ingest_end outcome applied stopped r =
     (if \<not> status_ok applied
      then \<lparr>px_out = [], px_err = error_line (status_to_string applied), px_exit = exit_code_for (status_code applied),
            px_files = rt_files r\<rparr>
      else
        let submitted = (if status_ok (po_status outcome) then length (bt_records (po_batch outcome)) else 0);
            out = ingest_summary submitted (po_rejected outcome) (statistics r);
            rejections = concat (map (\<lambda>e. ''rejected '' @ e @ [newline]) (po_errors outcome))
        in if \<not> status_ok stopped
           then \<lparr>px_out = out, px_err = rejections @ error_line (status_to_string stopped),
                 px_exit = exit_code_for (status_code stopped), px_files = rt_files r\<rparr>
           else \<lparr>px_out = out, px_err = rejections, px_exit = (if po_rejected outcome \<noteq> 0 then Exit_Data else Exit_Ok),
                 px_files = rt_files r\<rparr>)"

definition run_ingest :: "process_env \<Rightarrow> schedule \<Rightarrow> command_context \<Rightarrow> process_end option" where
  "run_ingest env sched cx =
     (case require_db cx of
        None \<Rightarrow> Some (failed env no_db Exit_Usage)
      | Some db \<Rightarrow>
          (case read_text_input env (option_get_or (cx_options cx) ''input'' ''-'') kMaxInputBytes of
             None \<Rightarrow> Some (failed env (error_line (''input could not be read or exceeds '' @ to_dec (of_nat kMaxInputBytes) @ '' bytes''))
                       Exit_Io)
           | Some text \<Rightarrow>
               let c = ingest_config cx db in
               (case runtime_start (bc_snapshot_format (pe_build env)) (pe_read env) (new_runtime c (pe_files env)) of
                  None \<Rightarrow> None
                | Some (r1, start_status) \<Rightarrow>
                    if \<not> status_ok start_status \<and> status_code start_status \<noteq> SC_NotFound
                    then Some (failed env (error_line (status_to_string start_status)) (exit_code_for (status_code start_status)))
                    else
                      let outcome = parse_batch text (cfg_policy c) in
                      (case (if status_ok (po_status outcome) then submit_call (sc_submit sched) (po_batch outcome) r1
                             else Some (r1, status_success)) of
                         None \<Rightarrow> None
                       | Some (r2, applied) \<Rightarrow>
                           (case stop_call env (sc_stop sched) r2 of
                              None \<Rightarrow> None
                            | Some (r3, stopped) \<Rightarrow> Some (ingest_end outcome applied stopped r3))))))"

section \<open>Reports\<close>

definition report_config :: "command_context \<Rightarrow> string \<Rightarrow> runtime_config" where
  "report_config cx db = (make_config cx db True False)\<lparr>cfg_workers := 0\<rparr>"

text \<open>
  \<^verbatim>\<open>load\<close>: the observatory, or what was printed and the exit code. The caller prints the message of the
  result once more, which is empty when the path is missing.
\<close>

definition load :: "process_env \<Rightarrow> command_context \<Rightarrow> ((string \<times> exit_code) + runtime) option" where
  "load env cx =
     (case require_db cx of
        None \<Rightarrow> Some (Inl (no_db @ error_line [], Exit_Usage))
      | Some db \<Rightarrow>
          (case runtime_start (bc_snapshot_format (pe_build env)) (pe_read env) (new_runtime (report_config cx db) (pe_files env)) of
             None \<Rightarrow> None
           | Some (r, start_status) \<Rightarrow>
               Some (if \<not> status_ok start_status \<and> status_code start_status \<noteq> SC_NotFound
                     then Inl (error_line (status_to_string start_status), exit_code_for (status_code start_status))
                     else Inr r)))"

definition with_loaded :: "process_env \<Rightarrow> command_context \<Rightarrow> (runtime \<Rightarrow> process_end) \<Rightarrow> process_end option" where
  "with_loaded env cx body =
     map_option (\<lambda>loaded. case loaded of Inl (message, code) \<Rightarrow> failed env message code | Inr r \<Rightarrow> body r) (load env cx)"

definition state_line :: "link_entry \<Rightarrow> classification \<Rightarrow> string" where
  "state_line entry c =
     (let facts = le_facts entry in
      tf_buffer
       (tf_add_u64 ''fenced'' (le_fenced_observations entry)
       (tf_add_u64 ''accepted'' (le_accepted_observations entry)
       (tf_add ''generation'' (id_to_string ''generation'' (cl_generation c))
       (tf_add ''confidence'' (confidence_to_string (cl_confidence c))
       (tf_add ''completeness'' (completeness_to_string (cl_completeness c))
       (tf_add ''freshness'' (freshness_to_string (cl_freshness c))
       (tf_add ''state'' (link_state_to_string (cl_state c))
       (tf_add ''id'' (id_to_string ''link'' (lf_id facts))
       (tf_add ''link'' (if lf_name facts = [] then id_to_string ''link'' (lf_id facts) else lf_name facts)
         (tf_new (CHR '' ''))))))))))))"

definition sorted_links :: "runtime \<Rightarrow> link_entry list" where
  "sorted_links r = sort_key (\<lambda>entry. lf_id (le_facts entry)) (runtime_links r)"

definition link_filter :: "command_context \<Rightarrow> link_entry \<Rightarrow> bool" where
  "link_filter cx entry \<longleftrightarrow>
     (case option_get (cx_options cx) ''link'' of None \<Rightarrow> True | Some name \<Rightarrow> lf_id (le_facts entry) = derive_link_id name)"

text \<open>The loop over the links; the clock is read once for the classification and once for the slots.\<close>

fun inspect_links :: "observatory \<Rightarrow> (nat \<Rightarrow> time_point) \<Rightarrow> nat \<Rightarrow> link_entry list \<Rightarrow> string" where
  "inspect_links ob clock k [] = []"
| "inspect_links ob clock k (entry # entries) =
     (let link = lf_id (le_facts entry) in
      case classify_link ob link (clock k) of
        None \<Rightarrow> inspect_links ob clock k entries
      | Some c \<Rightarrow>
          state_line entry c @ [newline]
          @ concat (map (\<lambda>view. ''  slot '' @ format_slot_view (SlotKey link (sv_key view)) view @ [newline])
              (slot_views ob link (clock (k + 1))))
          @ inspect_links ob clock (k + 2) entries)"

definition run_inspect :: "process_env \<Rightarrow> command_context \<Rightarrow> process_end option" where
  "run_inspect env cx =
     with_loaded env cx (\<lambda>r.
       let stats = statistics r in
       printed env
         (''runtime '' @ id_to_string ''runtime'' (ob_runtime_id (rt_ob r)) @ '' restored='' @ flag_text (restored_from_snapshot r)
          @ '' detail='' @ load_detail r @ [newline]
          @ inspect_links (rt_ob r) (make_clock cx env) 0 (filter (link_filter cx) (sorted_links r))
          @ ''totals accepted='' @ to_dec (rs_records_accepted stats) @ '' fenced='' @ to_dec (rs_records_fenced stats)
          @ '' declarations='' @ to_dec (rs_declarations_applied stats)
          @ '' transitions='' @ to_dec (rs_transitions_recorded stats)
          @ '' state-changes='' @ to_dec (rs_state_changes stats) @ [newline]))"

definition print_lines :: "('a \<Rightarrow> string) \<Rightarrow> 'a list \<Rightarrow> string" where
  "print_lines format xs = concat (map (\<lambda>x. format x @ [newline]) xs)"

definition run_history :: "process_env \<Rightarrow> command_context \<Rightarrow> process_end option" where
  "run_history env cx =
     with_loaded env cx (\<lambda>r.
       let limit = option_get_u64 (cx_options cx) ''limit'' 64 in
       printed env (print_lines format_transition
         (case option_get (cx_options cx) ''link'' of
            Some name \<Rightarrow> transitions r (derive_link_id name) limit
          | None \<Rightarrow> recent_transitions r limit)))"

definition run_classify :: "process_env \<Rightarrow> command_context \<Rightarrow> process_end option" where
  "run_classify env cx =
     with_loaded env cx (\<lambda>r.
       case option_get (cx_options cx) ''link'' of
         Some name \<Rightarrow>
           (case classify_named (rt_ob r) name (make_clock cx env 0) of
              None \<Rightarrow> failed env (error_line ''unknown link'') Exit_Data
            | Some c \<Rightarrow> printed env (summarize c @ [newline]))
       | None \<Rightarrow> printed env (print_lines summarize (sort_key cl_link (classify_all (rt_ob r) (make_clock cx env 0)))))"

definition run_explain :: "process_env \<Rightarrow> command_context \<Rightarrow> process_end option" where
  "run_explain env cx =
     with_loaded env cx (\<lambda>r.
       case option_get (cx_options cx) ''link'' of
         None \<Rightarrow> failed env (error_line ''--link NAME is required'') Exit_Usage
       | Some name \<Rightarrow>
           (case classify_named (rt_ob r) name (make_clock cx env 0) of
              None \<Rightarrow> failed env (error_line ''unknown link'') Exit_Data
            | Some c \<Rightarrow>
                printed env (explain c (default_explain_options
                  \<lparr>xo_include_families := \<not> option_has (cx_options cx) ''no-families'',
                   xo_include_rules := \<not> option_has (cx_options cx) ''no-rules''\<rparr>))))"

text \<open>The two line formats of an exported observation.\<close>

definition csv_line :: "string \<Rightarrow> observation \<Rightarrow> string" where
  "csv_line name obs =
     (let prov = obs_provenance obs in
      name @ '','' @ metric_key_to_string (obs_key obs) @ '','' @ id_to_string ''source'' (prov_source prov)
      @ '','' @ id_to_string ''incarnation'' (prov_incarnation prov) @ '','' @ id_to_string ''epoch'' (prov_epoch prov)
      @ '','' @ id_to_string ''generation'' (prov_generation prov) @ '','' @ to_dec (prov_sequence prov)
      @ '','' @ to_dec_i64 (obs_observed_at obs) @ '','' @ to_dec_i64 (obs_received_at obs)
      @ '','' @ format_payload (obs_payload obs))"

definition lor_line :: "string \<Rightarrow> observation \<Rightarrow> string" where
  "lor_line name obs = export_observation name (id_to_string ''source'' (prov_source (obs_provenance obs))) obs"

definition csv_header :: string where
  "csv_header = ''link,metric,source,incarnation,epoch,generation,revision,observed_at,received_at,value'' @ [newline]"

definition export_evidence ::
  "(string \<Rightarrow> observation \<Rightarrow> string) \<Rightarrow> observatory \<Rightarrow> (nat \<Rightarrow> time_point) \<Rightarrow> link_entry list \<Rightarrow> string" where
  "export_evidence format ob clock entries =
     concat (map (\<lambda>(k, entry).
       print_lines (\<lambda>e. format (lf_name (le_facts entry)) (ev_observation e))
         (link_evidence ob (lf_id (le_facts entry)) 4096 (clock k))) (enumerate 0 entries))"

fun export_summaries :: "observatory \<Rightarrow> (nat \<Rightarrow> time_point) \<Rightarrow> nat \<Rightarrow> link_entry list \<Rightarrow> string" where
  "export_summaries ob clock k [] = []"
| "export_summaries ob clock k (entry # entries) =
     (case classify_link ob (lf_id (le_facts entry)) (clock k) of
        None \<Rightarrow> export_summaries ob clock k entries
      | Some c \<Rightarrow> summarize c @ [newline] @ export_summaries ob clock (k + 1) entries)"

definition run_export :: "process_env \<Rightarrow> command_context \<Rightarrow> process_end option" where
  "run_export env cx =
     with_loaded env cx (\<lambda>r.
       let format = option_get_or (cx_options cx) ''format'' ''summary'';
           entries = filter (link_filter cx) (sorted_links r);
           clock = make_clock cx env
       in if format = ''summary'' then printed env (export_summaries (rt_ob r) clock 0 entries)
          else if format = ''lor'' then printed env (export_evidence lor_line (rt_ob r) clock entries)
          else if format = ''csv'' then printed env (csv_header @ export_evidence csv_line (rt_ob r) clock entries)
          else failed env (error_line (''unknown export format '' @ [CHR 0x27] @ format @ [CHR 0x27])) Exit_Usage)"

section \<open>Verification and version\<close>

definition run_verify :: "process_env \<Rightarrow> command_context \<Rightarrow> process_end" where
  "run_verify env cx =
     (case require_db cx of
        None \<Rightarrow> failed env no_db Exit_Usage
      | Some db \<Rightarrow>
          let loaded = read_snapshot (bc_snapshot_format (pe_build env)) (pe_read env) (pe_files env) db make_default_policy;
              contents = slr_contents loaded
          in if \<not> slr_ok loaded
             then \<lparr>px_out = ''verify=FAIL status='' @ status_code_to_string (status_code (slr_status loaded))
                     @ '' detail='' @ [CHR 0x22] @ slr_detail loaded @ [CHR 0x22, newline],
                   px_err = [], px_exit = exit_code_for (status_code (slr_status loaded)), px_files = pe_files env\<rparr>
             else
               let evidence = sum_list (map (\<lambda>slot. length (ps_history slot)) (sn_slots contents));
                   out = ''verify=OK integrity=true bytes='' @ to_dec (of_nat (slr_bytes_read loaded))
                     @ '' format='' @ to_dec (ucast (sn_format_version contents))
                     @ '' links='' @ to_dec (of_nat (length (sn_links contents)))
                     @ '' sources='' @ to_dec (of_nat (length (sn_sources contents)))
                     @ '' slots='' @ to_dec (of_nat (length (sn_slots contents)))
                     @ '' evidence='' @ to_dec (of_nat evidence)
                     @ '' transitions='' @ to_dec (of_nat (length (sn_transitions contents)))
                     @ '' recovered-from-backup='' @ flag_text (slr_recovered_from_backup loaded) @ [newline]
               in if slr_recovered_from_backup loaded
                  then \<lparr>px_out = out @ ''recovery='' @ [CHR 0x22] @ slr_detail loaded @ [CHR 0x22, newline],
                        px_err = [], px_exit = Exit_Integrity, px_files = pe_files env\<rparr>
                  else printed env out)"

definition run_version :: "process_env \<Rightarrow> process_end" where
  "run_version env =
     (let b = pe_build env in
      printed env
        (''product='' @ bc_product b @ '' version='' @ bc_version b @ '' vendor='' @ bc_vendor b @ [newline]
         @ ''snapshot-format='' @ to_dec (ucast (bc_snapshot_format b)) @ '' transport-protocol='' @ to_dec (ucast (bc_protocol b))
         @ '' record-format='' @ to_dec (ucast (bc_record_format b)) @ [newline]
         @ ''copyright='' @ [CHR 0x22] @ bc_copyright b @ [CHR 0x22, newline]))"

end
