(* ===== verification/Command_Results.thy ===== *)
theory Command_Results
  imports Commands
begin

text \<open>
  What the commands do together. A database is a file that \<^verbatim>\<open>ingest\<close> commands extend and report commands
  read; the main result says that an export shows exactly what one observatory holds that was given all the
  records in one process.
\<close>

section \<open>Records of a text\<close>

lemma parsed_records_typed: "list_all record_typed (bt_records (po_batch (parse_batch text p)))"
proof -
  have "record_typed r" if "parse_record line p = Inr r" for line r
    using parse_record_sound [OF that]
    by (cases r) (auto simp: record_typed_def observation_decl_ok_def payload_codable_def payload_window_ok_def
        split: metric_payload.splits)
  then have "list_all record_typed (accepted_records p ls)" for ls
    by (auto simp: accepted_records_def line_result_def list_all_iff List.map_filter_def split: sum.splits option.splits if_splits)
  moreover obtain k where "bt_records (po_batch (parse_batch text p)) = accepted_records p (take k (text_lines text))"
    using scan_lines_upto [of p "text_lines text" empty_parse_outcome 0]
    unfolding parse_batch_def parse_batch_loop_lines
    by (auto simp: batch_upto_def Let_def empty_parse_outcome_def empty_batch_def)
  ultimately show ?thesis by simp
qed

definition timed :: "(nat \<Rightarrow> time_point) \<Rightarrow> parsed_record list \<Rightarrow> (parsed_record \<times> time_point) list" where
  "timed clock records = zip records (map clock [0..<length records])"

lemma timed_typed: "list_all record_typed rs \<Longrightarrow> (\<And>k. in_i64 (clock k)) \<Longrightarrow> list_all input_typed (timed clock rs)"
  by (auto simp: timed_def list_all_iff input_typed_def set_zip)

section \<open>Starting without workers\<close>

lemma flags_keep:
  "continues c (ob\<lparr>ob_started := b\<rparr>) un = continues c ob un"
  "continues c (ob\<lparr>ob_restored := b, ob_load_detail := t\<rparr>) un = continues c ob un"
  by (simp_all add: continues_def same_evidence_def extras_ok_def observatory_typed_def)

lemma restore_config [simp]: "ob_config (fst (restore_from ob0 contents)) = ob_config ob0"
  by (simp add: restore_from_def Let_def)

lemma reload_config [simp]: "ob_config (fst (reload loaded ob)) = ob_config ob"
  by (simp add: reload_def Let_def)

lemma start_inline:
  assumes "cfg_workers c = 0" and "cfg_restore_on_start c" and "cfg_snapshot_path c \<noteq> []" and "status_ok (validate_config c)"
    and "reload_file version env fs (new_observatory c) = (ob, s)" and "status_ok s \<or> status_code s = SC_NotFound"
  shows "runtime_start version env (new_runtime c fs)
    = Some ((new_runtime c fs)\<lparr>rt_ob := ob\<lparr>ob_started := True\<rparr>\<rparr>, status_success)"
  using assms by (auto simp: runtime_start_def new_runtime_def Let_def) (simp_all add: new_observatory_def)

section \<open>Ingesting without workers\<close>

text \<open>The one schedule there is when the caller applies the batch itself.\<close>

definition inline_schedule :: "process_env \<Rightarrow> command_context \<Rightarrow> nat \<Rightarrow> schedule" where
  "inline_schedule env cx n =
     \<lparr>sc_submit = [ApplyDirect 0 (map (make_clock cx env) [0..<n]), ArriveDirect 0],
      sc_stop = [StopSave (bc_snapshot_format (pe_build env)) (pe_write env) (make_clock cx env n)]\<rparr>"

lemma submit_inline:
  assumes "rt_pool r = None" and "ob_started (rt_ob r)" and "rt_calls r = []" and "length instants = length (bt_records b)"
  shows "\<exists>r'. submit_call [ApplyDirect 0 instants, ArriveDirect 0] b r = Some (r', status_success)
    \<and> rt_ob r' = apply_batch (rt_ob r) (zip (bt_records b) instants) \<and> rt_files r' = rt_files r
    \<and> rt_stop r' = rt_stop r \<and> rt_pool r' = None"
  using assms
  by (simp add: submit_call_def submit_begin_def Let_def apply_direct_def arrive_direct_def set_call_def submit_next_def
      arrive_def fire_def split: option.split)

lemma stop_inline:
  assumes "rt_pool r = None" and "rt_stop r = NoStop" and "cfg_persist_on_stop (ob_config (rt_ob r))"
    and "cfg_snapshot_path (ob_config (rt_ob r)) \<noteq> []"
    and "persist (bc_snapshot_format (pe_build env)) (pe_write env) (rt_files r) (rt_ob r) now = (states, ob', result)"
  shows "\<exists>r'. stop_call env [StopSave (bc_snapshot_format (pe_build env)) (pe_write env) now] r = Some (r', swr_status result)
    \<and> rt_files r' = last states"
  using assms by (simp add: stop_call_def stop_begin_def stop_save_def stop_finish_def Let_def)

lemma exit_ok_iff: "exit_code_for (status_code s) = Exit_Ok \<longleftrightarrow> status_ok s"
  by (cases "status_code s") (simp_all add: status_ok_def)

text \<open>A run of \<^verbatim>\<open>ingest\<close> reloads, applies the records of its input, and saves.\<close>

definition inline_ingest :: "process_env \<Rightarrow> command_context \<Rightarrow> string \<Rightarrow> string \<Rightarrow> bool" where
  "inline_ingest env cx db text \<longleftrightarrow>
     require_db cx = Some db \<and> \<not> option_has (cx_options cx) ''workers'' \<and> \<not> option_has (cx_options cx) ''no-persist''
     \<and> read_text_input env (option_get_or (cx_options cx) ''input'' ''-'') kMaxInputBytes = Some text
     \<and> status_ok (validate_config (ingest_config cx db))
     \<and> status_ok (po_status (parse_batch text (cfg_policy (ingest_config cx db))))"

lemma inline_ingest_config:
  assumes "inline_ingest env cx db text"
  shows "db \<noteq> []" and "cfg_workers (ingest_config cx db) = 0" and "cfg_restore_on_start (ingest_config cx db)"
    and "cfg_persist_on_stop (ingest_config cx db)" and "cfg_snapshot_path (ingest_config cx db) = db"
  using assms
  by (auto simp: inline_ingest_def require_db_def ingest_config_def make_config_def default_config_def Let_def
      split: option.splits if_splits)

lemma ingest_runs:
  fixes env cx
  defines "clock \<equiv> make_clock cx env" and "version \<equiv> bc_snapshot_format (pe_build env)"
  assumes inline: "inline_ingest env cx db text"
    and outcome: "outcome = parse_batch text (cfg_policy (ingest_config cx db))" and records: "records = bt_records (po_batch outcome)"
    and reload: "reload_file version (pe_read env) (pe_files env) (new_observatory (ingest_config cx db)) = (ob, s)"
    and fine: "status_ok s \<or> status_code s = SC_NotFound"
    and p: "persist version (pe_write env) (pe_files env) (apply_batch (ob\<lparr>ob_started := True\<rparr>) (timed clock records))
      (clock (length records)) = (states, ob', result)"
  shows "\<exists>r. run_ingest env (inline_schedule env cx (length records)) cx
      = Some (ingest_end outcome status_success (swr_status result) r) \<and> rt_files r = last states"
proof -
  let ?c = "ingest_config cx db" and ?n = "length records"
  note i = inline [unfolded inline_ingest_def] and c = inline_ingest_config [OF inline]
  have cfg: "ob_config ob = ?c"
    using reload_config [of _ "new_observatory ?c"] reload by (metis fst_conv new_observatory_config(1) reload_file_def)
  let ?r = "(new_runtime ?c (pe_files env))\<lparr>rt_ob := ob\<lparr>ob_started := True\<rparr>\<rparr>"
  have start: "runtime_start version (pe_read env) (new_runtime ?c (pe_files env)) = Some (?r, status_success)"
    using start_inline [OF c(2,3) _ _ reload fine] c i by simp
  have "length (map clock [0..<?n]) = length (bt_records (po_batch outcome))" by (simp add: records)
  from submit_inline [OF _ _ _ this, of ?r] obtain r2 where submitted:
    "submit_call [ApplyDirect 0 (map clock [0..<?n]), ArriveDirect 0] (po_batch outcome) ?r = Some (r2, status_success)"
    and r2: "rt_ob r2 = apply_batch (ob\<lparr>ob_started := True\<rparr>) (timed clock records)" "rt_files r2 = pe_files env"
      "rt_stop r2 = NoStop" "rt_pool r2 = None"
    using c(2) by (auto simp: new_runtime_def timed_def records)
  have "ob_config (rt_ob r2) = ?c" by (simp add: r2 cfg)
  with stop_inline [of r2 env "clock ?n" states ob' result] p r2 c obtain r3 where
    stopped: "stop_call env [StopSave version (pe_write env) (clock ?n)] r2 = Some (r3, swr_status result)" "rt_files r3 = last states"
    by (auto simp: version_def)
  have "run_ingest env (inline_schedule env cx ?n) cx = Some (ingest_end outcome status_success (swr_status result) r3)"
    using i start submitted stopped(1)
    by (simp add: run_ingest_def Let_def inline_schedule_def clock_def version_def flip: outcome)
  with stopped(2) show ?thesis by blast
qed

lemma ingest_saves:
  fixes env cx
  defines "clock \<equiv> make_clock cx env" and "version \<equiv> bc_snapshot_format (pe_build env)"
  assumes inline: "inline_ingest env cx db text"
    and records: "records = bt_records (po_batch (parse_batch text (cfg_policy (ingest_config cx db))))"
    and run: "run_ingest env (inline_schedule env cx (length records)) cx = Some out" and ok: "px_exit out = Exit_Ok"
  obtains ob s states ob' result where
    "reload_file version (pe_read env) (pe_files env) (new_observatory (ingest_config cx db)) = (ob, s)"
    and "persist version (pe_write env) (pe_files env) (apply_batch (ob\<lparr>ob_started := True\<rparr>) (timed clock records))
      (clock (length records)) = (states, ob', result)"
    and "status_ok (swr_status result)" and "px_files out = last states"
proof -
  let ?c = "ingest_config cx db"
  note i = inline [unfolded inline_ingest_def] and c = inline_ingest_config [OF inline]
  obtain ob s where reload: "reload_file version (pe_read env) (pe_files env) (new_observatory ?c) = (ob, s)" by (metis surj_pair)
  have fine: "status_ok s \<or> status_code s = SC_NotFound"
  proof (rule ccontr)
    assume "\<not> ?thesis"
    then have "\<exists>r. runtime_start version (pe_read env) (new_runtime ?c (pe_files env)) = Some (r, s)"
      using c i reload by (simp add: runtime_start_def new_runtime_def Let_def) (simp add: new_observatory_def)
    with \<open>\<not> ?thesis\<close> run ok i show False
      by (auto simp: run_ingest_def Let_def failed_def exit_ok_iff version_def)
  qed
  obtain states ob' result where p: "persist version (pe_write env) (pe_files env)
      (apply_batch (ob\<lparr>ob_started := True\<rparr>) (timed clock records)) (clock (length records)) = (states, ob', result)"
    by (metis prod_cases3)
  obtain r3 where "out = ingest_end (parse_batch text (cfg_policy ?c)) status_success (swr_status result) r3" "rt_files r3 = last states"
    using ingest_runs [OF inline refl records reload [unfolded version_def] fine p [unfolded version_def clock_def]] run by auto
  with ok have "status_ok (swr_status result)" and "px_files out = last states"
    by (auto simp: ingest_end_def Let_def exit_ok_iff split: if_splits)
  with reload p that show thesis by blast
qed

section \<open>A database\<close>

text \<open>
  The file at the path of \<open>c\<close> stands for an observatory that was never restarted: whoever reloads it with the
  same policy and families continues that observatory. A missing file stands for a new one.
\<close>

definition holds_db :: "u32 \<Rightarrow> runtime_config \<Rightarrow> file_system \<Rightarrow> observatory \<Rightarrow> bool" where
  "holds_db version c fs unbroken \<longleftrightarrow>
     (\<forall>c' env ob s. successor c c' \<longrightarrow> env (cfg_snapshot_path c) = no_read_faults (cfg_snapshot_path c) \<longrightarrow>
        reload_file version env fs (new_observatory c') = (ob, s) \<longrightarrow>
        (status_ok s \<or> status_code s = SC_NotFound) \<and> continues c ob unbroken)"

lemma missing_file:
  assumes "fs path = None" and "fs (snapshot_backup_path path) = None"
  shows "\<not> slr_ok (read_snapshot version env fs path p)"
    and "status_code (slr_status (read_snapshot version env fs path p)) = SC_NotFound"
  using assms
  by (simp_all add: read_snapshot_def load_once_def read_file_def failure_def load_failed_def file_exists_def Let_def
      empty_load_result_def)

lemma new_db_holds:
  assumes "fs (cfg_snapshot_path c) = None" and "fs (snapshot_backup_path (cfg_snapshot_path c)) = None"
    and "cfg_snapshot_path c \<noteq> []"
  shows "holds_db version c fs (new_observatory c)"
  unfolding holds_db_def
proof (intro allI impI)
  fix c' env ob s
  assume c': "successor c c'" and "reload_file version env fs (new_observatory c') = (ob, s)"
  moreover have path: "cfg_snapshot_path c' = cfg_snapshot_path c" using c' by (simp add: successor_def)
  ultimately have ob: "ob = (new_observatory c')\<lparr>ob_restored := False, ob_load_detail := ''no snapshot present''\<rparr>"
    and "status_code s = SC_NotFound"
    using missing_file [OF assms(1,2), of version env "cfg_policy c'"] assms(3) path
    by (auto simp: reload_file_def reload_def)
  then show "(status_ok s \<or> status_code s = SC_NotFound) \<and> continues c ob (new_observatory c)"
    using continues_new [OF c'] by (simp add: flags_keep)
qed

lemma saved_db_holds:
  assumes "continues c ob unbroken" and "restartable version c" and "in_i64 now"
    and "persist version faults fs ob now = (states, ob', result)" and "status_ok (swr_status result)"
  shows "holds_db version c (last states) unbroken"
  unfolding holds_db_def
proof (intro allI impI)
  fix c' env ob1 s
  assume "successor c c'" and "env (cfg_snapshot_path c) = no_read_faults (cfg_snapshot_path c)"
    and r: "reload_file version env (last states) (new_observatory c') = (ob1, s)"
  then have "env (cfg_snapshot_path c') = no_read_faults (cfg_snapshot_path c')" by (simp add: successor_def)
  from continues_restart [where env = env, OF assms \<open>successor c c'\<close> this] r
  show "(status_ok s \<or> status_code s = SC_NotFound) \<and> continues c ob1 unbroken" by simp
qed

text \<open>
  Runs of \<^verbatim>\<open>ingest\<close> on one path that reported success, without workers, each with an input and a clock of its
  own; other files may change in between. The last argument has been given all the records.
\<close>

definition ingests :: "runtime_config \<Rightarrow> process_env \<Rightarrow> command_context \<Rightarrow> string \<Rightarrow> bool" where
  "ingests c env cx text \<longleftrightarrow>
     inline_ingest env cx (cfg_snapshot_path c) text \<and> successor c (ingest_config cx (cfg_snapshot_path c))
     \<and> pe_read env (cfg_snapshot_path c) = no_read_faults (cfg_snapshot_path c)
     \<and> (\<forall>k. in_i64 (make_clock cx env k))"

definition input_records :: "runtime_config \<Rightarrow> string \<Rightarrow> parsed_record list" where
  "input_records c text = bt_records (po_batch (parse_batch text (cfg_policy c)))"

inductive ingested :: "u32 \<Rightarrow> runtime_config \<Rightarrow> file_system \<Rightarrow> observatory \<Rightarrow> bool" for version c where
  new_db: "fs (cfg_snapshot_path c) = None \<Longrightarrow> fs (snapshot_backup_path (cfg_snapshot_path c)) = None
    \<Longrightarrow> ingested version c fs (new_observatory c)"
| ingest: "ingested version c fs unbroken \<Longrightarrow> pe_files env = fs \<Longrightarrow> bc_snapshot_format (pe_build env) = version
    \<Longrightarrow> ingests c env cx text
    \<Longrightarrow> run_ingest env (inline_schedule env cx (length (input_records c text))) cx = Some out \<Longrightarrow> px_exit out = Exit_Ok
    \<Longrightarrow> ingested version c (px_files out) (apply_batch unbroken (timed (make_clock cx env) (input_records c text)))"

lemma ingested_holds:
  assumes "ingested version c fs unbroken" and "restartable version c"
  shows "holds_db version c fs unbroken"
  using assms(1)
proof induction
  case (new_db fs)
  then show ?case using assms(2) by (simp add: new_db_holds restartable_def)
next
  case (ingest fs unbroken env cx input out)
  let ?db = "cfg_snapshot_path c" let ?c = "ingest_config cx ?db" and ?rs = "input_records c input"
  note i = ingest.hyps(4) [unfolded ingests_def]
  have pol: "cfg_policy ?c = cfg_policy c" using i by (simp add: successor_def same_setup_def)
  have rs: "?rs = bt_records (po_batch (parse_batch input (cfg_policy ?c)))" by (simp add: input_records_def pol)
  obtain ob s states ob' result where
    reload: "reload_file version (pe_read env) fs (new_observatory ?c) = (ob, s)"
    and p: "persist version (pe_write env) fs (apply_batch (ob\<lparr>ob_started := True\<rparr>) (timed (make_clock cx env) ?rs))
      (make_clock cx env (length ?rs)) = (states, ob', result)"
    and ok: "status_ok (swr_status result)" "px_files out = last states"
    using ingest_saves [OF _ rs ingest.hyps(5,6)] i ingest.hyps(2,3) by metis
  have "continues c ob unbroken" using ingest.IH reload i unfolding holds_db_def by blast
  moreover have "list_all input_typed (timed (make_clock cx env) ?rs)"
    using i parsed_records_typed by (intro timed_typed) (simp_all add: input_records_def)
  ultimately have "continues c (apply_batch (ob\<lparr>ob_started := True\<rparr>) (timed (make_clock cx env) ?rs))
      (apply_batch unbroken (timed (make_clock cx env) ?rs))"
    by (intro continues_batch) (simp_all add: flags_keep)
  from saved_db_holds [OF this assms(2) _ p ok(1)] i ok(2) show ?case by simp
qed

section \<open>Reports\<close>

lemma load_db:
  assumes "holds_db version c (pe_files env) unbroken" and "require_db cx = Some (cfg_snapshot_path c)"
    and "successor c (report_config cx (cfg_snapshot_path c))"
    and "status_ok (validate_config (report_config cx (cfg_snapshot_path c)))"
    and "bc_snapshot_format (pe_build env) = version"
    and "pe_read env (cfg_snapshot_path c) = no_read_faults (cfg_snapshot_path c)"
  obtains r where "load env cx = Some (Inr r)" and "continues c (rt_ob r) unbroken"
proof -
  let ?c = "report_config cx (cfg_snapshot_path c)"
  have path: "cfg_snapshot_path c \<noteq> []" using assms(2) by (auto simp: require_db_def split: option.splits if_splits)
  have c: "cfg_workers ?c = 0" "cfg_restore_on_start ?c" "cfg_snapshot_path ?c = cfg_snapshot_path c"
    by (simp_all add: report_config_def make_config_def default_config_def Let_def)
  obtain ob s where reload: "reload_file version (pe_read env) (pe_files env) (new_observatory ?c) = (ob, s)" by (metis surj_pair)
  with assms(1,3,6) have fine: "status_ok s \<or> status_code s = SC_NotFound" and ob: "continues c ob unbroken"
    unfolding holds_db_def by blast+
  from start_inline [OF c(1,2) _ assms(4) reload fine] c(3) path assms(2,5)
  have "load env cx = Some (Inr ((new_runtime ?c (pe_files env))\<lparr>rt_ob := ob\<lparr>ob_started := True\<rparr>\<rparr>))"
    by (simp add: load_def)
  then show thesis by (rule that) (simp add: flags_keep ob)
qed

text \<open>Every report command returns and leaves the files alone.\<close>

lemma load_returns: "load env cx \<noteq> None"
  by (simp add: load_def runtime_start_def new_runtime_def report_config_def Let_def split: option.split)

lemma with_loaded_returns:
  assumes "\<And>r. px_files (body r) = pe_files env"
  shows "\<exists>e. with_loaded env cx body = Some e \<and> px_files e = pe_files env"
proof -
  obtain loaded where "load env cx = Some loaded" using load_returns by blast
  then show ?thesis using assms by (cases loaded) (auto simp: with_loaded_def failed_def)
qed

lemma printed_sel [simp]: "px_files (printed env text) = pe_files env" "px_files (failed env message code) = pe_files env"
  by (simp_all add: printed_def failed_def)

lemma reports_change_nothing:
  "\<exists>e. run_inspect env cx = Some e \<and> px_files e = pe_files env"
  "\<exists>e. run_history env cx = Some e \<and> px_files e = pe_files env"
  "\<exists>e. run_classify env cx = Some e \<and> px_files e = pe_files env"
  "\<exists>e. run_explain env cx = Some e \<and> px_files e = pe_files env"
  "\<exists>e. run_export env cx = Some e \<and> px_files e = pe_files env"
  unfolding run_inspect_def run_history_def run_classify_def run_explain_def run_export_def
  by (rule with_loaded_returns; simp add: Let_def split: option.split)+

text \<open>The evidence a report shows is that of the observatory that was never restarted.\<close>

lemma sorted_links_continues:
  "continues c (rt_ob r) unbroken \<Longrightarrow> sorted_links r = sort_key (\<lambda>entry. lf_id (le_facts entry)) (links (ob_registry unbroken))"
  by (simp add: sorted_links_def runtime_links_def continues_answers(1))

lemma export_continues:
  "continues c ob unbroken \<Longrightarrow> export_evidence format ob clock entries = export_evidence format unbroken clock entries"
  by (simp add: export_evidence_def continues_answers(4))


text \<open>A process with an empty standard input; \<^verbatim>\<open>linkobs ingest --db=s\<close>, then \<^verbatim>\<open>linkobs export --db=s --format=csv\<close>.\<close>

definition cli_env :: "file_system \<Rightarrow> process_env" where
  "cli_env fs =
     \<lparr>pe_build = \<lparr>bc_version = ''1'', bc_product = ''p'', bc_vendor = ''v'', bc_copyright = ''c'', bc_snapshot_format = 1,
        bc_protocol = 1, bc_record_format = 1\<rparr>,
      pe_files = fs, pe_stdin = [], pe_read = no_read_faults, pe_write = no_write_faults, pe_clock = (\<lambda>k. 20)\<rparr>"

definition ingest_context :: command_context where
  "ingest_context = make_context ''linkobs'' [''--db=s'']"

definition export_context :: command_context where
  "export_context = make_context ''linkobs'' [''--db=s'', ''--format=csv'']"

lemma example_contexts:
  "cx_options ingest_context = no_options\<lparr>ol_values := [''db'' \<mapsto> ''s'']\<rparr>" "cx_now_ns ingest_context = None"
  "cx_options export_context = no_options\<lparr>ol_values := [''db'' \<mapsto> ''s'', ''format'' \<mapsto> ''csv'']\<rparr>" "cx_now_ns export_context = None"
  by (simp_all add: ingest_context_def export_context_def make_context_def Let_def is_flag_def add_assignment_def add_value_def
      no_options_def option_has_def)

lemma example_config_ingest:
  "ingest_config ingest_context ''s''
     = (default_config make_default_policy)\<lparr>cfg_snapshot_path := ''s'', cfg_workers := 0\<rparr>"
  "report_config export_context ''s''
     = (default_config make_default_policy)\<lparr>cfg_snapshot_path := ''s'', cfg_workers := 0, cfg_persist_on_stop := False\<rparr>"
  by (simp_all add: ingest_config_def report_config_def make_config_def default_config_def Let_def example_contexts option_has_def
      option_get_u64_def option_get_or_def no_options_def)

lemma example_configs_valid:
  "status_ok (validate_config (ingest_config ingest_context ''s''))"
  "status_ok (validate_config (report_config export_context ''s''))"
  "restartable 1 (ingest_config ingest_context ''s'')"
  using default_policy_valid
  by (simp_all add: example_config_ingest validate_config_def default_config_def status_ok_def status_success_def restartable_def
      codec_limits_def room_for_header_def make_default_policy_def default_limits_def kMaxSourcesBound_def kMaxEvidencePerSlotBound_def)

text \<open>The ingest of an empty input saves an empty database.\<close>

lemma example_inline: "inline_ingest (cli_env fs) ingest_context ''s'' []"
  using example_configs_valid(1)
  by (simp add: inline_ingest_def example_contexts require_db_def option_has_def option_get_def option_get_or_def no_options_def
      read_text_input_def cli_env_def parse_batch_def parse_batch_loop.simps read_lines.simps status_ok_def status_success_def)

lemma no_input [simp]: "bt_records (po_batch (parse_batch [] p)) = []"
  by (simp add: parse_batch_def parse_batch_loop.simps empty_parse_outcome_def empty_batch_def)

lemma example_ingest:
  obtains out where "run_ingest (cli_env (\<lambda>q. None)) (inline_schedule (cli_env (\<lambda>q. None)) ingest_context 0) ingest_context = Some out"
    and "px_exit out = Exit_Ok"
proof -
  let ?env = "cli_env (\<lambda>q. None)" and ?c = "ingest_config ingest_context ''s''"
  obtain ob s where reload: "reload_file 1 (pe_read ?env) (\<lambda>q. None) (new_observatory ?c) = (ob, s)" by (metis surj_pair)
  have path: "cfg_snapshot_path ?c = ''s''" by (simp add: example_config_ingest)
  then have ob: "ob = (new_observatory ?c)\<lparr>ob_restored := False, ob_load_detail := ''no snapshot present''\<rparr>"
    and missing: "status_code s = SC_NotFound"
    using reload missing_file [of "\<lambda>q. None" "''s''" 1 "pe_read ?env" "cfg_policy ?c"]
    by (auto simp: reload_file_def reload_def)
  let ?ob = "apply_batch (ob\<lparr>ob_started := True\<rparr>) (timed (make_clock ingest_context ?env) [])"
  obtain states ob' result where p: "persist 1 no_write_faults (\<lambda>q. None) ?ob 20 = (states, ob', result)" by (metis prod_cases3)
  have "status_ok (swr_status (snd (snd (persist 1 no_write_faults (\<lambda>q. None) ?ob 20))))"
    by (rule empty_save_succeeds) (simp_all add: timed_def apply_batch_def ob new_observatory_def example_config_ingest default_config_def)
  then have saved: "status_ok (swr_status result)" by (simp add: p)
  have "make_clock ingest_context ?env (length ([] :: parsed_record list)) = 20"
    by (simp add: make_clock_def example_contexts cli_env_def)
  with ingest_runs [OF example_inline [of "\<lambda>q. None"] refl _ _ _, of "[]" ob s states ob' result] p reload missing
  obtain r where "run_ingest ?env (inline_schedule ?env ingest_context 0) ingest_context
      = Some (ingest_end (parse_batch [] (cfg_policy ?c)) status_success (swr_status result) r)"
    by (auto simp: cli_env_def)
  moreover have "px_exit (ingest_end (parse_batch [] (cfg_policy ?c)) status_success (swr_status result) r) = Exit_Ok"
    using saved by (simp add: ingest_end_def Let_def parse_batch_def parse_batch_loop.simps empty_parse_outcome_def
        status_ok_def status_success_def)
  ultimately show thesis by (rule that)
qed


section \<open>Verification\<close>

lemma load_once_own [simp]: "\<not> slr_recovered_from_backup (load_once version env fs path p)"
  by (simp add: load_once_def load_payload_def header_failed_def load_failed_def empty_load_result_def Let_def
      split: sum.split prod.split)

text \<open>\<^verbatim>\<open>verify\<close> succeeds on an intact file, and tells a recovery from the backup by its exit code.\<close>

lemma verify_intact:
  assumes "require_db cx = Some db"
    and "slr_ok (load_once (bc_snapshot_format (pe_build env)) (pe_read env) (pe_files env) db make_default_policy)"
  shows "px_exit (run_verify env cx) = Exit_Ok"
  using assms by (simp add: run_verify_def read_snapshot_def Let_def) (simp add: printed_def)

lemma verify_recovered:
  fixes env
  defines "v \<equiv> bc_snapshot_format (pe_build env)"
  assumes "require_db cx = Some db" and "\<not> slr_ok (load_once v (pe_read env) (pe_files env) db make_default_policy)"
    and "slr_ok (load_once v (pe_read env) (pe_files env) (snapshot_backup_path db) make_default_policy)"
    and "\<not> rf_open (pe_read env (snapshot_backup_path db))"
  shows "px_exit (run_verify env cx) = Exit_Integrity"
proof -
  have "pe_files env (snapshot_backup_path db) \<noteq> None"
  proof
    assume "pe_files env (snapshot_backup_path db) = None"
    with assms(4) show False by (simp add: load_once_def read_file_def failure_def load_failed_def empty_load_result_def)
  qed
  moreover have "snapshot_backup_path db \<noteq> db" by (simp add: snapshot_backup_path_def)
  ultimately have "slr_ok (read_snapshot v (pe_read env) (pe_files env) db make_default_policy)"
    and "slr_recovered_from_backup (read_snapshot v (pe_read env) (pe_files env) db make_default_policy)"
    using assms(3-5) by (simp_all add: read_snapshot_def file_exists_def Let_def)
  then show ?thesis using assms(2) by (simp add: run_verify_def Let_def v_def)
qed

section \<open>What goes wrong quietly\<close>

text \<open>
  An input with more records than a batch may hold is dropped as a whole: nothing is submitted, nothing
  is reported, and the command succeeds.
\<close>

lemma oversized_input_is_dropped:
  assumes "outcome = parse_batch text p" and "\<not> status_ok (po_status outcome)" and "po_rejected outcome = 0"
  shows "px_exit (ingest_end outcome status_success status_success r) = Exit_Ok
    \<and> px_err (ingest_end outcome status_success status_success r) = []
    \<and> px_out (ingest_end outcome status_success status_success r) = ingest_summary 0 0 (statistics r)"
proof -
  have "outcome_bounded p outcome"
    unfolding assms(1) parse_batch_def parse_batch_loop_lines
    using scan_lines_bounded [of p empty_parse_outcome "text_lines text" 0]
    by (simp add: outcome_bounded_def empty_parse_outcome_def empty_batch_def)
  then have "po_errors outcome = []" using assms(3) by (simp add: outcome_bounded_def)
  then show ?thesis using assms(2,3) by (simp add: ingest_end_def Let_def status_ok_def status_success_def)
qed

text \<open>Once there is any evidence, a link that was never seen is classified instead of being reported as unknown.\<close>

lemma unknown_link_is_classified: "es_slots (ob_store ob) \<noteq> [] \<Longrightarrow> classify_named ob name now \<noteq> None"
  by (simp add: classify_named_def classify_link_def)

end
