(* ===== verification/Tool_Commands.thy ===== *)
theory Tool_Commands
  imports Commands
begin

text \<open>
  The remaining commands: \<^verbatim>\<open>serve\<close> and \<^verbatim>\<open>send\<close> (\<^verbatim>\<open>apps/linkobs/cmd_transport.cpp\<close>), the generated scenario with the
  self test and the parts of the benchmark that do not measure time (\<^verbatim>\<open>apps/linkobs/cmd_tools.cpp\<close>), and \<^verbatim>\<open>main\<close>.
\<close>

section \<open>Serving\<close>

definition serve_options :: "command_context \<Rightarrow> string \<Rightarrow> 16 word \<Rightarrow> server_options" where
  "serve_options cx host port =
     default_server_options
       \<lparr>op_host := host, op_port := port, op_allow_non_loopback := option_has (cx_options cx) ''allow-non-loopback'',
        op_port_file := option_get_or (cx_options cx) ''port-file'' [],
        op_max_connections := option_get_u64 (cx_options cx) ''max-connections'' 8,
        op_connection_limit := option_get_u64 (cx_options cx) ''connection-limit'' 0,
        op_max_payload_bytes := option_get_u64 (cx_options cx) ''max-payload'' (1024 * 1024)\<rparr>"

definition serve_config :: "command_context \<Rightarrow> string \<Rightarrow> runtime_config" where
  "serve_config cx db =
     (make_config cx db True False)\<lparr>cfg_workers := option_get_u64 (cx_options cx) ''workers'' 1\<rparr>"

text \<open>
  What happens between listening and the end of \<^verbatim>\<open>serve\<close> is the work of \<open>Server\<close> and \<open>Runtime\<close>; here it is an
  argument: the runtime it leaves, the statistics and the status.
\<close>

type_synonym session = "server_options \<Rightarrow> listener \<Rightarrow> runtime \<Rightarrow> runtime \<times> server_statistics \<times> status"

definition serve_summary :: "server_statistics \<Rightarrow> string" where
  "serve_summary stats =
     ''connections='' @ to_dec (st_connections_accepted stats) @ '' refused='' @ to_dec (st_connections_refused stats)
     @ '' frames='' @ to_dec (st_frames_received stats) @ '' pushes='' @ to_dec (st_pushes stats)
     @ '' queries='' @ to_dec (st_queries stats) @ '' shutdowns='' @ to_dec (st_shutdowns stats)
     @ '' protocol-errors='' @ to_dec (st_protocol_errors stats) @ [newline]"

definition run_serve ::
  "process_env \<Rightarrow> listen_environment \<Rightarrow> session \<Rightarrow> rt_action list \<Rightarrow> command_context \<Rightarrow> process_end option" where
  "run_serve env net session stopping cx =
     (case require_db cx of
        None \<Rightarrow> Some (failed env no_db Exit_Usage)
      | Some db \<Rightarrow>
          (case option_get (cx_options cx) ''listen'' of
             None \<Rightarrow> Some (failed env (error_line ''--listen HOST:PORT is required'') Exit_Usage)
           | Some address \<Rightarrow>
               (case parse_endpoint address of
                  None \<Rightarrow> Some (failed env (error_line ''--listen must be HOST:PORT'') Exit_Usage)
                | Some (host, port) \<Rightarrow>
                    let opts = serve_options cx host port; c = serve_config cx db in
                    (case runtime_start (bc_snapshot_format (pe_build env)) (pe_read env) (new_runtime c (pe_files env)) of
                       None \<Rightarrow> None
                     | Some (r1, start_status) \<Rightarrow>
                         if \<not> status_ok start_status \<and> status_code start_status \<noteq> SC_NotFound
                         then Some (failed env (error_line (status_to_string start_status)) (exit_code_for (status_code start_status)))
                         else
                           (case listen net opts (rt_files r1) of
                              (ln, files, listening) \<Rightarrow>
                                if \<not> status_ok listening
                                then map_option (\<lambda>(r2, _). \<lparr>px_out = [], px_err = error_line (status_to_string listening),
                                       px_exit = exit_code_for (status_code listening), px_files = rt_files r2\<rparr>)
                                       (stop_call env stopping (r1\<lparr>rt_files := files\<rparr>))
                                else
                                  (case session opts ln (r1\<lparr>rt_files := files\<rparr>) of
                                     (r2, stats, served) \<Rightarrow>
                                       map_option (\<lambda>(r3, stopped).
                                         let out = ''listening '' @ bound_address opts ln @ [newline] @ serve_summary stats in
                                         if \<not> status_ok served
                                         then \<lparr>px_out = out, px_err = error_line (status_to_string served),
                                               px_exit = exit_code_for (status_code served), px_files = rt_files r3\<rparr>
                                         else if \<not> status_ok stopped
                                         then \<lparr>px_out = out, px_err = error_line (status_to_string stopped),
                                               px_exit = exit_code_for (status_code stopped), px_files = rt_files r3\<rparr>
                                         else \<lparr>px_out = out, px_err = [], px_exit = Exit_Ok, px_files = rt_files r3\<rparr>)
                                         (stop_call env stopping r2)))))))"

section \<open>Sending\<close>

text \<open>What the network does: the results of resolving and connecting, of sending, and of \<^verbatim>\<open>recv\<close> in each request.\<close>

record network =
  nw_runtime_ok :: bool
  nw_resolved :: "string \<Rightarrow> 16 word \<Rightarrow> (bool \<times> bool \<times> int) list option"
  nw_kernel :: kernel
  nw_ping :: "recv_event list"
  nw_push :: "recv_event list"
  nw_query :: "recv_event list"
  nw_shutdown :: "recv_event list"

definition send_failed :: "process_env \<Rightarrow> string \<Rightarrow> status \<Rightarrow> process_end" where
  "send_failed env out s =
     \<lparr>px_out = out, px_err = error_line (status_to_string s), px_exit = exit_code_for (status_code s), px_files = pe_files env\<rparr>"

text \<open>A response that a request did not set keeps the text of the request before.\<close>

definition response_text :: "string \<Rightarrow> string option \<Rightarrow> string" where
  "response_text previous r = (case r of None \<Rightarrow> previous | Some text \<Rightarrow> text)"

definition send_shutdown ::
  "process_env \<Rightarrow> network \<Rightarrow> command_context \<Rightarrow> string \<Rightarrow> string \<Rightarrow> client \<Rightarrow> process_end option" where
  "send_shutdown env net cx out response ct =
     (if \<not> option_has (cx_options cx) ''shutdown'' then Some (printed env out)
      else map_option (\<lambda>((shut, text), ct').
             if \<not> status_ok shut then send_failed env out shut
             else printed env (out @ ''shutdown='' @ response_text response text @ [newline]))
             (client_shutdown (bc_protocol (pe_build env)) default_client_options (nw_kernel net) (nw_shutdown net) ct))"

definition send_query ::
  "process_env \<Rightarrow> network \<Rightarrow> command_context \<Rightarrow> string \<Rightarrow> string \<Rightarrow> client \<Rightarrow> process_end option" where
  "send_query env net cx out response ct =
     (case client_query_state (bc_protocol (pe_build env)) default_client_options (nw_kernel net)
             (option_get_or (cx_options cx) ''link'' []) (nw_query net) ct of
        None \<Rightarrow> None
      | Some ((queried, text), ct') \<Rightarrow>
          if \<not> status_ok queried then Some (send_failed env out queried)
          else let shown = response_text response text in send_shutdown env net cx (out @ shown) shown ct')"

definition send_push ::
  "process_env \<Rightarrow> network \<Rightarrow> command_context \<Rightarrow> string \<Rightarrow> string \<Rightarrow> client \<Rightarrow> process_end option" where
  "send_push env net cx out response ct =
     (let path = option_get_or (cx_options cx) ''input'' [] in
      if path = [] then send_query env net cx out response ct
      else case read_text_input env path kMaxInputBytes of
        None \<Rightarrow> Some \<lparr>px_out = out, px_err = error_line ''input could not be read'', px_exit = Exit_Io, px_files = pe_files env\<rparr>
      | Some records \<Rightarrow>
          (case client_push_records (bc_protocol (pe_build env)) default_client_options (nw_kernel net) records (nw_push net) ct of
             None \<Rightarrow> None
           | Some ((pushed, text), ct') \<Rightarrow>
               let shown = response_text response text; out' = out @ ''push='' @ shown @ [newline] in
               if \<not> status_ok pushed then Some (send_failed env out' pushed)
               else send_query env net cx out' shown ct'))"

definition run_send :: "process_env \<Rightarrow> network \<Rightarrow> command_context \<Rightarrow> process_end option" where
  "run_send env net cx =
     (case option_get (cx_options cx) ''connect'' of
        None \<Rightarrow> Some (failed env (error_line ''--connect HOST:PORT is required'') Exit_Usage)
      | Some address \<Rightarrow>
          (case parse_endpoint address of
             None \<Rightarrow> Some (failed env (error_line ''--connect must be HOST:PORT'') Exit_Usage)
           | Some (host, port) \<Rightarrow>
               (case client_connect (nw_runtime_ok net) (nw_resolved net host port) new_client of
                  (ct, connected) \<Rightarrow>
                    if \<not> status_ok connected then Some (send_failed env [] connected)
                    else
                      (case client_ping (bc_protocol (pe_build env)) default_client_options (nw_kernel net) (nw_ping net) ct of
                         None \<Rightarrow> None
                       | Some ((pinged, text), ct') \<Rightarrow>
                           let shown = response_text [] text in
                           if \<not> status_ok pinged then Some (send_failed env [] pinged)
                           else send_push env net cx (''ping='' @ shown @ [newline]) shown ct'))))"

section \<open>The generated scenario\<close>

definition splitmix_next :: "u64 \<Rightarrow> u64 \<times> u64" where
  "splitmix_next state =
     (let state' = state + 0x9E3779B97F4A7C15;
          v1 = (state' XOR drop_bit 30 state') * 0xBF58476D1CE4E5B9;
          v2 = (v1 XOR drop_bit 27 v1) * 0x94D049BB133111EB
      in (v2 XOR drop_bit 31 v2, state'))"

definition splitmix_bounded :: "u64 \<Rightarrow> u64 \<Rightarrow> u64 \<times> u64" where
  "splitmix_bounded limit state =
     (if limit = 0 then (0, state) else let r = splitmix_next state in (fst r mod limit, snd r))"

definition scenario_source :: "nat \<Rightarrow> string" where
  "scenario_source index =
     ''v=1 kind=source name=source-'' @ to_dec (of_nat index) @ '' authority=primary provenance=synthetic'' @ [newline]"

definition scenario_link :: "nat \<Rightarrow> string" where
  "scenario_link index =
     ''v=1 kind=link name=link-'' @ to_dec (of_nat index)
     @ '' link-kind=physical linkgen=gen-0 provenance=synthetic capacity-in-bps=100000000000 capacity-out-bps=100000000000''
     @ [newline]"

record scenario_state =
  gs_random :: u64
  gs_octets :: "u64 list"
  gs_revision :: "u64 list"
  gs_observed :: i64

definition scenario_observation :: "nat \<Rightarrow> nat \<Rightarrow> u64 \<Rightarrow> i64 \<Rightarrow> u64 \<Rightarrow> string" where
  "scenario_observation link source revision observed octets =
     ''v=1 kind=observation link=link-'' @ to_dec (of_nat link) @ '' metric=octets/in source=source-'' @ to_dec (of_nat source)
     @ '' incarnation=inc-0 epoch=epoch-0 generation=gen-0 revision='' @ to_dec revision
     @ '' observed-at='' @ to_dec_i64 observed @ '' received-at='' @ to_dec_i64 observed
     @ '' counter='' @ to_dec octets @ '' width=bits64'' @ [newline]"

definition scenario_step :: "nat \<Rightarrow> nat \<Rightarrow> nat \<Rightarrow> scenario_state \<Rightarrow> string \<times> scenario_state" where
  "scenario_step link_count source_count index st =
     (let link = index mod link_count; source = index mod source_count; slot = link * source_count + source;
          r = splitmix_bounded 1000000 (gs_random st);
          octets = gs_octets st ! slot + 1000000 + fst r;
          revision = gs_revision st ! source + 1;
          observed = gs_observed st + 1000000
      in (scenario_observation link source revision observed octets,
          \<lparr>gs_random = snd r, gs_octets = (gs_octets st)[slot := octets], gs_revision = (gs_revision st)[source := revision],
           gs_observed = observed\<rparr>))"

fun scenario_records :: "nat \<Rightarrow> nat \<Rightarrow> nat list \<Rightarrow> scenario_state \<Rightarrow> string" where
  "scenario_records link_count source_count [] st = []"
| "scenario_records link_count source_count (index # later) st =
     (case scenario_step link_count source_count index st of (text, st') \<Rightarrow> text @ scenario_records link_count source_count later st')"

definition scenario_start :: "nat \<Rightarrow> nat \<Rightarrow> u64 \<Rightarrow> scenario_state" where
  "scenario_start link_count source_count seed =
     \<lparr>gs_random = seed, gs_octets = replicate (link_count * source_count) 0, gs_revision = replicate source_count 0,
      gs_observed = 1700000000000000000\<rparr>"

definition build_scenario :: "nat \<Rightarrow> nat \<Rightarrow> nat \<Rightarrow> u64 \<Rightarrow> string" where
  "build_scenario records link_count source_count seed =
     concat (map scenario_source [0..<source_count]) @ concat (map scenario_link [0..<link_count])
     @ scenario_records link_count source_count [0..<records] (scenario_start link_count source_count seed)"

section \<open>Self test\<close>

definition check_line :: "string \<times> bool \<Rightarrow> string" where
  "check_line c = (if snd c then ''PASS '' else ''FAIL '') @ fst c @ [newline]"

definition selftest_config :: runtime_config where
  "selftest_config =
     (default_config make_default_policy)\<lparr>cfg_workers := 0, cfg_incarnation_name := ''selftest''\<rparr>"

definition selftest_checks :: "process_env \<Rightarrow> u64 \<Rightarrow> (string \<times> bool) list" where
  "selftest_checks env seed =
     (let r0 = new_runtime selftest_config (pe_files env);
          start_time = 1700000000000000000;
          s = runtime_start (bc_snapshot_format (pe_build env)) (pe_read env) r0;
          ob = (case s of Some (r, _) \<Rightarrow> rt_ob r | None \<Rightarrow> rt_ob r0);
          parsed = parse_batch (build_scenario 8 1 1 seed) (cfg_policy selftest_config);
          ob1 = apply_batch ob (map (\<lambda>r. (r, start_time)) (bt_records (po_batch parsed)));
          now = manual_clock_advance_by start_time (from_seconds 120);
          classification = classify_named ob1 ''link-0'' now
      in [(''runtime-starts'', (case s of Some (_, status) \<Rightarrow> status_ok status | None \<Rightarrow> False)),
          (''scenario-parses'', status_ok (po_status parsed) \<and> po_rejected parsed = 0),
          (''scenario-applies'', True),
          (''classification-present'', classification \<noteq> None)]
         @ (case classification of
              Some c \<Rightarrow> [(''no-utilization-without-capacity-derivation'', cl_state c = LS_Stale \<or> cl_state c = LS_Unknown)]
            | None \<Rightarrow> [])
         @ [(''records-accepted'', rs_records_accepted (ob_stats ob1) = 8),
            (''no-fences'', rs_records_fenced (ob_stats ob1) = 0)])"

definition run_selftest :: "process_env \<Rightarrow> command_context \<Rightarrow> process_end" where
  "run_selftest env cx =
     (let checks = selftest_checks env (option_get_u64 (cx_options cx) ''seed'' 1);
          failures = length (filter (\<lambda>c. \<not> snd c) checks);
          out = concat (map check_line checks)
            @ (if failures = 0 then ''selftest=PASS'' else ''selftest=FAIL'') @ '' failures='' @ to_dec (of_nat failures) @ [newline]
      in (printed env out)\<lparr>px_exit := (if failures = 0 then Exit_Ok else Exit_Internal)\<rparr>)"

section \<open>Benchmark batches\<close>

text \<open>Cutting a scenario into batches: \<open>current\<close> is the text since the last cut.\<close>

function bench_chunks :: "nat \<Rightarrow> string \<Rightarrow> nat \<Rightarrow> string \<Rightarrow> string list" where
  "bench_chunks bound current line_count rest =
     (if rest = [] then (if current = [] then [] else [current])
      else
        let piece = takeWhile (\<lambda>c. c \<noteq> newline) rest @ take 1 (dropWhile (\<lambda>c. c \<noteq> newline) rest);
            later = tl (dropWhile (\<lambda>c. c \<noteq> newline) rest);
            n = (if hd rest \<noteq> CHR ''#'' then line_count + 1 else line_count)
        in if n \<ge> bound then (current @ piece) # bench_chunks bound [] 0 later
           else bench_chunks bound (current @ piece) n later)"
  by pat_completeness auto
termination
  by (relation "measure (\<lambda>(bound, current, n, rest). length rest)") (auto simp del: length_tl)

declare bench_chunks.simps [simp del]

definition bench_refusal :: "u64 \<Rightarrow> u64 \<Rightarrow> u64 \<Rightarrow> string option" where
  "bench_refusal records link_count source_count =
     (if records = 0 \<or> link_count = 0 \<or> source_count = 0
      then Some (error_line ''--records, --links and --sources must be positive'')
      else if link_count > 100000 \<or> source_count > 100000 \<or> records > 100000000
      then Some (error_line ''benchmark parameters exceed the supported range'')
      else None)"

text \<open>The batches the benchmark would apply, or what it prints when it stops before measuring.\<close>

fun bench_parse :: "policy \<Rightarrow> string list \<Rightarrow> (string \<times> exit_code) + batch list" where
  "bench_parse p [] = Inr []"
| "bench_parse p (chunk # chunks) =
     (let parsed = parse_batch chunk p in
      if \<not> status_ok (po_status parsed)
      then Inl (error_line (''benchmark scenario did not parse: '' @ status_to_string (po_status parsed)), Exit_Data)
      else case bench_parse p chunks of Inl stop \<Rightarrow> Inl stop | Inr batches \<Rightarrow> Inr (po_batch parsed # batches))"

definition bench_batches :: "command_context \<Rightarrow> (string \<times> exit_code) + batch list" where
  "bench_batches cx =
     (let records = option_get_u64 (cx_options cx) ''records'' 200000;
          link_count = option_get_u64 (cx_options cx) ''links'' 64;
          source_count = option_get_u64 (cx_options cx) ''sources'' 4;
          seed = option_get_u64 (cx_options cx) ''seed'' 7
      in case bench_refusal records link_count source_count of
           Some message \<Rightarrow> Inl (message, Exit_Usage)
         | None \<Rightarrow>
             bench_parse make_default_policy
               (bench_chunks (unat (max_records_per_batch (pol_limits make_default_policy))) [] 0
                  (build_scenario (unat records) (unat link_count) (unat source_count) seed)))"

section \<open>The program\<close>

definition usage_text :: "build_constants \<Rightarrow> string \<Rightarrow> string" where
  "usage_text b program =
     ''Link Observatory '' @ bc_version b @ '' - '' @ bc_vendor b @ [newline]
     @ ''usage: '' @ program @ '' <command> [options]'' @ [newline, newline]
     @ ''commands:'' @ [newline]
     @ ''  ingest    --db PATH [--input FILE|-] [--workers N] [--now-ns N]'' @ [newline]
     @ ''  inspect   --db PATH [--link NAME] [--now-ns N]'' @ [newline]
     @ ''  history   --db PATH [--link NAME] [--limit N]'' @ [newline]
     @ ''  classify  --db PATH [--link NAME] [--now-ns N]'' @ [newline]
     @ ''  explain   --db PATH --link NAME [--now-ns N]'' @ [newline]
     @ ''  export    --db PATH [--link NAME] [--format lor|csv|summary]'' @ [newline]
     @ ''  verify    --db PATH'' @ [newline]
     @ ''  selftest  [--seed N]'' @ [newline]
     @ ''  bench     [--records N] [--links N] [--sources N]'' @ [newline]
     @ ''  serve     --db PATH --listen HOST:PORT [--port-file FILE]'' @ [newline]
     @ ''  send      --connect HOST:PORT [--input FILE|-]'' @ [newline]
     @ ''  version'' @ [newline]"

text \<open>
  Everything a run of the program meets besides its process environment. What the benchmark does
  after it has its batches is measuring and not modelled; its end is an argument.
\<close>

record program_run =
  pr_env :: process_env
  pr_schedule :: schedule
  pr_listen :: listen_environment
  pr_session :: session
  pr_network :: network
  pr_bench :: "batch list \<Rightarrow> process_end option"

definition run_bench :: "program_run \<Rightarrow> command_context \<Rightarrow> process_end option" where
  "run_bench pr cx =
     (case bench_batches cx of
        Inl (message, code) \<Rightarrow> Some (failed (pr_env pr) message code)
      | Inr batches \<Rightarrow> pr_bench pr batches)"

definition main :: "program_run \<Rightarrow> string list \<Rightarrow> process_end option" where
  "main pr argv =
     (let env = pr_env pr in
      case argv of
        [] \<Rightarrow> Some ((printed env (usage_text (pe_build env) ''linkobs''))\<lparr>px_exit := Exit_Usage\<rparr>)
      | [program] \<Rightarrow> Some ((printed env (usage_text (pe_build env) program))\<lparr>px_exit := Exit_Usage\<rparr>)
      | program # command # arguments \<Rightarrow>
          let cx = make_context program arguments in
          if command = ''ingest'' then run_ingest env (pr_schedule pr) cx
          else if command = ''inspect'' then run_inspect env cx
          else if command = ''history'' then run_history env cx
          else if command = ''classify'' then run_classify env cx
          else if command = ''explain'' then run_explain env cx
          else if command = ''export'' then run_export env cx
          else if command = ''verify'' then Some (run_verify env cx)
          else if command = ''selftest'' then Some (run_selftest env cx)
          else if command = ''bench'' then run_bench pr cx
          else if command = ''serve'' then run_serve env (pr_listen pr) (pr_session pr) (sc_stop (pr_schedule pr)) cx
          else if command = ''send'' then run_send env (pr_network pr) cx
          else if command = ''version'' \<or> command = ''--version'' then Some (run_version env)
          else Some \<lparr>px_out = usage_text (pe_build env) program, px_err = ''unknown command: '' @ command @ [newline],
                     px_exit = Exit_Usage, px_files = pe_files env\<rparr>)"

section \<open>Lemmas\<close>

text \<open>Cutting a scenario into batches loses nothing.\<close>

lemma bench_chunks_concat: "concat (bench_chunks bound current n rest) = current @ rest"
proof (induction bound current n rest rule: bench_chunks.induct)
  case (1 bound current n rest)
  show ?case
  proof (cases "rest = []")
    case True
    then show ?thesis by (simp add: bench_chunks.simps)
  next
    case False
    let ?d = "dropWhile (\<lambda>c. c \<noteq> newline) rest"
    have head: "take 1 d @ tl d = d" for d :: string by (cases d) simp_all
    have "takeWhile (\<lambda>c. c \<noteq> newline) rest @ take 1 ?d @ tl ?d = rest" by (simp only: head takeWhile_dropWhile_id)
    with False 1 show ?thesis by (subst bench_chunks.simps) (auto simp: Let_def)
  qed
qed

text \<open>
  A dash does not name the standard input for \<^verbatim>\<open>send\<close>: it is not taken as the value of \<^verbatim>\<open>--input\<close>, so nothing is
  pushed.
\<close>

lemma send_never_reads_standard_input:
  assumes "cx = make_context program [''--connect'', address, ''--input'', ''-'']" and "address \<noteq> []" and "hd address \<noteq> CHR ''-''"
  shows "send_push env net cx out response ct = send_query env net cx out response ct"
proof -
  have "option_get_or (cx_options cx) ''input'' [] = []"
    using assms
    by (simp add: make_context_def Let_def is_flag_def option_get_or_def add_value_def add_flag_def add_positional_def no_options_def)
  then show ?thesis by (simp add: send_push_def Let_def)
qed

text \<open>\<^verbatim>\<open>serve\<close> does not listen beyond the loopback addresses unless the option asks for it.\<close>

lemma serve_needs_permission:
  assumes "\<not> option_has (cx_options cx) ''allow-non-loopback''" and "\<not> is_loopback_host host" and "li_runtime_ok net"
  shows "listen net (serve_options cx host port) fs
    = (\<lparr>ln_listening = False, ln_bound_port = 0\<rparr>, fs, status_of SC_Rejected ''listening beyond loopback requires an explicit opt in'')"
  using assms by (simp add: listen_def serve_options_def default_server_options_def Let_def)

end
