(* ===== verification/Lock_Tracker.thy ===== *)
theory Lock_Tracker
  imports Prelude
begin

text \<open>
  The lock order audit (\<^verbatim>\<open>include/linkobs/core/lock_tracker.hpp\<close>, \<^verbatim>\<open>src/core/lock_tracker.cpp\<close>) of a build
  with tracking enabled: each thread keeps the classes of the locks it holds, an acquisition or a
  release that breaks the order is counted and reported, and tracked locks are mutexes that note
  themselves. Threads and locks are numbered; the thread-local stack is a map from threads. The main
  results: the count stays zero exactly when every thread acquires in strictly rising order and
  releases in the reverse order, a violation-free state whose waiting threads follow the order has
  no deadlock, and a deadlock itself is never reported.
\<close>

section \<open>The audit\<close>

datatype lock_class =
    LC_None
  | LC_RuntimeLifecycle
  | LC_ObservatoryState
  | LC_IngestQueue
  | LC_Transport
  | LC_Diagnostics

primrec lock_class_rank :: "lock_class \<Rightarrow> nat" where
  "lock_class_rank LC_None = 0"
| "lock_class_rank LC_RuntimeLifecycle = 1"
| "lock_class_rank LC_ObservatoryState = 2"
| "lock_class_rank LC_IngestQueue = 3"
| "lock_class_rank LC_Transport = 4"
| "lock_class_rank LC_Diagnostics = 5"

primrec lock_class_to_string :: "lock_class \<Rightarrow> string" where
  "lock_class_to_string LC_None = ''none''"
| "lock_class_to_string LC_RuntimeLifecycle = ''runtime-lifecycle''"
| "lock_class_to_string LC_ObservatoryState = ''observatory-state''"
| "lock_class_to_string LC_Diagnostics = ''diagnostics''"
| "lock_class_to_string LC_IngestQueue = ''ingest-queue''"
| "lock_class_to_string LC_Transport = ''transport''"

definition kMaxReports :: nat where "kMaxReports = 64"

record audit =
  au_violations :: u64
  au_reports :: "string list"
  au_names :: "nat \<Rightarrow> string"
  au_held :: "nat \<Rightarrow> lock_class list"

definition audit_new :: audit where
  "audit_new = \<lparr>au_violations = 0, au_reports = [], au_names = (\<lambda>_. ''unnamed''), au_held = (\<lambda>_. [])\<rparr>"

definition record_violation :: "string \<Rightarrow> audit \<Rightarrow> audit" where
  "record_violation report a =
     (let a1 = a\<lparr>au_violations := au_violations a + 1\<rparr>;
          sink = (if length (au_reports a1) \<ge> kMaxReports then drop 1 (au_reports a1) else au_reports a1)
      in a1\<lparr>au_reports := sink @ [report]\<rparr>)"

definition describe :: "lock_class \<Rightarrow> string" where
  "describe value = lock_class_to_string value"

definition quote_char :: char where "quote_char = CHR 0x27"

definition quoted :: "string \<Rightarrow> string" where
  "quoted s = quote_char # s @ [quote_char]"

definition push_held :: "nat \<Rightarrow> lock_class \<Rightarrow> audit \<Rightarrow> audit" where
  "push_held t c a = a\<lparr>au_held := (au_held a)(t := au_held a t @ [c])\<rparr>"

definition note_acquire :: "nat \<Rightarrow> lock_class \<Rightarrow> audit \<Rightarrow> audit" where
  "note_acquire t lock_class a =
     (if lock_class = LC_None then a
      else
        let a1 =
          (if au_held a t \<noteq> [] then
             let top = last (au_held a t) in
             if top = lock_class
             then record_violation (''reentrant acquisition of lock class '' @ quoted (describe lock_class)
                    @ '' on thread '' @ quoted (au_names a t)) a
             else if lock_class_rank lock_class < lock_class_rank top
             then record_violation (''out-of-order acquisition: lock class '' @ quoted (describe lock_class)
                    @ '' acquired while holding '' @ quoted (describe top) @ '' on thread '' @ quoted (au_names a t)) a
             else a
           else a)
        in push_held t lock_class a1)"

definition note_release :: "nat \<Rightarrow> lock_class \<Rightarrow> audit \<Rightarrow> audit" where
  "note_release t lock_class a =
     (if lock_class = LC_None then a
      else if au_held a t = []
      then record_violation (''release of lock class '' @ quoted (describe lock_class)
             @ '' with no acquisition on thread '' @ quoted (au_names a t)) a
      else
        let a1 =
          (if last (au_held a t) \<noteq> lock_class
           then record_violation (''unbalanced release of lock class '' @ quoted (describe lock_class)
                  @ '' while holding '' @ quoted (describe (last (au_held a t))) @ '' on thread ''
                  @ quoted (au_names a t)) a
           else a)
        in a1\<lparr>au_held := (au_held a1)(t := butlast (au_held a1 t))\<rparr>)"

definition set_current_thread_name :: "nat \<Rightarrow> string \<Rightarrow> audit \<Rightarrow> audit" where
  "set_current_thread_name t name a = a\<lparr>au_names := (au_names a)(t := name)\<rparr>"

definition lock_violation_count :: "audit \<Rightarrow> u64" where
  "lock_violation_count a = au_violations a"

definition lock_violation_reports :: "audit \<Rightarrow> string list" where
  "lock_violation_reports a = au_reports a"

text \<open>Only the stack of the calling thread is cleared.\<close>

definition reset_lock_tracking :: "nat \<Rightarrow> audit \<Rightarrow> audit" where
  "reset_lock_tracking t a = a\<lparr>au_violations := 0, au_reports := [], au_held := (au_held a)(t := [])\<rparr>"

definition lock_scope_enter :: "nat \<Rightarrow> lock_class \<Rightarrow> audit \<Rightarrow> audit" where
  "lock_scope_enter t lock_class a = note_acquire t lock_class a"

definition lock_scope_leave :: "nat \<Rightarrow> lock_class \<Rightarrow> audit \<Rightarrow> audit" where
  "lock_scope_leave t lock_class a = note_release t lock_class a"

section \<open>Tracked locks\<close>

text \<open>
  A machine of tracked locks: who owns each mutex, and which mutex each thread is waiting for inside
  \<^verbatim>\<open>mutex_.lock()\<close>. A wait ends when the mutex is free; only then is the acquisition noted.
\<close>

record lock_machine =
  lm_owner :: "nat \<Rightarrow> nat option"
  lm_waits :: "nat \<Rightarrow> nat option"
  lm_audit :: audit

definition machine_new :: lock_machine where
  "machine_new = \<lparr>lm_owner = (\<lambda>_. None), lm_waits = (\<lambda>_. None), lm_audit = audit_new\<rparr>"

definition lock_begin :: "nat \<Rightarrow> nat \<Rightarrow> lock_machine \<Rightarrow> lock_machine option" where
  "lock_begin t l m = (if lm_waits m t = None then Some (m\<lparr>lm_waits := (lm_waits m)(t := Some l)\<rparr>) else None)"

definition lock_granted :: "(nat \<Rightarrow> lock_class) \<Rightarrow> nat \<Rightarrow> lock_machine \<Rightarrow> lock_machine option" where
  "lock_granted class_of t m =
     (case lm_waits m t of
        None \<Rightarrow> None
      | Some l \<Rightarrow>
          if lm_owner m l = None
          then Some (m\<lparr>lm_owner := (lm_owner m)(l := Some t), lm_waits := (lm_waits m)(t := None),
                       lm_audit := note_acquire t (class_of l) (lm_audit m)\<rparr>)
          else None)"

definition tracked_try_lock :: "(nat \<Rightarrow> lock_class) \<Rightarrow> nat \<Rightarrow> nat \<Rightarrow> lock_machine \<Rightarrow> (lock_machine \<times> bool) option" where
  "tracked_try_lock class_of t l m =
     (if lm_waits m t \<noteq> None then None
      else if lm_owner m l \<noteq> None then Some (m, False)
      else Some (m\<lparr>lm_owner := (lm_owner m)(l := Some t),
                   lm_audit := note_acquire t (class_of l) (lm_audit m)\<rparr>, True))"

definition tracked_unlock :: "(nat \<Rightarrow> lock_class) \<Rightarrow> nat \<Rightarrow> nat \<Rightarrow> lock_machine \<Rightarrow> lock_machine option" where
  "tracked_unlock class_of t l m =
     (if lm_waits m t = None \<and> lm_owner m l = Some t
      then Some (m\<lparr>lm_owner := (lm_owner m)(l := None), lm_audit := note_release t (class_of l) (lm_audit m)\<rparr>)
      else None)"

datatype lock_action = LockBegin nat nat | LockGranted nat | TryLock nat nat | Unlock nat nat

primrec lock_step :: "(nat \<Rightarrow> lock_class) \<Rightarrow> lock_action \<Rightarrow> lock_machine \<Rightarrow> lock_machine option" where
  "lock_step class_of (LockBegin t l) m = lock_begin t l m"
| "lock_step class_of (LockGranted t) m = lock_granted class_of t m"
| "lock_step class_of (TryLock t l) m = map_option fst (tracked_try_lock class_of t l m)"
| "lock_step class_of (Unlock t l) m = tracked_unlock class_of t l m"

primrec lock_run :: "(nat \<Rightarrow> lock_class) \<Rightarrow> lock_action list \<Rightarrow> lock_machine \<Rightarrow> lock_machine option" where
  "lock_run class_of [] m = Some m"
| "lock_run class_of (a # as) m = Option.bind (lock_step class_of a m) (lock_run class_of as)"

section \<open>The discipline\<close>

text \<open>
  The rule of the header, on the events of all threads: a class is acquired above everything its
  thread holds, and released only as the latest acquired. \<open>disciplined\<close> reads it off the events
  with the locks each thread holds.
\<close>

datatype lock_event = Acquire nat lock_class | Release nat lock_class

primrec disciplined :: "lock_event list \<Rightarrow> (nat \<Rightarrow> lock_class list) \<Rightarrow> bool" where
  "disciplined [] held \<longleftrightarrow> True"
| "disciplined (e # es) held \<longleftrightarrow>
     (case e of
        Acquire t c \<Rightarrow>
          if c = LC_None then disciplined es held
          else list_all (\<lambda>h. lock_class_rank h < lock_class_rank c) (held t) \<and> disciplined es (held(t := c # held t))
      | Release t c \<Rightarrow>
          if c = LC_None then disciplined es held
          else (case held t of [] \<Rightarrow> False | h # hs \<Rightarrow> h = c \<and> disciplined es (held(t := hs))))"

primrec audit_event :: "lock_event \<Rightarrow> audit \<Rightarrow> audit" where
  "audit_event (Acquire t c) = note_acquire t c"
| "audit_event (Release t c) = note_release t c"

definition audit_events :: "lock_event list \<Rightarrow> audit \<Rightarrow> audit" where
  "audit_events es a = fold audit_event es a"

text \<open>How many violations an event records.\<close>

definition event_faults :: "lock_event \<Rightarrow> audit \<Rightarrow> nat" where
  "event_faults e a =
     (case e of
        Acquire t c \<Rightarrow>
          if c \<noteq> LC_None \<and> au_held a t \<noteq> [] \<and> lock_class_rank c \<le> lock_class_rank (last (au_held a t)) then 1 else 0
      | Release t c \<Rightarrow> if c \<noteq> LC_None \<and> (au_held a t = [] \<or> last (au_held a t) \<noteq> c) then 1 else 0)"

definition held_sorted :: "audit \<Rightarrow> bool" where
  "held_sorted a \<longleftrightarrow> (\<forall>t. sorted_wrt (\<lambda>h c. lock_class_rank h < lock_class_rank c) (au_held a t))"

lemma rank_inj: "lock_class_rank a = lock_class_rank b \<Longrightarrow> a = b"
  by (cases a; cases b; simp)

lemma record_violation_sel [simp]:
  "au_violations (record_violation r a) = au_violations a + 1" "au_held (record_violation r a) = au_held a"
  "au_names (record_violation r a) = au_names a"
  by (simp_all add: record_violation_def Let_def)

lemma event_counts: "au_violations (audit_event e a) = au_violations a + of_nat (event_faults e a)"
proof (cases e)
  case (Acquire t c)
  then show ?thesis
    using rank_inj [of c "last (au_held a t)"]
    by (auto simp: note_acquire_def event_faults_def push_held_def Let_def le_less)
next
  case (Release t c)
  then show ?thesis by (auto simp: note_release_def event_faults_def Let_def)
qed

lemma event_held:
  "au_held (note_acquire t c a) = (if c = LC_None then au_held a else (au_held a)(t := au_held a t @ [c]))"
  "au_held (note_release t c a) = (if c = LC_None then au_held a else (au_held a)(t := butlast (au_held a t)))"
  by (auto simp: note_acquire_def note_release_def push_held_def Let_def)

lemma last_is_top:
  assumes "sorted_wrt (\<lambda>h c. lock_class_rank h < lock_class_rank c) hs" and "hs \<noteq> []"
  shows "list_all (\<lambda>h. lock_class_rank h < n) hs \<longleftrightarrow> lock_class_rank (last hs) < n"
proof
  assume top: "lock_class_rank (last hs) < n"
  have "lock_class_rank h \<le> lock_class_rank (last hs)" if "h \<in> set hs" for h
    using assms that
  proof (induction hs)
    case (Cons x hs)
    then show ?case by (cases hs) (auto simp: less_imp_le)
  qed simp
  with top show "list_all (\<lambda>h. lock_class_rank h < n) hs" by (auto simp: list_all_iff intro: le_less_trans)
qed (use assms in \<open>simp add: list_all_iff\<close>)

lemma faultless_keeps_sorted: "held_sorted a \<Longrightarrow> event_faults e a = 0 \<Longrightarrow> held_sorted (audit_event e a)"
proof (cases e)
  case (Acquire t c)
  assume sorted: "held_sorted a" and ok: "event_faults e a = 0"
  have "\<forall>h \<in> set (au_held a t). lock_class_rank h < lock_class_rank c" if "c \<noteq> LC_None"
    using that ok Acquire last_is_top [of "au_held a t" "lock_class_rank c"] sorted
    by (cases "au_held a t = []") (auto simp: event_faults_def held_sorted_def list_all_iff split: if_splits)
  then show ?thesis using sorted unfolding Acquire by (auto simp: held_sorted_def event_held sorted_wrt_append)
next
  case (Release t c)
  assume sorted: "held_sorted a"
  have "sorted_wrt (\<lambda>h c. lock_class_rank h < lock_class_rank c) (butlast hs)"
    if "sorted_wrt (\<lambda>h c. lock_class_rank h < lock_class_rank c) hs" for hs
    using that by (simp add: butlast_conv_take sorted_wrt_take)
  then show ?thesis using sorted unfolding Release by (auto simp: held_sorted_def event_held)
qed

fun total_faults :: "lock_event list \<Rightarrow> audit \<Rightarrow> nat" where
  "total_faults [] a = 0"
| "total_faults (e # es) a = event_faults e a + total_faults es (audit_event e a)"

lemma audit_counts: "au_violations (audit_events es a) = au_violations a + of_nat (total_faults es a)"
  by (induction es arbitrary: a) (simp_all add: audit_events_def event_counts)

lemma faults_le: "total_faults es a \<le> length es"
proof (induction es arbitrary: a)
  case (Cons e es)
  have "event_faults e a \<le> 1" by (simp add: event_faults_def split: lock_event.splits)
  with Cons [of "audit_event e a"] show ?case by simp
qed simp

lemma disciplined_iff:
  "held_sorted a \<Longrightarrow> total_faults es a = 0 \<longleftrightarrow> disciplined es (\<lambda>t. rev (au_held a t))"
proof (induction es arbitrary: a)
  case (Cons e es)
  let ?rest = "disciplined es (\<lambda>u. rev (au_held (audit_event e a) u))"
  have "event_faults e a = 0 \<and> ?rest \<longleftrightarrow> disciplined (e # es) (\<lambda>t. rev (au_held a t))"
  proof (cases e)
    case (Acquire t c)
    have "c \<noteq> LC_None \<Longrightarrow> event_faults e a = 0 \<longleftrightarrow> list_all (\<lambda>h. lock_class_rank h < lock_class_rank c) (au_held a t)"
      using last_is_top [of "au_held a t" "lock_class_rank c"] Cons.prems Acquire
      by (cases "au_held a t = []") (auto simp: event_faults_def held_sorted_def)
    moreover have "c \<noteq> LC_None \<Longrightarrow> (\<lambda>u. rev (au_held (audit_event e a) u)) = (\<lambda>u. rev (au_held a u))(t := c # rev (au_held a t))"
      unfolding Acquire by (auto simp: event_held)
    moreover have "c = LC_None \<Longrightarrow> audit_event e a = a \<and> event_faults e a = 0"
      by (simp add: Acquire note_acquire_def event_faults_def)
    ultimately show ?thesis by (cases "c = LC_None") (simp_all add: Acquire)
  next
    case (Release t c)
    have "c \<noteq> LC_None \<Longrightarrow> (\<lambda>u. rev (au_held (audit_event e a) u)) = (\<lambda>u. rev (au_held a u))(t := rev (butlast (au_held a t)))"
      unfolding Release by (auto simp: event_held)
    moreover have "c = LC_None \<Longrightarrow> audit_event e a = a \<and> event_faults e a = 0"
      by (simp add: Release note_release_def event_faults_def)
    moreover have "c \<noteq> LC_None \<Longrightarrow> event_faults e a = 0 \<longleftrightarrow> au_held a t \<noteq> [] \<and> last (au_held a t) = c"
      by (auto simp: Release event_faults_def)
    ultimately show ?thesis
      by (cases "au_held a t" rule: rev_cases; cases "c = LC_None") (simp_all add: Release)
  qed
  moreover have "event_faults e a = 0 \<Longrightarrow> total_faults es (audit_event e a) = 0 \<longleftrightarrow> ?rest"
    using Cons.IH faultless_keeps_sorted [OF Cons.prems] by blast
  moreover have "total_faults (e # es) a = 0 \<longleftrightarrow> event_faults e a = 0 \<and> total_faults es (audit_event e a) = 0" by simp
  ultimately show ?case by metis
qed simp

lemma audit_new_sorted: "held_sorted audit_new" "au_held audit_new t = []" "au_violations audit_new = 0"
  by (simp_all add: held_sorted_def audit_new_def)

lemma count_zero_iff:
  assumes "au_violations a = 0" and "length es < 2 ^ 64"
  shows "au_violations (audit_events es a) = 0 \<longleftrightarrow> total_faults es a = 0"
proof -
  have "unat (of_nat (total_faults es a) :: u64) = total_faults es a"
    using faults_le [of es a] assms(2) by (simp add: unat_of_nat)
  then show ?thesis using assms(1) by (auto simp: audit_counts)
qed

section \<open>Deadlocks\<close>

definition deadlocked :: "lock_machine \<Rightarrow> nat set \<Rightarrow> bool" where
  "deadlocked m ts \<longleftrightarrow>
     finite ts \<and> ts \<noteq> {} \<and> (\<forall>t \<in> ts. \<exists>l u. lm_waits m t = Some l \<and> lm_owner m l = Some u \<and> u \<in> ts)"

text \<open>Every thread inside \<^verbatim>\<open>lock()\<close> asks for a class above all it holds.\<close>

definition orderly_waits :: "(nat \<Rightarrow> lock_class) \<Rightarrow> lock_machine \<Rightarrow> bool" where
  "orderly_waits class_of m \<longleftrightarrow>
     (\<forall>t l. lm_waits m t = Some l \<longrightarrow>
        list_all (\<lambda>h. lock_class_rank h < lock_class_rank (class_of l)) (au_held (lm_audit m) t))"

text \<open>The event an enabled action hands to the audit.\<close>

fun action_events :: "(nat \<Rightarrow> lock_class) \<Rightarrow> lock_action \<Rightarrow> lock_machine \<Rightarrow> lock_event list" where
  "action_events class_of (LockBegin t l) m = []"
| "action_events class_of (LockGranted t) m = (case lm_waits m t of Some l \<Rightarrow> [Acquire t (class_of l)] | None \<Rightarrow> [])"
| "action_events class_of (TryLock t l) m = (if lm_owner m l = None then [Acquire t (class_of l)] else [])"
| "action_events class_of (Unlock t l) m = [Release t (class_of l)]"

definition owned_are_held :: "(nat \<Rightarrow> lock_class) \<Rightarrow> lock_machine \<Rightarrow> bool" where
  "owned_are_held class_of m \<longleftrightarrow>
     (\<forall>l t. lm_owner m l = Some t \<and> class_of l \<noteq> LC_None \<longrightarrow> class_of l \<in> set (au_held (lm_audit m) t))
     \<and> (\<forall>l l' t. lm_owner m l = Some t \<and> lm_owner m l' = Some t \<and> class_of l = class_of l' \<and> class_of l \<noteq> LC_None
          \<longrightarrow> l = l')"

lemma step_audit: "lock_step class_of x m = Some m' \<Longrightarrow> lm_audit m' = audit_events (action_events class_of x m) (lm_audit m)"
  by (cases x) (auto simp: audit_events_def lock_begin_def lock_granted_def tracked_try_lock_def tracked_unlock_def
      split: if_splits option.splits)

lemma acquired_keeps:
  assumes inv: "owned_are_held class_of m" and sorted: "held_sorted (lm_audit m)" and free: "lm_owner m l = None"
    and ok: "event_faults (Acquire t (class_of l)) (lm_audit m) = 0"
    and owner: "lm_owner m' = (lm_owner m)(l := Some t)"
    and audit: "lm_audit m' = note_acquire t (class_of l) (lm_audit m)"
  shows "owned_are_held class_of m'"
proof -
  have new: "class_of l \<notin> set (au_held (lm_audit m) t)" if "class_of l \<noteq> LC_None"
  proof (cases "au_held (lm_audit m) t = []")
    case False
    with that ok sorted last_is_top [of "au_held (lm_audit m) t" "lock_class_rank (class_of l)"]
    have "list_all (\<lambda>h. lock_class_rank h < lock_class_rank (class_of l)) (au_held (lm_audit m) t)"
      by (auto simp: event_faults_def held_sorted_def split: if_splits)
    then show ?thesis by (auto simp: list_all_iff)
  qed simp
  show ?thesis
    using inv new unfolding owned_are_held_def owner audit event_held
    by (auto split: if_splits) (metis+)
qed

lemma released_keeps:
  assumes inv: "owned_are_held class_of m" and sorted: "held_sorted (lm_audit m)" and own: "lm_owner m l = Some t"
    and ok: "event_faults (Release t (class_of l)) (lm_audit m) = 0"
    and owner: "lm_owner m' = (lm_owner m)(l := None)"
    and audit: "lm_audit m' = note_release t (class_of l) (lm_audit m)"
  shows "owned_are_held class_of m'"
proof -
  have "class_of k \<in> set (butlast (au_held (lm_audit m) t))"
    if k: "lm_owner m k = Some t" "k \<noteq> l" "class_of k \<noteq> LC_None" and l: "class_of l \<noteq> LC_None" for k
  proof -
    have held: "class_of k \<in> set (au_held (lm_audit m) t)" and other: "class_of k \<noteq> class_of l"
      using inv k own by (auto simp: owned_are_held_def)
    have "au_held (lm_audit m) t \<noteq> []" and "last (au_held (lm_audit m) t) = class_of l"
      using ok l by (auto simp: event_faults_def split: if_splits)
    then have "set (au_held (lm_audit m) t) = insert (class_of l) (set (butlast (au_held (lm_audit m) t)))"
      by (metis append_butlast_last_id list.simps(15) rotate1.simps(2) set_rotate1)
    with held other show ?thesis by simp
  qed
  then show ?thesis
    using inv own unfolding owned_are_held_def owner audit event_held by (auto split: if_splits)
qed

lemma step_keeps:
  assumes "lock_step class_of x m = Some m'" and "owned_are_held class_of m" and "held_sorted (lm_audit m)"
    and "total_faults (action_events class_of x m) (lm_audit m) = 0"
  shows "owned_are_held class_of m'"
proof (cases x)
  case (LockBegin t l)
  with assms(1,2) show ?thesis by (auto simp: lock_begin_def owned_are_held_def split: if_splits)
next
  case (LockGranted t)
  with assms show ?thesis
    by (auto simp: lock_granted_def split: option.splits if_splits intro!: acquired_keeps [where m = m and t = t])
next
  case (TryLock t l)
  with assms show ?thesis
    by (auto simp: tracked_try_lock_def split: if_splits intro!: acquired_keeps [where m = m and t = t and l = l])
next
  case (Unlock t l)
  with assms show ?thesis
    by (auto simp: tracked_unlock_def split: if_splits intro!: released_keeps [where m = m and t = t and l = l])
qed

lemma no_deadlock:
  assumes held: "owned_are_held class_of m" and waits: "orderly_waits class_of m"
    and tracked: "\<forall>l. class_of l \<noteq> LC_None"
  shows "\<not> deadlocked m ts"
proof
  assume dead: "deadlocked m ts"
  define wanted where "wanted t = lock_class_rank (class_of (the (lm_waits m t)))" for t
  have above: "\<exists>u \<in> ts. wanted t < wanted u" if "t \<in> ts" for t
  proof -
    from dead that obtain l u where l: "lm_waits m t = Some l" "lm_owner m l = Some u" "u \<in> ts"
      unfolding deadlocked_def by blast
    from dead l(3) obtain k where k: "lm_waits m u = Some k" unfolding deadlocked_def by blast
    have "class_of l \<in> set (au_held (lm_audit m) u)" using held tracked l(2) by (auto simp: owned_are_held_def)
    with waits k have "lock_class_rank (class_of l) < lock_class_rank (class_of k)"
      by (auto simp: orderly_waits_def list_all_iff)
    then show ?thesis using l k by (auto simp: wanted_def intro!: bexI [of _ u])
  qed
  have "finite ts" "ts \<noteq> {}" using dead by (auto simp: deadlocked_def)
  moreover from this have "Max (wanted ` ts) \<in> wanted ` ts" by (intro Max_in) simp_all
  ultimately obtain t where t: "t \<in> ts" "wanted t = Max (wanted ` ts)" "finite ts" by (metis imageE)
  from above [OF t(1)] obtain u where "u \<in> ts" "wanted t < wanted u" by auto
  moreover have "wanted u \<le> Max (wanted ` ts)" using t(3) \<open>u \<in> ts\<close> by simp
  ultimately show False using t(2) by simp
qed

text \<open>The events of a run.\<close>

fun run_events :: "(nat \<Rightarrow> lock_class) \<Rightarrow> lock_action list \<Rightarrow> lock_machine \<Rightarrow> lock_event list" where
  "run_events class_of [] m = []"
| "run_events class_of (x # xs) m =
     action_events class_of x m @ (case lock_step class_of x m of Some m' \<Rightarrow> run_events class_of xs m' | None \<Rightarrow> [])"

lemma action_events_le: "length (action_events class_of x m) \<le> 1"
  by (cases x) (auto split: option.splits)

lemma run_events_le: "length (run_events class_of xs m) \<le> length xs"
proof (induction xs arbitrary: m)
  case (Cons x xs)
  show ?case using Cons action_events_le [of class_of x m] by (auto split: option.splits intro: le_trans add_mono)
qed simp

lemma faults_append: "total_faults (es @ fs) a = total_faults es a + total_faults fs (audit_events es a)"
  by (induction es arbitrary: a) (simp_all add: audit_events_def)

lemma faultless_events_sorted: "held_sorted a \<Longrightarrow> total_faults es a = 0 \<Longrightarrow> held_sorted (audit_events es a)"
  by (induction es arbitrary: a) (simp_all add: audit_events_def faultless_keeps_sorted)

lemma audit_events_append: "audit_events (es @ fs) a = audit_events fs (audit_events es a)"
  by (simp add: audit_events_def)

lemma run_audit: "lock_run class_of xs m = Some m' \<Longrightarrow> lm_audit m' = audit_events (run_events class_of xs m) (lm_audit m)"
proof (induction xs arbitrary: m)
  case (Cons x xs)
  then obtain m1 where m1: "lock_step class_of x m = Some m1" "lock_run class_of xs m1 = Some m'"
    by (auto simp: bind_eq_Some_conv)
  show ?case using Cons.IH [OF m1(2)] m1(1) step_audit [OF m1(1)] by (simp add: audit_events_append)
qed (simp add: audit_events_def)

lemma run_keeps:
  "lock_run class_of xs m = Some m' \<Longrightarrow> owned_are_held class_of m \<Longrightarrow> held_sorted (lm_audit m) \<Longrightarrow>
   total_faults (run_events class_of xs m) (lm_audit m) = 0 \<Longrightarrow> owned_are_held class_of m'"
proof (induction xs arbitrary: m)
  case (Cons x xs)
  then obtain m1 where m1: "lock_step class_of x m = Some m1" "lock_run class_of xs m1 = Some m'"
    by (auto simp: bind_eq_Some_conv)
  have audit: "lm_audit m1 = audit_events (action_events class_of x m) (lm_audit m)" by (rule step_audit [OF m1(1)])
  have ok: "total_faults (action_events class_of x m) (lm_audit m) = 0" "total_faults (run_events class_of xs m1) (lm_audit m1) = 0"
    using Cons.prems(4) m1(1) audit by (simp_all add: faults_append)
  show ?case
    using Cons.IH [OF m1(2) step_keeps [OF m1(1) Cons.prems(2,3) ok(1)] _ ok(2)]
      faultless_events_sorted [OF Cons.prems(3) ok(1)] audit by simp
qed simp

lemma machine_new_ok: "owned_are_held class_of machine_new" "lm_audit machine_new = audit_new"
  by (simp_all add: owned_are_held_def machine_new_def)

section \<open>Properties\<close>

text \<open>
  C29: The audit is exact. After any events of any threads the violation count is zero if and only if
  every thread acquired each class strictly above all the classes it held and released only the class
  it acquired last, although the code compares a new class with the last one only.
\<close>

theorem audit_is_exact:
  assumes "length events < 2 ^ 64"
  shows "lock_violation_count (audit_events events audit_new) = 0 \<longleftrightarrow> disciplined events (\<lambda>t. [])"
  using count_zero_iff [OF audit_new_sorted(3) assms] disciplined_iff [OF audit_new_sorted(1), of events]
  by (simp add: lock_violation_count_def audit_new_sorted)

theorem audit_is_exact_witness:
  "lock_violation_count (audit_events [Acquire 0 LC_IngestQueue, Acquire 1 LC_Transport, Acquire 0 LC_Transport,
     Acquire 0 LC_ObservatoryState] audit_new) \<noteq> 0"
  by (subst audit_is_exact) simp_all

text \<open>
  C30: Whatever the interleaving of lock, try-lock and unlock calls, while the audit has counted
  nothing and every thread that is waiting asks for a class above those it holds, no set of threads
  waits in a circle.
\<close>

theorem orderly_threads_never_deadlock:
  assumes "lock_run class_of actions machine_new = Some m" and "length actions < 2 ^ 64"
    and "lock_violation_count (lm_audit m) = 0" and "orderly_waits class_of m" and "\<forall>l. class_of l \<noteq> LC_None"
  shows "\<not> deadlocked m threads"
proof -
  let ?es = "run_events class_of actions machine_new"
  have "length ?es < 2 ^ 64" using run_events_le [of class_of actions machine_new] assms(2) by linarith
  from count_zero_iff [OF audit_new_sorted(3) this] run_audit [OF assms(1)] assms(3)
  have "total_faults ?es audit_new = 0" by (simp add: lock_violation_count_def machine_new_ok)
  with run_keeps [OF assms(1) machine_new_ok(1)] have "owned_are_held class_of m"
    by (simp add: machine_new_ok audit_new_sorted)
  from no_deadlock [OF this assms(4,5)] show ?thesis .
qed

definition two_locks :: "nat \<Rightarrow> lock_class" where
  "two_locks l = (if l = 0 then LC_ObservatoryState else LC_IngestQueue)"

definition orderly_actions :: "lock_action list" where
  "orderly_actions = [LockBegin 0 0, LockGranted 0, LockBegin 1 0, LockBegin 0 1]"

theorem orderly_threads_never_deadlock_witness:
  "\<exists>m. lock_run two_locks orderly_actions machine_new = Some m \<and> \<not> deadlocked m {0, 1}"
proof -
  define m where "m = the (lock_run two_locks orderly_actions machine_new)"
  have run: "lock_run two_locks orderly_actions machine_new = Some m"
    by (simp add: m_def orderly_actions_def lock_begin_def lock_granted_def machine_new_def)
  have "lock_violation_count (lm_audit m) = 0" and "orderly_waits two_locks m"
    by (auto simp: m_def orderly_actions_def lock_begin_def lock_granted_def machine_new_def two_locks_def
        note_acquire_def push_held_def audit_new_def lock_violation_count_def orderly_waits_def)
  from orderly_threads_never_deadlock [OF run _ this] run show ?thesis
    by (auto simp: orderly_actions_def two_locks_def)
qed

text \<open>
  A deadlock itself goes unreported: an acquisition is noted only once the mutex has been
  obtained, so two threads that wait for each other's lock have a violation count of zero.
\<close>

lemma deadlock_goes_unreported:
  "\<exists>m. lock_run two_locks [LockBegin 0 0, LockGranted 0, LockBegin 1 1, LockGranted 1, LockBegin 0 1, LockBegin 1 0]
         machine_new = Some m
     \<and> deadlocked m {0, 1} \<and> lock_violation_count (lm_audit m) = 0"
  by (simp add: deadlocked_def lock_begin_def lock_granted_def machine_new_def two_locks_def note_acquire_def
      push_held_def audit_new_def lock_violation_count_def)

end
