(* ===== verification/Spec2Isabelle.thy ===== *)
theory Spec2Isabelle
  imports Command_Results Tool_Commands Lock_Tracker
begin

text \<open>
  \<^bold>\<open>Link Observatory, a verification development.\<close>

  The program receives declarations of evidence sources and links, and observations of links, from
  several sources that may be restarted, replayed, stale or contradictory. It keeps bounded
  evidence per link and metric, decides which evidence is current, and classifies each link. This
  development models the parts of the C++ sources under \<^verbatim>\<open>src/\<close> and \<^verbatim>\<open>include/linkobs/\<close> that carry this
  logic, as executable HOL functions, and proves the properties that make them correct.

  \<^bold>\<open>Parts, in the order the theories build on each other.\<close>

  \<^item> \<open>Prelude\<close>: the model's integer types, ordered maps (\<^verbatim>\<open>std::map\<close>) as sorted association lists
    with the interface \<open>keyed_store\<close>, and bounded lists that evict from the front.
  \<^item> \<open>Checked\<close>: checked 64-bit and 128-bit arithmetic (\<^verbatim>\<open>core/checked.hpp\<close>). Machine integers are
    words; the shift-and-subtract division loops are recursions over the bit count. Shown: products
    and quotients are exact, and the division gives up for divisors above \<open>2 ^ 63\<close>.
  \<^item> \<open>Status\<close>: status codes and results (\<^verbatim>\<open>core/status\<close>).
  \<^item> \<open>Clock\<close>: instants and durations as signed 64-bit nanoseconds (\<^verbatim>\<open>time/clock\<close>); overflow is
    an absent value.
  \<^item> \<open>Enums\<close>: the enumerations of the domain and runtime with their names and parsers
    (\<^verbatim>\<open>domain/enums\<close>). Shown: every enumerator that travels as text is read back from its name.
  \<^item> \<open>Identity\<close>: the 128-bit hash, its builder, hexadecimal text and typed identifiers
    (\<^verbatim>\<open>core/hash128\<close>, \<^verbatim>\<open>core/hex\<close>, \<^verbatim>\<open>core/strong_id.hpp\<close>). Shown: identifiers
    read back, the hash state is injective, and the digest is not the published FNV-1a.
  \<^item> \<open>Text_Format\<close>: decimal and hexadecimal numbers, the field builder and the small text helpers
    (\<^verbatim>\<open>core/text\<close>). Shown: printing and parsing are inverse, and parsing accepts nothing else.
  \<^item> \<open>Policy\<close>, \<open>Metric\<close>, \<open>Observation\<close>: limits, thresholds and freshness windows
    (\<^verbatim>\<open>domain/policy\<close>); metric keys and payloads (\<^verbatim>\<open>domain/metric\<close>); observations, evidence, links,
    ages, freshness and confidence (\<^verbatim>\<open>domain/observation\<close>, \<^verbatim>\<open>domain/evidence\<close>, \<^verbatim>\<open>domain/link\<close>).
    Shown: what validation of a policy guarantees, the text of metric keys, that freshness is
    decided by the larger of the two ages and only decays.
  \<^item> \<open>Record_Grammar\<close>, \<open>Record_Round_Trip\<close>: the record structures, the line parser with its field
    reader and the canonical rendering (\<^verbatim>\<open>ingest/record\<close>). Shown: a canonical line is read back, and
    an accepted line has no unknown field and yields an admissible record.
  \<^item> \<open>Batch_Codec\<close>: parsing a text of lines (\<^verbatim>\<open>ingest/codec\<close>). Shown: every line is accounted for,
    and a batch of canonical lines is read back.
  \<^item> \<open>Bounded_Queue\<close>, \<open>Worker_Pool\<close>: the ingest queue (\<^verbatim>\<open>ingest/queue\<close>) and the worker pool
    (\<^verbatim>\<open>runtime/worker\<close>) as machines whose actions are the atomic sections of the threads; waiting on a
    lock or a condition variable is an action that is not enabled. The interface \<open>fifo_buffer\<close> is
    interpreted on the blocking and on the polling operations. Shown for every interleaving: first
    in first out, bounds and accounts; each worker handles its batches in order and once; stopping
    ends, by a weight every internal action lowers, with all accepted work done; and a closed pool
    stays closed.
  \<^item> \<open>Counter_Tracker\<close>: counter continuity, deltas and utilization (\<^verbatim>\<open>store/counter_tracker\<close>).
    Shown: exactness and completeness against rational reference values.
  \<^item> \<open>Supersession\<close>, \<open>Restore\<close>: the two interfaces the stores share, as locales. A state with a
    value in force and bounded superseded values refuses the superseded ones; a keyed state whose
    entries can be restored one by one is rebuilt from its own persisted entries. The registry
    interprets the first on link generations, the evidence store on revision scopes; both interpret
    the second.
  \<^item> \<open>Link_Registry\<close>, \<open>Transition_Log\<close>, \<open>Evidence_Store\<close>: the three stores
    (\<^verbatim>\<open>store/link_registry\<close>, \<^verbatim>\<open>store/history\<close>, \<^verbatim>\<open>store/evidence_store\<close>). Each is a record of the
    class's fields; each operation returns the new record with its result. Shown: their invariants
    under every sequence of operations, that superseded generations and accepted revisions never
    come back within the remembered window, that a refused record changes no evidence, that the
    contenders are the newest evidence of each source, that the log is the tail of what was
    recorded.
  \<^item> \<open>Classifier\<close>: the whole of \<^verbatim>\<open>classify/classifier.cpp\<close>. Shown: down and healthy rest on current
    evidence, aged evidence makes no claim, the winner does not depend on the order of contenders,
    conflicts between readings are reported exactly, and the published rules explain the state.
  \<^item> \<open>Observatory\<close>: \<^verbatim>\<open>runtime/observatory.cpp\<close> with the configuration.
    It applies records to the three stores under one lock, so a run is a sequence of steps; the
    inductive predicate \<open>reachable\<close> holds of the states after any such sequence.
  \<^item> \<open>Sha256\<close>, \<open>Snapshot_Codec\<close>, \<open>Snapshot_File\<close>, \<open>Persistence\<close>: SHA-256 (\<^verbatim>\<open>core/sha256\<close>), the binary
    codec (\<^verbatim>\<open>persist/codec\<close>), the snapshot file (\<^verbatim>\<open>persist/snapshot\<close>) and \<^verbatim>\<open>persist\<close> and \<^verbatim>\<open>reload\<close> of the
    observatory. The interface \<open>codec\<close> of an encoder with its decoder is interpreted on every pair of the
    codec. A file system is a map from paths to bytes, the faults of the operating system are arguments,
    and the writer yields every state the file system goes through. Shown: the hasher agrees with the
    padded-message definition however the input is cut; what is written is read back; only intact and
    bounded files are accepted; a crash while saving leaves the old or the new snapshot readable; what a
    reachable observatory saves always fits the format.
  \<^item> \<open>Restart\<close>: what saving, ending and reloading does to later records. Shown: over any number of restarts
    between batches the registry and the evidence are those of an observatory that was never restarted.
  \<^item> \<open>Lock_Tracker\<close>: the lock order audit (\<^verbatim>\<open>core/lock_tracker\<close>), in the build that tracks. Events of
    the threads are actions of a machine with the mutexes. Shown: the audit counts a violation exactly
    when some thread acquires against the order of the classes; while it has none to count and every
    request respects the order, some thread can always go on; and a deadlock itself is not reported.
  \<^item> \<open>Runtime\<close>, \<open>Runtime_Results\<close>: \<^verbatim>\<open>start\<close>, \<^verbatim>\<open>stop\<close>, \<^verbatim>\<open>submit_batch\<close>, \<^verbatim>\<open>submit_observation\<close> and the worker
    handler of \<^verbatim>\<open>runtime/observatory.cpp\<close> on top of the worker pool: callers and workers are threads whose
    atomic sections interleave freely, each batch is split by source, and a shared counter fires the
    completion. Shown for every interleaving: the components stay sound, the observations of a source are
    applied in the order they were accepted, a completion fires at most once and only when every record of
    its call has been applied, and it has fired once the pool has drained.
  \<^item> \<open>Explain\<close>: the explanation and summary texts, and the lines of a transition, a slot, an evidence and a link
    (\<^verbatim>\<open>classify/explain\<close>, \<^verbatim>\<open>store/history\<close>, \<^verbatim>\<open>store/evidence_store\<close>, \<^verbatim>\<open>domain\<close>). Shown: a summary and the
    line of an evidence determine their fields.
  \<^item> \<open>Frame\<close>, \<open>Socket\<close>, \<open>Server\<close>, \<open>Client\<close>: the transport (\<^verbatim>\<open>transport/frame\<close>, \<^verbatim>\<open>transport/socket\<close>,
    \<^verbatim>\<open>transport/server\<close>, \<^verbatim>\<open>transport/client\<close>). What the kernel does at a \<^verbatim>\<open>send\<close>, \<^verbatim>\<open>recv\<close>, \<^verbatim>\<open>accept\<close> or
    \<^verbatim>\<open>getaddrinfo\<close> is an argument; a connection is a fold over the chunks it receives; the accept loop is a
    machine whose actions are its system calls and the ends of connections. Shown: frames round trip and
    only canonical bytes decode; sending ends after a prefix; the answers do not depend on how the network
    cuts the stream, and are the answers to the frames of the stream in order; the accept loop keeps its
    bounds; and a client call gets the server's answer to its request, end to end.
  \<^item> \<open>Command_Line\<close>, \<open>Commands\<close>, \<open>Tool_Commands\<close>: the program \<^verbatim>\<open>apps/linkobs\<close>. Options, exit codes and the
    context of a command; \<^verbatim>\<open>ingest\<close>, the reports, \<^verbatim>\<open>verify\<close>, \<^verbatim>\<open>serve\<close>, \<^verbatim>\<open>send\<close>, the self test and the batches of
    the benchmark. A command is a function from the files, the input, the clock and the faults of the
    operating system to its output, exit code and files. Shown: options written as assignments are read
    back, and an address a server prints is one \<^verbatim>\<open>send\<close> understands.
  \<^item> \<open>Command_Results\<close>: what commands do together. Shown: after any number of successful \<^verbatim>\<open>ingest\<close> processes an
    export prints the evidence of one observatory that was given all the records; report commands return and
    change no file; \<^verbatim>\<open>verify\<close> tells an intact database from one recovered from its backup.
  \<^item> This theory: the properties that span the stores. Every sequentially reachable state is sound, and
    saving and restoring a snapshot preserves the registry, the evidence and every answer
    computed from them.

  \<^bold>\<open>Conventions.\<close> A class is a record, an enumeration a datatype, \<^verbatim>\<open>std::uint64_t\<close> a 64-bit word,
  \<^verbatim>\<open>std::int64_t\<close> an integer with its range checked where the code checks it, \<^verbatim>\<open>std::map\<close> a sorted
  association list, \<^verbatim>\<open>std::deque\<close> and \<^verbatim>\<open>std::vector\<close> a list, a pointer that may be null an option. The
  clock is an argument of the operations that read it. Every function is total, so no fuel is
  needed: most loops of the sources are bounded by a container or by the bit width, and the sending
  loop and the frame loop, which are not, are shown to end by the bytes that remain.

  \<^bold>\<open>Not modelled.\<close> What the benchmark measures after it has its batches, and printing floating point
  rates. Reading the system clock, opening and closing socket handles, the atomic counters' memory orders and the
  build without lock tracking. The constants of \<^verbatim>\<open>version.hpp\<close> are generated by the build and are
  arguments of the operations that use them. \<^verbatim>\<open>Observatory::start\<close> is one action: no other thread uses
  the object before it returns. What happens between listening and the end of a \<^verbatim>\<open>serve\<close> command is the machine of
  \<open>Server\<close> and \<open>Runtime\<close>, and an argument of the command.
\<close>

section \<open>Properties\<close>

text \<open>
  In every state an observatory reaches from its construction through declarations and
  batches, all components are well formed under the configured policy, every stream belongs to a
  registered source and every slot to a registered link, and the statistics account for every
  submitted observation: each one was either accepted into the store or fenced, by the store or by
  the observatory itself, and was counted once.
\<close>

lemma every_reachable_state_is_sound:
  assumes "reachable c ob"
  shows "observatory_wf ob
    \<and> rs_records_submitted (ob_stats ob) = rs_records_accepted (ob_stats ob) + rs_records_fenced (ob_stats ob)
    \<and> rs_records_accepted (ob_stats ob) = es_total_accepted (ob_store ob)
    \<and> rs_records_fenced (ob_stats ob) = es_total_fenced (ob_store ob) + own_fence_total ob"
  using reachable_sound [OF assms] by (simp add: sound_def balanced_def)

text \<open>A configuration with small bounds.\<close>

definition example_config :: runtime_config where
  "example_config =
     \<lparr>cfg_snapshot_path = [], cfg_restore_on_start = False, cfg_persist_on_stop = False, cfg_workers = 1,
      cfg_queue_depth = 16, cfg_runtime_name = ''runtime'', cfg_incarnation_name = ''boot'',
      cfg_families = 255, cfg_policy = small_policy\<rparr>"

text \<open>
  Saving and restoring gives the state back. Restoring the snapshot of any reachable
  observatory into another one with the same policy succeeds, and the registry and the
  evidence store are the saved ones, with all totals; only the per-reason fence counters, which
  a snapshot does not hold, start from zero.
\<close>

lemma snapshot_round_trip:
  assumes "reachable c ob" and "cfg_policy (ob_config ob0) = cfg_policy (ob_config ob)"
    and "restored = restore_from ob0 (collect_snapshot version ob saved_at)"
  shows "snd restored = status_success
    \<and> ob_config (fst restored) = ob_config ob0
    \<and> ob_registry (fst restored) = ob_registry ob
    \<and> ob_store (fst restored) = (ob_store ob)\<lparr>es_fence_counts := []\<rparr>"
proof -
  have "observatory_wf ob" using reachable_sound [OF assms(1)] by (simp add: sound_def)
  from restore_round_trip_eq [OF this assms(2) refl, of version saved_at] show ?thesis by (simp add: assms(3))
qed

text \<open>
  A restart is invisible to queries about evidence. After a restore every query for the
  contenders, the slot views and the evidence of a link answers as the saved observatory would at
  the same instant, and every report the classification is built from is the same.
\<close>

lemma restart_preserves_answers:
  assumes "reachable c ob" and "cfg_policy (ob_config ob0) = cfg_policy (ob_config ob)"
    and "ob' = fst (restore_from ob0 (collect_snapshot version ob saved_at))"
  shows "evidence_for ob' link key now = evidence_for ob link key now
    \<and> slot_views ob' link now = slot_views ob link now
    \<and> link_evidence ob' link limit now = link_evidence ob link limit now
    \<and> key_results (classification_input_for ob' link now) (cfg_policy (ob_config ob')) (ob_store ob')
      = key_results (classification_input_for ob link now) (cfg_policy (ob_config ob)) (ob_store ob)"
proof -
  have wf: "observatory_wf ob" using reachable_sound [OF assms(1)] by (simp add: sound_def)
  note eq = restore_round_trip_eq(2-4) [OF wf assms(2) refl, of version saved_at, folded assms(3)]
  have ctx: "link_context ob' = link_context ob" by (simp add: link_context_def eq fun_eq_iff)
  have input: "input_facts (classification_input_for ob' link now) = input_facts (classification_input_for ob link now)"
    "evaluation_context_of (classification_input_for ob' link now)
       = evaluation_context_of (classification_input_for ob link now)"
    "ci_link (classification_input_for ob' link now) = ci_link (classification_input_for ob link now)"
    by (simp_all add: classification_input_for_def input_facts_def evaluation_context_of_def eq assms(2))
  show ?thesis
    by (simp add: evidence_for_def slot_views_def link_evidence_def ctx key_results_def input eq assms(2))
qed

text \<open>
  A snapshot keeps fewer transitions than the log. \<^verbatim>\<open>collect_snapshot\<close> asks for the whole log,
  but the query is capped by the row limit of the policy, so of a log that holds more events only
  the newest \<open>max_result_rows\<close> are saved and the older ones are lost on restart.
\<close>

lemma snapshot_truncates_transitions:
  assumes "observatory_wf ob"
    and "unat (max_result_rows (pol_limits (cfg_policy (ob_config ob)))) < length (tl_global (ob_log ob))"
  shows "sn_transitions (collect_snapshot version ob now) =
      newest (unat (max_result_rows (pol_limits (cfg_policy (ob_config ob))))) (tl_global (ob_log ob))
    \<and> length (sn_transitions (collect_snapshot version ob now)) < length (tl_global (ob_log ob))"
proof -
  let ?l = "pol_limits (cfg_policy (ob_config ob))"
  have lim: "tl_limits (ob_log ob) = ?l" and "length (tl_global (ob_log ob)) \<le> unat (max_total_transitions ?l)"
    using assms(1) by (auto simp: observatory_wf_def log_wf_def)
  then have "result_bound (ob_log ob) (max_total_transitions ?l) = unat (max_result_rows ?l)"
    using assms(2) by (simp add: result_bound_def less_u64_iff)
  then show ?thesis using assms(2) by (simp add: collect_snapshot_def recent_newest)
qed

text \<open>An observatory whose policy returns one row, with two events in its log.\<close>

definition two_event_observatory :: observatory where
  "two_event_observatory =
     (let l = default_limits\<lparr>max_result_rows := 1\<rparr>;
          c = example_config\<lparr>cfg_policy := make_default_policy\<lparr>pol_limits := l\<rparr>\<rparr>
      in (new_observatory c)\<lparr>ob_log := record_all (empty_log l) [example_event 10, example_event 20]\<rparr>)"

lemma two_event_observatory_wf: "observatory_wf two_event_observatory"
  using observatory_wf_new [of "example_config\<lparr>cfg_policy := make_default_policy\<lparr>pol_limits := default_limits\<lparr>max_result_rows := 1\<rparr>\<rparr>\<rparr>"]
  by (simp add: two_event_observatory_def observatory_wf_def record_all_def log_wf_record new_observatory_def Let_def)

lemma snapshot_truncates_transitions_instance:
  "length (sn_transitions (collect_snapshot 1 two_event_observatory 30)) < length (tl_global (ob_log two_event_observatory))"
proof -
  have "unat (max_result_rows (pol_limits (cfg_policy (ob_config two_event_observatory))))
      < length (tl_global (ob_log two_event_observatory))"
    by (simp add: two_event_observatory_def Let_def record_all_global)
      (simp add: new_observatory_def example_config_def default_limits_def)
  from snapshot_truncates_transitions [OF two_event_observatory_wf this] show ?thesis by blast
qed

end
